(* ===== verification/Prelude.thy ===== *)
theory Prelude
  imports Main "HOL-Library.Word"
begin

section \<open>Shared types, Go arithmetic and list lemmas\<close>

text \<open>
  What every component of the development shares: bytes, Go's 64-bit signed arithmetic
  (wrap-around and truncating division), the error values of the program with
  \<^verbatim>\<open>errors.Is\<close>, the few functions of Go's \<^verbatim>\<open>strings\<close> package the sources call,
  little-endian values of byte lists, and generic lemmas on slices of lists.

  Conventions used by all theories:
  \<^item> a Go call that returns normally is \<open>Some\<close>; \<open>None\<close> stands for a call that does not
    return: it panics (index out of range, nil dereference), or loops or blocks for ever.
    A theorem that a call is \<open>Some\<close> therefore also shows the absence of panics;
  \<^item> a Go \<^verbatim>\<open>(value, error)\<close> pair is \<open>go_error + value\<close> where the value is meaningless in
    the error case, and a pair with \<open>go_error option\<close> where both components count;
  \<^item> \<^verbatim>\<open>int64\<close> values are \<open>int\<close> with \<open>i64\<close> around the operations where overflow matters.
\<close>

type_synonym byte = "8 word"
type_synonym bytes = "8 word list"

named_theorems go_arith \<open>Go integer operations in their ordinary range\<close>

subsection \<open>64-bit signed integers\<close>

definition i64 :: "int \<Rightarrow> int" where
  "i64 x = (x + 2 ^ 63) mod 2 ^ 64 - 2 ^ 63"

definition int64_range :: "int \<Rightarrow> bool" where
  "int64_range x \<longleftrightarrow> - (2 ^ 63) \<le> x \<and> x < 2 ^ 63"

text \<open>Go's \<^verbatim>\<open>/\<close> and \<^verbatim>\<open>%\<close> truncate towards zero.\<close>

definition go_div :: "int \<Rightarrow> int \<Rightarrow> int" where
  "go_div a b = sgn a * sgn b * (\<bar>a\<bar> div \<bar>b\<bar>)"

definition go_mod :: "int \<Rightarrow> int \<Rightarrow> int" where
  "go_mod a b = a - go_div a b * b"

lemma i64_id [go_arith]: "- (2 ^ 63) \<le> x \<Longrightarrow> x < 2 ^ 63 \<Longrightarrow> i64 x = x"
  unfolding i64_def by simp

lemma i64_range: "int64_range (i64 x)"
  unfolding i64_def int64_range_def by simp

lemma i64_small [simp]: "\<bar>x\<bar> < 2 ^ 63 \<Longrightarrow> i64 x = x"
  by (rule i64_id) auto

lemma go_div_nonneg [go_arith]: "0 \<le> a \<Longrightarrow> 0 < b \<Longrightarrow> go_div a b = a div b"
  by (cases "a = 0") (auto simp: go_div_def)

lemma go_mod_nonneg [go_arith]: "0 \<le> a \<Longrightarrow> 0 < b \<Longrightarrow> go_mod a b = a mod b"
  by (simp add: go_mod_def go_div_nonneg minus_div_mult_eq_mod)

subsection \<open>Error values\<close>

text \<open>
  The sentinel errors of the program and of the packages whose errors it compares with,
  \<open>ErrText\<close> for \<^verbatim>\<open>errors.New\<close> and errors of other packages, \<open>ErrWrap m e\<close> for
  \<^verbatim>\<open>fmt.Errorf("m: %w", e)\<close>.
\<close>

datatype go_error =
    EOF
  | CtxCanceled
  | CtxDeadlineExceeded
  | ErrorEncryptedFileTooShort
  | ErrorEncryptedFileBadHeader
  | ErrorEncryptedBadMagic
  | ErrorFileClosed
  | ErrorBadSeek
  | ErrStreamAbandoned
  | ErrChunkTimeout
  | ErrNoOverlap
  | ErrInvalid
  | CacheNotFound
  | RedisNil
  | ErrText string
  | ErrWrap string go_error

fun errors_Is :: "go_error \<Rightarrow> go_error \<Rightarrow> bool" where
  "errors_Is (ErrWrap m e) t = (ErrWrap m e = t \<or> errors_Is e t)"
| "errors_Is e t = (e = t)"

lemma errors_Is_refl [simp]: "errors_Is e e"
  by (cases e) auto

fun error_text :: "go_error \<Rightarrow> string" where
  "error_text EOF = ''EOF''"
| "error_text CtxCanceled = ''context canceled''"
| "error_text CtxDeadlineExceeded = ''context deadline exceeded''"
| "error_text ErrorEncryptedFileTooShort = ''file is too short to be encrypted''"
| "error_text ErrorEncryptedFileBadHeader = ''file has truncated block header''"
| "error_text ErrorEncryptedBadMagic = ''not an encrypted file - bad magic string''"
| "error_text ErrorFileClosed = ''file already closed''"
| "error_text ErrorBadSeek = ''Seek beyond end of file''"
| "error_text ErrStreamAbandoned = ''stream abandoned''"
| "error_text ErrChunkTimeout = ''chunk fetch timed out''"
| "error_text ErrNoOverlap = ''invalid range: failed to overlap''"
| "error_text ErrInvalid = ''invalid range''"
| "error_text CacheNotFound = ''Entry not found''"
| "error_text RedisNil = ''redis: nil''"
| "error_text (ErrText m) = m"
| "error_text (ErrWrap m e) = m @ '': '' @ error_text e"

subsection \<open>Functions of Go's strings package\<close>

text \<open>Strings are byte sequences. Case mapping is that of ASCII letters.\<close>

fun str_contains :: "string \<Rightarrow> string \<Rightarrow> bool" where
  "str_contains [] sub = (sub = [])"
| "str_contains (c # s) sub = (take (length sub) (c # s) = sub \<or> str_contains s sub)"

definition char_lower :: "char \<Rightarrow> char" where
  "char_lower c = (let n = of_char c :: nat in if 65 \<le> n \<and> n \<le> 90 then char_of (n + 32) else c)"

definition to_lower :: "string \<Rightarrow> string" where
  "to_lower s = map char_lower s"

text \<open>\<open>split_on c s\<close> is \<^verbatim>\<open>strings.Split(s, c)\<close> for a one-character separator.\<close>

fun split_on :: "char \<Rightarrow> string \<Rightarrow> string list" where
  "split_on c [] = [[]]"
| "split_on c (x # xs) =
     (if x = c then [] # split_on c xs
      else (case split_on c xs of [] \<Rightarrow> [[x]] | w # ws \<Rightarrow> (x # w) # ws))"

fun join_with :: "string \<Rightarrow> string list \<Rightarrow> string" where
  "join_with sep [] = []"
| "join_with sep [w] = w"
| "join_with sep (w # v # ws) = w @ sep @ join_with sep (v # ws)"

definition has_prefix :: "string \<Rightarrow> string \<Rightarrow> bool" where
  "has_prefix s p = (take (length p) s = p)"

definition trim_prefix :: "string \<Rightarrow> string \<Rightarrow> string" where
  "trim_prefix s p = (if has_prefix s p then drop (length p) s else s)"

text \<open>Decimal numbers: \<^verbatim>\<open>strconv.FormatInt(i, 10)\<close> and the verb \<^verbatim>\<open>%d\<close>.\<close>

fun nat_digits :: "nat \<Rightarrow> string" where
  "nat_digits n = (if n < 10 then [char_of (48 + n)] else nat_digits (n div 10) @ [char_of (48 + n mod 10)])"

declare nat_digits.simps [simp del]

definition itoa :: "int \<Rightarrow> string" where
  "itoa i = (if i < 0 then ''-'' @ nat_digits (nat (- i)) else nat_digits (nat i))"

definition digit_of :: "char \<Rightarrow> nat option" where
  "digit_of c = (let n = of_char c :: nat in if 48 \<le> n \<and> n \<le> 57 then Some (n - 48) else None)"

fun digits_val :: "nat \<Rightarrow> string \<Rightarrow> nat option" where
  "digits_val acc [] = Some acc"
| "digits_val acc (c # cs) = (case digit_of c of None \<Rightarrow> None | Some d \<Rightarrow> digits_val (10 * acc + d) cs)"

lemma digits_val_append:
  "digits_val acc (xs @ ys) = Option.bind (digits_val acc xs) (\<lambda>v. digits_val v ys)"
  by (induction xs arbitrary: acc) (auto split: option.splits)

lemma digit_of_char [simp]: "d < 10 \<Longrightarrow> digit_of (char_of (48 + d)) = Some d"
  by (simp add: digit_of_def Let_def of_char_of)

lemma digits_val_nat_digits: "digits_val 0 (nat_digits n) = Some n"
proof (induction n rule: nat_digits.induct)
  case (1 n)
  show ?case
  proof (cases "n < 10")
    case True
    then show ?thesis by (subst nat_digits.simps) simp
  next
    case False
    with 1 show ?thesis by (subst nat_digits.simps) (simp add: digits_val_append)
  qed
qed

lemma nat_digits_inj: "nat_digits m = nat_digits n \<longleftrightarrow> m = n"
  by (metis digits_val_nat_digits option.inject)

lemma split_on_not_Nil [simp]: "split_on c s \<noteq> []"
  by (induction s) (auto split: list.splits)

lemma split_on_no_sep: "w \<in> set (split_on c s) \<Longrightarrow> c \<notin> set w"
  by (induction s arbitrary: w) (fastforce split: list.splits if_splits)+

lemma split_on_join: "join_with [c] (split_on c s) = s"
proof (induction s)
  case (Cons x xs)
  obtain w ws where "split_on c xs = w # ws" by (cases "split_on c xs") auto
  with Cons show ?case by (cases ws) auto
qed simp

lemma nat_digits_digits: "c \<in> set (nat_digits n) \<Longrightarrow> digit_of c \<noteq> None"
proof (induction n rule: nat_digits.induct)
  case (1 n)
  then show ?case
    using digit_of_char [of n] digit_of_char [of "n mod 10"]
    by (subst (asm) (2) nat_digits.simps) (auto split: if_splits)
qed

lemma itoa_chars: "c \<in> set (itoa i) \<Longrightarrow> c = CHR ''-'' \<or> digit_of c \<noteq> None"
  by (auto simp: itoa_def split: if_splits dest: nat_digits_digits)

lemma split_on_id: "c \<notin> set s \<Longrightarrow> split_on c s = [s]"
  by (induction s) auto

lemma split_on_append: "c \<notin> set w \<Longrightarrow> split_on c (w @ c # s) = w # split_on c s"
  by (induction w) auto

lemma trim_prefix_append [simp]: "trim_prefix (p @ s) p = s"
  by (simp add: trim_prefix_def has_prefix_def)

lemma str_contains_append: "str_contains (a @ sub @ b) sub"
proof (induction a)
  case Nil
  have "take (length sub) (sub @ b) = sub" by simp
  then show ?case by (cases "sub @ b") auto
qed simp

lemma str_contains_iff: "str_contains s sub \<longleftrightarrow> (\<exists>a b. s = a @ sub @ b)"
proof
  show "str_contains s sub \<Longrightarrow> \<exists>a b. s = a @ sub @ b"
  proof (induction s)
    case (Cons c s)
    show ?case
    proof (cases "take (length sub) (c # s) = sub")
      case True
      then have "c # s = [] @ sub @ drop (length sub) (c # s)"
        by (metis append_Nil append_take_drop_id)
      then show ?thesis by blast
    next
      case False
      with Cons obtain a b where "s = a @ sub @ b" by auto
      then have "c # s = (c # a) @ sub @ b" by simp
      then show ?thesis by blast
    qed
  qed simp
qed (auto simp: str_contains_append)

subsection \<open>Slices\<close>

definition go_copy :: "'a list \<Rightarrow> 'a list \<Rightarrow> 'a list" where
  "go_copy dst src = take (length dst) src @ drop (length src) dst"

text \<open>\<open>slice_from i xs\<close> and \<open>slice_to j xs\<close> are \<^verbatim>\<open>xs[i:]\<close> and \<^verbatim>\<open>xs[:j]\<close>: out of range they panic.\<close>

definition slice_from :: "int \<Rightarrow> 'a list \<Rightarrow> 'a list option" where
  "slice_from i xs = (if 0 \<le> i \<and> i \<le> int (length xs) then Some (drop (nat i) xs) else None)"

definition slice_to :: "int \<Rightarrow> 'a list \<Rightarrow> 'a list option" where
  "slice_to j xs = (if 0 \<le> j \<and> j \<le> int (length xs) then Some (take (nat j) xs) else None)"

definition index_at :: "'a list \<Rightarrow> int \<Rightarrow> 'a option" where
  "index_at xs i = (if 0 \<le> i \<and> i < int (length xs) then Some (xs ! nat i) else None)"

text \<open>The bytes \<open>lo\<close> to \<open>hi\<close>, inclusive, of a list: what a range request denotes.\<close>

definition range_of :: "'a list \<Rightarrow> nat \<Rightarrow> nat \<Rightarrow> 'a list" where
  "range_of xs lo hi = take (Suc hi - lo) (drop lo xs)"

lemma length_range_of [simp]:
  "hi < length xs \<Longrightarrow> lo \<le> hi \<Longrightarrow> length (range_of xs lo hi) = Suc hi - lo"
  by (simp add: range_of_def)

lemma take_append_take_drop: "take m xs @ take n (drop m xs) = take (m + n) xs"
  by (simp add: take_add)

text \<open>Copying up to \<open>k\<close> bytes from position \<open>i\<close> and advancing by what was copied.\<close>

lemma copy_advance: "take k (drop i b) @ drop (i + length (take k (drop i b))) b = drop i b"
proof -
  have "drop (i + length (take k (drop i b))) b = drop (length (take k (drop i b))) (drop i b)"
    by (simp only: drop_drop add.commute)
  also have "\<dots> = drop k (drop i b)" by (simp add: min_def)
  finally show ?thesis by (simp only: append_take_drop_id)
qed

lemma take_prefix_split:
  "n \<le> length xs \<Longrightarrow> n \<le> m \<Longrightarrow> take m (xs @ ys) = take n xs @ take (m - n) (drop n xs @ ys)"
proof -
  assume "n \<le> length xs" "n \<le> m"
  then have "take m (xs @ ys) = take n (xs @ ys) @ take (m - n) (drop n (xs @ ys))"
    by (simp add: take_append_take_drop del: take_append drop_append)
  with \<open>n \<le> length xs\<close> show ?thesis by simp
qed

lemma range_of_split:
  "lo \<le> mid \<Longrightarrow> mid < hi \<Longrightarrow> range_of xs lo mid @ range_of xs (Suc mid) hi = range_of xs lo hi"
proof -
  assume "lo \<le> mid" "mid < hi"
  then have "drop (Suc mid) xs = drop (Suc mid - lo) (drop lo xs)"
    and "Suc hi - lo = (Suc mid - lo) + (hi - mid)" by auto
  then show ?thesis by (simp add: range_of_def take_add)
qed

lemma those_map_Some: "(\<And>x. x \<in> set xs \<Longrightarrow> f x = Some (g x)) \<Longrightarrow> those (map f xs) = Some (map g xs)"
  by (induction xs) auto

lemma those_snoc: "those xs = Some as \<Longrightarrow> those (xs @ [Some a]) = Some (as @ [a])"
  by (induction xs arbitrary: as) (auto split: option.splits)

text \<open>Adjacent ranges join to one range.\<close>

lemma concat_ranges:
  assumes "\<And>i. i < n \<Longrightarrow> lo i \<le> hi i" "\<And>i. Suc i < n \<Longrightarrow> lo (Suc i) = Suc (hi i)" "0 < n"
  shows "concat (map (\<lambda>i. range_of xs (lo i) (hi i)) [0..<n]) = range_of xs (lo 0) (hi (n - 1)) \<and> lo 0 \<le> hi (n - 1)"
  using assms
proof (induction n)
  case (Suc n)
  show ?case
  proof (cases n)
    case 0
    with Suc.prems show ?thesis by simp
  next
    case (Suc m)
    with Suc.IH Suc.prems have IH: "concat (map (\<lambda>i. range_of xs (lo i) (hi i)) [0..<n]) = range_of xs (lo 0) (hi m)"
      "lo 0 \<le> hi m" by simp_all
    have n: "lo n = Suc (hi m)" "lo n \<le> hi n" using Suc Suc.prems(1) [of n] Suc.prems(2) [of m] by simp_all
    then have "range_of xs (lo 0) (hi m) @ range_of xs (lo n) (hi n) = range_of xs (lo 0) (hi n)"
      using IH(2) range_of_split [of "lo 0" "hi m" "hi n" xs] by simp
    with IH n show ?thesis by simp
  qed
qed simp

subsection \<open>Induction on a number and, for equal numbers, on a rank\<close>

lemma number_rank_induct [case_names step]:
  fixes n :: nat and rank :: "'r \<Rightarrow> 'w :: wellorder"
  assumes step: "\<And>n r. (\<And>m s. m < n \<or> (m = n \<and> rank s < rank r) \<Longrightarrow> P m s) \<Longrightarrow> P n r"
  shows "P n r"
proof (induction n arbitrary: r rule: less_induct)
  case (less n)
  note outer = less
  show ?case
  proof (induction r rule: measure_induct_rule [of rank])
    case (less r)
    note inner = less
    show ?case
    proof (rule step)
      fix m s
      assume "m < n \<or> (m = n \<and> rank s < rank r)"
      then show "P m s" using outer inner by blast
    qed
  qed
qed

subsection \<open>Little-endian values\<close>

fun le_val :: "bytes \<Rightarrow> nat" where
  "le_val [] = 0"
| "le_val (b # bs) = unat b + 256 * le_val bs"

lemma unat_byte_less: "unat (b :: byte) < 256"
  using unsigned_less [of b] by simp

lemma le_val_less: "le_val bs < 256 ^ length bs"
proof (induction bs)
  case (Cons b bs)
  have "unat b < 256" by (rule unat_byte_less)
  with Cons show ?case by simp
qed simp

lemma low_digit_unique:
  "a < 256 \<Longrightarrow> b < 256 \<Longrightarrow> a + 256 * m = b + 256 * n \<Longrightarrow> a = b \<and> m = (n :: nat)"
proof -
  assume "a < 256" "b < 256" and eq: "a + 256 * m = b + 256 * n"
  from eq have "(a + 256 * m) mod 256 = (b + 256 * n) mod 256" by simp
  with \<open>a < 256\<close> \<open>b < 256\<close> have "a = b" by simp
  with eq show ?thesis by simp
qed

lemma le_val_inj: "length xs = length ys \<Longrightarrow> le_val xs = le_val ys \<Longrightarrow> xs = ys"
proof (induction xs ys rule: list_induct2)
  case (Cons x xs y ys)
  have "unat x < 256" "unat y < 256" by (rule unat_byte_less)+
  moreover from Cons.prems have "unat x + 256 * le_val xs = unat y + 256 * le_val ys" by simp
  ultimately have "unat x = unat y \<and> le_val xs = le_val ys" by (rule low_digit_unique)
  with Cons.IH show ?case by (simp add: word_unat_eq_iff)
qed simp

lemma le_val_update:
  "i < length n \<Longrightarrow> le_val (n[i := b]) + 256 ^ i * unat (n ! i) = le_val n + 256 ^ i * unat b"
proof (induction n arbitrary: i)
  case (Cons x n)
  show ?case
  proof (cases i)
    case (Suc j)
    with Cons have "le_val (n[j := b]) + 256 ^ j * unat (n ! j) = le_val n + 256 ^ j * unat b"
      by simp
    then have "256 * (le_val (n[j := b]) + 256 ^ j * unat (n ! j)) = 256 * (le_val n + 256 ^ j * unat b)"
      by simp
    with Suc show ?thesis by (simp add: algebra_simps)
  qed simp
qed simp

lemma le_val_append: "le_val (xs @ ys) = le_val xs + 256 ^ length xs * le_val ys"
  by (induction xs) (auto simp: algebra_simps)

subsection \<open>Strings as bytes\<close>

definition text_bytes :: "string \<Rightarrow> bytes" where
  "text_bytes s = map (\<lambda>c. word_of_nat (of_char c)) s"

definition bytes_text :: "bytes \<Rightarrow> string" where
  "bytes_text bs = map (\<lambda>b. char_of (unat b)) bs"

lemma char_of_byte: "char_of (unat (word_of_nat (of_char c) :: byte)) = c"
  by (simp add: unat_of_nat)

lemma bytes_text_bytes: "bytes_text (text_bytes s) = s"
  by (simp add: bytes_text_def text_bytes_def comp_def char_of_byte)

end
