(* ===== verification/Go_IO.thy ===== *)
theory Go_IO
  imports Prelude
begin

section \<open>Readers: the io.Reader interface\<close>

text \<open>
  Every stream of the program is an \<^verbatim>\<open>io.Reader\<close>: the request body, the encrypter, the
  decrypter, the chunked Telegram reader and the multi-part file reader. A reader is a state
  \<open>'r\<close> with a function \<open>rd r k\<close>, the call \<^verbatim>\<open>Read(p)\<close> with \<open>len(p) = k\<close>: the next
  state, the bytes put into \<open>p\<close> and the error (\<open>None\<close> is Go's nil); \<open>None\<close> as a whole when
  the call does not return.

  The locale \<open>io_reader\<close> is the contract the code relies on; \<open>rest r\<close> is what the reader
  still delivers. Inside it are the facts its clients use: \<^verbatim>\<open>readFill\<close> of the cipher and
  \<^verbatim>\<open>io.CopyN\<close> of the streaming handler.
\<close>

type_synonym 'r io_result = "('r \<times> bytes \<times> go_error option) option"
type_synonym 'r rd = "'r \<Rightarrow> nat \<Rightarrow> ('r \<times> bytes \<times> go_error option) option"

text \<open>The loop of \<^verbatim>\<open>readFill\<close>: read until the buffer is full or an error comes.\<close>

partial_function (option) readFill :: "'r rd \<Rightarrow> 'r \<Rightarrow> nat \<Rightarrow> 'r io_result" where
  "readFill rd r k =
     (if k = 0 then Some (r, [], None)
      else Option.bind (rd r k) (\<lambda>(r', bs, e).
        if e \<noteq> None then Some (r', bs, e)
        else Option.bind (readFill rd r' (k - length bs)) (\<lambda>(r'', bs', e').
          Some (r'', bs @ bs', e'))))"

text \<open>
  \<^verbatim>\<open>io.CopyN(w, r, n)\<close> of the standard library with a writer that takes everything: reads
  of at most 32 KiB until \<open>n\<close> bytes are copied; an early end of the reader is the error EOF.
\<close>

partial_function (option) copyN :: "'r rd \<Rightarrow> 'r \<Rightarrow> nat \<Rightarrow> 'r io_result" where
  "copyN rd r n =
     (if n = 0 then Some (r, [], None)
      else Option.bind (rd r (min n 32768)) (\<lambda>(r', bs, e).
        if e \<noteq> None then Some (r', bs, if n \<le> length bs then None else e)
        else Option.bind (copyN rd r' (n - length bs)) (\<lambda>(r'', bs', e').
          Some (r'', bs @ bs', e'))))"

text \<open>Reading with a buffer of \<open>k\<close> bytes until the first error: \<^verbatim>\<open>io.ReadAll\<close> and its kin.\<close>

partial_function (option) readAll :: "'r rd \<Rightarrow> nat \<Rightarrow> 'r \<Rightarrow> 'r io_result" where
  "readAll rd k r =
     Option.bind (rd r k) (\<lambda>(r', bs, e).
       if e \<noteq> None then Some (r', bs, e)
       else Option.bind (readAll rd k r') (\<lambda>(r'', bs', e').
         Some (r'', bs @ bs', e')))"

locale io_reader =
  fixes rd :: "'r \<Rightarrow> nat \<Rightarrow> ('r \<times> bytes \<times> go_error option) option"
    and rest :: "'r \<Rightarrow> bytes"
    and ok :: "'r \<Rightarrow> bool"
    and rank :: "'r \<Rightarrow> 'w :: wellorder"
  assumes returns: "ok r \<Longrightarrow> \<exists>x. rd r k = Some x"
    and keeps: "ok r \<Longrightarrow> rd r k = Some (r', bs, e) \<Longrightarrow> ok r'"
    and splits: "ok r \<Longrightarrow> rd r k = Some (r', bs, e) \<Longrightarrow> rest r = bs @ rest r'"
    and fits: "ok r \<Longrightarrow> rd r k = Some (r', bs, e) \<Longrightarrow> length bs \<le> k"
    and ends: "ok r \<Longrightarrow> rd r k = Some (r', bs, Some err) \<Longrightarrow> err = EOF \<and> rest r' = []"
    and progress: "ok r \<Longrightarrow> 0 < k \<Longrightarrow> rd r k = Some (r', [], None) \<Longrightarrow> rank r' < rank r"
begin

lemma read_cases:
  assumes "ok r"
  obtains r' bs e where "rd r k = Some (r', bs, e)" "ok r'" "rest r = bs @ rest r'" "length bs \<le> k"
    "e = None \<or> (e = Some EOF \<and> rest r' = [])"
proof -
  from returns [OF assms, of k] obtain r' bs e where rd: "rd r k = Some (r', bs, e)"
    by (metis prod_cases3)
  have "e = None \<or> (e = Some EOF \<and> rest r' = [])"
    using ends [OF assms] rd by (cases e) auto
  with rd show ?thesis
    using that keeps [OF assms rd] splits [OF assms rd] fits [OF assms rd] by blast
qed

text \<open>
  A read that delivers nothing lowers the rank, any other one shortens the rest: the loops
  below end by induction on the number of bytes and, for the same number, on the rank.
\<close>

lemma readFill_spec:
  "ok r \<Longrightarrow> \<exists>r' e. readFill rd r k = Some (r', take k (rest r), e) \<and> ok r' \<and> rest r' = drop k (rest r) \<and>
     (e = None \<or> e = Some EOF \<and> rest r' = []) \<and> (length (rest r) < k \<longrightarrow> e = Some EOF)"
proof (induction k r rule: number_rank_induct [of rank])
  case (step k r)
  note ok_r = step.prems(1)
  show ?case
  proof (cases "k = 0")
    case True
    then show ?thesis using ok_r by (subst readFill.simps) auto
  next
    case k: False
    from read_cases [OF ok_r, of k] obtain r' bs e where rd: "rd r k = Some (r', bs, e)" and r': "ok r'"
      and split: "rest r = bs @ rest r'" and len: "length bs \<le> k"
      and e: "e = None \<or> (e = Some EOF \<and> rest r' = [])" by metis
    show ?thesis
    proof (cases "e = None")
      case False
      with e len k rd r' split show ?thesis by (subst readFill.simps) auto
    next
      case True
      have "bs = [] \<Longrightarrow> rank r' < rank r" using progress ok_r k rd True by auto
      with len k have "k - length bs < k \<or> (k - length bs = k \<and> rank r' < rank r)"
        by (cases bs) auto
      from step.IH [OF this r'] obtain r'' e' where
        "readFill rd r' (k - length bs) = Some (r'', take (k - length bs) (rest r'), e')" "ok r''"
        "rest r'' = drop (k - length bs) (rest r')" "e' = None \<or> e' = Some EOF \<and> rest r'' = []"
        "length (rest r') < k - length bs \<longrightarrow> e' = Some EOF" by blast
      with True len k rd split show ?thesis by (subst readFill.simps) (auto simp: less_diff_conv)
    qed
  qed
qed

lemma copyN_spec:
  "ok r \<Longrightarrow> n \<le> length (rest r) \<Longrightarrow>
     \<exists>r'. copyN rd r n = Some (r', take n (rest r), None) \<and> ok r' \<and> rest r' = drop n (rest r)"
proof (induction n r rule: number_rank_induct [of rank])
  case (step n r)
  note ok_r = step.prems(1)
  show ?case
  proof (cases "n = 0")
    case True
    then show ?thesis using ok_r by (subst copyN.simps) auto
  next
    case n: False
    define k where "k = min n 32768"
    have k: "0 < k" "k \<le> n" using n by (auto simp: k_def)
    from read_cases [OF ok_r, of k] obtain r' bs e where rd: "rd r k = Some (r', bs, e)" and r': "ok r'"
      and split: "rest r = bs @ rest r'" and len: "length bs \<le> k"
      and e: "e = None \<or> (e = Some EOF \<and> rest r' = [])" by metis
    show ?thesis
    proof (cases "e = None")
      case False
      with e len n k rd r' split step.prems(2) show ?thesis
        by (subst copyN.simps) (auto simp: k_def [symmetric])
    next
      case True
      have "bs = [] \<Longrightarrow> rank r' < rank r" using progress ok_r k rd True by auto
      with len k have smaller: "n - length bs < n \<or> (n - length bs = n \<and> rank r' < rank r)"
        by (cases bs) auto
      have "n - length bs \<le> length (rest r')" using step.prems(2) split by simp
      from step.IH [OF smaller r' this] obtain r'' where
        "copyN rd r' (n - length bs) = Some (r'', take (n - length bs) (rest r'), None)" "ok r''"
        "rest r'' = drop (n - length bs) (rest r')" by blast
      with True len n k rd split show ?thesis
        by (subst copyN.simps) (auto simp: k_def [symmetric])
    qed
  qed
qed

lemma readAll_spec:
  "ok r \<Longrightarrow> 0 < k \<Longrightarrow> \<exists>r'. readAll rd k r = Some (r', rest r, Some EOF) \<and> ok r' \<and> rest r' = []"
proof (induction "length (rest r)" r rule: number_rank_induct [of rank])
  case (step r)
  note ok_r = step.prems(1)
  from read_cases [OF ok_r, of k] obtain r' bs e where rd: "rd r k = Some (r', bs, e)" and r': "ok r'"
    and split: "rest r = bs @ rest r'" and e: "e = None \<or> (e = Some EOF \<and> rest r' = [])" by metis
  show ?case
  proof (cases "e = None")
    case False
    with e rd r' split show ?thesis by (subst readAll.simps) auto
  next
    case True
    have "bs = [] \<Longrightarrow> rank r' < rank r" using progress ok_r step.prems(2) rd True by auto
    with split have "length (rest r') < length (rest r) \<or>
        (length (rest r') = length (rest r) \<and> rank r' < rank r)"
      by (cases bs) auto
    from step.hyps [OF this r' step.prems(2)] obtain r'' where "readAll rd k r' = Some (r'', rest r', Some EOF)" "ok r''" "rest r'' = []"
      by blast
    with True rd split show ?thesis by (subst readAll.simps) auto
  qed
qed

end

text \<open>The contract in one statement: how the components below establish it.\<close>

lemma io_readerI:
  fixes rank :: "'r \<Rightarrow> 'w :: wellorder"
  assumes "\<And>r k. ok r \<Longrightarrow> \<exists>r' bs e. rd r k = Some (r', bs, e) \<and> ok r' \<and> rest r = bs @ rest r' \<and>
      length bs \<le> k \<and> (e = None \<or> e = Some EOF \<and> rest r' = []) \<and>
      (0 < k \<longrightarrow> bs = [] \<longrightarrow> e = None \<longrightarrow> rank r' < rank r)"
  shows "io_reader rd rest ok rank"
proof
  fix r k assume "ok r"
  from assms [OF this, of k] show "\<exists>x. rd r k = Some x" by blast
next
  fix r k r' bs e assume "ok r" and "rd r k = Some (r', bs, e)"
  with assms [of r k] show "ok r'" "rest r = bs @ rest r'" "length bs \<le> k" by auto
next
  fix r k r' bs err assume "ok r" and "rd r k = Some (r', bs, Some err)"
  with assms [of r k] show "err = EOF \<and> rest r' = []" by auto
next
  fix r k r' assume "ok r" and "0 < k" and "rd r k = Some (r', [], None)"
  with assms [of r k] show "rank r' < rank r" by auto
qed

text \<open>
  Go's in-memory reader (\<^verbatim>\<open>bytes.Reader\<close>), the reader a request body or a test supplies.
\<close>

definition bytes_Read :: "bytes \<Rightarrow> nat \<Rightarrow> bytes io_result" where
  "bytes_Read bs k = (if bs = [] then Some ([], [], Some EOF) else Some (drop k bs, take k bs, None))"

interpretation mem: io_reader bytes_Read "\<lambda>bs. bs" "\<lambda>_. True" "\<lambda>_. 0 :: nat"
  by (rule io_readerI) (auto simp: bytes_Read_def)

end
