(* ===== verification/Cipher.thy ===== *)
theory Cipher
  imports Go_IO
begin

unbundle bit_operations_syntax

section \<open>Encrypted files (internal/crypt/cipher.go)\<close>

text \<open>
  The file format of encrypted parts: a magic string, a 24-byte nonce and blocks of at most
  64 KiB of plaintext, each sealed with NaCl's secretbox under its own nonce. This theory
  models the size computations, the nonce arithmetic, the key derivation, the encrypting
  reader and the decrypting reader with its range seeks.

  Parameters of the model, all of other packages: \<open>seal key nonce m\<close> and
  \<open>opn key nonce c\<close> for \<^verbatim>\<open>secretbox.Seal\<close> and \<^verbatim>\<open>secretbox.Open\<close>, \<open>scrypt\<close> for
  \<^verbatim>\<open>scrypt.Key\<close>, \<open>aes_new\<close> for the error of \<^verbatim>\<open>aes.NewCipher\<close>, and the \<open>Read\<close>
  functions of the readers below. Their documented behaviour is the predicate
  \<open>secretbox_ok\<close>.
\<close>

subsection \<open>Constants and size computations\<close>

definition fileMagic :: bytes where
  "fileMagic = [84, 69, 76, 68, 82, 73, 86, 69, 0, 0]"

definition fileMagicSize :: nat where [simp]: "fileMagicSize = 10"
definition fileNonceSize :: nat where [simp]: "fileNonceSize = 24"
definition fileHeaderSize :: nat where [simp]: "fileHeaderSize = fileMagicSize + fileNonceSize"
definition blockHeaderSize :: nat where [simp]: "blockHeaderSize = 16"
definition blockDataSize :: nat where [simp]: "blockDataSize = 64 * 1024"
definition blockSize :: nat where [simp]: "blockSize = blockHeaderSize + blockDataSize"

lemma length_fileMagic [simp]: "length fileMagic = 10"
  by (simp add: fileMagic_def)

definition EncryptedSize :: "int \<Rightarrow> int" where
  "EncryptedSize sz =
     (let blocks = go_div sz (int blockDataSize);
          residue = go_mod sz (int blockDataSize);
          encryptedSize = i64 (int fileHeaderSize + i64 (blocks * int (blockHeaderSize + blockDataSize)))
      in if residue \<noteq> 0 then i64 (encryptedSize + (int blockHeaderSize + residue)) else encryptedSize)"

definition DecryptedSize :: "int \<Rightarrow> int \<times> go_error option" where
  "DecryptedSize sz0 =
     (let sz = i64 (sz0 - int fileHeaderSize) in
      if sz < 0 then (0, Some ErrorEncryptedFileTooShort)
      else let blocks = go_div sz (int blockSize);
               residue = go_mod sz (int blockSize);
               decryptedSize = i64 (blocks * int blockDataSize)
           in if residue \<noteq> 0
              then let residue' = residue - int blockHeaderSize in
                   if residue' \<le> 0 then (0, Some ErrorEncryptedFileBadHeader)
                   else (i64 (decryptedSize + residue'), None)
              else (i64 (decryptedSize + residue), None))"

text \<open>The result is \<open>(underlyingOffset, underlyingLimit, discard, blocks)\<close>.\<close>

definition calculateUnderlying :: "int \<Rightarrow> int \<Rightarrow> int \<times> int \<times> int \<times> int" where
  "calculateUnderlying offset limit =
     (let blocks = go_div offset (int blockDataSize);
          discard = go_mod offset (int blockDataSize);
          underlyingOffset = i64 (int fileHeaderSize + i64 (blocks * int (blockHeaderSize + blockDataSize)));
          underlyingLimit =
            (if limit \<ge> 0 then
               let bytesToRead = i64 (limit - (int blockDataSize - discard));
                   blocksToRead =
                     (if bytesToRead > 0 then
                        let extra = go_div bytesToRead (int blockDataSize);
                            endBytes = go_mod bytesToRead (int blockDataSize)
                        in 1 + (if endBytes \<noteq> 0 then extra + 1 else extra)
                      else 1)
               in i64 (blocksToRead * int (blockHeaderSize + blockDataSize))
             else -1)
      in (underlyingOffset, underlyingLimit, discard, blocks))"

text \<open>Sizes below this bound are computed without wrap-around.\<close>

definition max_plain :: int where [simp]: "max_plain = 2 ^ 62"

lemma EncryptedSize_eq:
  assumes "0 \<le> sz" "sz < max_plain"
  shows "EncryptedSize sz =
    34 + sz div 65536 * 65552 + (if sz mod 65536 = 0 then 0 else 16 + sz mod 65536)"
proof -
  have "0 \<le> sz div 65536" "sz div 65536 < 2 ^ 46" "0 \<le> sz mod 65536" "sz mod 65536 < 65536"
    using assms by auto
  then show ?thesis
    using assms by (simp add: EncryptedSize_def go_arith Let_def i64_small)
qed

lemma DecryptedSize_EncryptedSize:
  assumes "0 \<le> sz" "sz < max_plain"
  shows "DecryptedSize (EncryptedSize sz) = (sz, None)"
proof -
  define q r where "q = sz div 65536" and "r = sz mod 65536"
  have sz: "sz = 65536 * q + r" by (simp add: q_def r_def)
  have q: "0 \<le> q" "q < 2 ^ 46" and r: "0 \<le> r" "r < 65536"
    using assms by (auto simp: q_def r_def)
  show ?thesis
  proof (cases "r = 0")
    case True
    have "EncryptedSize sz = 34 + q * 65552"
      using EncryptedSize_eq [OF assms] True by (simp add: q_def r_def)
    moreover have "(q * 65552) div 65552 = q" "(q * 65552) mod 65552 = 0" by simp_all
    ultimately show ?thesis using q True sz by (simp add: DecryptedSize_def go_arith Let_def)
  next
    case False
    define m where "m = 16 + (q * 65552 + r)"
    have m: "m = 65552 * q + (16 + r)" by (simp add: m_def)
    have "EncryptedSize sz = 34 + m"
      using EncryptedSize_eq [OF assms] False by (simp add: q_def r_def m_def)
    moreover have "m div 65552 = q" "m mod 65552 = 16 + r" "0 \<le> m" "m < 2 ^ 63"
      unfolding m using q r by simp_all
    ultimately show ?thesis using q r sz False by (simp add: DecryptedSize_def go_arith Let_def)
  qed
qed

text \<open>
  The blocks a range read opens: they start at the block of the offset, they cover the range,
  and there is none too many.
\<close>

lemma calculateUnderlying_spec:
  assumes "0 \<le> offset" "offset < max_plain" "0 \<le> limit" "limit < max_plain"
  obtains J where "1 \<le> J" "J < 2 ^ 46 + 2"
    "calculateUnderlying offset limit =
       (34 + offset div 65536 * 65552, J * 65552, offset mod 65536, offset div 65536)"
    "offset mod 65536 + limit \<le> J * 65536"
    "J = 1 \<or> (J - 1) * 65536 < offset mod 65536 + limit"
proof -
  define d where "d = offset mod 65536"
  define b where "b = limit - (65536 - d)"
  define J where "J = (if b > 0 then 1 + (b div 65536 + (if b mod 65536 = 0 then 0 else 1)) else 1)"
  have d: "0 \<le> d" "d < 65536" by (simp_all add: d_def)
  have q: "0 \<le> offset div 65536" "offset div 65536 < 2 ^ 46" using assms by auto
  have b: "- 65536 \<le> b" "b < 2 ^ 62" "d + limit = b + 65536" using assms d by (auto simp: b_def)
  define t r where "t = b div 65536" and "r = b mod 65536"
  have r: "b = t * 65536 + r" "0 \<le> r" "r < 65536" by (simp_all add: t_def r_def)
  have Jtr: "J = (if b > 0 then 1 + (t + (if r = 0 then 0 else 1)) else 1)"
    by (simp add: J_def t_def r_def)
  have J: "1 \<le> J" "J < 2 ^ 46 + 2" "b + 65536 \<le> J * 65536" "J = 1 \<or> (J - 1) * 65536 < b + 65536"
    using b r unfolding Jtr by (auto split: if_splits)
  have "calculateUnderlying offset limit = (34 + offset div 65536 * 65552, J * 65552, d, offset div 65536)"
  proof -
    have num: "int blockDataSize = 65536" "int (blockHeaderSize + blockDataSize) = 65552"
      "int fileHeaderSize = 34" by simp_all
    have off: "go_div offset 65536 = offset div 65536" "go_mod offset 65536 = d"
      using assms by (simp_all add: go_arith d_def)
    have bytes: "i64 (limit - (65536 - d)) = b" using b by (simp add: b_def [symmetric])
    have blocks: "(if b > 0 then 1 + (if go_mod b 65536 \<noteq> 0 then go_div b 65536 + 1 else go_div b 65536) else 1) = J"
      by (simp add: Jtr go_arith t_def r_def)
    have "i64 (J * 65552) = J * 65552" "i64 (34 + i64 (offset div 65536 * 65552)) = 34 + offset div 65536 * 65552"
      using J(1,2) q by simp_all
    then show ?thesis
      by (simp only: calculateUnderlying_def Let_def num off bytes blocks assms(3) if_True)
  qed
  with J b(3) show ?thesis by (intro that [of J]) (simp_all add: d_def)
qed

text \<open>The same in natural numbers, as the readers use it.\<close>

lemma calculateUnderlying_nat:
  assumes "0 \<le> offset" "offset < max_plain" "0 \<le> limit" "limit < max_plain"
  obtains q d j where "nat offset = q * 65536 + d" "d < 65536" "q < 2 ^ 46" "0 < j"
    "calculateUnderlying offset limit = (int (34 + q * 65552), int (j * 65552), int d, int q)"
    "nat limit + d \<le> j * 65536"
proof -
  from calculateUnderlying_spec [OF assms] obtain J where J: "1 \<le> J"
    "calculateUnderlying offset limit =
       (34 + offset div 65536 * 65552, J * 65552, offset mod 65536, offset div 65536)"
    "offset mod 65536 + limit \<le> J * 65536" by metis
  define q d j where "q = nat (offset div 65536)" and "d = nat (offset mod 65536)" and "j = nat J"
  have int: "int q = offset div 65536" "int d = offset mod 65536" "int j = J"
    using assms(1) J(1) by (auto simp: q_def d_def j_def)
  have "int (q * 65536 + d) = offset" using int by simp
  then have "nat offset = q * 65536 + d" by simp
  moreover have "d < 65536" "q < 2 ^ 46" "0 < j" using int assms(2) J(1) by auto
  moreover have "calculateUnderlying offset limit = (int (34 + q * 65552), int (j * 65552), int d, int q)"
    using J(2) int by simp
  moreover have "nat limit + d \<le> j * 65536" using J(3) int assms(3) by linarith
  ultimately show ?thesis by (rule that)
qed

subsection \<open>Nonces\<close>

text \<open>A nonce is an array of 24 bytes, a little-endian number; \<open>carry\<close> and the loop of
  \<open>add\<close> work on it by index, as in the source.\<close>

function carry :: "bytes \<Rightarrow> nat \<Rightarrow> bytes" where
  "carry n i =
     (if i < length n then
        let digit = n ! i; newDigit = digit + 1; n' = n[i := newDigit]
        in if newDigit \<ge> digit then n' else carry n' (Suc i)
      else n)"
  by pat_completeness auto
termination
  by (relation "measure (\<lambda>(n, i). length n - i)") auto

declare carry.simps [simp del]

definition increment :: "bytes \<Rightarrow> bytes" where
  "increment n = carry n 0"

function add_loop :: "nat \<Rightarrow> bytes \<Rightarrow> 64 word \<Rightarrow> 16 word \<Rightarrow> bytes \<times> 16 word" where
  "add_loop i n x c =
     (if i < 8 then
        let digit = n ! i; xDigit = ucast x :: byte; c' = c + (ucast digit + ucast xDigit)
        in add_loop (Suc i) (n[i := ucast c']) (drop_bit 8 x) (drop_bit 8 c')
      else (n, c))"
  by pat_completeness auto
termination
  by (relation "measure (\<lambda>(i, n, x, c). 8 - i)") auto

declare add_loop.simps [simp del]

definition add :: "bytes \<Rightarrow> 64 word \<Rightarrow> bytes" where
  "add n x = (case add_loop 0 n x 0 of (n', c) \<Rightarrow> if c \<noteq> 0 then carry n' 8 else n')"

lemma length_carry [simp]: "length (carry n i) = length n"
proof (induction n i rule: carry.induct)
  case (1 n i)
  then show ?case by (subst carry.simps) (auto simp: Let_def)
qed

lemma length_increment [simp]: "length (increment n) = length n"
  by (simp add: increment_def)

lemma length_add_loop [simp]: "length (fst (add_loop i n x c)) = length n"
proof (induction i n x c rule: add_loop.induct)
  case (1 i n x c)
  then show ?case by (subst add_loop.simps) (simp add: Let_def)
qed

lemma length_add [simp]: "length (add n x) = length n"
  using length_add_loop [of 0 n x 0] by (cases "add_loop 0 n x 0") (simp add: add_def)

lemma unat_byte_plus_one: "unat ((d :: byte) + 1) = (unat d + 1) mod 256"
  by (simp add: unat_word_ariths)

lemma byte_plus_one_ge: "(d :: byte) \<le> d + 1 \<longleftrightarrow> unat d \<noteq> 255"
  using unat_byte_less [of d]
  by (cases "unat d = 255") (auto simp: word_le_nat_alt unat_byte_plus_one)

lemma carry_past: "length n \<le> i \<Longrightarrow> carry n i = n"
  by (subst carry.simps) simp

lemma le_val_carry:
  "i \<le> length n \<Longrightarrow> le_val (carry n i) = (le_val n + 256 ^ i) mod 256 ^ length n"
proof (induction n i rule: carry.induct)
  case (1 n i)
  show ?case
  proof (cases "i < length n")
    case False
    with 1(2) have "i = length n" by simp
    with le_val_less [of n] show ?thesis by (simp add: carry_past)
  next
    case i: True
    define n' where "n' = n[i := n ! i + 1]"
    have upd: "le_val n' + 256 ^ i * unat (n ! i) = le_val n + 256 ^ i * ((unat (n ! i) + 1) mod 256)"
      unfolding n'_def using le_val_update [OF i] by (simp add: unat_byte_plus_one)
    have unf: "carry n i = (if n ! i \<le> n ! i + 1 then n' else carry n' (Suc i))"
      using i by (subst carry.simps) (simp add: Let_def n'_def)
    have len: "length n' = length n" by (simp add: n'_def)
    show ?thesis
    proof (cases "unat (n ! i) = 255")
      case False
      then have "(unat (n ! i) + 1) mod 256 = unat (n ! i) + 1"
        using unat_byte_less [of "n ! i"] by simp
      with upd have "le_val n' = le_val n + 256 ^ i" by simp
      moreover have "le_val n' < 256 ^ length n" using le_val_less [of n'] len by simp
      ultimately show ?thesis using False unf by (simp add: byte_plus_one_ge)
    next
      case True
      then have "le_val n' + 256 ^ i * 255 = le_val n" using upd by simp
      then have eq: "le_val n' + 256 ^ Suc i = le_val n + 256 ^ i" by simp
      have "le_val (carry n' (Suc i)) = (le_val n' + 256 ^ Suc i) mod 256 ^ length n'"
        using 1(1) [OF i refl refl refl] True i by (simp add: n'_def byte_plus_one_ge)
      then have "le_val (carry n' (Suc i)) = (le_val n + 256 ^ i) mod 256 ^ length n"
        by (simp only: eq len)
      with True unf show ?thesis by (simp add: byte_plus_one_ge)
    qed
  qed
qed

lemma le_val_increment: "le_val (increment n) = (le_val n + 1) mod 256 ^ length n"
  using le_val_carry [of 0 n] by (simp add: increment_def)

lemma length_increment_pow [simp]: "length ((increment ^^ k) n) = length n"
  by (induction k) auto

lemma le_val_increment_pow: "le_val ((increment ^^ k) n) = (le_val n + k) mod 256 ^ length n"
proof (induction k)
  case 0
  show ?case using le_val_less [of n] by simp
next
  case (Suc k)
  then show ?case by (simp add: le_val_increment mod_Suc_eq)
qed

lemma unat_drop_8: "unat (drop_bit 8 (w :: 'a :: len word)) = unat w div 256"
  by (simp only: unat_drop_bit_eq) (simp add: drop_bit_eq_div)

lemma add_step_arith:
  fixes P :: nat
  assumes "A = M + P * 256 * (D + Y)" "M + P * d = N + P * b" "b + 256 * D = c + d + x"
  shows "A = N + P * (c + (256 * Y + x))"
proof -
  have "A + P * d = N + P * (b + 256 * D) + P * 256 * Y"
    using assms(1,2) by (simp add: algebra_simps)
  then show ?thesis unfolding assms(3) by (simp add: algebra_simps)
qed

text \<open>One digit of the addition: no overflow of the 16-bit accumulator.\<close>

lemma add_digit:
  fixes c :: "16 word" and d :: byte and x :: "64 word"
  assumes "unat c \<le> 1"
  defines "c' \<equiv> c + (ucast d + ucast (ucast x :: byte))"
  shows "unat (ucast c' :: byte) + 256 * unat (drop_bit 8 c') = unat c + unat d + unat x mod 256"
    and "unat (drop_bit 8 c') \<le> 1"
proof -
  have x: "unat (ucast x :: byte) = unat x mod 256"
    by (simp add: unsigned_ucast_eq unat_of_nat take_bit_eq_mod)
  have "unat c' = unat c + (unat d + unat x mod 256)"
    using assms(1) unat_byte_less [of d]
    by (simp add: c'_def unat_word_ariths unsigned_ucast_eq take_bit_eq_mod mod_mod_cancel x)
  moreover have "unat (ucast c' :: byte) = unat c' mod 256"
    by (simp add: unsigned_ucast_eq take_bit_eq_mod)
  moreover have "unat (drop_bit 8 c') = unat c' div 256"
    by (rule unat_drop_8)
  ultimately show "unat (ucast c' :: byte) + 256 * unat (drop_bit 8 c') = unat c + unat d + unat x mod 256"
    and "unat (drop_bit 8 c') \<le> 1"
    using assms(1) unat_byte_less [of d] by auto
qed

lemma add_loop_val:
  "8 \<le> length n \<Longrightarrow> i \<le> 8 \<Longrightarrow> unat c \<le> 1 \<Longrightarrow> add_loop i n x c = (n', c') \<Longrightarrow>
     le_val n' + 256 ^ 8 * unat c' = le_val n + 256 ^ i * (unat c + unat x mod 256 ^ (8 - i)) \<and> unat c' \<le> 1"
proof (induction i n x c arbitrary: n' c' rule: add_loop.induct)
  case (1 i n x c)
  show ?case
  proof (cases "i < 8")
    case False
    with 1 show ?thesis by (simp add: add_loop.simps)
  next
    case i: True
    define s where "s = c + (ucast (n ! i) + ucast (ucast x :: byte))"
    note digit = add_digit [OF 1(4), of "n ! i" x, folded s_def]
    define m where "m = n[i := ucast s]"
    have upd: "le_val m + 256 ^ i * unat (n ! i) = le_val n + 256 ^ i * unat (ucast s :: byte)"
      unfolding m_def using le_val_update [of i n] i 1(2) by simp
    have "add_loop (Suc i) m (drop_bit 8 x) (drop_bit 8 s) = (n', c')"
      using 1(5) i by (subst (asm) add_loop.simps) (simp add: Let_def m_def s_def)
    then have IH: "le_val n' + 256 ^ 8 * unat c' = le_val m + 256 ^ Suc i *
        (unat (drop_bit 8 s) + (unat x div 256) mod 256 ^ (8 - Suc i))" "unat c' \<le> 1"
      using 1(1) [OF i refl refl refl] i 1(2) digit(2)
      by (simp_all add: m_def s_def unat_drop_8 del: power_Suc)
    have "8 - i = Suc (8 - Suc i)" using i by simp
    then have "unat x mod 256 ^ (8 - i) = 256 * ((unat x div 256) mod 256 ^ (8 - Suc i)) + unat x mod 256"
      by (simp only: power_Suc mod_mult2_eq)
    moreover have "le_val n' + 256 ^ 8 * unat c' =
        le_val m + 256 ^ i * 256 * (unat (drop_bit 8 s) + (unat x div 256) mod 256 ^ (8 - Suc i))"
      using IH(1) by (simp add: mult.commute)
    ultimately have "le_val n' + 256 ^ 8 * unat c' = le_val n + 256 ^ i * (unat c + unat x mod 256 ^ (8 - i))"
      using add_step_arith [OF _ upd digit(1)] by simp
    with IH(2) show ?thesis by simp
  qed
qed

lemma le_val_add:
  assumes "8 \<le> length n"
  shows "le_val (add n x) = (le_val n + unat x) mod 256 ^ length n"
proof -
  obtain n' c where loop: "add_loop 0 n x 0 = (n', c)" by (cases "add_loop 0 n x 0")
  have "unat x < 256 ^ 8" by (rule order_less_le_trans [OF unsigned_less]) simp
  then have "unat x mod 256 ^ 8 = unat x" by (rule mod_less)
  with add_loop_val [OF assms _ _ loop] have val: "le_val n' + 256 ^ 8 * unat c = le_val n + unat x"
    and c: "unat c \<le> 1" by simp_all
  have len: "length n' = length n" using length_add_loop [of 0 n x 0] loop by simp
  show ?thesis
  proof (cases "c = 0")
    case True
    with val loop len le_val_less [of n'] show ?thesis by (simp add: add_def)
  next
    case False
    with c have "unat c = 1" by (metis le_neq_implies_less less_one unat_eq_zero)
    with val have eq: "le_val n' + 256 ^ 8 = le_val n + unat x" by simp
    have "le_val (carry n' 8) = (le_val n' + 256 ^ 8) mod 256 ^ length n'"
      using assms len by (intro le_val_carry) simp
    with eq False loop len show ?thesis by (simp only: add_def prod.case) simp
  qed
qed

lemma add_eq_increment_pow: "8 \<le> length n \<Longrightarrow> add n x = (increment ^^ unat x) n"
  by (rule le_val_inj) (simp_all add: le_val_add le_val_increment_pow)

subsection \<open>Keys\<close>

record cipher =
  dataKey :: bytes
  nameKey :: bytes
  nameTweak :: bytes

definition zero_cipher :: cipher where
  "zero_cipher = \<lparr>dataKey = replicate 32 0, nameKey = replicate 32 0, nameTweak = replicate 16 0\<rparr>"

definition cipher_Key ::
  "(bytes \<Rightarrow> bytes \<Rightarrow> nat \<Rightarrow> nat \<Rightarrow> nat \<Rightarrow> nat \<Rightarrow> go_error + bytes) \<Rightarrow> (bytes \<Rightarrow> go_error option) \<Rightarrow>
   cipher \<Rightarrow> bytes \<Rightarrow> bytes \<Rightarrow> (cipher \<times> go_error option) option" where
  "cipher_Key scrypt aes_new c password salt =
     (let keySize = length (dataKey c) + length (nameKey c) + length (nameTweak c) in
      case scrypt password salt 16384 8 1 keySize of
        Inl e \<Rightarrow> Some (c, Some e)
      | Inr key \<Rightarrow>
          Option.bind (slice_from (int (length (dataKey c))) key) (\<lambda>k1.
          Option.bind (slice_from (int (length (dataKey c) + length (nameKey c))) key) (\<lambda>k2.
            let c' = c\<lparr>dataKey := go_copy (dataKey c) key, nameKey := go_copy (nameKey c) k1,
                       nameTweak := go_copy (nameTweak c) k2\<rparr>
            in Some (c', aes_new (nameKey c')))))"

definition NewCipher ::
  "(bytes \<Rightarrow> bytes \<Rightarrow> nat \<Rightarrow> nat \<Rightarrow> nat \<Rightarrow> nat \<Rightarrow> go_error + bytes) \<Rightarrow> (bytes \<Rightarrow> go_error option) \<Rightarrow>
   bytes \<Rightarrow> bytes \<Rightarrow> (go_error + cipher) option" where
  "NewCipher scrypt aes_new password salt =
     Option.bind (cipher_Key scrypt aes_new zero_cipher password salt) (\<lambda>(c, err).
       Some (case err of Some e \<Rightarrow> Inl e | None \<Rightarrow> Inr c))"

subsection \<open>The encrypting reader\<close>

text \<open>
  \<open>e_buf\<close> is the written prefix of the pool block (nil after \<open>finish\<close>); the code never
  reads beyond \<open>e_bufSize\<close>. \<open>readBuf\<close> is filled and used within one call and is not kept.
\<close>

record 'r encrypter =
  e_in :: 'r
  e_c :: cipher
  e_nonce :: bytes
  e_buf :: "bytes option"
  e_bufIndex :: nat
  e_bufSize :: nat
  e_err :: "go_error option"

definition nonce_fromReader :: "'q rd \<Rightarrow> 'q \<Rightarrow> ('q \<times> bytes \<times> go_error option) option" where
  "nonce_fromReader rnd_rd rnd =
     Option.bind (readFill rnd_rd rnd fileNonceSize) (\<lambda>(rnd', bs, err).
       if length bs \<noteq> fileNonceSize
       then Some (rnd', bs, Some (case err of Some e \<Rightarrow> ErrWrap ''short read of nonce'' e
                                  | None \<Rightarrow> ErrText ''short read of nonce: %!w(<nil>)''))
       else Some (rnd', bs, None))"

definition newEncrypter ::
  "'q rd \<Rightarrow> 'q \<Rightarrow> cipher \<Rightarrow> 'r \<Rightarrow> bytes option \<Rightarrow> ('q \<times> (go_error + 'r encrypter)) option" where
  "newEncrypter rnd_rd rnd c inp nonce =
     (let fh = (\<lambda>n. \<lparr>e_in = inp, e_c = c, e_nonce = n, e_buf = Some (fileMagic @ n),
                     e_bufIndex = 0, e_bufSize = fileHeaderSize, e_err = None\<rparr>)
      in case nonce of
           Some n \<Rightarrow> Some (rnd, Inr (fh n))
         | None \<Rightarrow> Option.bind (nonce_fromReader rnd_rd rnd) (\<lambda>(rnd', n, err).
             Some (rnd', case err of Some e \<Rightarrow> Inl e | None \<Rightarrow> Inr (fh n))))"

definition EncryptData :: "'q rd \<Rightarrow> 'q \<Rightarrow> cipher \<Rightarrow> 'r \<Rightarrow> ('q \<times> (go_error + 'r encrypter)) option" where
  "EncryptData rnd_rd rnd c inp = newEncrypter rnd_rd rnd c inp None"

definition enc_finish :: "'r encrypter \<Rightarrow> go_error option \<Rightarrow> 'r encrypter \<times> bytes \<times> go_error option" where
  "enc_finish fh err =
     (if e_err fh \<noteq> None then (fh, [], e_err fh)
      else (fh\<lparr>e_err := err, e_buf := None\<rparr>, [], err))"

text \<open>The tail of \<open>Read\<close>: copy what is left of the buffer into \<open>p\<close>.\<close>

definition enc_emit :: "'r encrypter \<Rightarrow> nat \<Rightarrow> 'r encrypter io_result" where
  "enc_emit fh k =
     Option.bind (e_buf fh) (\<lambda>b.
       let bs = take k (drop (e_bufIndex fh) (take (e_bufSize fh) b))
       in Some (fh\<lparr>e_bufIndex := e_bufIndex fh + length bs\<rparr>, bs, None))"

definition enc_Read ::
  "(bytes \<Rightarrow> bytes \<Rightarrow> bytes \<Rightarrow> bytes) \<Rightarrow> 'r rd \<Rightarrow> 'r encrypter \<Rightarrow> nat \<Rightarrow> 'r encrypter io_result" where
  "enc_Read seal rd fh k =
     (if e_err fh \<noteq> None then Some (fh, [], e_err fh)
      else if e_bufIndex fh \<ge> e_bufSize fh then
        Option.bind (readFill rd (e_in fh) blockDataSize) (\<lambda>(inp, data, err).
          let fh1 = fh\<lparr>e_in := inp\<rparr> in
          if data = [] then Some (enc_finish fh1 err)
          else enc_emit (fh1\<lparr>e_buf := Some (seal (dataKey (e_c fh)) (e_nonce fh) data),
                             e_bufIndex := 0, e_bufSize := blockHeaderSize + length data,
                             e_nonce := increment (e_nonce fh)\<rparr>) k)
      else enc_emit fh k)"

definition enc_Close :: "'r encrypter \<Rightarrow> go_error option" where
  "enc_Close fh = None"

text \<open>
  The documented behaviour of secretbox: the box is 16 bytes longer than the message, opening
  a box under its key and nonce gives the message back, and what opens has that length.
\<close>

definition secretbox_ok :: "(bytes \<Rightarrow> bytes \<Rightarrow> bytes \<Rightarrow> bytes) \<Rightarrow> (bytes \<Rightarrow> bytes \<Rightarrow> bytes \<Rightarrow> bytes option) \<Rightarrow> bool" where
  "secretbox_ok seal opn \<longleftrightarrow>
     (\<forall>key n m. length (seal key n m) = 16 + length m \<and> opn key n (seal key n m) = Some m) \<and>
     (\<forall>key n c m. opn key n c = Some m \<longrightarrow> length c = 16 + length m)"

text \<open>The abstract file body: one box per 64 KiB block, nonces counting up.\<close>

function enc_blocks :: "(bytes \<Rightarrow> bytes \<Rightarrow> bytes \<Rightarrow> bytes) \<Rightarrow> bytes \<Rightarrow> bytes \<Rightarrow> bytes \<Rightarrow> bytes" where
  "enc_blocks seal key n pt =
     (if pt = [] then []
      else seal key n (take blockDataSize pt) @ enc_blocks seal key (increment n) (drop blockDataSize pt))"
  by pat_completeness auto
termination
  by (relation "measure (\<lambda>(seal, key, n, pt). length pt)") auto

declare enc_blocks.simps [simp del]

lemma enc_blocks_Nil [simp]: "enc_blocks seal key n [] = []"
  by (subst enc_blocks.simps) simp

lemma enc_blocks_step:
  "pt \<noteq> [] \<Longrightarrow> enc_blocks seal key n pt =
     seal key n (take blockDataSize pt) @ enc_blocks seal key (increment n) (drop blockDataSize pt)"
  by (subst enc_blocks.simps) simp

definition enc_rest :: "(bytes \<Rightarrow> bytes \<Rightarrow> bytes \<Rightarrow> bytes) \<Rightarrow> ('r \<Rightarrow> bytes) \<Rightarrow> 'r encrypter \<Rightarrow> bytes" where
  "enc_rest seal rest fh =
     (case e_err fh of Some _ \<Rightarrow> []
      | None \<Rightarrow> (case e_buf fh of None \<Rightarrow> [] | Some b \<Rightarrow> drop (e_bufIndex fh) (take (e_bufSize fh) b)) @
                enc_blocks seal (dataKey (e_c fh)) (e_nonce fh) (rest (e_in fh)))"

definition enc_ok :: "('r \<Rightarrow> bool) \<Rightarrow> 'r encrypter \<Rightarrow> bool" where
  "enc_ok ok fh \<longleftrightarrow>
     (case e_err fh of Some e \<Rightarrow> e = EOF
      | None \<Rightarrow> ok (e_in fh) \<and> (case e_buf fh of None \<Rightarrow> False
                 | Some b \<Rightarrow> e_bufSize fh = length b \<and> e_bufIndex fh \<le> length b))"

lemma enc_emit_spec:
  assumes "e_err fh = None" "ok (e_in fh)" "e_buf fh = Some b" "e_bufSize fh = length b" "e_bufIndex fh \<le> length b"
  shows "\<exists>fh' bs. enc_emit fh k = Some (fh', bs, None) \<and> enc_ok ok fh' \<and>
    enc_rest seal rest fh = bs @ enc_rest seal rest fh' \<and> length bs \<le> k \<and>
    (0 < k \<longrightarrow> e_bufIndex fh < length b \<longrightarrow> bs \<noteq> [])"
proof -
  define bs where "bs = take k (drop (e_bufIndex fh) b)"
  define fh' where "fh' = fh\<lparr>e_bufIndex := e_bufIndex fh + length bs\<rparr>"
  have "enc_emit fh k = Some (fh', bs, None)"
    using assms by (simp add: enc_emit_def Let_def bs_def fh'_def)
  moreover have "enc_ok ok fh'" using assms by (auto simp: enc_ok_def fh'_def bs_def min_def)
  moreover have "drop (e_bufIndex fh) b = bs @ drop (e_bufIndex fh') b"
    using copy_advance [of k "e_bufIndex fh" b] by (simp add: bs_def fh'_def)
  then have "enc_rest seal rest fh = bs @ enc_rest seal rest fh'"
    using assms by (simp add: enc_rest_def fh'_def)
  moreover have "length bs \<le> k" "0 < k \<longrightarrow> e_bufIndex fh < length b \<longrightarrow> bs \<noteq> []"
    by (auto simp: bs_def)
  ultimately show ?thesis by blast
qed

lemma enc_Read_spec:
  assumes rdr: "io_reader rd rest ok rank" and box: "secretbox_ok seal opn" and fh: "enc_ok ok fh"
  shows "\<exists>fh' bs e. enc_Read seal rd fh k = Some (fh', bs, e) \<and> enc_ok ok fh' \<and>
    enc_rest seal rest fh = bs @ enc_rest seal rest fh' \<and> length bs \<le> k \<and>
    (e = None \<or> e = Some EOF \<and> enc_rest seal rest fh' = []) \<and> (0 < k \<longrightarrow> bs = [] \<longrightarrow> e \<noteq> None)"
proof (cases "e_err fh")
  case (Some e)
  with fh show ?thesis by (auto simp: enc_Read_def enc_ok_def enc_rest_def)
next
  case None
  with fh obtain b where b: "e_buf fh = Some b" "e_bufSize fh = length b" "e_bufIndex fh \<le> length b"
    and inp: "ok (e_in fh)" by (auto simp: enc_ok_def split: option.splits)
  show ?thesis
  proof (cases "e_bufIndex fh < length b")
    case True
    with enc_emit_spec [where ok = ok and k = k and seal = seal and rest = rest, OF None inp b] None b
    show ?thesis by (fastforce simp: enc_Read_def)
  next
    case False
    from io_reader.readFill_spec [OF rdr inp, of blockDataSize] obtain inp' e where
      fill: "readFill rd (e_in fh) blockDataSize = Some (inp', take blockDataSize (rest (e_in fh)), e)"
      and inp': "ok inp'" "rest inp' = drop blockDataSize (rest (e_in fh))"
      and e: "length (rest (e_in fh)) < blockDataSize \<longrightarrow> e = Some EOF" by blast
    show ?thesis
    proof (cases "rest (e_in fh) = []")
      case True
      with fill e False None b show ?thesis
        by (auto simp: enc_Read_def enc_finish_def enc_ok_def enc_rest_def)
    next
      case data: False
      define d where "d = take blockDataSize (rest (e_in fh))"
      define fh1 where "fh1 = fh\<lparr>e_in := inp', e_buf := Some (seal (dataKey (e_c fh)) (e_nonce fh) d),
        e_bufIndex := 0, e_bufSize := blockHeaderSize + length d, e_nonce := increment (e_nonce fh)\<rparr>"
      have len: "length (seal (dataKey (e_c fh)) (e_nonce fh) d) = 16 + length d"
        using box by (simp add: secretbox_ok_def)
      have read: "enc_Read seal rd fh k = enc_emit fh1 k"
        using fill data False None b by (simp add: enc_Read_def fh1_def d_def)
      have "enc_rest seal rest fh = enc_rest seal rest fh1"
        using None b False data len inp'
        by (simp add: enc_rest_def fh1_def enc_blocks_step d_def del: blockDataSize_def)
      moreover have "\<exists>fh' bs. enc_emit fh1 k = Some (fh', bs, None) \<and> enc_ok ok fh' \<and>
          enc_rest seal rest fh1 = bs @ enc_rest seal rest fh' \<and> length bs \<le> k \<and> (0 < k \<longrightarrow> bs \<noteq> [])"
        using enc_emit_spec [of fh1 ok "seal (dataKey (e_c fh)) (e_nonce fh) d" k seal rest] None inp' len
        by (auto simp: fh1_def)
      ultimately show ?thesis unfolding read by fastforce
    qed
  qed
qed

lemma enc_io_reader:
  "io_reader rd rest ok rank \<Longrightarrow> secretbox_ok seal opn \<Longrightarrow>
     io_reader (enc_Read seal rd) (enc_rest seal rest) (enc_ok ok) (\<lambda>_. 0 :: nat)"
  by (rule io_readerI) (use enc_Read_spec in fastforce)

lemma length_enc_blocks:
  assumes "\<And>key n m. length (seal key n m) = 16 + length m"
  shows "length (enc_blocks seal key n pt) =
    length pt div blockDataSize * blockSize +
    (if length pt mod blockDataSize = 0 then 0 else blockHeaderSize + length pt mod blockDataSize)"
proof (induction pt arbitrary: n rule: length_induct)
  case (1 pt)
  show ?case
  proof (cases "pt = []")
    case False
    define tl where "tl = drop blockDataSize pt"
    have "length (enc_blocks seal key n pt) =
        16 + min (length pt) 65536 + length (enc_blocks seal key (increment n) tl)"
      using False assms by (simp add: enc_blocks_step tl_def del: blockDataSize_def) simp
    moreover have "length (enc_blocks seal key (increment n) tl) = length tl div 65536 * 65552 +
        (if length tl mod 65536 = 0 then 0 else 16 + length tl mod 65536)"
      using 1 False by (simp add: tl_def)
    ultimately show ?thesis
      using False by (cases "length pt < 65536") (auto simp: tl_def le_div_geq le_mod_geq)
  qed simp
qed

lemma enc_blocks_short:
  "pt \<noteq> [] \<Longrightarrow> length pt \<le> blockDataSize \<Longrightarrow> enc_blocks seal key n pt = seal key n pt"
  by (simp add: enc_blocks_step del: blockDataSize_def)

lemma enc_blocks_take:
  assumes len: "\<And>key n m. length (seal key n m) = 16 + length m"
  shows "take (j * blockSize) (enc_blocks seal key n pt) = enc_blocks seal key n (take (j * blockDataSize) pt)"
proof (induction j arbitrary: n pt)
  case (Suc j)
  show ?case
  proof (cases "length pt \<le> blockDataSize")
    case True
    then have "take (Suc j * blockDataSize) pt = pt" and "length pt \<le> 65536" by simp_all
    with True len show ?thesis by (cases "pt = []") (simp_all add: enc_blocks_short)
  next
    case False
    then have ne: "pt \<noteq> []" "take (Suc j * blockDataSize) pt \<noteq> []" by auto
    have "length (seal key n (take blockDataSize pt)) = blockSize" using False len by simp
    then have "take (Suc j * blockSize) (enc_blocks seal key n pt) = seal key n (take blockDataSize pt) @
        enc_blocks seal key (increment n) (take (j * blockDataSize) (drop blockDataSize pt))"
      unfolding enc_blocks_step [OF ne(1)] by (simp add: Suc.IH del: blockDataSize_def blockSize_def)
    also have "\<dots> = enc_blocks seal key n (take (Suc j * blockDataSize) pt)"
      unfolding enc_blocks_step [OF ne(2)] by (simp add: drop_take del: blockDataSize_def)
    finally show ?thesis .
  qed
qed simp

lemma enc_blocks_drop:
  assumes len: "\<And>key n m. length (seal key n m) = 16 + length m"
  shows "drop (j * blockSize) (enc_blocks seal key n pt) =
    enc_blocks seal key ((increment ^^ j) n) (drop (j * blockDataSize) pt)"
proof (induction j arbitrary: n pt)
  case (Suc j)
  show ?case
  proof (cases "length pt \<le> blockDataSize")
    case True
    then have "drop (Suc j * blockDataSize) pt = []" and "length pt \<le> 65536" by simp_all
    with True len show ?thesis by (cases "pt = []") (simp_all add: enc_blocks_short)
  next
    case False
    then have ne: "pt \<noteq> []" by auto
    have "length (seal key n (take blockDataSize pt)) = blockSize" using False len by simp
    then have "drop (Suc j * blockSize) (enc_blocks seal key n pt) =
        drop (j * blockSize) (enc_blocks seal key (increment n) (drop blockDataSize pt))"
      unfolding enc_blocks_step [OF ne] by (simp del: blockDataSize_def blockSize_def)
    then show ?thesis
      by (simp add: Suc.IH add.commute funpow_swap1 del: blockDataSize_def blockSize_def)
  qed
qed simp

lemma EncryptedSize_length:
  assumes "\<And>key n m. length (seal key n m) = 16 + length m" "int (length pt) < max_plain"
  shows "EncryptedSize (int (length pt)) = int (fileHeaderSize + length (enc_blocks seal key n pt))"
proof -
  have "int (length pt) div 65536 = int (length pt div 65536)" "int (length pt) mod 65536 = int (length pt mod 65536)"
    by (simp_all add: zdiv_int zmod_int)
  with assms(2) show ?thesis
    by (simp add: EncryptedSize_eq length_enc_blocks [OF assms(1)] del: max_plain_def)
qed

lemma EncryptData_spec:
  assumes rdr: "io_reader rd rest ok rank" and inp: "ok inp"
    and rnd: "io_reader rnd_rd rrest rok rrank" "rok rnd" "fileNonceSize \<le> length (rrest rnd)"
    and box: "secretbox_ok seal opn" and k: "0 < k"
  shows "\<exists>rnd' fh fh'. EncryptData rnd_rd rnd c inp = Some (rnd', Inr fh) \<and>
    readAll (enc_Read seal rd) k fh =
      Some (fh', fileMagic @ take fileNonceSize (rrest rnd) @
                 enc_blocks seal (dataKey c) (take fileNonceSize (rrest rnd)) (rest inp), Some EOF)"
proof -
  define n where "n = take fileNonceSize (rrest rnd)"
  have len: "length n = 24" using rnd(3) by (simp add: n_def)
  from io_reader.readFill_spec [OF rnd(1,2), of fileNonceSize] obtain rnd' e where
    fill: "readFill rnd_rd rnd fileNonceSize = Some (rnd', n, e)" unfolding n_def by blast
  define fh where "fh = \<lparr>e_in = inp, e_c = c, e_nonce = n, e_buf = Some (fileMagic @ n),
    e_bufIndex = 0, e_bufSize = fileHeaderSize, e_err = None\<rparr>"
  have new: "EncryptData rnd_rd rnd c inp = Some (rnd', Inr fh)"
    using fill len by (simp add: EncryptData_def newEncrypter_def nonce_fromReader_def fh_def)
  have ok: "enc_ok ok fh" using inp len by (simp add: enc_ok_def fh_def)
  have rest: "enc_rest seal rest fh = fileMagic @ n @ enc_blocks seal (dataKey c) n (rest inp)"
    using len by (simp add: enc_rest_def fh_def)
  from io_reader.readAll_spec [OF enc_io_reader [OF rdr box] ok k] new rest show ?thesis
    unfolding n_def [symmetric] by metis
qed

subsection \<open>Properties\<close>

text \<open>
  \<open>DecryptedSize\<close> undoes \<open>EncryptedSize\<close>: for every size below \<open>2 ^ 62\<close> the size of the
  ciphertext determines the size of the plaintext, without error and without wrap-around.\<close>

lemma size_roundtrip:
  assumes "0 \<le> sz" "sz < 2 ^ 62"
  shows "DecryptedSize (EncryptedSize sz) = (sz, None)"
  using assms DecryptedSize_EncryptedSize by simp

lemma size_roundtrip_witness:
  "EncryptedSize 65537 = 65603 \<and> DecryptedSize (EncryptedSize 65537) = (65537, None)"
  using size_roundtrip [of 65537] by (simp add: EncryptedSize_eq)

text \<open>
  Adding \<open>x\<close> to a nonce is the same as incrementing it \<open>x\<close> times, so a seek to block \<open>x\<close>
  uses the nonce the writer used there.\<close>

lemma nonce_add_is_increments:
  assumes "length n = fileNonceSize"
  shows "add n x = (increment ^^ unat x) n"
  using assms by (intro add_eq_increment_pow) simp

lemma nonce_add_is_increments_witness:
  "length (replicate 24 (255 :: byte)) = fileNonceSize \<and>
   add (replicate 24 255) 2 = (increment ^^ 2) (replicate 24 255)"
  using nonce_add_is_increments [of "replicate 24 255" 2] by simp

text \<open>
  The block range of a seek covers the requested bytes and is as short as possible: it starts
  at the block of the offset, skips less than a block, reaches the end of the range, and with one
  block less it would not (unless it is one block).\<close>

lemma calculateUnderlying_covers:
  assumes "0 \<le> offset" "offset < 2 ^ 62" "0 \<le> limit" "limit < 2 ^ 62"
  shows "\<exists>J. calculateUnderlying offset limit =
      (34 + offset div 65536 * 65552, J * 65552, offset mod 65536, offset div 65536) \<and>
    1 \<le> J \<and> offset mod 65536 + limit \<le> J * 65536 \<and>
    (J = 1 \<or> (J - 1) * 65536 < offset mod 65536 + limit)"
proof -
  from calculateUnderlying_spec [of offset limit] assms obtain J where "1 \<le> J"
    "calculateUnderlying offset limit =
      (34 + offset div 65536 * 65552, J * 65552, offset mod 65536, offset div 65536)"
    "offset mod 65536 + limit \<le> J * 65536" "J = 1 \<or> (J - 1) * 65536 < offset mod 65536 + limit"
    by (metis max_plain_def)
  then show ?thesis by blast
qed

lemma calculateUnderlying_covers_witness:
  "\<exists>J. calculateUnderlying 70000 65536 =
      (34 + 70000 div 65536 * 65552, J * 65552, 70000 mod 65536, 70000 div 65536) \<and>
    1 \<le> J \<and> 70000 mod 65536 + 65536 \<le> J * 65536 \<and>
    (J = 1 \<or> (J - 1) * 65536 < 70000 mod 65536 + 65536)"
  using calculateUnderlying_covers [of 70000 65536] by simp

text \<open>
  Reading an encrypter to its end, with any buffer size, gives the magic string, the nonce
  drawn from the random source and one box per 64 KiB block under increasing nonces, and the
  number of bytes is the one \<open>EncryptedSize\<close> announces.\<close>

lemma encrypter_output:
  assumes "io_reader rd rest ok rank" "ok inp"
    and "io_reader rnd_rd rrest rok rrank" "rok rnd" "fileNonceSize \<le> length (rrest rnd)"
    and "secretbox_ok seal opn" "0 < k" "int (length (rest inp)) < 2 ^ 62"
  shows "\<exists>rnd' fh fh' out. EncryptData rnd_rd rnd c inp = Some (rnd', Inr fh) \<and>
    readAll (enc_Read seal rd) k fh = Some (fh', out, Some EOF) \<and>
    out = fileMagic @ take fileNonceSize (rrest rnd) @
      enc_blocks seal (dataKey c) (take fileNonceSize (rrest rnd)) (rest inp) \<and>
    int (length out) = EncryptedSize (int (length (rest inp)))"
proof -
  have len: "\<And>key n m. length (seal key n m) = 16 + length m" using assms(6) by (simp add: secretbox_ok_def)
  have "length (take fileNonceSize (rrest rnd)) = 24" using assms(5) by simp
  moreover have "EncryptedSize (int (length (rest inp))) = int (fileHeaderSize +
      length (enc_blocks seal (dataKey c) (take fileNonceSize (rrest rnd)) (rest inp)))"
    using len assms(8) by (intro EncryptedSize_length) simp_all
  ultimately show ?thesis using EncryptData_spec [OF assms(1-7), of c] by fastforce
qed

definition toy_seal :: "bytes \<Rightarrow> bytes \<Rightarrow> bytes \<Rightarrow> bytes" where
  "toy_seal key n m = replicate 16 0 @ m"

definition toy_open :: "bytes \<Rightarrow> bytes \<Rightarrow> bytes \<Rightarrow> bytes option" where
  "toy_open key n c = (if length c < 16 then None else Some (drop 16 c))"

lemma toy_box: "secretbox_ok toy_seal toy_open"
  by (auto simp: secretbox_ok_def toy_seal_def toy_open_def split: if_splits)

lemma encrypter_output_witness:
  "\<exists>rnd' fh fh' out. EncryptData bytes_Read (replicate 24 7) zero_cipher [1, 2, 3] = Some (rnd', Inr fh) \<and>
    readAll (enc_Read toy_seal bytes_Read) 5 fh = Some (fh', out, Some EOF) \<and>
    out = fileMagic @ take fileNonceSize (replicate 24 7) @
      enc_blocks toy_seal (dataKey zero_cipher) (take fileNonceSize (replicate 24 7)) [1, 2, 3] \<and>
    int (length out) = EncryptedSize (int (length [1, 2, 3 :: byte]))"
  using encrypter_output [OF mem.io_reader_axioms TrueI mem.io_reader_axioms TrueI _ toy_box,
      of "replicate 24 7" 5 "[1, 2, 3]" zero_cipher] by simp

end
