(* ===== verification/Decrypter.thy ===== *)
theory Decrypter
  imports Cipher
begin

section \<open>The decrypting reader (internal/crypt/cipher.go)\<close>

text \<open>
  The decrypter: header check, block by block decryption, limits and range seeks. Its
  contract as a reader (\<open>dec_io_reader\<close>) holds for every \<open>opn\<close>; with the law of secretbox
  it delivers the plaintext, from any offset and up to any limit.
\<close>

subsection \<open>The decrypting reader\<close>

text \<open>
  \<open>d_open\<close> is the \<^verbatim>\<open>OpenRangeSeek\<close> callback (nil for \<open>DecryptData\<close>): it opens the
  ciphertext at an offset with a limit. The contexts are not modelled: they only cancel.
\<close>

record 'r decrypter =
  d_rc :: "'r option"
  d_nonce :: bytes
  d_initialNonce :: bytes
  d_c :: cipher
  d_buf :: "bytes option"
  d_bufIndex :: nat
  d_bufSize :: nat
  d_err :: "go_error option"
  d_limit :: int
  d_open :: "(int \<Rightarrow> int \<Rightarrow> (go_error + 'r) option) option"

definition nonce_fromBuf :: "bytes \<Rightarrow> go_error + bytes" where
  "nonce_fromBuf buf =
     (let n = take fileNonceSize buf
      in if length n \<noteq> fileNonceSize then Inl (ErrText ''buffer to short to read nonce'') else Inr n)"

definition dec_finish :: "'r decrypter \<Rightarrow> go_error \<Rightarrow> 'r decrypter \<times> go_error" where
  "dec_finish fh err =
     (case d_err fh of Some e \<Rightarrow> (fh, e) | None \<Rightarrow> (fh\<lparr>d_err := Some err, d_buf := None\<rparr>, err))"

definition dec_unFinish :: "'r decrypter \<Rightarrow> 'r decrypter" where
  "dec_unFinish fh = fh\<lparr>d_err := None, d_buf := Some [], d_bufIndex := 0, d_bufSize := 0\<rparr>"

definition dec_Close :: "('r \<Rightarrow> 'r \<times> go_error option) \<Rightarrow> 'r decrypter \<Rightarrow> 'r decrypter \<times> go_error option" where
  "dec_Close cl fh =
     (if d_err fh = Some ErrorFileClosed then (fh, d_err fh)
      else let fh1 = (if d_err fh = None then fst (dec_finish fh EOF) else fh);
               fh2 = fh1\<lparr>d_err := Some ErrorFileClosed\<rparr>
           in case d_rc fh2 of
                None \<Rightarrow> (fh2, None)
              | Some rc \<Rightarrow> (case cl rc of (rc', e) \<Rightarrow> (fh2\<lparr>d_rc := Some rc'\<rparr>, e)))"

definition dec_finishAndClose ::
  "('r \<Rightarrow> 'r \<times> go_error option) \<Rightarrow> 'r decrypter \<Rightarrow> go_error \<Rightarrow> 'r decrypter \<times> go_error" where
  "dec_finishAndClose cl fh err = (fst (dec_Close cl (fst (dec_finish fh err))), err)"

definition newDecrypter ::
  "'r rd \<Rightarrow> ('r \<Rightarrow> 'r \<times> go_error option) \<Rightarrow> cipher \<Rightarrow> 'r \<Rightarrow> (go_error + 'r decrypter) option" where
  "newDecrypter rd cl c rc =
     (let fh = \<lparr>d_rc = Some rc, d_nonce = replicate fileNonceSize 0, d_initialNonce = replicate fileNonceSize 0,
                d_c = c, d_buf = Some [], d_bufIndex = 0, d_bufSize = 0, d_err = None, d_limit = -1,
                d_open = None\<rparr>
      in Option.bind (readFill rd rc fileHeaderSize) (\<lambda>(rc', hdr, err).
        let fh = fh\<lparr>d_rc := Some rc'\<rparr> in
        Some (if length hdr < fileHeaderSize \<and> err = Some EOF
              then Inl (snd (dec_finishAndClose cl fh ErrorEncryptedFileTooShort))
              else case (if err = Some EOF then None else err) of
                Some e \<Rightarrow> Inl (snd (dec_finishAndClose cl fh e))
              | None \<Rightarrow> if take fileMagicSize hdr \<noteq> fileMagic
                       then Inl (snd (dec_finishAndClose cl fh ErrorEncryptedBadMagic))
                       else (case nonce_fromBuf (drop fileMagicSize hdr) of
                               Inl ne \<Rightarrow> Inl ne
                             | Inr n \<Rightarrow> Inr (fh\<lparr>d_nonce := n, d_initialNonce := n\<rparr>)))))"

text \<open>A box that does not open is not an error: the block is delivered as zero bytes.\<close>

definition dec_fillBuffer ::
  "(bytes \<Rightarrow> bytes \<Rightarrow> bytes \<Rightarrow> bytes option) \<Rightarrow> 'r rd \<Rightarrow> 'r decrypter \<Rightarrow> ('r decrypter \<times> go_error option) option" where
  "dec_fillBuffer opn rd fh =
     Option.bind (d_rc fh) (\<lambda>rc. Option.bind (d_buf fh) (\<lambda>_.
     Option.bind (readFill rd rc blockSize) (\<lambda>(rc', data, err).
       let fh = fh\<lparr>d_rc := Some rc'\<rparr>;
           n = length data;
           filled = (\<lambda>m. fh\<lparr>d_buf := Some m, d_bufIndex := 0, d_bufSize := n - blockHeaderSize,
                            d_nonce := increment (d_nonce fh)\<rparr>)
       in if n = 0 then Some (fh, err)
          else if n \<le> blockHeaderSize
          then Some (fh, if err \<noteq> None \<and> err \<noteq> Some EOF then err else Some ErrorEncryptedFileBadHeader)
          else case opn (dataKey (d_c fh)) (d_nonce fh) data of
                 Some m \<Rightarrow> Some (filled m, None)
               | None \<Rightarrow> if err \<noteq> None \<and> err \<noteq> Some EOF then Some (fh, err)
                         else Some (filled (replicate n 0), None))))"

definition dec_emit :: "'r decrypter \<Rightarrow> nat \<Rightarrow> 'r decrypter io_result" where
  "dec_emit fh k =
     Option.bind (d_buf fh) (\<lambda>b.
       let toCopy = d_bufSize fh - d_bufIndex fh;
           toCopy' = (if 0 \<le> d_limit fh \<and> d_limit fh < int toCopy then nat (d_limit fh) else toCopy);
           bs = take k (take toCopy' (drop (d_bufIndex fh) b));
           fh1 = fh\<lparr>d_bufIndex := d_bufIndex fh + length bs\<rparr>
       in if d_limit fh \<ge> 0
          then let fh2 = fh1\<lparr>d_limit := d_limit fh - int (length bs)\<rparr>
               in if d_limit fh2 = 0
                  then (case dec_finish fh2 EOF of (fh3, e) \<Rightarrow> Some (fh3, bs, Some e))
                  else Some (fh2, bs, None)
          else Some (fh1, bs, None))"

definition dec_Read ::
  "(bytes \<Rightarrow> bytes \<Rightarrow> bytes \<Rightarrow> bytes option) \<Rightarrow> 'r rd \<Rightarrow> 'r decrypter \<Rightarrow> nat \<Rightarrow> 'r decrypter io_result" where
  "dec_Read opn rd fh k =
     (if d_err fh \<noteq> None then Some (fh, [], d_err fh)
      else if d_bufIndex fh \<ge> d_bufSize fh then
        Option.bind (dec_fillBuffer opn rd fh) (\<lambda>(fh1, err).
          case err of
            Some e \<Rightarrow> (case dec_finish fh1 e of (fh2, e2) \<Rightarrow> Some (fh2, [], Some e2))
          | None \<Rightarrow> dec_emit fh1 k)
      else dec_emit fh k)"

text \<open>The steps of \<open>RangeSeek\<close> after its checks: reposition, reopen, fill, skip.\<close>

definition dec_reposition ::
  "(bytes \<Rightarrow> bytes \<Rightarrow> bytes \<Rightarrow> bytes option) \<Rightarrow> 'r rd \<Rightarrow> (int \<Rightarrow> int \<Rightarrow> (go_error + 'r) option) \<Rightarrow>
   'r decrypter \<Rightarrow> int \<Rightarrow> int \<Rightarrow> ('r decrypter \<times> int \<times> go_error option) option" where
  "dec_reposition opn rd reopen fh offset limit =
     (case calculateUnderlying offset limit of (underlyingOffset, underlyingLimit, discard, blocks) \<Rightarrow>
      let fail = (\<lambda>fh e. case dec_finish fh e of (fh', e') \<Rightarrow> Some (fh', 0, Some e'));
          fh1 = fh\<lparr>d_nonce := add (d_initialNonce fh) (word_of_int blocks)\<rparr>
      in Option.bind (reopen underlyingOffset underlyingLimit) (\<lambda>res.
           case res of
             Inl e \<Rightarrow> fail fh1 (ErrWrap (''couldn'' @ CHR 0x27 # ''t reopen file with offset and limit'') e)
           | Inr rc \<Rightarrow> Option.bind (dec_fillBuffer opn rd (fh1\<lparr>d_rc := Some rc\<rparr>)) (\<lambda>(fh2, err).
               case err of
                 Some e \<Rightarrow> fail fh2 e
               | None \<Rightarrow> if discard > int (d_bufSize fh2) then fail fh2 ErrorBadSeek
                         else Some (fh2\<lparr>d_bufIndex := nat discard, d_limit := limit\<rparr>, offset, None))))"

definition dec_RangeSeek ::
  "(bytes \<Rightarrow> bytes \<Rightarrow> bytes \<Rightarrow> bytes option) \<Rightarrow> 'r rd \<Rightarrow> 'r decrypter \<Rightarrow> int \<Rightarrow> int \<Rightarrow> int \<Rightarrow>
   ('r decrypter \<times> int \<times> go_error option) option" where
  "dec_RangeSeek opn rd fh offset whence limit =
     (let fail = (\<lambda>e. case dec_finish fh e of (fh', e') \<Rightarrow> Some (fh', 0, Some e')) in
      case d_open fh of
        None \<Rightarrow> fail (ErrText (''can'' @ CHR 0x27 # ''t seek - not initialised with newDecrypterSeek''))
      | Some reopen \<Rightarrow>
          if whence \<noteq> 0 then fail (ErrText ''can only seek from the start'')
          else if d_err fh = Some EOF then dec_reposition opn rd reopen (dec_unFinish fh) offset limit
          else if d_err fh \<noteq> None then Some (fh, 0, d_err fh)
          else dec_reposition opn rd reopen fh offset limit)"

definition dec_Seek ::
  "(bytes \<Rightarrow> bytes \<Rightarrow> bytes \<Rightarrow> bytes option) \<Rightarrow> 'r rd \<Rightarrow> 'r decrypter \<Rightarrow> int \<Rightarrow> int \<Rightarrow>
   ('r decrypter \<times> int \<times> go_error option) option" where
  "dec_Seek opn rd fh offset whence = dec_RangeSeek opn rd fh offset whence (-1)"

definition newDecrypterSeek ::
  "(bytes \<Rightarrow> bytes \<Rightarrow> bytes \<Rightarrow> bytes option) \<Rightarrow> 'r rd \<Rightarrow> ('r \<Rightarrow> 'r \<times> go_error option) \<Rightarrow> cipher \<Rightarrow>
   (int \<Rightarrow> int \<Rightarrow> (go_error + 'r) option) \<Rightarrow> int \<Rightarrow> int \<Rightarrow> (go_error + 'r decrypter) option" where
  "newDecrypterSeek opn rd cl c opener offset limit =
     (let doRangeSeek = (offset \<noteq> 0);
          setLimit = (offset = 0 \<and> \<not> limit < 0);
          underlyingLimit = fst (snd (calculateUnderlying offset limit))
      in Option.bind
           (if offset = 0 \<and> limit < 0 then opener 0 (-1)
            else if offset = 0 then opener 0 (i64 (int fileHeaderSize + underlyingLimit))
            else opener 0 (int fileHeaderSize)) (\<lambda>res.
         case res of
           Inl e \<Rightarrow> Some (Inl e)
         | Inr rc \<Rightarrow> Option.bind (newDecrypter rd cl c rc) (\<lambda>res2.
             case res2 of
               Inl e \<Rightarrow> Some (Inl e)
             | Inr fh0 \<Rightarrow>
                 let fh = fh0\<lparr>d_open := Some opener\<rparr> in
                 if doRangeSeek
                 then Option.bind (dec_RangeSeek opn rd fh offset 0 limit) (\<lambda>(fh1, _, err).
                        Some (case err of Some e \<Rightarrow> Inl e | None \<Rightarrow> Inr fh1))
                 else Some (Inr (if setLimit then fh\<lparr>d_limit := limit\<rparr> else fh)))))"

definition DecryptData ::
  "'r rd \<Rightarrow> ('r \<Rightarrow> 'r \<times> go_error option) \<Rightarrow> cipher \<Rightarrow> 'r \<Rightarrow> (go_error + 'r decrypter) option" where
  "DecryptData rd cl c rc = newDecrypter rd cl c rc"

definition DecryptDataSeek ::
  "(bytes \<Rightarrow> bytes \<Rightarrow> bytes \<Rightarrow> bytes option) \<Rightarrow> 'r rd \<Rightarrow> ('r \<Rightarrow> 'r \<times> go_error option) \<Rightarrow> cipher \<Rightarrow>
   (int \<Rightarrow> int \<Rightarrow> (go_error + 'r) option) \<Rightarrow> int \<Rightarrow> int \<Rightarrow> (go_error + 'r decrypter) option" where
  "DecryptDataSeek opn rd cl c opener offset limit = newDecrypterSeek opn rd cl c opener offset limit"

subsection \<open>What a decrypter still delivers\<close>

definition open_block :: "(bytes \<Rightarrow> bytes \<Rightarrow> bytes \<Rightarrow> bytes option) \<Rightarrow> bytes \<Rightarrow> bytes \<Rightarrow> bytes \<Rightarrow> bytes" where
  "open_block opn key n c = (case opn key n c of Some m \<Rightarrow> m | None \<Rightarrow> replicate (length c - 16) 0)"

function dec_blocks :: "(bytes \<Rightarrow> bytes \<Rightarrow> bytes \<Rightarrow> bytes option) \<Rightarrow> bytes \<Rightarrow> bytes \<Rightarrow> bytes \<Rightarrow> bytes" where
  "dec_blocks opn key n ct =
     (if ct = [] then []
      else open_block opn key n (take blockSize ct) @ dec_blocks opn key (increment n) (drop blockSize ct))"
  by pat_completeness auto
termination
  by (relation "measure (\<lambda>(opn, key, n, ct). length ct)") auto

declare dec_blocks.simps [simp del]

lemma dec_blocks_Nil [simp]: "dec_blocks opn key n [] = []"
  by (subst dec_blocks.simps) simp

lemma dec_blocks_step:
  "ct \<noteq> [] \<Longrightarrow> dec_blocks opn key n ct =
     open_block opn key n (take blockSize ct) @ dec_blocks opn key (increment n) (drop blockSize ct)"
  by (subst dec_blocks.simps) simp

text \<open>No truncated block header: the last block is complete or longer than its header.\<close>

definition whole_blocks :: "bytes \<Rightarrow> bool" where
  "whole_blocks ct \<longleftrightarrow> (let r = length ct mod blockSize in r = 0 \<or> blockHeaderSize < r)"

definition open_len :: "(bytes \<Rightarrow> bytes \<Rightarrow> bytes \<Rightarrow> bytes option) \<Rightarrow> bool" where
  "open_len opn \<longleftrightarrow> (\<forall>key n c m. opn key n c = Some m \<longrightarrow> length c = 16 + length m)"

lemma secretbox_open_len: "secretbox_ok seal opn \<Longrightarrow> open_len opn"
  by (simp add: secretbox_ok_def open_len_def)

definition dec_rest :: "(bytes \<Rightarrow> bytes \<Rightarrow> bytes \<Rightarrow> bytes option) \<Rightarrow> ('r \<Rightarrow> bytes) \<Rightarrow> 'r decrypter \<Rightarrow> bytes" where
  "dec_rest opn rest fh =
     (case d_err fh of Some _ \<Rightarrow> []
      | None \<Rightarrow>
          let s = (case d_buf fh of None \<Rightarrow> [] | Some b \<Rightarrow> drop (d_bufIndex fh) (take (d_bufSize fh) b)) @
                  (case d_rc fh of None \<Rightarrow> [] | Some rc \<Rightarrow> dec_blocks opn (dataKey (d_c fh)) (d_nonce fh) (rest rc))
          in if 0 \<le> d_limit fh then take (nat (d_limit fh)) s else s)"

definition dec_ok :: "('r \<Rightarrow> bytes) \<Rightarrow> ('r \<Rightarrow> bool) \<Rightarrow> 'r decrypter \<Rightarrow> bool" where
  "dec_ok rest ok fh \<longleftrightarrow>
     (case d_err fh of Some e \<Rightarrow> e = EOF
      | None \<Rightarrow> (case d_rc fh of None \<Rightarrow> False | Some rc \<Rightarrow> ok rc \<and> whole_blocks (rest rc)) \<and>
                (case d_buf fh of None \<Rightarrow> False
                 | Some b \<Rightarrow> d_bufSize fh \<le> length b \<and> d_bufIndex fh \<le> d_bufSize fh))"

lemma whole_blocks_first: "whole_blocks ct \<Longrightarrow> ct \<noteq> [] \<Longrightarrow> 16 < min (length ct) blockSize"
  by (cases "length ct < 65552") (auto simp: whole_blocks_def Let_def)

lemma whole_blocks_drop: "whole_blocks ct \<Longrightarrow> whole_blocks (drop blockSize ct)"
  by (cases "length ct < 65552") (auto simp: whole_blocks_def Let_def le_mod_geq)

lemma length_open_block: "open_len opn \<Longrightarrow> length (open_block opn key n c) = length c - 16"
  by (auto simp: open_block_def open_len_def split: option.splits)

lemma dec_fillBuffer_end:
  assumes rdr: "io_reader rd rest ok rank" and "d_rc fh = Some rc" "ok rc" "d_buf fh = Some b" "rest rc = []"
  shows "\<exists>rc'. dec_fillBuffer opn rd fh = Some (fh\<lparr>d_rc := Some rc'\<rparr>, Some EOF)"
  using io_reader.readFill_spec [OF rdr assms(3), of blockSize] assms
  by (auto simp: dec_fillBuffer_def)

lemma dec_fillBuffer_block:
  assumes rdr: "io_reader rd rest ok rank" and len: "open_len opn"
    and fh: "d_rc fh = Some rc" "ok rc" "d_buf fh = Some b" and ct: "rest rc \<noteq> []" "whole_blocks (rest rc)"
  shows "\<exists>rc' b'. dec_fillBuffer opn rd fh =
      Some (fh\<lparr>d_rc := Some rc', d_buf := Some b', d_bufIndex := 0,
               d_bufSize := length (take blockSize (rest rc)) - 16, d_nonce := increment (d_nonce fh)\<rparr>, None) \<and>
    ok rc' \<and> rest rc' = drop blockSize (rest rc) \<and>
    length (take blockSize (rest rc)) - 16 \<le> length b' \<and>
    take (length (take blockSize (rest rc)) - 16) b' =
      open_block opn (dataKey (d_c fh)) (d_nonce fh) (take blockSize (rest rc))"
proof -
  define c where "c = take blockSize (rest rc)"
  from io_reader.readFill_spec [OF rdr fh(2), of blockSize] obtain rc' e where
    fill: "readFill rd rc blockSize = Some (rc', c, e)" and rc': "ok rc'" "rest rc' = drop blockSize (rest rc)"
    and e: "e = None \<or> e = Some EOF" unfolding c_def by blast
  have c: "16 < length c" using whole_blocks_first [OF ct(2,1)] by (simp add: c_def)
  define b' where "b' = (case opn (dataKey (d_c fh)) (d_nonce fh) c of Some m \<Rightarrow> m | None \<Rightarrow> replicate (length c) 0)"
  have "dec_fillBuffer opn rd fh =
      Some (fh\<lparr>d_rc := Some rc', d_buf := Some b', d_bufIndex := 0,
               d_bufSize := length c - 16, d_nonce := increment (d_nonce fh)\<rparr>, None)"
    using fill c e fh by (auto simp: dec_fillBuffer_def b'_def Let_def split: option.splits)
  moreover have "length c - 16 \<le> length b'"
    "take (length c - 16) b' = open_block opn (dataKey (d_c fh)) (d_nonce fh) c"
    using len by (auto simp: b'_def open_block_def open_len_def split: option.splits)
  ultimately show ?thesis unfolding c_def [symmetric] using rc' by blast
qed

lemma dec_emit_spec:
  assumes fh: "d_err fh = None" "d_rc fh = Some rc" "ok rc" "whole_blocks (rest rc)"
    "d_buf fh = Some b" "d_bufSize fh \<le> length b" "d_bufIndex fh \<le> d_bufSize fh"
  shows "\<exists>fh' bs e. dec_emit fh k = Some (fh', bs, e) \<and> dec_ok rest ok fh' \<and>
    dec_rest opn rest fh = bs @ dec_rest opn rest fh' \<and> length bs \<le> k \<and>
    (e = None \<or> e = Some EOF \<and> dec_rest opn rest fh' = []) \<and>
    (0 < k \<longrightarrow> d_bufIndex fh < d_bufSize fh \<longrightarrow> bs = [] \<longrightarrow> e \<noteq> None)"
proof -
  define B where "B = drop (d_bufIndex fh) (take (d_bufSize fh) b)"
  define D where "D = dec_blocks opn (dataKey (d_c fh)) (d_nonce fh) (rest rc)"
  define n where "n = (if 0 \<le> d_limit fh then min (min k (nat (d_limit fh))) (length B) else min k (length B))"
  define fh1 where "fh1 = fh\<lparr>d_bufIndex := d_bufIndex fh + n\<rparr>"
  have lenB: "length B = d_bufSize fh - d_bufIndex fh" using fh by (simp add: B_def)
  have n: "n \<le> k" "n \<le> length B" "0 \<le> d_limit fh \<Longrightarrow> n \<le> nat (d_limit fh)" by (auto simp: n_def)
  have B1: "drop (d_bufIndex fh + n) (take (d_bufSize fh) b) = drop n B"
    by (simp add: B_def drop_drop add.commute)
  define toCopy where "toCopy = (if 0 \<le> d_limit fh \<and> d_limit fh < int (d_bufSize fh - d_bufIndex fh)
    then nat (d_limit fh) else d_bufSize fh - d_bufIndex fh)"
  have "take toCopy (drop (d_bufIndex fh) b) = take toCopy B"
    by (auto simp: B_def drop_take toCopy_def)
  moreover have "take k (take toCopy B) = take n B"
    using lenB by (auto simp: toCopy_def n_def min_def)
  ultimately have copy: "take k (take toCopy (drop (d_bufIndex fh) b)) = take n B" by simp
  have lbs: "length (take n B) = n" using n(2) by simp
  have unf: "dec_emit fh k =
      (if 0 \<le> d_limit fh
       then if d_limit fh - int n = 0
            then (case dec_finish (fh1\<lparr>d_limit := d_limit fh - int n\<rparr>) EOF of (fh3, e) \<Rightarrow> Some (fh3, take n B, Some e))
            else Some (fh1\<lparr>d_limit := d_limit fh - int n\<rparr>, take n B, None)
       else Some (fh1, take n B, None))"
    unfolding dec_emit_def fh(5) Let_def Option.bind.simps toCopy_def [symmetric] copy lbs fh1_def
    by simp
  have rest: "dec_rest opn rest fh = (if 0 \<le> d_limit fh then take (nat (d_limit fh)) (B @ D) else B @ D)"
    using fh by (simp add: dec_rest_def B_def D_def)
  show ?thesis
  proof (cases "0 \<le> d_limit fh")
    case False
    have "dec_emit fh k = Some (fh1, take n B, None)"
      using False unf by simp
    moreover have "dec_ok rest ok fh1" using fh n lenB by (auto simp: dec_ok_def fh1_def)
    moreover have "dec_rest opn rest fh1 = drop n B @ D"
      using False fh B1 by (simp add: dec_rest_def fh1_def D_def)
    ultimately show ?thesis using False rest n lenB by (auto simp: n_def)
  next
    case lim: True
    define fh2 where "fh2 = fh1\<lparr>d_limit := d_limit fh - int n\<rparr>"
    have split: "take (nat (d_limit fh)) (B @ D) = take n B @ take (nat (d_limit fh) - n) (drop n B @ D)"
      using n lim by (intro take_prefix_split) auto
    show ?thesis
    proof (cases "d_limit fh = int n")
      case True
      have "dec_emit fh k = Some (fh2\<lparr>d_err := Some EOF, d_buf := None\<rparr>, take n B, Some EOF)"
        using True fh(1) unf by (simp add: fh1_def fh2_def dec_finish_def)
      with True rest split n show ?thesis by (auto simp: dec_ok_def dec_rest_def)
    next
      case False
      have "dec_emit fh k = Some (fh2, take n B, None)"
        using False lim unf by (simp add: fh2_def)
      moreover have "dec_ok rest ok fh2" using fh n lenB by (auto simp: dec_ok_def fh1_def fh2_def)
      moreover have "dec_rest opn rest fh2 = take (nat (d_limit fh) - n) (drop n B @ D)"
        using n lim fh B1
        by (simp add: dec_rest_def Let_def fh1_def fh2_def D_def nat_diff_distrib' le_nat_iff del: take_append)
      moreover have "0 < k \<Longrightarrow> 0 < length B \<Longrightarrow> 0 < n" using False lim by (auto simp: n_def)
      ultimately show ?thesis using lim rest split n lenB by auto
    qed
  qed
qed

lemma dec_Read_spec:
  assumes rdr: "io_reader rd rest ok rank" and len: "open_len opn" and fh: "dec_ok rest ok fh"
  shows "\<exists>fh' bs e. dec_Read opn rd fh k = Some (fh', bs, e) \<and> dec_ok rest ok fh' \<and>
    dec_rest opn rest fh = bs @ dec_rest opn rest fh' \<and> length bs \<le> k \<and>
    (e = None \<or> e = Some EOF \<and> dec_rest opn rest fh' = []) \<and> (0 < k \<longrightarrow> bs = [] \<longrightarrow> e \<noteq> None)"
proof (cases "d_err fh")
  case (Some e)
  with fh show ?thesis by (auto simp: dec_Read_def dec_ok_def dec_rest_def)
next
  case None
  with fh obtain rc b where rc: "d_rc fh = Some rc" "ok rc" "whole_blocks (rest rc)"
    and b: "d_buf fh = Some b" "d_bufSize fh \<le> length b" "d_bufIndex fh \<le> d_bufSize fh"
    by (auto simp: dec_ok_def split: option.splits)
  note emit = dec_emit_spec [where ok = ok and k = k and opn = opn and rest = rest]
  show ?thesis
  proof (cases "d_bufIndex fh < d_bufSize fh")
    case True
    with None have "dec_Read opn rd fh k = dec_emit fh k" by (simp add: dec_Read_def)
    with emit [OF None rc b] True show ?thesis by auto
  next
    case empty: False
    show ?thesis
    proof (cases "rest rc = []")
      case True
      from dec_fillBuffer_end [OF rdr rc(1,2) b(1) True, of opn] obtain rc' where
        "dec_fillBuffer opn rd fh = Some (fh\<lparr>d_rc := Some rc'\<rparr>, Some EOF)" by blast
      with True None rc b empty show ?thesis
        by (auto simp: dec_Read_def dec_finish_def dec_ok_def dec_rest_def)
    next
      case False
      from dec_fillBuffer_block [OF rdr len rc(1,2) b(1) False rc(3)] obtain rc' b' where
        fill: "dec_fillBuffer opn rd fh = Some (fh\<lparr>d_rc := Some rc', d_buf := Some b', d_bufIndex := 0,
               d_bufSize := length (take blockSize (rest rc)) - 16, d_nonce := increment (d_nonce fh)\<rparr>, None)"
        and rc': "ok rc'" "rest rc' = drop blockSize (rest rc)"
        and b': "length (take blockSize (rest rc)) - 16 \<le> length b'"
          "take (length (take blockSize (rest rc)) - 16) b' =
            open_block opn (dataKey (d_c fh)) (d_nonce fh) (take blockSize (rest rc))" by blast
      define fh1 where "fh1 = fh\<lparr>d_rc := Some rc', d_buf := Some b', d_bufIndex := 0,
               d_bufSize := length (take blockSize (rest rc)) - 16, d_nonce := increment (d_nonce fh)\<rparr>"
      have "dec_Read opn rd fh k = dec_emit fh1 k"
        using None empty fill by (simp add: dec_Read_def fh1_def)
      moreover have "dec_rest opn rest fh = dec_rest opn rest fh1"
        using None rc b empty b'(2) rc' dec_blocks_step [OF False]
        by (simp add: dec_rest_def Let_def fh1_def del: blockSize_def)
      moreover have "d_bufIndex fh1 < d_bufSize fh1"
        using whole_blocks_first [OF rc(3) False] by (simp add: fh1_def)
      moreover have "whole_blocks (rest rc')" using rc' whole_blocks_drop [OF rc(3)] by simp
      then have "\<exists>fh' bs e. dec_emit fh1 k = Some (fh', bs, e) \<and> dec_ok rest ok fh' \<and>
        dec_rest opn rest fh1 = bs @ dec_rest opn rest fh' \<and> length bs \<le> k \<and>
        (e = None \<or> e = Some EOF \<and> dec_rest opn rest fh' = []) \<and>
        (0 < k \<longrightarrow> d_bufIndex fh1 < d_bufSize fh1 \<longrightarrow> bs = [] \<longrightarrow> e \<noteq> None)"
        using emit [of fh1 rc' b'] None rc' b' by (simp add: fh1_def)
      ultimately show ?thesis by auto
    qed
  qed
qed

lemma dec_io_reader:
  "io_reader rd rest ok rank \<Longrightarrow> open_len opn \<Longrightarrow>
     io_reader (dec_Read opn rd) (dec_rest opn rest) (dec_ok rest ok) (\<lambda>_. 0 :: nat)"
  by (rule io_readerI) (use dec_Read_spec in fastforce)

subsection \<open>Decryption undoes encryption\<close>

lemma whole_blocks_enc:
  assumes "secretbox_ok seal opn"
  shows "whole_blocks (enc_blocks seal key n pt)"
proof -
  have "length (enc_blocks seal key n pt) = length pt div 65536 * 65552 +
      (if length pt mod 65536 = 0 then 0 else 16 + length pt mod 65536)"
    using length_enc_blocks [of seal key n pt] assms by (simp add: secretbox_ok_def)
  moreover have "length pt mod 65536 < 65536" by simp
  ultimately show ?thesis by (auto simp: whole_blocks_def Let_def mod_mult_self1 mod_mult_self4)
qed

lemma dec_enc_blocks:
  assumes box: "secretbox_ok seal opn"
  shows "dec_blocks opn key n (enc_blocks seal key n pt) = pt"
proof (induction pt arbitrary: n rule: length_induct)
  case (1 pt)
  have len: "\<And>key n m. length (seal key n m) = 16 + length m"
    and opn: "\<And>key n m. opn key n (seal key n m) = Some m"
    using box by (simp_all add: secretbox_ok_def)
  show ?case
  proof (cases "pt = []")
    case False
    let ?d = "take blockDataSize pt"
    have enc: "enc_blocks seal key n pt = seal key n ?d @ enc_blocks seal key (increment n) (drop blockDataSize pt)"
      by (rule enc_blocks_step [OF False])
    have ne: "enc_blocks seal key n pt \<noteq> []" using enc len [of key n ?d] by auto
    have "take blockSize (enc_blocks seal key n pt) = seal key n ?d"
      and "drop blockSize (enc_blocks seal key n pt) = enc_blocks seal key (increment n) (drop blockDataSize pt)"
      unfolding enc using len [of key n ?d]
      by (cases "length pt \<le> 65536"; simp)+
    then have "dec_blocks opn key n (enc_blocks seal key n pt) =
        ?d @ dec_blocks opn key (increment n) (enc_blocks seal key (increment n) (drop blockDataSize pt))"
      by (simp only: dec_blocks_step [OF ne]) (simp add: open_block_def opn)
    with 1 False show ?thesis by simp
  qed simp
qed

text \<open>The header of an encrypted stream: a fresh decrypter stands at its body.\<close>

lemma newDecrypter_spec:
  assumes rdr: "io_reader rd rest ok rank" "ok rc"
    and stored: "rest rc = fileMagic @ n @ body" "length n = fileNonceSize"
  shows "\<exists>rc'. newDecrypter rd cl c rc = Some (Inr \<lparr>d_rc = Some rc', d_nonce = n, d_initialNonce = n, d_c = c,
      d_buf = Some [], d_bufIndex = 0, d_bufSize = 0, d_err = None, d_limit = -1, d_open = None\<rparr>) \<and>
    ok rc' \<and> rest rc' = body"
proof -
  from io_reader.readFill_spec [OF rdr, of fileHeaderSize] obtain rc' e where
    "readFill rd rc fileHeaderSize = Some (rc', take fileHeaderSize (rest rc), e)" "ok rc'"
    "rest rc' = drop fileHeaderSize (rest rc)" "e = None \<or> e = Some EOF" by blast
  moreover have "take fileHeaderSize (rest rc) = fileMagic @ n" "drop fileHeaderSize (rest rc) = body"
    using stored by simp_all
  ultimately show ?thesis using stored
    by (auto simp: newDecrypter_def nonce_fromBuf_def Let_def)
qed

lemma DecryptData_spec:
  assumes rdr: "io_reader rd rest ok rank" "ok rc" and box: "secretbox_ok seal opn" and k: "0 < k"
    and stored: "rest rc = fileMagic @ n @ enc_blocks seal (dataKey c) n pt" "length n = fileNonceSize"
  shows "\<exists>fh fh'. DecryptData rd cl c rc = Some (Inr fh) \<and> readAll (dec_Read opn rd) k fh = Some (fh', pt, Some EOF)"
proof -
  from newDecrypter_spec [OF rdr stored, of cl c] obtain rc' fh where
    fh: "DecryptData rd cl c rc = Some (Inr fh)"
    "fh = \<lparr>d_rc = Some rc', d_nonce = n, d_initialNonce = n, d_c = c, d_buf = Some [], d_bufIndex = 0,
       d_bufSize = 0, d_err = None, d_limit = -1, d_open = None\<rparr>"
    and rc': "ok rc'" "rest rc' = enc_blocks seal (dataKey c) n pt" unfolding DecryptData_def by blast
  have "dec_ok rest ok fh" "dec_rest opn rest fh = pt"
    using fh(2) rc' whole_blocks_enc [OF box] dec_enc_blocks [OF box]
    by (simp_all add: dec_ok_def dec_rest_def)
  with io_reader.readAll_spec [OF dec_io_reader [OF rdr(1) secretbox_open_len [OF box]], of fh k] k fh(1)
  show ?thesis by auto
qed

subsection \<open>Range reads\<close>

text \<open>What the range callback is expected to do: open the ciphertext at an offset inside it,
  for at most \<open>lim\<close> bytes.\<close>

definition range_opener ::
  "('r \<Rightarrow> bytes) \<Rightarrow> ('r \<Rightarrow> bool) \<Rightarrow> (int \<Rightarrow> int \<Rightarrow> (go_error + 'r) option) \<Rightarrow> bytes \<Rightarrow> bool" where
  "range_opener rest ok opener file \<longleftrightarrow>
     (\<forall>off lim. 0 \<le> off \<and> off < int (length file) \<and> 0 < lim \<longrightarrow>
        (\<exists>rc. opener off lim = Some (Inr rc) \<and> ok rc \<and> rest rc = take (nat lim) (drop (nat off) file)))"

lemma range_openerD:
  "range_opener rest ok opener file \<Longrightarrow> off < length file \<Longrightarrow> 0 < lim \<Longrightarrow>
     \<exists>rc. opener (int off) (int lim) = Some (Inr rc) \<and> ok rc \<and> rest rc = take lim (drop off file)"
  unfolding range_opener_def by (drule spec [of _ "int off"], drule spec [of _ "int lim"]) simp

definition enc_file :: "(bytes \<Rightarrow> bytes \<Rightarrow> bytes \<Rightarrow> bytes) \<Rightarrow> bytes \<Rightarrow> bytes \<Rightarrow> bytes \<Rightarrow> bytes" where
  "enc_file seal key n pt = fileMagic @ n @ enc_blocks seal key n pt"

lemma enc_file_range:
  assumes box: "secretbox_ok seal opn" and n: "length n = fileNonceSize"
  shows "take (j * blockSize) (drop (fileHeaderSize + q * blockSize) (enc_file seal key n pt)) =
    enc_blocks seal key ((increment ^^ q) n) (take (j * blockDataSize) (drop (q * blockDataSize) pt))"
proof -
  have "drop (fileHeaderSize + q * blockSize) (enc_file seal key n pt) =
      drop (q * blockSize) (enc_blocks seal key n pt)"
    using n by (simp add: enc_file_def)
  with box show ?thesis by (simp only: enc_blocks_take enc_blocks_drop secretbox_ok_def)
qed

text \<open>The first block of a non-empty body, as \<open>fillBuffer\<close> finds it.\<close>

lemma enc_first_block:
  assumes box: "secretbox_ok seal opn" and P: "P \<noteq> []"
  shows "length (take blockSize (enc_blocks seal key n P)) - 16 = min blockDataSize (length P)"
    and "open_block opn key n (take blockSize (enc_blocks seal key n P)) = take blockDataSize P"
proof -
  have len: "\<And>key n m. length (seal key n m) = 16 + length m"
    and opn: "\<And>key n m. opn key n (seal key n m) = Some m"
    using box by (simp_all add: secretbox_ok_def)
  have "take blockSize (enc_blocks seal key n P) = enc_blocks seal key n (take blockDataSize P)"
    using enc_blocks_take [of seal 1 key n P, OF len] by (simp del: blockDataSize_def blockSize_def)
  moreover have "enc_blocks seal key n (take blockDataSize P) = seal key n (take blockDataSize P)"
    using P by (intro enc_blocks_short) auto
  ultimately have "take blockSize (enc_blocks seal key n P) = seal key n (take blockDataSize P)" by simp
  then show "length (take blockSize (enc_blocks seal key n P)) - 16 = min blockDataSize (length P)"
    and "open_block opn key n (take blockSize (enc_blocks seal key n P)) = take blockDataSize P"
    by (simp_all add: len open_block_def opn)
qed

lemma fill_range:
  assumes rdr: "io_reader rd rest ok rank" and box: "secretbox_ok seal opn"
    and fh: "d_rc fh = Some rc" "ok rc" "d_err fh = None" "d_buf fh = Some b"
    and rc: "rest rc = enc_blocks seal (dataKey (d_c fh)) (d_nonce fh) P" "P \<noteq> []"
    and d: "d < length P" "d < blockDataSize" and lim: "0 \<le> limit"
  shows "\<exists>fh'. dec_fillBuffer opn rd fh = Some (fh', None) \<and> d \<le> d_bufSize fh' \<and>
    dec_ok rest ok (fh'\<lparr>d_bufIndex := d, d_limit := limit\<rparr>) \<and>
    dec_rest opn rest (fh'\<lparr>d_bufIndex := d, d_limit := limit\<rparr>) = take (nat limit) (drop d P)"
proof -
  let ?key = "dataKey (d_c fh)" and ?n = "d_nonce fh"
  have whole: "whole_blocks (rest rc)" unfolding rc(1) by (rule whole_blocks_enc [OF box])
  have ne: "rest rc \<noteq> []" using rc dec_enc_blocks [OF box, of ?key ?n P] by auto
  from dec_fillBuffer_block [OF rdr secretbox_open_len [OF box] fh(1,2,4) ne whole] obtain rc' b' where
    fill: "dec_fillBuffer opn rd fh = Some (fh\<lparr>d_rc := Some rc', d_buf := Some b', d_bufIndex := 0,
      d_bufSize := length (take blockSize (rest rc)) - 16, d_nonce := increment ?n\<rparr>, None)"
    and rc': "ok rc'" "rest rc' = drop blockSize (rest rc)"
    and b': "length (take blockSize (rest rc)) - 16 \<le> length b'"
      "take (length (take blockSize (rest rc)) - 16) b' = open_block opn ?key ?n (take blockSize (rest rc))"
    by blast
  note first = enc_first_block [OF box rc(2), of ?key ?n, folded rc(1)]
  have "dec_blocks opn ?key ?n (rest rc) = P" unfolding rc(1) by (rule dec_enc_blocks [OF box])
  then have stream: "take blockDataSize P @ dec_blocks opn ?key (increment ?n) (rest rc') = P"
    using dec_blocks_step [OF ne, of opn ?key ?n] first(2) rc'(2) by simp
  have buf: "take (min blockDataSize (length P)) b' = take blockDataSize P" using b'(2) first by simp
  have "drop d (take blockDataSize P) @ dec_blocks opn ?key (increment ?n) (rest rc') =
      drop d (take blockDataSize P @ dec_blocks opn ?key (increment ?n) (rest rc'))"
    using d by simp
  also have "\<dots> = drop d P" by (simp only: stream)
  finally have tail: "drop d (take blockDataSize P) @ dec_blocks opn ?key (increment ?n) (rest rc') = drop d P" .
  define fh' where "fh' = fh\<lparr>d_rc := Some rc', d_buf := Some b', d_bufIndex := 0,
      d_bufSize := min blockDataSize (length P), d_nonce := increment ?n\<rparr>"
  have "dec_fillBuffer opn rd fh = Some (fh', None)" unfolding fh'_def using fill first(1) by simp
  moreover have "d \<le> d_bufSize fh'" using d by (simp add: fh'_def)
  moreover have "dec_ok rest ok (fh'\<lparr>d_bufIndex := d, d_limit := limit\<rparr>)"
    using fh(3) rc' b'(1) first(1) whole_blocks_drop [OF whole] d by (simp add: dec_ok_def fh'_def)
  moreover have "dec_rest opn rest (fh'\<lparr>d_bufIndex := d, d_limit := limit\<rparr>) = take (nat limit) (drop d P)"
    using fh(3) lim tail buf by (simp add: dec_rest_def fh'_def del: take_append blockDataSize_def)
  ultimately show ?thesis by blast
qed

lemma dec_reposition_spec:
  assumes rdr: "io_reader rd rest ok rank" and box: "secretbox_ok seal opn"
    and opener: "range_opener rest ok opener (enc_file seal (dataKey (d_c fh)) n pt)"
    and fh: "d_err fh = None" "d_buf fh = Some b" "d_initialNonce fh = n" "length n = fileNonceSize"
    and off: "0 \<le> offset" "offset < int (length pt)" "int (length pt) < max_plain"
    and lim: "0 \<le> limit" "limit < max_plain"
  shows "\<exists>fh'. dec_reposition opn rd opener fh offset limit = Some (fh', offset, None) \<and>
    dec_ok rest ok fh' \<and> dec_rest opn rest fh' = take (nat limit) (drop (nat offset) pt)"
proof -
  let ?key = "dataKey (d_c fh)"
  from off have "offset < max_plain" by linarith
  from calculateUnderlying_nat [OF off(1) this lim] obtain q d j where
    o: "nat offset = q * 65536 + d" "d < 65536" "q < 2 ^ 46" "0 < j"
    and calc: "calculateUnderlying offset limit = (int (34 + q * 65552), int (j * 65552), int d, int q)"
    and cover: "nat limit + d \<le> j * 65536" by metis
  define P where "P = take (j * 65536) (drop (q * 65536) pt)"
  have "q * 65536 + d < length pt" using off o(1) by linarith
  then have P: "P \<noteq> []" "d < length P" using o(2,4) by (auto simp: P_def less_diff_conv)
  have range: "take (j * 65552) (drop (34 + q * 65552) (enc_file seal ?key n pt)) =
      enc_blocks seal ?key ((increment ^^ q) n) P"
    using enc_file_range [OF box fh(4), of j q ?key pt] by (simp add: P_def)
  have "enc_blocks seal ?key ((increment ^^ q) n) P \<noteq> []"
    using P(1) dec_enc_blocks [OF box, of ?key "(increment ^^ q) n" P] by auto
  then have "34 + q * 65552 < length (enc_file seal ?key n pt)"
    unfolding range [symmetric] by (metis drop_all not_le take_Nil)
  from range_openerD [OF opener this, of "j * 65552"] o(4) obtain rc where
    rc: "opener (int (34 + q * 65552)) (int (j * 65552)) = Some (Inr rc)" "ok rc"
      "rest rc = enc_blocks seal ?key ((increment ^^ q) n) P" unfolding range by auto
  have nonce: "add n (word_of_int (int q)) = (increment ^^ q) n"
    using add_eq_increment_pow [of n "word_of_int (int q)"] fh(4) o(3)
    by (simp add: unat_of_nat take_bit_eq_mod)
  define fh1 where "fh1 = fh\<lparr>d_nonce := (increment ^^ q) n, d_rc := Some rc\<rparr>"
  have "d_rc fh1 = Some rc" "d_err fh1 = None" "d_buf fh1 = Some b"
    "rest rc = enc_blocks seal (dataKey (d_c fh1)) (d_nonce fh1) P" "d < blockDataSize"
    using fh rc(3) o(2) by (simp_all add: fh1_def)
  from fill_range [OF rdr box this(1) rc(2) this(2,3,4) P this(5) lim(1)] obtain fh' where
    "dec_fillBuffer opn rd fh1 = Some (fh', None)" "d \<le> d_bufSize fh'"
    "dec_ok rest ok (fh'\<lparr>d_bufIndex := d, d_limit := limit\<rparr>)"
    "dec_rest opn rest (fh'\<lparr>d_bufIndex := d, d_limit := limit\<rparr>) = take (nat limit) (drop d P)" by blast
  moreover have "take (nat limit) (drop d P) = take (nat limit) (drop (nat offset) pt)"
    using cover o(1) by (simp add: P_def drop_take add.commute min_absorb1)
  ultimately show ?thesis
    using calc rc(1) nonce fh(3) by (simp add: dec_reposition_def Let_def fh1_def)
qed

lemma newDecrypterSeek_offset:
  assumes rdr: "io_reader rd rest ok rank" and box: "secretbox_ok seal opn"
    and opener: "range_opener rest ok opener (enc_file seal (dataKey c) n pt)" "length n = fileNonceSize"
    and off: "0 < offset" "offset < int (length pt)" "int (length pt) < max_plain"
    and lim: "0 \<le> limit" "limit < max_plain"
  shows "\<exists>fh. newDecrypterSeek opn rd cl c opener offset limit = Some (Inr fh) \<and>
    dec_ok rest ok fh \<and> dec_rest opn rest fh = take (nat limit) (drop (nat offset) pt)"
proof -
  have "0 < length (enc_file seal (dataKey c) n pt)"
    and hdr: "take 34 (enc_file seal (dataKey c) n pt) = fileMagic @ n @ []"
    using opener(2) by (simp_all add: enc_file_def)
  with range_openerD [OF opener(1), of 0 34] obtain rc where
    rc: "opener 0 34 = Some (Inr rc)" "ok rc" "rest rc = fileMagic @ n @ []" by auto
  from newDecrypter_spec [OF rdr rc(2,3) opener(2), of cl c] obtain rc' where
    new: "newDecrypter rd cl c rc = Some (Inr \<lparr>d_rc = Some rc', d_nonce = n, d_initialNonce = n, d_c = c,
      d_buf = Some [], d_bufIndex = 0, d_bufSize = 0, d_err = None, d_limit = -1, d_open = None\<rparr>)" by blast
  define fh where "fh = \<lparr>d_rc = Some rc', d_nonce = n, d_initialNonce = n, d_c = c, d_buf = Some [],
    d_bufIndex = 0, d_bufSize = 0, d_err = None, d_limit = -1, d_open = Some opener\<rparr>"
  have "dec_reposition opn rd opener fh offset limit = dec_RangeSeek opn rd fh offset 0 limit"
    by (simp add: dec_RangeSeek_def fh_def)
  moreover have "\<exists>fh'. dec_reposition opn rd opener fh offset limit = Some (fh', offset, None) \<and>
      dec_ok rest ok fh' \<and> dec_rest opn rest fh' = take (nat limit) (drop (nat offset) pt)"
    using opener off lim by (intro dec_reposition_spec [OF rdr box]) (simp_all add: fh_def)
  ultimately show ?thesis
    using off(1) rc(1) new by (auto simp: newDecrypterSeek_def Let_def fh_def)
qed

lemma newDecrypterSeek_start:
  assumes rdr: "io_reader rd rest ok rank" and box: "secretbox_ok seal opn"
    and opener: "range_opener rest ok opener (enc_file seal (dataKey c) n pt)" "length n = fileNonceSize"
    and lim: "0 \<le> limit" "limit < max_plain"
  shows "\<exists>fh. newDecrypterSeek opn rd cl c opener 0 limit = Some (Inr fh) \<and>
    dec_ok rest ok fh \<and> dec_rest opn rest fh = take (nat limit) pt"
proof -
  have len: "\<And>key n m. length (seal key n m) = 16 + length m" using box by (simp add: secretbox_ok_def)
  from lim obtain q d j where o: "nat 0 = q * 65536 + d" and j: "0 < j"
    and calc: "calculateUnderlying 0 limit = (int (34 + q * 65552), int (j * 65552), int d, int q)"
    and cover: "nat limit + d \<le> j * 65536" by (rule calculateUnderlying_nat [of 0 limit, rotated 2]) simp_all
  from calculateUnderlying_spec [of 0 limit] lim obtain J where "J < 2 ^ 46 + 2"
    "calculateUnderlying 0 limit = (34 + 0 div 65536 * 65552, J * 65552, 0 mod 65536, 0 div 65536)" by auto
  with calc have jb: "int (j * 65552) < 2 ^ 63 - 34" by simp
  have "0 < length (enc_file seal (dataKey c) n pt)"
    and body: "take (34 + j * 65552) (enc_file seal (dataKey c) n pt) =
      fileMagic @ n @ enc_blocks seal (dataKey c) n (take (j * 65536) pt)"
    using opener(2) enc_blocks_take [of seal j "dataKey c" n pt, OF len] by (simp_all add: enc_file_def)
  with range_openerD [OF opener(1), of 0 "34 + j * 65552"] obtain rc where
    rc: "opener 0 (int (34 + j * 65552)) = Some (Inr rc)" "ok rc"
      "rest rc = fileMagic @ n @ enc_blocks seal (dataKey c) n (take (j * 65536) pt)" by auto
  from newDecrypter_spec [OF rdr rc(2,3) opener(2), of cl c] obtain rc' where
    new: "newDecrypter rd cl c rc = Some (Inr \<lparr>d_rc = Some rc', d_nonce = n, d_initialNonce = n, d_c = c,
      d_buf = Some [], d_bufIndex = 0, d_bufSize = 0, d_err = None, d_limit = -1, d_open = None\<rparr>)"
    and rc': "ok rc'" "rest rc' = enc_blocks seal (dataKey c) n (take (j * 65536) pt)" by blast
  have "i64 (34 + int (j * 65552)) = int (34 + j * 65552)" using jb by simp
  with calc rc(1) new lim have seek: "newDecrypterSeek opn rd cl c opener 0 limit = Some (Inr
     \<lparr>d_rc = Some rc', d_nonce = n, d_initialNonce = n, d_c = c, d_buf = Some [], d_bufIndex = 0,
      d_bufSize = 0, d_err = None, d_limit = limit, d_open = Some opener\<rparr>)"
    by (simp add: newDecrypterSeek_def Let_def)
  have "take (nat limit) (take (j * 65536) pt) = take (nat limit) pt" using cover by (simp add: min_absorb1)
  then show ?thesis unfolding seek
    using rc' whole_blocks_enc [OF box] dec_enc_blocks [OF box] lim
    by (auto simp: dec_ok_def dec_rest_def)
qed

theorem DecryptDataSeek_spec:
  assumes rdr: "io_reader rd rest ok rank" and box: "secretbox_ok seal opn" and k: "0 < k"
    and opener: "range_opener rest ok opener (enc_file seal (dataKey c) n pt)" "length n = fileNonceSize"
    and off: "0 \<le> offset" "offset < int (length pt)" "int (length pt) < max_plain"
    and lim: "0 \<le> limit" "limit < max_plain"
  shows "\<exists>fh fh'. DecryptDataSeek opn rd cl c opener offset limit = Some (Inr fh) \<and>
    dec_ok rest ok fh \<and> dec_rest opn rest fh = take (nat limit) (drop (nat offset) pt) \<and>
    readAll (dec_Read opn rd) k fh = Some (fh', take (nat limit) (drop (nat offset) pt), Some EOF)"
proof -
  have "\<exists>fh. newDecrypterSeek opn rd cl c opener offset limit = Some (Inr fh) \<and>
    dec_ok rest ok fh \<and> dec_rest opn rest fh = take (nat limit) (drop (nat offset) pt)"
    using newDecrypterSeek_offset [OF rdr box opener _ off(2,3) lim]
      newDecrypterSeek_start [OF rdr box opener lim] off(1)
    by (cases "offset = 0") auto
  then show ?thesis
    using io_reader.readAll_spec [OF dec_io_reader [OF rdr secretbox_open_len [OF box]]] k
    unfolding DecryptDataSeek_def by metis
qed

subsection \<open>Properties\<close>

text \<open>C9: What the encrypter writes, the decrypter reads back: encrypting a stream and decrypting the
  result with the same cipher gives the plaintext and then EOF, for all buffer sizes and for every
  input reader that keeps the contract of \<open>io.Reader\<close>.\<close>

theorem encrypt_decrypt_roundtrip:
  assumes "io_reader rd rest ok rank" "ok inp"
    and "io_reader rnd_rd rrest rok rrank" "rok rnd" "fileNonceSize \<le> length (rrest rnd)"
    and "secretbox_ok seal opn" "0 < k" "0 < k'"
  shows "\<exists>rnd' fh fh' out dh dh'. EncryptData rnd_rd rnd c inp = Some (rnd', Inr fh) \<and>
    readAll (enc_Read seal rd) k fh = Some (fh', out, Some EOF) \<and>
    DecryptData bytes_Read cl c out = Some (Inr dh) \<and>
    readAll (dec_Read opn bytes_Read) k' dh = Some (dh', rest inp, Some EOF)"
proof -
  from EncryptData_spec [OF assms(1-7), of c] obtain rnd' fh fh' where
    new: "EncryptData rnd_rd rnd c inp = Some (rnd', Inr fh)"
    and out: "readAll (enc_Read seal rd) k fh = Some (fh', fileMagic @ take fileNonceSize (rrest rnd) @
      enc_blocks seal (dataKey c) (take fileNonceSize (rrest rnd)) (rest inp), Some EOF)" by blast
  have "length (take fileNonceSize (rrest rnd)) = fileNonceSize" using assms(5) by simp
  from DecryptData_spec [OF mem.io_reader_axioms TrueI assms(6,8) refl this, of cl c "rest inp"] new out
  show ?thesis by blast
qed

theorem encrypt_decrypt_roundtrip_witness:
  "\<exists>rnd' fh fh' out dh dh'. EncryptData bytes_Read (replicate 24 7) zero_cipher [1, 2, 3] = Some (rnd', Inr fh) \<and>
    readAll (enc_Read toy_seal bytes_Read) 5 fh = Some (fh', out, Some EOF) \<and>
    DecryptData bytes_Read (\<lambda>r. (r, None)) zero_cipher out = Some (Inr dh) \<and>
    readAll (dec_Read toy_open bytes_Read) 2 dh = Some (dh', [1, 2, 3], Some EOF)"
  using encrypt_decrypt_roundtrip [OF mem.io_reader_axioms TrueI mem.io_reader_axioms TrueI _ toy_box,
      of "replicate 24 7" 5 2 zero_cipher "[1, 2, 3]" "\<lambda>r. (r, None)"] by simp

text \<open>C22: A seek reads exactly the requested range: with a callback that opens the ciphertext at an
  offset with a limit, decrypting from \<open>offset\<close> with \<open>limit\<close> gives these bytes of the plaintext,
  fewer only at its end, and then EOF.\<close>

theorem decrypt_seek_range:
  assumes "io_reader rd rest ok rank" "secretbox_ok seal opn" "0 < k"
    and "range_opener rest ok opener (enc_file seal (dataKey c) n pt)" "length n = fileNonceSize"
    and "0 \<le> offset" "offset < int (length pt)" "int (length pt) < 2 ^ 62"
    and "0 \<le> limit" "limit < 2 ^ 62"
  shows "\<exists>fh fh'. DecryptDataSeek opn rd cl c opener offset limit = Some (Inr fh) \<and>
    readAll (dec_Read opn rd) k fh = Some (fh', take (nat limit) (drop (nat offset) pt), Some EOF)"
  using DecryptDataSeek_spec [OF assms(1-5), of offset limit cl] assms(6-) by auto

definition mem_opener :: "bytes \<Rightarrow> int \<Rightarrow> int \<Rightarrow> (go_error + bytes) option" where
  "mem_opener ct off lim = Some (Inr (take (nat lim) (drop (nat off) ct)))"

lemma mem_range_opener: "range_opener (\<lambda>bs. bs) (\<lambda>_. True) (mem_opener ct) ct"
  by (simp add: range_opener_def mem_opener_def)

theorem decrypt_seek_range_witness:
  "\<exists>fh fh'. DecryptDataSeek toy_open bytes_Read (\<lambda>r. (r, None)) zero_cipher
      (mem_opener (enc_file toy_seal (dataKey zero_cipher) (replicate 24 7) [1, 2, 3, 4])) 1 2 = Some (Inr fh) \<and>
    readAll (dec_Read toy_open bytes_Read) 1 fh = Some (fh', [2, 3], Some EOF)"
  using decrypt_seek_range [OF mem.io_reader_axioms toy_box _ mem_range_opener, of 1 "replicate 24 7" 1 "[1, 2, 3, 4]" 2]
  by simp

text \<open>
  A stored file that is shorter than its header, or that does not start with the magic string,
  is refused with the error the package names for it; no decrypter comes back.\<close>

lemma bad_header_refused:
  assumes "io_reader rd rest ok rank" "ok rc"
  shows "(length (rest rc) < fileHeaderSize \<longrightarrow> DecryptData rd cl c rc = Some (Inl ErrorEncryptedFileTooShort)) \<and>
    (fileHeaderSize \<le> length (rest rc) \<longrightarrow> take fileMagicSize (rest rc) \<noteq> fileMagic \<longrightarrow>
      DecryptData rd cl c rc = Some (Inl ErrorEncryptedBadMagic))"
proof -
  from io_reader.readFill_spec [OF assms, of fileHeaderSize] obtain rc' e where
    "readFill rd rc fileHeaderSize = Some (rc', take fileHeaderSize (rest rc), e)"
    "e = None \<or> e = Some EOF" "length (rest rc) < fileHeaderSize \<longrightarrow> e = Some EOF" by blast
  then show ?thesis
    by (auto simp: DecryptData_def newDecrypter_def dec_finishAndClose_def min_def)
qed

lemma bad_header_refused_witness:
  "DecryptData bytes_Read (\<lambda>r. (r, None)) zero_cipher [84, 69] = Some (Inl ErrorEncryptedFileTooShort) \<and>
   DecryptData bytes_Read (\<lambda>r. (r, None)) zero_cipher (replicate 40 1) = Some (Inl ErrorEncryptedBadMagic)"
  using bad_header_refused [OF mem.io_reader_axioms TrueI, of "[84, 69]" "\<lambda>r. (r, None)" zero_cipher]
    bad_header_refused [OF mem.io_reader_axioms TrueI, of "replicate 40 1" "\<lambda>r. (r, None)" zero_cipher]
  by (simp add: fileMagic_def numeral_eq_Suc)

text \<open>
  Decryption is total and deterministic in the stored bytes, tampered or not: whatever body
  follows a good header, as long as its last block is not a bare header, the reader delivers one
  block per box, the opened box or, where it does not open, zero bytes of the same length, and
  then EOF. A forged box is thus not reported as an error.\<close>

lemma decrypt_any_body:
  assumes "io_reader rd rest ok rank" "ok rc" "open_len opn" "0 < k"
    and "rest rc = fileMagic @ n @ body" "length n = fileNonceSize" "whole_blocks body"
  shows "\<exists>fh fh'. DecryptData rd cl c rc = Some (Inr fh) \<and>
    readAll (dec_Read opn rd) k fh = Some (fh', dec_blocks opn (dataKey c) n body, Some EOF)"
proof -
  from newDecrypter_spec [OF assms(1,2,5,6), of cl c] obtain rc' fh where fh: "DecryptData rd cl c rc = Some (Inr fh)"
    "fh = \<lparr>d_rc = Some rc', d_nonce = n, d_initialNonce = n, d_c = c, d_buf = Some [], d_bufIndex = 0,
       d_bufSize = 0, d_err = None, d_limit = -1, d_open = None\<rparr>" "ok rc'" "rest rc' = body"
    unfolding DecryptData_def by blast
  then have "dec_ok rest ok fh" "dec_rest opn rest fh = dec_blocks opn (dataKey c) n body"
    using assms(7) by (simp_all add: dec_ok_def dec_rest_def)
  with io_reader.readAll_spec [OF dec_io_reader [OF assms(1,3)] _ assms(4), of fh] fh(1) show ?thesis by auto
qed

lemma decrypt_any_body_witness:
  "\<exists>fh fh'. DecryptData bytes_Read (\<lambda>r. (r, None)) zero_cipher (fileMagic @ replicate 24 7 @ replicate 20 9) = Some (Inr fh) \<and>
    readAll (dec_Read (\<lambda>key n c. None) bytes_Read) 3 fh =
      Some (fh', dec_blocks (\<lambda>key n c. None) (dataKey zero_cipher) (replicate 24 7) (replicate 20 9), Some EOF) \<and>
    dec_blocks (\<lambda>key n c. None) (dataKey zero_cipher) (replicate 24 7) (replicate 20 9) = replicate 4 0"
  using decrypt_any_body [OF mem.io_reader_axioms TrueI, of "\<lambda>key n c. None" 3
      "fileMagic @ replicate 24 7 @ replicate 20 9" "replicate 24 7" "replicate 20 9" "\<lambda>r. (r, None)" zero_cipher]
  by (simp add: open_len_def whole_blocks_def dec_blocks_step open_block_def)

end
