(* ===== verification/Tg_Helpers.thy ===== *)
theory Tg_Helpers
  imports Prelude
begin

section \<open>Telegram helpers (internal/tgc/helpers.go)\<close>

text \<open>
  The parts of the Telegram helper file that compute: the choice of the chunk size of a range
  read, the batches in which messages are fetched and deleted, and the download loop for
  whole media files. The Telegram API itself is a parameter: the function that answers one
  request.
\<close>

subsection \<open>Chunk sizes\<close>

function chunk_size_loop :: "int \<Rightarrow> int \<Rightarrow> int" where
  "chunk_size_loop chunkSize span =
     (if chunkSize > 1024 \<and> chunkSize > span then chunk_size_loop (chunkSize div 2) span else chunkSize)"
  by pat_completeness auto
termination
  by (relation "measure (\<lambda>(c, s). nat c)") auto

declare chunk_size_loop.simps [simp del]

definition CalculateChunkSize :: "int \<Rightarrow> int \<Rightarrow> int" where
  "CalculateChunkSize start end = chunk_size_loop (1024 * 1024) (i64 (end - start))"

lemma chunk_size_loop_power:
  "\<exists>j\<le>i. chunk_size_loop (1024 * 2 ^ i) span = 1024 * 2 ^ j"
proof (induction i)
  case 0
  show ?case by (subst chunk_size_loop.simps) simp
next
  case (Suc i)
  show ?case
  proof (cases "(1024 :: int) * 2 ^ Suc i > span")
    case True
    have "(1024 :: int) * 2 ^ Suc i div 2 = 1024 * 2 ^ i" by simp
    moreover have "(1 :: int) \<le> 2 ^ i" by (rule one_le_power) simp
    then have "(1024 :: int) < 1024 * 2 ^ Suc i" unfolding power_Suc by linarith
    ultimately have "chunk_size_loop (1024 * 2 ^ Suc i) span = chunk_size_loop (1024 * 2 ^ i) span"
      using True by (subst chunk_size_loop.simps) simp
    with Suc show ?thesis by (metis le_SucI)
  next
    case False
    then show ?thesis by (subst chunk_size_loop.simps) auto
  qed
qed

lemma CalculateChunkSize_power: "\<exists>j\<le>10. CalculateChunkSize start end = 1024 * 2 ^ j"
  using chunk_size_loop_power [of 10 "i64 (end - start)"] by (simp add: CalculateChunkSize_def)

lemma CalculateChunkSize_pos [simp]: "0 < CalculateChunkSize start end"
  using CalculateChunkSize_power [of start "end"] by auto

lemma CalculateChunkSize_nonneg [simp]: "0 \<le> CalculateChunkSize start end"
  using CalculateChunkSize_pos [of start "end"] by (rule less_imp_le)

lemma chunk_size_loop_fits:
  "chunk_size_loop c span \<le> 1024 \<or> chunk_size_loop c span \<le> span"
proof (induction c span rule: chunk_size_loop.induct)
  case (1 c span)
  then show ?case by (subst (1 2) chunk_size_loop.simps) auto
qed

text \<open>The sizes divide 1 MiB, so a chunk-aligned request stays inside one 1 MiB window.\<close>

lemma chunk_window:
  assumes "c = 1024 * 2 ^ j" "j \<le> 10" "0 \<le> (off :: int)" "off mod c = 0"
  shows "off mod 1024 = 0" and "c mod 1024 = 0" and "off div 1048576 = (off + c - 1) div 1048576"
proof -
  have c: "0 < c" using assms(1) by simp
  obtain m where m: "off = c * m" using assms(4) by (auto elim: dvdE simp: dvd_eq_mod_eq_0 [symmetric])
  have "(2 :: int) ^ 10 = 2 ^ j * 2 ^ (10 - j)" using assms(2) by (simp flip: power_add)
  then have w: "1048576 = c * 2 ^ (10 - j)" using assms(1) by simp
  have "off mod c = 0" by (fact assms(4))
  then show "off mod 1024 = 0" using assms(1) by (metis dvd_imp_mod_0 dvd_mult_left mod_0_imp_dvd)
  show "c mod 1024 = 0" using assms(1) by simp
  have "off div 1048576 = m div 2 ^ (10 - j)"
    unfolding w m using c by simp
  moreover have "(off + c - 1) div 1048576 = ((off + c - 1) div c) div 2 ^ (10 - j)"
    unfolding w using c by (simp add: zdiv_zmult2_eq)
  moreover have "(off + c - 1) div c = m"
    unfolding m using c by (simp add: add_diff_eq [symmetric] div_add1_eq)
  ultimately show "off div 1048576 = (off + c - 1) div 1048576" by simp
qed

subsection \<open>Message batches\<close>

text \<open>
  \<open>math.Ceil(float64(len(ids)) / float64(batchSize))\<close>, exact for every list length the code can
  meet (below \<open>2 ^ 53\<close>), and the slice of each batch.
\<close>

definition batchCount :: "'a list \<Rightarrow> nat" where
  "batchCount ids = (length ids + 99) div 100"

definition batchIds :: "'a list \<Rightarrow> nat \<Rightarrow> 'a list" where
  "batchIds ids i = drop (i * 100) (take (min ((i + 1) * 100) (length ids)) ids)"

text \<open>
  \<open>GetMessages\<close>: \<open>channel\<close> is the answer of \<open>GetChannelById\<close>, \<open>api\<close> answers one batch (an
  error, or \<open>Inr None\<close> for a reply of another type), \<open>first\<close> is the error the group reports
  among those that occurred. The replies are assembled in the order of the batches.
\<close>

definition GetMessages ::
  "go_error + 'c \<Rightarrow> ('c \<Rightarrow> 'i list \<Rightarrow> go_error + 'm list option) \<Rightarrow> (go_error list \<Rightarrow> go_error) \<Rightarrow>
   'i list \<Rightarrow> go_error + 'm list" where
  "GetMessages channel api first ids =
     (case channel of
        Inl e \<Rightarrow> Inl e
      | Inr ch \<Rightarrow>
          let replies = map (\<lambda>i. case api ch (batchIds ids i) of
                                   Inl e \<Rightarrow> Inl e
                                 | Inr None \<Rightarrow> Inl (ErrText ''invalid channel messages'')
                                 | Inr (Some ms) \<Rightarrow> Inr ms) [0..<batchCount ids];
              errs = concat (map (case_sum (\<lambda>e. [e]) (\<lambda>_. [])) replies)
          in if errs \<noteq> [] then Inl (first errs)
             else Inr (concat (map (case_sum (\<lambda>_. []) (\<lambda>ms. ms)) replies)))"

text \<open>
  \<open>DeleteMessages\<close>: the batches sent to the API, and the first error of the group if any. The goroutines of the
  batches assign their result to one variable of the enclosing function and return what it then holds: \<open>seen i\<close> is
  the batch whose result the \<open>i\<close>-th one returns.\<close>

definition DeleteMessages ::
  "go_error + 'c \<Rightarrow> ('c \<Rightarrow> 'i list \<Rightarrow> go_error option) \<Rightarrow> (nat \<Rightarrow> nat) \<Rightarrow> (go_error list \<Rightarrow> go_error) \<Rightarrow> 'i list \<Rightarrow>
   'i list list \<times> go_error option" where
  "DeleteMessages channel api seen first ids =
     (case channel of
        Inl e \<Rightarrow> ([], Some e)
      | Inr ch \<Rightarrow>
          let n = batchCount ids;
              returned = map (\<lambda>i. api ch (batchIds ids (if seen i < n then seen i else i))) [0..<n];
              errs = concat (map (\<lambda>r. case r of None \<Rightarrow> [] | Some e \<Rightarrow> [e]) returned)
          in (map (batchIds ids) [0..<n], if errs = [] then None else Some (first errs)))"

text \<open>\<open>Auth\<close> and \<open>RunWithAuth\<close> (internal/tgc/run.go): the status of the session, the login of a bot with its token.\<close>

record auth_env =
  au_status :: "go_error + bool"
  au_bot :: "string \<Rightarrow> go_error option"
  au_again :: "go_error option"

definition Auth :: "auth_env \<Rightarrow> string \<Rightarrow> go_error option" where
  "Auth env token =
     (case au_status env of
        Inl e \<Rightarrow> Some e
      | Inr authorized \<Rightarrow>
          if token = [] then (if \<not> authorized then Some (ErrText ''not authorized. please login first'') else None)
          else if authorized then None
          else (case au_bot env token of Some e \<Rightarrow> Some e | None \<Rightarrow> au_again env))"

definition RunWithAuth :: "go_error option \<Rightarrow> auth_env \<Rightarrow> string \<Rightarrow> go_error + 'a \<Rightarrow> go_error + 'a" where
  "RunWithAuth runErr env token f =
     (case runErr of
        Some e \<Rightarrow> Inl e
      | None \<Rightarrow> (case Auth env token of Some e \<Rightarrow> Inl e | None \<Rightarrow> f))"

lemma batches_prefix: "concat (map (batchIds ids) [0..<m]) = take (m * 100) ids"
proof (induction m)
  case (Suc m)
  have "batchIds ids m = take 100 (drop (m * 100) ids)"
    by (simp add: batchIds_def drop_take min_def)
  with Suc show ?case by (simp add: take_append_take_drop add.commute)
qed simp

lemma batches_concat: "concat (map (batchIds ids) [0..<batchCount ids]) = ids"
  unfolding batches_prefix batchCount_def by simp

lemma batch_length: "length (batchIds ids i) \<le> 100"
  by (simp add: batchIds_def drop_take)

lemma batch_nonempty: "i < batchCount ids \<Longrightarrow> batchIds ids i \<noteq> []"
  by (auto simp: batchIds_def batchCount_def min_def)

subsection \<open>Whole media files\<close>

text \<open>
  \<open>GetMediaContent\<close> downloads 1 MiB pieces until an empty one comes; \<open>chunk off lim\<close> is
  \<open>GetChunk\<close>. The result is the buffer and the error, as in the source.
\<close>

partial_function (option) media_loop ::
  "(int \<Rightarrow> int \<Rightarrow> go_error + bytes) \<Rightarrow> int \<Rightarrow> bytes \<Rightarrow> (bytes \<times> go_error option) option" where
  "media_loop chunk offset buff =
     (case chunk offset (1024 * 1024) of
        Inl e \<Rightarrow> Some (buff, Some e)
      | Inr r \<Rightarrow> if r = [] then Some (buff, None)
                 else media_loop chunk (offset + 1024 * 1024) (buff @ r))"

definition GetMediaContent :: "(int \<Rightarrow> int \<Rightarrow> go_error + bytes) \<Rightarrow> (bytes \<times> go_error option) option" where
  "GetMediaContent chunk = media_loop chunk 0 []"

lemma media_loop_spec:
  assumes "\<And>off. chunk (int off) (1024 * 1024) = Inr (take 1048576 (drop off doc))"
  shows "media_loop chunk (int off) (take off doc) = Some (doc, None)"
proof (induction "length doc - off" arbitrary: off rule: less_induct)
  case less
  show ?case
  proof (cases "length doc \<le> off")
    case True
    then show ?thesis using assms [of off] by (subst media_loop.simps) simp
  next
    case False
    then have "media_loop chunk (int (off + 1048576)) (take (off + 1048576) doc) = Some (doc, None)"
      by (intro less) simp
    moreover have "take off doc @ take 1048576 (drop off doc) = take (off + 1048576) doc"
      by (rule take_append_take_drop)
    ultimately show ?thesis using assms [of off] False by (subst media_loop.simps) simp
  qed
qed

subsection \<open>Properties\<close>

text \<open>
  The chunk requests of a range read satisfy what Telegram asks of \<open>upload.getFile\<close>: the chunk
  size is a multiple of 1 KiB and at most 1 MiB, and a request at a multiple of the chunk size is
  aligned to 1 KiB and stays inside one window of 1 MiB.\<close>

lemma chunk_requests_valid:
  assumes "0 \<le> m" and c: "c = CalculateChunkSize start end"
  shows "0 < c \<and> c \<le> 1048576 \<and> c mod 1024 = 0 \<and> (c * m) mod 1024 = 0 \<and>
    (c * m) div 1048576 = (c * m + c - 1) div 1048576"
proof -
  from CalculateChunkSize_power [of start "end"] obtain j where j: "c = 1024 * 2 ^ j" "j \<le> 10" by (auto simp: c)
  have pos: "0 \<le> c * m" using assms(1) j(1) by simp
  have "(2 :: int) ^ j \<le> 2 ^ 10" using j(2) by (intro power_increasing) auto
  then have "c \<le> 1048576" using j(1) by simp
  moreover have "0 < c" by (simp add: j(1))
  ultimately show ?thesis using chunk_window [OF j pos] by simp
qed

lemma chunk_requests_valid_witness:
  "CalculateChunkSize 0 5000 = 4096 \<and> (CalculateChunkSize 0 5000 * 3) mod 1024 = 0"
proof -
  have "CalculateChunkSize 0 5000 = 4096"
    unfolding CalculateChunkSize_def by (simp add: chunk_size_loop.simps)
  with chunk_requests_valid [of 3 "CalculateChunkSize 0 5000" 0 5000] show ?thesis by simp
qed

text \<open>
  \<open>GetMessages\<close> asks for every id exactly once, in batches of 1 to 100, and returns the
  answers in the order of the ids, when every batch is answered.\<close>

lemma GetMessages_in_order:
  assumes "\<And>b. b \<noteq> [] \<Longrightarrow> length b \<le> 100 \<Longrightarrow> api ch b = Inr (Some (map f b))"
  shows "GetMessages (Inr ch) api first ids = Inr (map f ids)"
proof -
  let ?reply = "\<lambda>i. case api ch (batchIds ids i) of Inl e \<Rightarrow> Inl e
      | Inr None \<Rightarrow> Inl (ErrText ''invalid channel messages'') | Inr (Some ms) \<Rightarrow> Inr ms"
  have reply: "map ?reply [0..<batchCount ids] = map (\<lambda>i. Inr (map f (batchIds ids i))) [0..<batchCount ids]"
    by (intro map_cong refl) (simp add: assms batch_nonempty batch_length)
  have "concat (map (\<lambda>i. map f (batchIds ids i)) [0..<batchCount ids]) = map f ids"
    using arg_cong [OF batches_concat [of ids], of "map f"] by (simp add: map_concat comp_def)
  then show ?thesis unfolding GetMessages_def Let_def sum.case reply by (simp add: comp_def)
qed

lemma GetMessages_in_order_witness:
  "GetMessages (Inr ()) (\<lambda>_ b. Inr (Some (map (\<lambda>i :: int. i * 2) b))) hd [3, 1, 2] = Inr [6, 2, 4]"
  using GetMessages_in_order [of "\<lambda>_ b. Inr (Some (map (\<lambda>i :: int. i * 2) b))" "()" "\<lambda>i. i * 2" hd "[3, 1, 2]"] by simp

lemma errs_Nil: "concat (map (\<lambda>r. case r of None \<Rightarrow> [] | Some e \<Rightarrow> [e]) rs) = [] \<longleftrightarrow> (\<forall>r \<in> set rs. r = None)"
  by (induction rs) (auto split: option.splits)

text \<open>\<open>DeleteMessages\<close> sends every id exactly once, in order and in batches of 1 to 100. It reports no error when
  every batch succeeds, and one when the channel is not found or every batch fails.\<close>

lemma DeleteMessages_batches:
  assumes "DeleteMessages channel api seen first ids = (batches, err)"
  shows "case channel of
      Inl e \<Rightarrow> batches = [] \<and> err = Some e
    | Inr ch \<Rightarrow> concat batches = ids \<and> (\<forall>b\<in>set batches. b \<noteq> [] \<and> length b \<le> 100) \<and>
        ((\<forall>b\<in>set batches. api ch b = None) \<longrightarrow> err = None) \<and>
        (batches \<noteq> [] \<and> (\<forall>b\<in>set batches. api ch b \<noteq> None) \<longrightarrow> err \<noteq> None)"
proof (cases channel)
  case (Inr ch)
  let ?n = "batchCount ids" and ?seen = "\<lambda>i. if seen i < batchCount ids then seen i else i"
  define answer where "answer i = api ch (batchIds ids (?seen i))" for i
  define errs where "errs = concat (map (\<lambda>r. case r of None \<Rightarrow> [] | Some e \<Rightarrow> [e]) (map answer [0..<?n]))"
  have "DeleteMessages channel api seen first ids = (map (batchIds ids) [0..<?n], if errs = [] then None else Some (first errs))"
    by (simp only: Inr DeleteMessages_def sum.case Let_def errs_def answer_def [abs_def])
  from trans [OF this [symmetric] assms] have b: "batches = map (batchIds ids) [0..<?n]"
    and "err = (if errs = [] then None else Some (first errs))" by (simp_all only: prod.inject)
  then have err: "err = None \<longleftrightarrow> errs = []" by (cases "errs = []") simp_all
  have sizes: "\<forall>b\<in>set batches. b \<noteq> [] \<and> length b \<le> 100" by (auto simp: b batch_length dest: batch_nonempty)
  have none: "err = None \<longleftrightarrow> (\<forall>i < ?n. answer i = None)" unfolding err errs_def errs_Nil by auto
  have mem: "batchIds ids (?seen i) \<in> set batches" if "i < ?n" for i using that by (simp add: b)
  have "err = None" if "\<forall>b\<in>set batches. api ch b = None" using that mem unfolding none answer_def by blast
  moreover have "err \<noteq> None" if "batches \<noteq> []" "\<forall>b\<in>set batches. api ch b \<noteq> None"
  proof -
    have "0 < ?n" using that(1) by (simp add: b)
    with mem [of 0] that(2) none show ?thesis unfolding answer_def by blast
  qed
  ultimately show ?thesis using batches_concat [of ids] sizes by (simp add: Inr b)
qed (use assms in \<open>simp add: DeleteMessages_def\<close>)

text \<open>When every goroutine returns its own result, success means that every batch was deleted.\<close>

lemma DeleteMessages_all:
  assumes "DeleteMessages channel api (\<lambda>i. i) first ids = (batches, None)"
  shows "\<exists>ch. channel = Inr ch \<and> concat batches = ids \<and> (\<forall>b \<in> set batches. api ch b = None)"
proof (cases channel)
  case (Inr ch)
  define errs where "errs = concat (map (\<lambda>r. case r of None \<Rightarrow> [] | Some e \<Rightarrow> [e]) (map (\<lambda>i. api ch (batchIds ids i)) [0..<batchCount ids]))"
  have "DeleteMessages channel api (\<lambda>i. i) first ids = (map (batchIds ids) [0..<batchCount ids], if errs = [] then None else Some (first errs))"
    by (simp only: Inr DeleteMessages_def sum.case Let_def errs_def if_cancel)
  from trans [OF this [symmetric] assms] have b: "batches = map (batchIds ids) [0..<batchCount ids]" and "errs = []"
    by (cases "errs = []", simp_all)+
  then have "\<forall>b \<in> set batches. api ch b = None" unfolding errs_def errs_Nil by simp
  then show ?thesis using batches_concat [of ids] by (simp add: Inr b)
qed (use assms in \<open>simp add: DeleteMessages_def\<close>)

text \<open>The errors of all other batches are lost when their goroutines read the result of a successful one.\<close>

lemma delete_error_lost:
  assumes "k < batchCount ids" "api ch (batchIds ids k) = None"
  shows "DeleteMessages (Inr ch) api (\<lambda>_. k) first ids = (map (batchIds ids) [0..<batchCount ids], None)"
proof -
  have "concat (map (\<lambda>r. case r of None \<Rightarrow> [] | Some e \<Rightarrow> [e]) (map (\<lambda>i. api ch (batchIds ids k)) [0..<n])) = []" for n
    by (simp add: assms(2))
  then show ?thesis by (simp add: DeleteMessages_def Let_def assms(1) del: map_map)
qed

text \<open>
  \<open>GetMediaContent\<close> ends and returns the whole document when every chunk request is answered
  with the bytes at its offset, whatever the document's length.\<close>

lemma GetMediaContent_whole:
  assumes "\<And>off. chunk (int off) 1048576 = Inr (take 1048576 (drop off doc))"
  shows "GetMediaContent chunk = Some (doc, None)"
  using media_loop_spec [of chunk doc 0] assms by (simp add: GetMediaContent_def)

lemma GetMediaContent_whole_witness:
  "GetMediaContent (\<lambda>off lim. Inr (take (nat lim) (drop (nat off) [1, 2, 3]))) = Some ([1, 2, 3], None)"
  using GetMediaContent_whole [of "\<lambda>off lim. Inr (take (nat lim) (drop (nat off) [1, 2, 3]))" "[1, 2, 3]"] by simp

end
