(* ===== verification/Tg_Reader.thy ===== *)
theory Tg_Reader
  imports Go_IO Tg_Helpers
begin

section \<open>The chunked Telegram reader (internal/reader/tg_reader.go, buffer.go)\<close>

text \<open>
  \<^verbatim>\<open>tgMultiReader\<close> delivers the bytes \<open>start\<close> to \<open>end\<close> of a stored document. A goroutine
  (\<^verbatim>\<open>fillBuffer\<close>) fetches chunk-aligned pieces in batches, several at a time, cuts the first
  and the last one to the range and sends them in order over a bounded channel; \<open>Read\<close> takes
  them from there.

  The state record holds what both sides share. The producer's effect on the channel is a
  function of the fetched chunks (\<open>fillBatch\<close>, \<open>fillBuffer\<close>), and \<open>mr_Read\<close> is one call of
  \<open>Read\<close>; the last part of the theory interleaves the two and shows that the schedule does
  not matter.

  The environment (\<open>chunk_env\<close>): the answer of the chunk source to each attempt at a chunk,
  when the backoff gives up and when the context ends during a wait, the stale bytes a pooled
  buffer has behind the chunk (Go slices may be extended up to the capacity), and the error an
  errgroup reports among those of its goroutines.
\<close>

subsection \<open>Buffers\<close>

record buffer =
  b_buf :: "bytes option"
  b_offset :: nat

definition buffer_isEmpty :: "buffer option \<Rightarrow> bool option" where
  "buffer_isEmpty b =
     (case b of None \<Rightarrow> Some True
      | Some x \<Rightarrow> Option.bind (b_buf x) (\<lambda>B. Some (int (length B) - int (b_offset x) \<le> 0)))"

definition buffer_buffer :: "buffer \<Rightarrow> bytes option" where
  "buffer_buffer b = Option.bind (b_buf b) (slice_from (int (b_offset b)))"

definition buffer_increment :: "buffer \<Rightarrow> nat \<Rightarrow> buffer" where
  "buffer_increment b n = b\<lparr>b_offset := b_offset b + n\<rparr>"

definition buffer_length :: "buffer \<Rightarrow> int option" where
  "buffer_length b = map_option (\<lambda>B. int (length B) - int (b_offset b)) (b_buf b)"

subsection \<open>Fetching one chunk with retries\<close>

definition retryableChunkMarkers :: "string list" where
  "retryableChunkMarkers =
     [''timeout'', ''timedout'', ''rpc error code -503'', ''worker_busy_too_long_retry'', ''rpc_call_fail'',
      ''rpc_mcget_fail'', ''connection reset'', ''connection dead'', ''connection refused'',
      ''temporary unavailable'']"

definition maxChunkRetries :: nat where [simp]: "maxChunkRetries = 2"

definition isRetryableChunkError :: "go_error option \<Rightarrow> bool" where
  "isRetryableChunkError err =
     (case err of
        None \<Rightarrow> False
      | Some e \<Rightarrow> errors_Is e ErrChunkTimeout \<or> errors_Is e CtxDeadlineExceeded \<or>
                  list_ex (str_contains (to_lower (error_text e))) retryableChunkMarkers)"

text \<open>
  The loop of \<open>fetchChunkWithRetry\<close>: \<open>att a\<close> is the answer of the chunk source to attempt \<open>a\<close>,
  \<open>stop a\<close> whether the backoff gives up after attempt \<open>a\<close>, \<open>done a\<close> the error of the context if it
  ends during the wait after attempt \<open>a\<close>. The result carries the number of attempts made.
\<close>

definition chunk_error :: "int \<Rightarrow> go_error \<Rightarrow> go_error" where
  "chunk_error part err =
     (if errors_Is err CtxDeadlineExceeded then ErrWrap (''chunk '' @ itoa part) ErrChunkTimeout else err)"

function fetch_loop ::
  "(nat \<Rightarrow> go_error + bytes) \<Rightarrow> (nat \<Rightarrow> bool) \<Rightarrow> (nat \<Rightarrow> go_error option) \<Rightarrow> int \<Rightarrow> nat \<Rightarrow>
   (go_error + bytes) \<times> nat" where
  "fetch_loop att stop done part attempt =
     (case att attempt of
        Inr chunk \<Rightarrow> (Inr chunk, Suc attempt)
      | Inl err0 \<Rightarrow>
          let err = chunk_error part err0 in
          if attempt \<ge> maxChunkRetries \<or> \<not> isRetryableChunkError (Some err) then (Inl err, Suc attempt)
          else if stop attempt then (Inl err, Suc attempt)
          else case done attempt of
                 Some e \<Rightarrow> (Inl e, Suc attempt)
               | None \<Rightarrow> fetch_loop att stop done part (Suc attempt))"
  by pat_completeness auto
termination
  by (relation "measure (\<lambda>(att, stop, done, part, attempt). maxChunkRetries - attempt)") auto

declare fetch_loop.simps [simp del]

definition fetchChunkWithRetry ::
  "(nat \<Rightarrow> go_error + bytes) \<Rightarrow> (nat \<Rightarrow> bool) \<Rightarrow> (nat \<Rightarrow> go_error option) \<Rightarrow> int \<Rightarrow> (go_error + bytes) \<times> nat" where
  "fetchChunkWithRetry att stop done part = fetch_loop att stop done part 0"

subsection \<open>The reader\<close>

record chunk_env =
  ce_chunk :: "int \<Rightarrow> int \<Rightarrow> nat \<Rightarrow> go_error + bytes"
  ce_stop :: "int \<Rightarrow> nat \<Rightarrow> bool"
  ce_done :: "int \<Rightarrow> nat \<Rightarrow> go_error option"
  ce_spare :: "int \<Rightarrow> bytes"
  ce_first :: "go_error list \<Rightarrow> go_error"

record mr =
  m_offset :: int
  m_limit :: int
  m_chunkSize :: int
  m_chan :: "buffer list"
  m_closed :: bool
  m_cur :: "buffer option"
  m_concurrency :: int
  m_leftCut :: int
  m_rightCut :: int
  m_totalParts :: int
  m_currentPart :: int
  m_ctxErr :: "go_error option"
  m_failed :: "go_error list"

text \<open>
  The fields of a new reader. \<open>m_ctxErr\<close> is \<open>ctx.Err()\<close> and \<open>m_failed\<close> the calls of
  \<open>onChunkFail\<close>.
\<close>

definition newTGMultiReader :: "int \<Rightarrow> int \<Rightarrow> int \<Rightarrow> mr" where
  "newTGMultiReader start end concurrency =
     (let chunkSize = CalculateChunkSize start end;
          offset = start - go_mod start chunkSize
      in \<lparr>m_offset = offset, m_limit = end - start + 1, m_chunkSize = chunkSize, m_chan = [],
          m_closed = False, m_cur = None, m_concurrency = concurrency, m_leftCut = start - offset,
          m_rightCut = go_mod end chunkSize + 1,
          m_totalParts = go_div (end - offset + chunkSize) chunkSize,
          m_currentPart = 0, m_ctxErr = None, m_failed = []\<rparr>)"

text \<open>\<open>buf.B[lo:hi]\<close> of a buffer with content \<open>xs\<close> and \<open>spare\<close> bytes of further capacity.\<close>

definition cap_slice :: "bytes \<Rightarrow> bytes \<Rightarrow> int \<Rightarrow> int \<Rightarrow> bytes option" where
  "cap_slice xs spare lo hi =
     (if 0 \<le> lo \<and> lo \<le> hi \<and> hi \<le> int (length xs + length spare)
      then Some (drop (nat lo) (take (nat hi) (xs @ spare))) else None)"

definition cut_chunk :: "mr \<Rightarrow> int \<Rightarrow> bytes \<Rightarrow> bytes \<Rightarrow> bytes option" where
  "cut_chunk r part chunk spare =
     (if m_totalParts r = 1 then cap_slice chunk spare (m_leftCut r) (m_rightCut r)
      else if part = 0 then cap_slice chunk spare (m_leftCut r) (int (length chunk))
      else if part + 1 = m_totalParts r then cap_slice chunk spare 0 (m_rightCut r)
      else Some chunk)"

text \<open>
  One batch: the fetches of the batch run in parallel, their results stand in the order of the
  parts. An error of the group cancels; a cut out of range panics.
\<close>

definition batch_size :: "mr \<Rightarrow> int" where
  "batch_size r = min (m_concurrency r) (m_totalParts r - m_currentPart r)"

definition ce_fetch :: "chunk_env \<Rightarrow> int \<Rightarrow> int \<Rightarrow> int \<Rightarrow> go_error + bytes" where
  "ce_fetch env offset chunkSize part =
     fst (fetchChunkWithRetry (ce_chunk env offset chunkSize) (ce_stop env offset) (ce_done env offset) part)"

definition batch_piece :: "chunk_env \<Rightarrow> mr \<Rightarrow> nat \<Rightarrow> (go_error + buffer) option" where
  "batch_piece env r i =
     (let part = m_currentPart r + int i; offset = m_offset r + int i * m_chunkSize r in
      case ce_fetch env offset (m_chunkSize r) part of
        Inl e \<Rightarrow> Some (Inl e)
      | Inr chunk \<Rightarrow> map_option (\<lambda>B. Inr \<lparr>b_buf = Some B, b_offset = 0\<rparr>)
                       (cut_chunk r part chunk (ce_spare env part)))"

definition fetchBatch :: "chunk_env \<Rightarrow> mr \<Rightarrow> (go_error list \<times> buffer list) option" where
  "fetchBatch env r =
     (if batch_size r < 0 then None
      else map_option (\<lambda>results. (concat (map (case_sum (\<lambda>e. [e]) (\<lambda>_. [])) results),
                                  concat (map (case_sum (\<lambda>_. []) (\<lambda>b. [b])) results)))
             (those (map (batch_piece env r) [0..<nat (batch_size r)])))"

definition batch_failed :: "chunk_env \<Rightarrow> go_error list \<Rightarrow> mr \<Rightarrow> mr" where
  "batch_failed env errs r =
     (let err = ce_first env errs
      in if errors_Is err CtxCanceled then r else r\<lparr>m_failed := m_failed r @ [err]\<rparr>)"

definition batch_sent :: "mr \<Rightarrow> mr" where
  "batch_sent r =
     r\<lparr>m_currentPart := m_currentPart r + batch_size r,
       m_offset := m_offset r + m_chunkSize r * batch_size r\<rparr>"

definition fillBatch :: "chunk_env \<Rightarrow> mr \<Rightarrow> (go_error option \<times> mr) option" where
  "fillBatch env r =
     map_option (\<lambda>(errs, bufs).
       if errs \<noteq> [] then (Some (ce_first env errs), batch_failed env errs r)
       else (None, batch_sent (r\<lparr>m_chan := m_chan r @ bufs\<rparr>))) (fetchBatch env r)"

text \<open>The reader's own cancel function; a context that has ended keeps its error.\<close>

definition mr_cancel :: "mr \<Rightarrow> mr" where
  "mr_cancel r = r\<lparr>m_ctxErr := Some (case m_ctxErr r of None \<Rightarrow> CtxCanceled | Some e \<Rightarrow> e)\<rparr>"

text \<open>
  The goroutine run to its end: everything it sends over the channel, then the close. It never
  ends when batches are empty while parts are left.
\<close>

partial_function (option) fillBuffer :: "chunk_env \<Rightarrow> mr \<Rightarrow> mr option" where
  "fillBuffer env r =
     (if m_currentPart r < m_totalParts r then
        Option.bind (fillBatch env r) (\<lambda>(err, r').
          if err \<noteq> None then Some ((mr_cancel r')\<lparr>m_closed := True\<rparr>)
          else fillBuffer env r')
      else Some (r\<lparr>m_closed := True\<rparr>))"

text \<open>
  The select of \<open>Read\<close>: a buffer, the closed channel, or the end of the context; when several
  are ready, \<open>sel\<close> says whether the context is chosen. With none of them ready the call blocks.
\<close>

definition mr_receive :: "bool \<Rightarrow> mr \<Rightarrow> (go_error + mr) option" where
  "mr_receive sel r =
     (case m_ctxErr r of
        Some e \<Rightarrow>
          if sel then Some (Inl e)
          else (case m_chan r of
                  b # bs \<Rightarrow> Some (Inr (r\<lparr>m_cur := Some b, m_chan := bs\<rparr>))
                | [] \<Rightarrow> if m_closed r then Some (Inl ErrStreamAbandoned) else Some (Inl e))
      | None \<Rightarrow>
          (case m_chan r of
             b # bs \<Rightarrow> Some (Inr (r\<lparr>m_cur := Some b, m_chan := bs\<rparr>))
           | [] \<Rightarrow> if m_closed r then Some (Inl ErrStreamAbandoned) else None))"

definition mr_deliver :: "mr \<Rightarrow> nat \<Rightarrow> mr io_result" where
  "mr_deliver r k =
     Option.bind (m_cur r) (\<lambda>cur. Option.bind (buffer_buffer cur) (\<lambda>B.
       let bs = take k B;
           r1 = r\<lparr>m_cur := Some (buffer_increment cur (length bs)), m_limit := m_limit r - int (length bs)\<rparr>
       in if m_limit r1 \<le> 0
          then Some (r1\<lparr>m_cur := Some ((buffer_increment cur (length bs))\<lparr>b_buf := None\<rparr>)\<rparr>, bs, Some EOF)
          else Some (r1, bs, None)))"

definition mr_Read :: "bool \<Rightarrow> mr \<Rightarrow> nat \<Rightarrow> mr io_result" where
  "mr_Read sel r k =
     (if m_limit r \<le> 0 then Some (r, [], Some EOF)
      else Option.bind (buffer_isEmpty (m_cur r)) (\<lambda>empty.
        if empty then
          Option.bind (mr_receive sel r) (\<lambda>res.
            case res of Inl e \<Rightarrow> Some (r, [], Some e) | Inr r' \<Rightarrow> mr_deliver r' k)
        else mr_deliver r k))"

definition mr_Close :: "mr \<Rightarrow> mr \<times> go_error option" where
  "mr_Close r =
     ((mr_cancel r)\<lparr>m_cur := map_option (\<lambda>b. b\<lparr>b_buf := None\<rparr>) (m_cur r)\<rparr>, None)"

subsection \<open>Read as a reader\<close>

fun cur_bytes :: "buffer option \<Rightarrow> bytes" where
  "cur_bytes None = []"
| "cur_bytes (Some b) = (case b_buf b of None \<Rightarrow> [] | Some B \<Rightarrow> drop (b_offset b) B)"

fun cur_ok :: "buffer option \<Rightarrow> bool" where
  "cur_ok None = True"
| "cur_ok (Some b) = (case b_buf b of None \<Rightarrow> False | Some B \<Rightarrow> b_offset b \<le> length B)"

definition mr_pending :: "mr \<Rightarrow> bytes" where
  "mr_pending r = cur_bytes (m_cur r) @ concat (map (\<lambda>b. cur_bytes (Some b)) (m_chan r))"

definition mr_rest :: "mr \<Rightarrow> bytes" where
  "mr_rest r = (if m_limit r \<le> 0 then [] else mr_pending r)"

definition mr_ok :: "mr \<Rightarrow> bool" where
  "mr_ok r \<longleftrightarrow> m_limit r \<le> 0 \<or>
     (m_ctxErr r = None \<and> cur_ok (m_cur r) \<and> (\<forall>b \<in> set (m_chan r). cur_ok (Some b)) \<and>
      int (length (mr_pending r)) = m_limit r)"

definition mr_rank :: "mr \<Rightarrow> nat" where
  "mr_rank r = length (m_chan r)"

lemma buffer_isEmpty_ok: "cur_ok c \<Longrightarrow> buffer_isEmpty c = Some (cur_bytes c = [])"
  by (cases c rule: cur_ok.cases) (auto simp: buffer_isEmpty_def split: option.splits)

lemma mr_deliver_spec:
  assumes "0 < m_limit r" "mr_ok r" "m_cur r = Some cur"
  shows "\<exists>r' bs e. mr_deliver r k = Some (r', bs, e) \<and> mr_ok r' \<and> mr_rest r = bs @ mr_rest r' \<and>
    length bs \<le> k \<and> (e = None \<or> e = Some EOF \<and> mr_rest r' = []) \<and> m_chan r' = m_chan r \<and>
    (0 < k \<longrightarrow> cur_bytes (m_cur r) \<noteq> [] \<longrightarrow> bs \<noteq> [])"
proof -
  from assms obtain B where B: "b_buf cur = Some B" "b_offset cur \<le> length B"
    by (auto simp: mr_ok_def split: option.splits)
  define bs where "bs = take k (drop (b_offset cur) B)"
  define r1 where "r1 = r\<lparr>m_cur := Some (buffer_increment cur (length bs)), m_limit := m_limit r - int (length bs)\<rparr>"
  have adv: "drop (b_offset cur) B = bs @ drop (b_offset cur + length bs) B"
    using copy_advance [of k "b_offset cur" B] by (simp add: bs_def)
  have pend: "mr_pending r = bs @ mr_pending r1"
    using assms(3) B adv by (simp add: mr_pending_def r1_def buffer_increment_def)
  then have lim: "int (length (mr_pending r1)) = m_limit r1"
    using assms(1,2) by (simp add: mr_ok_def r1_def)
  have bound: "b_offset cur + length bs \<le> length B" using B(2) by (auto simp: bs_def min_def)
  have unf: "mr_deliver r k = (if m_limit r1 \<le> 0
      then Some (r1\<lparr>m_cur := Some ((buffer_increment cur (length bs))\<lparr>b_buf := None\<rparr>)\<rparr>, bs, Some EOF)
      else Some (r1, bs, None))"
    using assms(3) B by (simp add: mr_deliver_def buffer_buffer_def slice_from_def Let_def bs_def r1_def)
  have ne: "0 < k \<longrightarrow> cur_bytes (m_cur r) \<noteq> [] \<longrightarrow> bs \<noteq> []" using assms(3) B by (simp add: bs_def)
  show ?thesis
  proof (cases "m_limit r1 \<le> 0")
    case True
    with lim have "mr_pending r1 = []" by (metis length_0_conv nat_int nat_le_0)
    with True unf pend ne assms(1) show ?thesis by (auto simp: mr_ok_def mr_rest_def r1_def bs_def)
  next
    case False
    then have "mr_ok r1" using assms(2) lim B bound
      by (auto simp: mr_ok_def r1_def buffer_increment_def)
    with False unf pend ne assms(1) show ?thesis by (auto simp: mr_rest_def r1_def bs_def)
  qed
qed

lemma mr_Read_spec:
  assumes "mr_ok r"
  shows "\<exists>r' bs e. mr_Read sel r k = Some (r', bs, e) \<and> mr_ok r' \<and> mr_rest r = bs @ mr_rest r' \<and>
    length bs \<le> k \<and> (e = None \<or> e = Some EOF \<and> mr_rest r' = []) \<and>
    (0 < k \<longrightarrow> bs = [] \<longrightarrow> e = None \<longrightarrow> mr_rank r' < mr_rank r)"
proof (cases "m_limit r \<le> 0")
  case True
  with assms show ?thesis by (auto simp: mr_Read_def mr_rest_def)
next
  case lim: False
  with assms have ok: "m_ctxErr r = None" "cur_ok (m_cur r)" "\<forall>b \<in> set (m_chan r). cur_ok (Some b)"
    "int (length (mr_pending r)) = m_limit r" by (auto simp: mr_ok_def)
  show ?thesis
  proof (cases "cur_bytes (m_cur r) = []")
    case False
    then obtain cur where cur: "m_cur r = Some cur" by (cases "m_cur r") auto
    have "mr_Read sel r k = mr_deliver r k"
      using lim False buffer_isEmpty_ok [OF ok(2)] by (simp add: mr_Read_def)
    with mr_deliver_spec [OF _ assms cur, of k] lim False show ?thesis
      by (auto simp: mr_rank_def not_le)
  next
    case True
    with ok(4) lim obtain b bs where chan: "m_chan r = b # bs"
      by (cases "m_chan r") (auto simp: mr_pending_def)
    define r1 where "r1 = r\<lparr>m_cur := Some b, m_chan := bs\<rparr>"
    have read: "mr_Read sel r k = mr_deliver r1 k"
      using lim True buffer_isEmpty_ok [OF ok(2)] ok(1) chan
      by (simp add: mr_Read_def mr_receive_def r1_def)
    have pend: "mr_pending r1 = mr_pending r" using True chan by (simp add: mr_pending_def r1_def)
    have r1: "0 < m_limit r1" "mr_ok r1" "m_cur r1 = Some b"
      using lim ok chan pend by (auto simp: mr_ok_def r1_def)
    have "mr_rest r1 = mr_rest r" using pend by (simp add: mr_rest_def r1_def)
    moreover have "length (m_chan r1) < length (m_chan r)" using chan by (simp add: r1_def)
    ultimately show ?thesis using mr_deliver_spec [OF r1, of k] read
      by (auto simp: mr_rank_def)
  qed
qed

interpretation tg: io_reader "mr_Read sel" mr_rest mr_ok mr_rank for sel
  by (rule io_readerI) (rule mr_Read_spec)

subsection \<open>What the producer sends\<close>

text \<open>
  A chunk source is honest about a document if what it returns are the bytes of the document
  at the offset, as many as asked for or as are left; it may fail at any time. It serves the
  document if moreover one of the three attempts succeeds, after errors that are retried only.
\<close>

definition chunk_of :: "bytes \<Rightarrow> int \<Rightarrow> int \<Rightarrow> bytes" where
  "chunk_of doc off lim = take (nat lim) (drop (nat off) doc)"

definition honest :: "chunk_env \<Rightarrow> bytes \<Rightarrow> bool" where
  "honest env doc \<longleftrightarrow> (\<forall>off lim a chunk. ce_chunk env off lim a = Inr chunk \<longrightarrow> chunk = chunk_of doc off lim)"

definition retried :: "chunk_env \<Rightarrow> int \<Rightarrow> int \<Rightarrow> nat \<Rightarrow> bool" where
  "retried env off lim a \<longleftrightarrow>
     \<not> ce_stop env off a \<and> ce_done env off a = None \<and>
     (case ce_chunk env off lim a of
        Inr _ \<Rightarrow> False
      | Inl e \<Rightarrow> \<forall>part. isRetryableChunkError (Some (chunk_error part e)))"

definition serves :: "chunk_env \<Rightarrow> bytes \<Rightarrow> bool" where
  "serves env doc \<longleftrightarrow> honest env doc \<and>
     (\<forall>off lim. \<exists>a \<le> maxChunkRetries. ce_chunk env off lim a = Inr (chunk_of doc off lim) \<and>
        (\<forall>b < a. retried env off lim b))"

lemma fetch_loop_honest:
  assumes "\<And>a chunk. att a = Inr chunk \<Longrightarrow> chunk = c"
  shows "fst (fetch_loop att stop done part attempt) = Inr chunk \<Longrightarrow> chunk = c"
  using assms
proof (induction att stop "done" part attempt rule: fetch_loop.induct)
  case (1 att stop "done" part attempt)
  then show ?case
    by (subst (asm) (2) fetch_loop.simps) (auto simp: Let_def split: sum.splits if_splits option.splits)
qed

lemma fetch_loop_serves:
  assumes "attempt \<le> a" "a \<le> maxChunkRetries" "att a = Inr c"
    "\<And>b. b < a \<Longrightarrow> \<not> stop b \<and> done b = None \<and> (\<exists>e. att b = Inl e \<and> isRetryableChunkError (Some (chunk_error part e)))"
  shows "fetch_loop att stop done part attempt = (Inr c, Suc a)"
  using assms(1)
proof (induction attempt rule: inc_induct)
  case base
  show ?case using assms(3) by (subst fetch_loop.simps) simp
next
  case (step b)
  then show ?case using assms(2) assms(4) [of b] by (subst fetch_loop.simps) auto
qed

lemma fetch_loop_attempts:
  "attempt \<le> 2 \<Longrightarrow> \<exists>a res. fetch_loop att stop done part attempt = (res, Suc a) \<and> attempt \<le> a \<and> a \<le> 2 \<and>
    (\<forall>b<a. attempt \<le> b \<longrightarrow> \<not> stop b \<and> done b = None \<and>
       (\<exists>err. att b = Inl err \<and> isRetryableChunkError (Some (chunk_error part err)))) \<and>
    (case att a of Inr chunk \<Rightarrow> res = Inr chunk | Inl err \<Rightarrow> \<exists>e. res = Inl e)"
proof (induction att stop "done" part attempt rule: fetch_loop.induct)
  case (1 att stop "done" part attempt)
  let ?again = "\<exists>err. att attempt = Inl err \<and> isRetryableChunkError (Some (chunk_error part err)) \<and>
    attempt < 2 \<and> \<not> stop attempt \<and> done attempt = None"
  show ?case
  proof (cases ?again)
    case True
    then obtain err where err: "att attempt = Inl err" "isRetryableChunkError (Some (chunk_error part err))"
      "attempt < 2" "\<not> stop attempt" "done attempt = None" by blast
    have loop: "fetch_loop att stop done part attempt = fetch_loop att stop done part (Suc attempt)"
      using err by (subst fetch_loop.simps) simp
    from 1(1) [OF err(1) refl] err obtain a res where "fetch_loop att stop done part (Suc attempt) = (res, Suc a)"
      "Suc attempt \<le> a" "a \<le> 2" "\<forall>b<a. Suc attempt \<le> b \<longrightarrow> \<not> stop b \<and> done b = None \<and>
         (\<exists>err. att b = Inl err \<and> isRetryableChunkError (Some (chunk_error part err)))"
      "case att a of Inr chunk \<Rightarrow> res = Inr chunk | Inl err \<Rightarrow> \<exists>e. res = Inl e" by auto
    with err loop show ?thesis
      by (intro exI [of _ a] exI [of _ res]) (auto simp: le_less Suc_le_eq)
  next
    case False
    with 1(2) show ?thesis
      by (subst fetch_loop.simps) (auto simp: Let_def intro!: exI [of _ attempt] split: sum.splits option.splits)
  qed
qed

lemma ce_fetch_honest:
  assumes "honest env doc" "ce_fetch env off lim part = Inr chunk"
  shows "chunk = chunk_of doc off lim"
  using fetch_loop_honest [of "ce_chunk env off lim" "chunk_of doc off lim"] assms
  by (auto simp: ce_fetch_def fetchChunkWithRetry_def honest_def)

lemma ce_fetch_serves:
  assumes "serves env doc"
  shows "ce_fetch env off lim part = Inr (chunk_of doc off lim)"
proof -
  from assms obtain a where a: "a \<le> maxChunkRetries" "ce_chunk env off lim a = Inr (chunk_of doc off lim)"
    "\<And>b. b < a \<Longrightarrow> retried env off lim b" unfolding serves_def by blast
  have "fetch_loop (ce_chunk env off lim) (ce_stop env off) (ce_done env off) part 0 =
      (Inr (chunk_of doc off lim), Suc a)"
    using a(1,2)
  proof (intro fetch_loop_serves)
    fix b assume "b < a"
    with a(3) have "retried env off lim b" .
    then show "\<not> ce_stop env off b \<and> ce_done env off b = None \<and>
        (\<exists>e. ce_chunk env off lim b = Inl e \<and> isRetryableChunkError (Some (chunk_error part e)))"
      by (auto simp: retried_def split: sum.splits)
  qed simp_all
  then show ?thesis by (simp add: ce_fetch_def fetchChunkWithRetry_def)
qed

text \<open>Bounds of the piece of chunk \<open>i\<close> inside the range \<open>s..e\<close>, for chunks of \<open>cs\<close> bytes.\<close>

definition piece_lo :: "nat \<Rightarrow> nat \<Rightarrow> nat \<Rightarrow> nat" where
  "piece_lo cs s i = (if i = 0 then s else (s div cs + i) * cs)"

definition piece_hi :: "nat \<Rightarrow> nat \<Rightarrow> nat \<Rightarrow> nat \<Rightarrow> nat" where
  "piece_hi cs s e i = (if i = e div cs - s div cs then e else (s div cs + i) * cs + cs - 1)"

definition piece_count :: "nat \<Rightarrow> nat \<Rightarrow> nat \<Rightarrow> nat" where
  "piece_count cs s e = Suc (e div cs - s div cs)"

definition piece :: "bytes \<Rightarrow> nat \<Rightarrow> nat \<Rightarrow> nat \<Rightarrow> nat \<Rightarrow> bytes" where
  "piece doc cs s e i = range_of doc (piece_lo cs s i) (piece_hi cs s e i)"

definition piece_buf :: "bytes \<Rightarrow> nat \<Rightarrow> nat \<Rightarrow> nat \<Rightarrow> nat \<Rightarrow> buffer" where
  "piece_buf doc cs s e i = \<lparr>b_buf = Some (piece doc cs s e i), b_offset = 0\<rparr>"

lemma pieces_range:
  assumes cs: "0 < cs" and se: "s \<le> e"
  shows "concat (map (piece doc cs s e) [0..<piece_count cs s e]) = range_of doc s e"
proof -
  have le: "s div cs \<le> e div cs" using se by (rule div_le_mono)
  have e: "e = e div cs * cs + e mod cs" and s: "s = s div cs * cs + s mod cs" by simp_all
  have "piece_lo cs s i \<le> piece_hi cs s e i" if i: "i < piece_count cs s e" for i
  proof (cases "i = e div cs - s div cs")
    case True
    with le have "(s div cs + i) * cs = e div cs * cs" by simp
    with True se e show ?thesis by (auto simp: piece_lo_def piece_hi_def)
  next
    case False
    have "s < s div cs * cs + cs" using s cs mod_less_divisor [OF cs, of s] by linarith
    with False cs show ?thesis by (auto simp: piece_lo_def piece_hi_def)
  qed
  moreover have "piece_lo cs s (Suc i) = Suc (piece_hi cs s e i)" if i: "Suc i < piece_count cs s e" for i
    using i cs by (simp add: piece_lo_def piece_hi_def piece_count_def)
  ultimately have "concat (map (\<lambda>i. range_of doc (piece_lo cs s i) (piece_hi cs s e i)) [0..<piece_count cs s e]) =
      range_of doc (piece_lo cs s 0) (piece_hi cs s e (piece_count cs s e - 1))"
    by (intro concat_ranges [THEN conjunct1]) (auto simp: piece_count_def)
  moreover have "piece_lo cs s 0 = s" "piece_hi cs s e (piece_count cs s e - 1) = e"
    by (simp_all add: piece_lo_def piece_hi_def piece_count_def)
  ultimately show ?thesis unfolding piece_def by simp
qed

lemma cap_slice_doc:
  assumes "l \<le> h" "h \<le> cs" "B + h \<le> length doc"
  shows "cap_slice (take cs (drop B doc)) spare (int l) (int h) = Some (take (h - l) (drop (B + l) doc))"
proof -
  have "h \<le> length (take cs (drop B doc))" using assms by auto
  then have "drop l (take h (take cs (drop B doc) @ spare)) = drop l (take h (take cs (drop B doc)))" by simp
  also have "\<dots> = take (h - l) (drop (B + l) doc)"
    using assms(2) by (simp add: drop_take min_absorb1 add.commute)
  finally show ?thesis using assms by (simp add: cap_slice_def min_def le_diff_conv2)
qed

lemma cut_chunk_piece:
  assumes cs: "0 < cs" and se: "s \<le> e" "e < length doc" and i: "i < piece_count cs s e"
    and r: "m_totalParts r = int (piece_count cs s e)" "m_leftCut r = int (s mod cs)"
      "m_rightCut r = int (e mod cs) + 1"
  shows "cut_chunk r (int i) (take cs (drop ((s div cs + i) * cs) doc)) spare = Some (piece doc cs s e i)"
proof -
  define B where "B = (s div cs + i) * cs"
  define l h where "l = (if i = 0 then s mod cs else 0)"
    and "h = (if i = e div cs - s div cs then e mod cs + 1 else cs)"
  have le: "s div cs \<le> e div cs" using se(1) by (rule div_le_mono)
  have e: "e = e div cs * cs + e mod cs" and s: "s = s div cs * cs + s mod cs" by simp_all
  have mods: "s mod cs < cs" "e mod cs < cs" using cs by simp_all
  have last: "i = e div cs - s div cs \<Longrightarrow> B = e div cs * cs" using le by (simp add: B_def)
  have mid: "B + cs \<le> e" if "i \<noteq> e div cs - s div cs"
  proof -
    have "s div cs + i + 1 \<le> e div cs" using that i le by (simp add: piece_count_def)
    then have "(s div cs + i + 1) * cs \<le> e div cs * cs" by (rule mult_le_mono1)
    moreover have "e div cs * cs \<le> e" by simp
    ultimately show ?thesis unfolding B_def add_mult_distrib by linarith
  qed
  have same: "s div cs = e div cs \<Longrightarrow> s mod cs \<le> e mod cs"
    using se(1) by (metis add_le_cancel_left div_mult_mod_eq)
  have lh: "l \<le> h" "h \<le> cs" "B + h \<le> length doc" "0 < h"
    using mods last mid se e s same le by (auto simp: l_def h_def B_def)
  have bounds: "piece_lo cs s i = B + l" "piece_hi cs s e i = B + h - 1"
    using last e s by (auto simp: piece_lo_def piece_hi_def B_def l_def h_def)
  have "cap_slice (take cs (drop B doc)) spare (int l) (int h) = Some (piece doc cs s e i)"
    unfolding cap_slice_doc [OF lh(1-3)] piece_def bounds using lh by (simp add: range_of_def)
  moreover have "cut_chunk r (int i) (take cs (drop B doc)) spare =
      cap_slice (take cs (drop B doc)) spare (int l) (int h)"
  proof -
    have full: "length (take cs (drop B doc)) = cs" if "i \<noteq> e div cs - s div cs"
      using mid [OF that] se(2) by simp
    then have "i \<noteq> e div cs - s div cs \<Longrightarrow>
        cap_slice (take cs (drop B doc)) spare 0 (int cs) = Some (take cs (drop B doc))"
      using cap_slice_doc [of 0 cs cs B doc spare] mid se(2) by force
    with full i show ?thesis unfolding cut_chunk_def r
      by (auto simp: piece_count_def l_def h_def add.commute)
  qed
  ultimately show ?thesis by (simp add: B_def)
qed

text \<open>A reader of the range \<open>s..e\<close> whose producer has fetched the first \<open>i\<close> chunks.\<close>

definition mr_at :: "mr \<Rightarrow> nat \<Rightarrow> nat \<Rightarrow> nat \<Rightarrow> nat \<Rightarrow> bool" where
  "mr_at r cs s e i \<longleftrightarrow>
     0 < cs \<and> s \<le> e \<and> i \<le> piece_count cs s e \<and> 0 < m_concurrency r \<and>
     m_totalParts r = int (piece_count cs s e) \<and> m_leftCut r = int (s mod cs) \<and>
     m_rightCut r = int (e mod cs) + 1 \<and> m_chunkSize r = int cs \<and>
     m_currentPart r = int i \<and> m_offset r = int ((s div cs + i) * cs)"

lemma batch_size_at:
  assumes "mr_at r cs s e i" "i < piece_count cs s e"
  obtains b where "batch_size r = int b" "0 < b" "i + b \<le> piece_count cs s e"
proof
  show "batch_size r = int (min (nat (m_concurrency r)) (piece_count cs s e - i))"
    using assms by (auto simp: batch_size_def mr_at_def min_def)
qed (use assms in \<open>auto simp: mr_at_def\<close>)

lemma batch_piece_at:
  assumes r: "mr_at r cs s e i" and e: "e < length doc" and t: "i + t < piece_count cs s e"
  shows "batch_piece env r t =
    (case ce_fetch env (int ((s div cs + (i + t)) * cs)) (int cs) (int (i + t)) of
       Inl err \<Rightarrow> Some (Inl err)
     | Inr chunk \<Rightarrow> map_option (\<lambda>B. Inr \<lparr>b_buf = Some B, b_offset = 0\<rparr>)
                      (cut_chunk r (int (i + t)) chunk (ce_spare env (int (i + t)))))"
proof -
  have "m_offset r + int t * m_chunkSize r = int ((s div cs + (i + t)) * cs)"
    and "m_currentPart r + int t = int (i + t)" and "m_chunkSize r = int cs"
    using r by (simp_all add: mr_at_def algebra_simps)
  then show ?thesis unfolding batch_piece_def Let_def by (simp only:)
qed

lemma cut_chunk_at:
  assumes r: "mr_at r cs s e i" and e: "e < length doc" and j: "j < piece_count cs s e"
  shows "cut_chunk r (int j) (chunk_of doc (int ((s div cs + j) * cs)) (int cs)) spare = Some (piece doc cs s e j)"
  unfolding chunk_of_def nat_int
  using r by (intro cut_chunk_piece [OF _ _ e j]) (simp_all add: mr_at_def)

text \<open>
  Whatever the chunk source does, a batch is fetched with the pieces of the range in order, or
  with an error.
\<close>

lemma those_Inr_results:
  assumes "\<And>t. t < b \<Longrightarrow> f t = Some (Inr (g t)) \<or> (\<exists>e. f t = Some (Inl e))"
  obtains rs where "those (map f [0..<b]) = Some rs"
    "concat (map (case_sum (\<lambda>e. [e]) (\<lambda>_. [])) rs) \<noteq> [] \<or> rs = map (Inr \<circ> g) [0..<b]"
  using assms
proof (induction b arbitrary: thesis)
  case (Suc b)
  obtain rs where rs: "those (map f [0..<b]) = Some rs"
    "concat (map (case_sum (\<lambda>e. [e]) (\<lambda>_. [])) rs) \<noteq> [] \<or> rs = map (Inr \<circ> g) [0..<b]"
    by (rule Suc.IH) (use Suc.prems(2) in auto)
  from Suc.prems(2) [of b] obtain x where x: "f b = Some x" "x = Inr (g b) \<or> (\<exists>e. x = Inl e)" by auto
  have "those (map f [0..<b] @ [f b]) = Some (rs @ [x])" using rs(1) x(1) by (simp add: those_snoc)
  then show ?case using rs(2) x(2) by (intro Suc.prems(1) [of "rs @ [x]"]) auto
qed simp

lemma concat_Inr:
  "concat (map (case_sum f (\<lambda>b. [b])) (map (Inr \<circ> g) xs)) = map g xs"
  "concat (map (case_sum f' (\<lambda>b. [])) (map (Inr \<circ> g) xs)) = []"
  by (induction xs) auto

lemma fetchBatch_honest:
  assumes r: "mr_at r cs s e i" "i < piece_count cs s e" and doc: "e < length doc" and env: "honest env doc"
  shows "\<exists>b errs bufs. batch_size r = int b \<and> 0 < b \<and> i + b \<le> piece_count cs s e \<and>
    fetchBatch env r = Some (errs, bufs) \<and> (errs \<noteq> [] \<or> bufs = map (piece_buf doc cs s e) [i..<i + b]) \<and>
    (serves env doc \<longrightarrow> errs = [])"
proof -
  from batch_size_at [OF r] obtain b where b: "batch_size r = int b" "0 < b" "i + b \<le> piece_count cs s e" .
  let ?fetch = "\<lambda>t. ce_fetch env (int ((s div cs + (i + t)) * cs)) (int cs) (int (i + t))"
  have step: "batch_piece env r t = (case ?fetch t of Inl err \<Rightarrow> Some (Inl err)
      | Inr chunk \<Rightarrow> Some (Inr (piece_buf doc cs s e (i + t))))" if "t < b" for t
    using ce_fetch_honest [OF env] cut_chunk_at [OF r(1) doc, of "i + t"] that b(3)
    by (auto simp: batch_piece_at [OF r(1) doc] piece_buf_def split: sum.splits)
  then have cases: "\<And>t. t < b \<Longrightarrow> batch_piece env r t = Some (Inr (piece_buf doc cs s e (i + t))) \<or>
      (\<exists>err. batch_piece env r t = Some (Inl err))"
    by (auto split: sum.splits)
  obtain rs where rs: "those (map (batch_piece env r) [0..<b]) = Some rs"
    "concat (map (case_sum (\<lambda>e. [e]) (\<lambda>_. [])) rs) \<noteq> [] \<or> rs = map (Inr \<circ> (\<lambda>t. piece_buf doc cs s e (i + t))) [0..<b]"
    by (rule those_Inr_results [of b "batch_piece env r" "\<lambda>t. piece_buf doc cs s e (i + t)"]) (rule cases)
  have idx: "map (\<lambda>t. piece_buf doc cs s e (i + t)) [0..<b] = map (piece_buf doc cs s e) [i..<i + b]"
    by (rule nth_equalityI) auto
  have all: "rs = map (Inr \<circ> (\<lambda>t. piece_buf doc cs s e (i + t))) [0..<b]" if "serves env doc"
  proof -
    have "those (map (batch_piece env r) [0..<b]) = Some (map (Inr \<circ> (\<lambda>t. piece_buf doc cs s e (i + t))) [0..<b])"
      by (rule those_map_Some) (simp add: step ce_fetch_serves [OF that])
    with rs(1) show ?thesis by simp
  qed
  show ?thesis
  proof (intro exI conjI)
    show "fetchBatch env r = Some (concat (map (case_sum (\<lambda>e. [e]) (\<lambda>_. [])) rs),
        concat (map (case_sum (\<lambda>_. []) (\<lambda>b. [b])) rs))"
      using b(1) rs(1) by (simp add: fetchBatch_def)
    show "concat (map (case_sum (\<lambda>e. [e]) (\<lambda>_. [])) rs) \<noteq> [] \<or>
        concat (map (case_sum (\<lambda>_. []) (\<lambda>b. [b])) rs) = map (piece_buf doc cs s e) [i..<i + b]"
      using rs(2) by (auto simp only: concat_Inr idx)
    show "serves env doc \<longrightarrow> concat (map (case_sum (\<lambda>e. [e]) (\<lambda>_. [])) rs) = []"
      using all concat_Inr(2) by metis
  qed (fact b)+
qed

lemma mr_at_sent:
  assumes "mr_at r cs s e i" "batch_size r = int b" "i + b \<le> piece_count cs s e"
  shows "mr_at (batch_sent r) cs s e (i + b)"
  using assms by (simp add: mr_at_def batch_sent_def algebra_simps)

text \<open>The fields of a new reader in natural numbers.\<close>

lemma newTGMultiReader_fields:
  assumes "s \<le> e"
  defines "cs \<equiv> nat (CalculateChunkSize (int s) (int e))"
  shows "newTGMultiReader (int s) (int e) conc =
    \<lparr>m_offset = int (s div cs * cs), m_limit = int (Suc e - s), m_chunkSize = int cs, m_chan = [], m_closed = False,
     m_cur = None, m_concurrency = conc, m_leftCut = int (s mod cs), m_rightCut = int (e mod cs) + 1,
     m_totalParts = int (piece_count cs s e), m_currentPart = 0, m_ctxErr = None, m_failed = []\<rparr>"
proof -
  have cs: "CalculateChunkSize (int s) (int e) = int cs" "0 < cs" by (simp_all add: cs_def)
  have mods: "go_mod (int s) (int cs) = int (s mod cs)" "go_mod (int e) (int cs) = int (e mod cs)"
    using cs(2) by (simp_all add: go_arith zmod_int)
  have off: "int s - int (s mod cs) = int (s div cs * cs)" by (simp add: zdiv_int zmod_int minus_mod_eq_div_mult)
  have le: "s div cs * cs \<le> e" using assms(1) by (metis div_times_less_eq_dividend le_trans)
  have count: "(e - s div cs * cs + cs) div cs = piece_count cs s e"
  proof -
    define d where "d = e - s div cs * cs"
    have "e div cs = (d + s div cs * cs) div cs" using le by (simp add: d_def)
    also have "\<dots> = d div cs + s div cs" using cs(2) by simp
    finally have "e div cs - s div cs = d div cs" by simp
    with cs(2) show ?thesis unfolding piece_count_def d_def [symmetric] by (simp add: div_add_self2)
  qed
  have "go_div (int e - int (s div cs * cs) + int cs) (int cs) = int (piece_count cs s e)"
  proof -
    have "int e - int (s div cs * cs) + int cs = int (e - s div cs * cs + cs)" using le by (simp only: of_nat_diff of_nat_add)
    moreover have "go_div (int (e - s div cs * cs + cs)) (int cs) = int ((e - s div cs * cs + cs) div cs)"
      using cs(2) by (simp only: go_div_nonneg of_nat_0_le_iff of_nat_0_less_iff zdiv_int)
    ultimately show ?thesis using count by (simp only:)
  qed
  with assms(1) off show ?thesis
    unfolding newTGMultiReader_def Let_def cs(1) mods by (simp add: of_nat_diff)
qed

text \<open>
  The producer run to its end, with nothing read in between: all pieces are in the channel.
\<close>

lemma fillBuffer_pieces:
  assumes "mr_at r cs s e i" "e < length doc" "serves env doc"
    "m_chan r = map (piece_buf doc cs s e) [0..<i]"
  shows "\<exists>r'. fillBuffer env r = Some r' \<and> m_chan r' = map (piece_buf doc cs s e) [0..<piece_count cs s e] \<and>
    m_closed r' \<and> m_limit r' = m_limit r \<and> m_cur r' = m_cur r \<and> m_ctxErr r' = m_ctxErr r \<and> m_failed r' = m_failed r"
  using assms
proof (induction "piece_count cs s e - i" arbitrary: i r rule: less_induct)
  case less
  have cur: "m_currentPart r = int i" "m_totalParts r = int (piece_count cs s e)" "i \<le> piece_count cs s e"
    using less.prems(1) by (simp_all add: mr_at_def)
  show ?case
  proof (cases "i = piece_count cs s e")
    case True
    then show ?thesis using cur less.prems(4) by (subst fillBuffer.simps) simp
  next
    case False
    with cur have i: "i < piece_count cs s e" by simp
    have "honest env doc" using less.prems(3) by (simp add: serves_def)
    from fetchBatch_honest [OF less.prems(1) i less.prems(2) this] less.prems(3) obtain b where
      b: "batch_size r = int b" "0 < b" "i + b \<le> piece_count cs s e"
        "fetchBatch env r = Some ([], map (piece_buf doc cs s e) [i..<i + b])" by fastforce
    define r1 where "r1 = r\<lparr>m_chan := m_chan r @ map (piece_buf doc cs s e) [i..<i + b]\<rparr>"
    have r1: "mr_at r1 cs s e i" "batch_size r1 = int b" using less.prems(1) b(1) by (simp_all add: r1_def mr_at_def batch_size_def)
    have "fillBuffer env r = fillBuffer env (batch_sent r1)"
      using cur i b(4) by (subst fillBuffer.simps) (simp add: fillBatch_def r1_def)
    moreover have "mr_at (batch_sent r1) cs s e (i + b)" by (rule mr_at_sent [OF r1 b(3)])
    moreover have "m_chan (batch_sent r1) = map (piece_buf doc cs s e) [0..<i + b]"
      using less.prems(4) upt_add_eq_append [of 0 i b] by (simp add: batch_sent_def r1_def flip: map_append)
    ultimately show ?thesis using less.hyps [of "i + b" "batch_sent r1"] b(2,3) less.prems(2,3)
      by (simp add: batch_sent_def r1_def)
  qed
qed

lemma new_mr_at:
  assumes "s \<le> e" "0 < conc"
  shows "mr_at (newTGMultiReader (int s) (int e) conc) (nat (CalculateChunkSize (int s) (int e))) s e 0"
  using assms by (simp add: newTGMultiReader_fields mr_at_def)

lemma pending_pieces:
  "0 < cs \<Longrightarrow> s \<le> e \<Longrightarrow>
     concat (map (\<lambda>b. cur_bytes (Some b)) (map (piece_buf doc cs s e) [0..<piece_count cs s e])) = range_of doc s e"
  using pieces_range [of cs s e doc] by (simp add: piece_buf_def comp_def)

lemma stream_ready:
  assumes se: "s \<le> e" "e < length doc" and conc: "0 < conc" and env: "serves env doc"
  shows "\<exists>r. fillBuffer env (newTGMultiReader (int s) (int e) conc) = Some r \<and> mr_ok r \<and>
    mr_rest r = range_of doc s e \<and> m_closed r \<and> m_failed r = []"
proof -
  define cs where "cs = nat (CalculateChunkSize (int s) (int e))"
  define r where "r = newTGMultiReader (int s) (int e) conc"
  note new = newTGMultiReader_fields [OF se(1), of conc, folded cs_def, folded r_def]
  have cs: "0 < cs" by (simp add: cs_def)
  have at: "mr_at r cs s e 0" using new_mr_at [OF se(1) conc] by (simp only: r_def cs_def)
  from fillBuffer_pieces [OF at se(2) env] new obtain r' where r': "fillBuffer env r = Some r'"
    "m_chan r' = map (piece_buf doc cs s e) [0..<piece_count cs s e]"
    "m_closed r'" "m_limit r' = int (Suc e - s)" "m_cur r' = None" "m_ctxErr r' = None" "m_failed r' = []" by auto
  moreover have "mr_pending r' = range_of doc s e"
    using pending_pieces [OF cs se(1), of doc] r'(2,5) by (simp add: mr_pending_def)
  moreover have "\<forall>b \<in> set (m_chan r'). cur_ok (Some b)" by (auto simp: r'(2) piece_buf_def)
  ultimately show ?thesis using se
    by (auto simp: r_def [symmetric] mr_ok_def mr_rest_def)
qed

end
