(* ===== verification/File_Reader.thy ===== *)
theory File_Reader
  imports Decrypter Tg_Reader "HOL-Library.Product_Lexorder"
begin

section \<open>The multi-part file reader (internal/reader/reader.go)\<close>

text \<open>
  A file is stored as parts, each a document of its own and, when the file is encrypted, each a
  ciphertext of its own. \<open>Reader\<close> maps a byte range of the file to ranges of the parts and
  reads these one after the other, through \<^verbatim>\<open>tgMultiReader\<close> and, for encrypted files,
  through the decrypter with its range callback.

  The environment \<open>file_env\<close> holds the chunk source of each channel and part, the configured
  concurrency and encryption key, and the parameters of the cipher; \<open>fe_sel\<close> resolves the select
  of \<open>Read\<close> when the context has ended. A part reader is opened with its producer run to the
  end: the interleavings are the subject of \<open>Tg_Stream\<close>.
\<close>

record part =
  p_ID :: int
  p_Size :: int
  p_DecryptedSize :: int
  p_Salt :: bytes

record part_range =
  rg_Start :: int
  rg_End :: int
  rg_PartNo :: int

record file_env =
  fe_chunks :: "int \<Rightarrow> int \<Rightarrow> chunk_env"
  fe_conc :: int
  fe_sel :: bool
  fe_key :: bytes
  fe_scrypt :: "bytes \<Rightarrow> bytes \<Rightarrow> nat \<Rightarrow> nat \<Rightarrow> nat \<Rightarrow> nat \<Rightarrow> go_error + bytes"
  fe_aes :: "bytes \<Rightarrow> go_error option"
  fe_opn :: "bytes \<Rightarrow> bytes \<Rightarrow> bytes \<Rightarrow> bytes option"

datatype part_reader = PlainPart mr | DecPart "mr decrypter"

record file_reader =
  fr_encrypted :: "bool option"
  fr_channel :: "int option"
  fr_parts :: "part list"
  fr_ranges :: "part_range list"
  fr_pos :: nat
  fr_reader :: "part_reader option"
  fr_remaining :: int
  fr_closed :: bool
  fr_closeErr :: "go_error option"

text \<open>The ranges of the parts; a part size of zero is a division by zero.\<close>

definition calculatePartByteRanges :: "int \<Rightarrow> int \<Rightarrow> int \<Rightarrow> part_range list option" where
  "calculatePartByteRanges start end partSize =
     (if partSize = 0 then None
      else let startPart = go_div start partSize; endPart = go_div end partSize in
        Some (map (\<lambda>part. \<lparr>rg_Start = max (start - part * partSize) 0,
                            rg_End = min (partSize - 1) (end - part * partSize),
                            rg_PartNo = part\<rparr>) [startPart..endPart]))"

definition open_mr :: "file_env \<Rightarrow> chunk_env \<Rightarrow> int \<Rightarrow> int \<Rightarrow> mr option" where
  "open_mr env src start end = fillBuffer src (newTGMultiReader start end (fe_conc env))"

text \<open>The callback given to the decrypter.\<close>

definition part_opener :: "file_env \<Rightarrow> chunk_env \<Rightarrow> part \<Rightarrow> int \<Rightarrow> int \<Rightarrow> (go_error + mr) option" where
  "part_opener env src p underlyingOffset underlyingLimit =
     (let end = (if underlyingLimit \<ge> 0 then min (p_Size p - 1) (underlyingOffset + underlyingLimit - 1) else 0)
      in map_option Inr (open_mr env src underlyingOffset end))"

definition getPartReader :: "file_env \<Rightarrow> file_reader \<Rightarrow> (go_error + part_reader) option" where
  "getPartReader env r =
     Option.bind (index_at (fr_ranges r) (int (fr_pos r))) (\<lambda>currentRange.
     Option.bind (index_at (fr_parts r) (rg_PartNo currentRange)) (\<lambda>p.
     Option.bind (fr_channel r) (\<lambda>channelId.
       let chunkSrc = fe_chunks env channelId (p_ID p) in
       Option.bind (open_mr env chunkSrc (rg_Start currentRange) (rg_End currentRange)) (\<lambda>reader.
       Option.bind (fr_encrypted r) (\<lambda>encrypted.
         if encrypted then
           Option.bind (NewCipher (fe_scrypt env) (fe_aes env) (fe_key env) (p_Salt p)) (\<lambda>res.
             case res of
               Inl _ \<Rightarrow> None
             | Inr cipher \<Rightarrow>
                 map_option (map_sum id DecPart)
                   (DecryptDataSeek (fe_opn env) (mr_Read (fe_sel env)) mr_Close cipher
                      (part_opener env chunkSrc p) (rg_Start currentRange)
                      (rg_End currentRange - rg_Start currentRange + 1)))
         else Some (Inr (PlainPart reader)))))))"

definition initializeReader :: "file_env \<Rightarrow> file_reader \<Rightarrow> (file_reader \<times> go_error option) option" where
  "initializeReader env r =
     map_option (\<lambda>res. case res of Inl e \<Rightarrow> (r, Some e) | Inr pr \<Rightarrow> (r\<lparr>fr_reader := Some pr\<rparr>, None))
       (getPartReader env r)"

definition NewReader ::
  "file_env \<Rightarrow> bool option \<Rightarrow> int option \<Rightarrow> part list \<Rightarrow> int \<Rightarrow> int \<Rightarrow> (go_error + file_reader) option" where
  "NewReader env encrypted channelId parts start end =
     Option.bind (index_at parts 0) (\<lambda>p.
     Option.bind encrypted (\<lambda>enc.
     Option.bind (calculatePartByteRanges start end (if enc then p_DecryptedSize p else p_Size p)) (\<lambda>ranges.
       map_option (\<lambda>(r, err). case err of Some e \<Rightarrow> Inl e | None \<Rightarrow> Inr r)
         (initializeReader env
            \<lparr>fr_encrypted = encrypted, fr_channel = channelId, fr_parts = parts, fr_ranges = ranges, fr_pos = 0,
             fr_reader = None, fr_remaining = end - start + 1, fr_closed = False, fr_closeErr = None\<rparr>))))"

fun pr_Read :: "file_env \<Rightarrow> part_reader \<Rightarrow> nat \<Rightarrow> part_reader io_result" where
  "pr_Read env (PlainPart r) k = map_option (map_prod PlainPart id) (mr_Read (fe_sel env) r k)"
| "pr_Read env (DecPart fh) k = map_option (map_prod DecPart id) (dec_Read (fe_opn env) (mr_Read (fe_sel env)) fh k)"

fun pr_Close :: "part_reader \<Rightarrow> part_reader \<times> go_error option" where
  "pr_Close (PlainPart r) = map_prod PlainPart id (mr_Close r)"
| "pr_Close (DecPart fh) = map_prod DecPart id (dec_Close mr_Close fh)"

definition moveToNextPart :: "file_env \<Rightarrow> file_reader \<Rightarrow> (file_reader \<times> go_error option) option" where
  "moveToNextPart env r =
     Option.bind (fr_reader r) (\<lambda>pr.
       let r1 = r\<lparr>fr_reader := Some (fst (pr_Close pr)), fr_pos := fr_pos r + 1\<rparr>
       in if fr_pos r1 < length (fr_ranges r1) then initializeReader env r1 else Some (r1, Some EOF))"

definition fr_Read :: "file_env \<Rightarrow> file_reader \<Rightarrow> nat \<Rightarrow> file_reader io_result" where
  "fr_Read env r k =
     (if fr_remaining r \<le> 0 then Some (r, [], Some EOF)
      else Option.bind (fr_reader r) (\<lambda>pr.
           Option.bind (pr_Read env pr k) (\<lambda>(pr', bs, err).
             let r1 = r\<lparr>fr_reader := Some pr', fr_remaining := fr_remaining r - int (length bs)\<rparr>
             in if err = Some EOF \<and> fr_remaining r1 > 0
                then map_option (\<lambda>(r2, err2). (r2, bs, err2)) (moveToNextPart env r1)
                else Some (r1, bs, err))))"

definition fr_Close :: "file_reader \<Rightarrow> file_reader \<times> go_error option" where
  "fr_Close r =
     (if fr_closed r then (r, fr_closeErr r)
      else let r1 = r\<lparr>fr_closed := True\<rparr> in
        case fr_reader r of
          None \<Rightarrow> (r1, fr_closeErr r)
        | Some pr \<Rightarrow> (r1\<lparr>fr_closeErr := snd (pr_Close pr), fr_reader := None\<rparr>, snd (pr_Close pr)))"

subsection \<open>Ranges of parts\<close>

text \<open>All parts but the last have the same size; the last is not larger.\<close>

definition uniform_parts :: "nat \<Rightarrow> bytes list \<Rightarrow> bool" where
  "uniform_parts ps P \<longleftrightarrow> 0 < ps \<and> P \<noteq> [] \<and> (\<forall>x\<in>set (butlast P). length x = ps) \<and> length (last P) \<le> ps"

lemma uniform_nth:
  "uniform_parts ps P \<Longrightarrow> i < length P \<Longrightarrow> P ! i = take ps (drop (i * ps) (concat P))"
proof (induction P arbitrary: i)
  case (Cons x P)
  show ?case
  proof (cases "P = []")
    case True
    with Cons.prems show ?thesis by (simp add: uniform_parts_def)
  next
    case False
    with Cons.prems(1) have x: "length x = ps" and P: "uniform_parts ps P"
      by (auto simp: uniform_parts_def)
    show ?thesis
    proof (cases i)
      case 0
      with x show ?thesis by simp
    next
      case (Suc j)
      with Cons.IH [OF P, of j] Cons.prems(2) x show ?thesis by simp
    qed
  qed
qed simp

lemma uniform_count:
  "uniform_parts ps P \<Longrightarrow> e < length (concat P) \<Longrightarrow> e div ps < length P"
proof (induction P arbitrary: e)
  case (Cons x P)
  show ?case
  proof (cases "P = []")
    case True
    with Cons.prems show ?thesis by (auto simp: uniform_parts_def)
  next
    case False
    with Cons.prems(1) have x: "length x = ps" and P: "uniform_parts ps P"
      by (auto simp: uniform_parts_def)
    show ?thesis
    proof (cases "e < ps")
      case False
      with Cons.IH [OF P, of "e - ps"] Cons.prems x P show ?thesis
        by (simp add: uniform_parts_def le_div_geq)
    qed simp
  qed
qed simp

definition nat_range :: "nat \<Rightarrow> nat \<Rightarrow> nat \<Rightarrow> nat \<Rightarrow> part_range" where
  "nat_range s e ps j =
     \<lparr>rg_Start = int (s - j * ps), rg_End = int (min (ps - 1) (e - j * ps)), rg_PartNo = int j\<rparr>"

lemma upto_int_upt: "a \<le> b \<Longrightarrow> [int a..int b] = map (\<lambda>k. int (a + k)) [0..<Suc (b - a)]"
  by (rule nth_equalityI) (auto simp del: upt_Suc)

lemma calculatePartByteRanges_nat:
  assumes ps: "0 < ps" and se: "s \<le> e"
  shows "calculatePartByteRanges (int s) (int e) (int ps) =
    Some (map (\<lambda>k. nat_range s e ps (s div ps + k)) [0..<Suc (e div ps - s div ps)])"
proof -
  have le: "s div ps \<le> e div ps" using se by (rule div_le_mono)
  have hi: "min (int ps - 1) (int e - int J) = int (min (ps - 1) (e - J))" if "J \<le> e" for J
    using ps that by (auto simp: min_def of_nat_diff)
  have rg: "\<lparr>rg_Start = max (int s - int (s div ps + k) * int ps) 0,
      rg_End = min (int ps - 1) (int e - int (s div ps + k) * int ps), rg_PartNo = int (s div ps + k)\<rparr> =
      nat_range s e ps (s div ps + k)" if "k \<le> e div ps - s div ps" for k
  proof -
    have "(s div ps + k) * ps \<le> e div ps * ps" using that le by (intro mult_le_mono1) simp
    also have "\<dots> \<le> e" by simp
    finally have j: "(s div ps + k) * ps \<le> e" .
    have "max (int s - int (s div ps + k) * int ps) 0 = int (s - (s div ps + k) * ps)"
      unfolding of_nat_mult [symmetric] by (simp add: max_def of_nat_diff del: of_nat_mult of_nat_add)
    moreover have "min (int ps - 1) (int e - int (s div ps + k) * int ps) = int (min (ps - 1) (e - (s div ps + k) * ps))"
      unfolding of_nat_mult [symmetric] by (rule hi [OF j])
    ultimately show ?thesis by (simp only: nat_range_def)
  qed
  have div: "go_div (int s) (int ps) = int (s div ps)" "go_div (int e) (int ps) = int (e div ps)"
    using ps by (simp_all add: go_arith zdiv_int)
  show ?thesis using ps le rg
    unfolding calculatePartByteRanges_def Let_def div upto_int_upt [OF le]
    by (simp add: comp_def del: upt_Suc of_nat_add)
qed

text \<open>The bytes a range of a part denotes.\<close>

definition rng_bytes :: "bytes list \<Rightarrow> part_range \<Rightarrow> bytes" where
  "rng_bytes P rg = range_of (P ! nat (rg_PartNo rg)) (nat (rg_Start rg)) (nat (rg_End rg))"

definition rng_ok :: "bytes list \<Rightarrow> part_range \<Rightarrow> bool" where
  "rng_ok P rg \<longleftrightarrow> 0 \<le> rg_PartNo rg \<and> nat (rg_PartNo rg) < length P \<and> 0 \<le> rg_Start rg \<and>
     rg_Start rg \<le> rg_End rg \<and> rg_End rg < int (length (P ! nat (rg_PartNo rg)))"

lemma nat_range_ok:
  assumes P: "uniform_parts ps P" and se: "s \<le> e" "e < length (concat P)"
    and j: "s div ps \<le> j" "j \<le> e div ps"
  shows "rng_ok P (nat_range s e ps j)"
    and "rng_bytes P (nat_range s e ps j) = range_of (concat P) (max s (j * ps)) (min (j * ps + (ps - 1)) e)"
proof -
  have ps: "0 < ps" using P by (simp add: uniform_parts_def)
  have jn: "j < length P" using uniform_count [OF P se(2)] j(2) by simp
  have nth: "P ! j = take ps (drop (j * ps) (concat P))" by (rule uniform_nth [OF P jn])
  have je: "j * ps \<le> e" using j(2) by (meson div_times_less_eq_dividend le_trans mult_le_mono1)
  have "s < Suc (s div ps) * ps" using ps by (simp add: dividend_less_div_times)
  also have "\<dots> \<le> Suc j * ps" using j(1) by (intro mult_le_mono1) simp
  finally have sj: "s < j * ps + ps" by simp
  have b: "s - j * ps \<le> min (ps - 1) (e - j * ps)" "min (ps - 1) (e - j * ps) < min ps (length (concat P) - j * ps)"
    using sj se je ps by auto
  with jn nth show "rng_ok P (nat_range s e ps j)"
    unfolding rng_ok_def nat_range_def by (simp del: length_concat)
  have len: "Suc (min (ps - 1) (e - j * ps)) - (s - j * ps) \<le> ps - (s - j * ps)"
    "Suc (min (ps - 1) (e - j * ps)) - (s - j * ps) = Suc (min (j * ps + (ps - 1)) e) - max s (j * ps)"
    "(s - j * ps) + j * ps = max s (j * ps)" using ps je sj by auto
  show "rng_bytes P (nat_range s e ps j) = range_of (concat P) (max s (j * ps)) (min (j * ps + (ps - 1)) e)"
    unfolding rng_bytes_def nat_range_def range_of_def
    using min_absorb1 [OF len(1)]
    by (simp only: part_range.select_convs nat_int nth drop_take drop_drop take_take len(2,3))
qed

lemma ranges_bytes:
  assumes P: "uniform_parts ps P" and se: "s \<le> e" "e < length (concat P)"
  defines "n \<equiv> Suc (e div ps - s div ps)"
  shows "concat (map (rng_bytes P) (map (\<lambda>k. nat_range s e ps (s div ps + k)) [0..<n])) = range_of (concat P) s e"
proof -
  have ps: "0 < ps" using P by (simp add: uniform_parts_def)
  have le: "s div ps \<le> e div ps" using se(1) by (rule div_le_mono)
  define lo hi where "lo k = max s ((s div ps + k) * ps)" and "hi k = min ((s div ps + k) * ps + (ps - 1)) e" for k
  have low: "s div ps * ps \<le> s" and up: "e < e div ps * ps + ps" and sup: "s < s div ps * ps + ps"
    using ps by (simp_all add: div_times_less_eq_dividend dividend_less_div_times add.commute)
  have next_le: "(s div ps + Suc k) * ps \<le> e" if "Suc k < n" for k
  proof -
    have "(s div ps + Suc k) * ps \<le> e div ps * ps" using that le by (intro mult_le_mono1) (simp add: n_def)
    also have "\<dots> \<le> e" by simp
    finally show ?thesis .
  qed
  have "rng_bytes P (nat_range s e ps (s div ps + k)) = range_of (concat P) (lo k) (hi k)" if "k < n" for k
    unfolding lo_def hi_def using nat_range_ok(2) [OF P se] that le by (simp add: n_def)
  then have "map (rng_bytes P) (map (\<lambda>k. nat_range s e ps (s div ps + k)) [0..<n]) =
      map (\<lambda>k. range_of (concat P) (lo k) (hi k)) [0..<n]" by simp
  moreover have "lo k \<le> hi k" if "k < n" for k
    using that next_le [of "k - 1"] se(1) sup low by (cases k) (auto simp: lo_def hi_def add_mult_distrib)
  moreover have "lo (Suc k) = Suc (hi k)" if "Suc k < n" for k
    using next_le [OF that] sup ps by (auto simp: lo_def hi_def add_mult_distrib)
  moreover have "0 < n" by (simp add: n_def)
  ultimately have "concat (map (rng_bytes P) (map (\<lambda>k. nat_range s e ps (s div ps + k)) [0..<n])) =
      range_of (concat P) (lo 0) (hi (n - 1))"
    using concat_ranges [of n lo hi "concat P"] by metis
  moreover have "lo 0 = s" "hi (n - 1) = e" using low up le by (auto simp: lo_def hi_def n_def)
  ultimately show ?thesis by simp
qed

subsection \<open>Part readers\<close>

fun pr_rest :: "file_env \<Rightarrow> part_reader \<Rightarrow> bytes" where
  "pr_rest env (PlainPart r) = mr_rest r"
| "pr_rest env (DecPart fh) = dec_rest (fe_opn env) mr_rest fh"

fun pr_ok :: "file_env \<Rightarrow> part_reader \<Rightarrow> bool" where
  "pr_ok env (PlainPart r) = mr_ok r"
| "pr_ok env (DecPart fh) = (open_len (fe_opn env) \<and> dec_ok mr_rest mr_ok fh)"

fun pr_rank :: "part_reader \<Rightarrow> nat" where
  "pr_rank (PlainPart r) = mr_rank r"
| "pr_rank (DecPart fh) = 0"

lemma pr_Read_spec:
  assumes "pr_ok env pr"
  shows "\<exists>pr' bs e. pr_Read env pr k = Some (pr', bs, e) \<and> pr_ok env pr' \<and> pr_rest env pr = bs @ pr_rest env pr' \<and>
    length bs \<le> k \<and> (e = None \<or> e = Some EOF \<and> pr_rest env pr' = []) \<and>
    (0 < k \<longrightarrow> bs = [] \<longrightarrow> e = None \<longrightarrow> pr_rank pr' < pr_rank pr)"
proof (cases pr)
  case (PlainPart r)
  with assms mr_Read_spec [of r "fe_sel env" k] show ?thesis by fastforce
next
  case (DecPart fh)
  with assms dec_Read_spec [OF tg.io_reader_axioms, of "fe_opn env" fh "fe_sel env" k] show ?thesis by fastforce
qed

interpretation pr: io_reader "pr_Read env" "pr_rest env" "pr_ok env" pr_rank for env
  by (rule io_readerI) (rule pr_Read_spec)

text \<open>
  How a part with content \<open>pt\<close> is stored: in the clear, or as the ciphertext of \<open>pt\<close> under the
  key derived from the part's salt.
\<close>

definition part_stored ::
  "file_env \<Rightarrow> (bytes \<Rightarrow> bytes \<Rightarrow> bytes \<Rightarrow> bytes) \<Rightarrow> bool \<Rightarrow> int \<Rightarrow> part \<Rightarrow> bytes \<Rightarrow> bool" where
  "part_stored env seal enc ch p pt \<longleftrightarrow>
     (if enc then
        secretbox_ok seal (fe_opn env) \<and> int (length pt) < max_plain \<and> p_DecryptedSize p = int (length pt) \<and>
        (\<exists>c n. NewCipher (fe_scrypt env) (fe_aes env) (fe_key env) (p_Salt p) = Some (Inr c) \<and>
           length n = fileNonceSize \<and> p_Size p = int (length (enc_file seal (dataKey c) n pt)) \<and>
           serves (fe_chunks env ch (p_ID p)) (enc_file seal (dataKey c) n pt))
      else p_Size p = int (length pt) \<and> serves (fe_chunks env ch (p_ID p)) pt)"

lemma open_mr_spec:
  assumes "0 < fe_conc env" "serves src doc" "s \<le> e" "e < length doc"
  shows "\<exists>r. open_mr env src (int s) (int e) = Some r \<and> mr_ok r \<and> mr_rest r = range_of doc s e"
  using stream_ready [OF assms(3,4,1,2)] by (auto simp: open_mr_def)

lemma part_opener_spec:
  assumes conc: "0 < fe_conc env" and src: "serves src doc" and p: "p_Size p = int (length doc)"
  shows "range_opener mr_rest mr_ok (part_opener env src p) doc"
  unfolding range_opener_def
proof (intro allI impI)
  fix off lim :: int assume *: "0 \<le> off \<and> off < int (length doc) \<and> 0 < lim"
  define s e where "s = nat off" and "e = min (length doc - 1) (s + nat lim - 1)"
  have se: "s \<le> e" "e < length doc" using * by (auto simp: s_def e_def)
  have int: "off = int s" "min (p_Size p - 1) (off + lim - 1) = int e"
    using * p by (auto simp: s_def e_def min_def of_nat_diff)
  have "range_of doc s e = take (nat lim) (drop s doc)"
  proof -
    have "s < length doc" "0 < nat lim" using * by (auto simp: s_def)
    then have "Suc e - s = min (length doc - s) (nat lim)" by (auto simp: e_def min_def)
    then show ?thesis by (simp add: range_of_def min_def)
  qed
  with open_mr_spec [OF conc src se] * int show "\<exists>rc. part_opener env src p off lim = Some (Inr rc) \<and> mr_ok rc \<and>
      mr_rest rc = take (nat lim) (drop (nat off) doc)"
    by (auto simp: part_opener_def)
qed

lemma length_enc_file:
  assumes "secretbox_ok seal opn"
  shows "length pt \<le> length (enc_file seal key n pt)"
proof -
  define q r where "q = length pt div 65536" and "r = length pt mod 65536"
  have "length pt = q * 65536 + r" by (simp add: q_def r_def)
  moreover have "length (enc_blocks seal key n pt) = q * 65552 + (if r = 0 then 0 else 16 + r)"
    using length_enc_blocks [of seal key n pt] assms by (simp add: secretbox_ok_def q_def r_def)
  ultimately show ?thesis by (simp add: enc_file_def)
qed

text \<open>Opening the reader of the current range.\<close>

lemma getPartReader_spec:
  assumes r: "fr_pos r < length (fr_ranges r)" "fr_ranges r ! fr_pos r = rg" "fr_channel r = Some ch"
      "fr_encrypted r = Some enc"
    and rg: "rng_ok P rg" "length (fr_parts r) = length P"
      "part_stored env seal enc ch (fr_parts r ! nat (rg_PartNo rg)) (P ! nat (rg_PartNo rg))"
    and conc: "0 < fe_conc env"
  shows "\<exists>pr. getPartReader env r = Some (Inr pr) \<and> pr_ok env pr \<and> pr_rest env pr = rng_bytes P rg"
proof -
  define p pt where "p = fr_parts r ! nat (rg_PartNo rg)" and "pt = P ! nat (rg_PartNo rg)"
  define s e where "s = nat (rg_Start rg)" and "e = nat (rg_End rg)"
  have se: "s \<le> e" "e < length pt" "rg_Start rg = int s" "rg_End rg = int e"
    using rg(1) by (auto simp: s_def e_def rng_ok_def pt_def)
  have idx: "index_at (fr_ranges r) (int (fr_pos r)) = Some rg" "index_at (fr_parts r) (rg_PartNo rg) = Some p"
    using r rg(1,2) by (auto simp: index_at_def p_def rng_ok_def nat_less_iff)
  define src where "src = fe_chunks env ch (p_ID p)"
  have bytes: "rng_bytes P rg = range_of pt s e" by (simp add: rng_bytes_def pt_def s_def e_def)
  show ?thesis
  proof (cases enc)
    case False
    then have "serves src pt" using rg(3) by (simp add: part_stored_def p_def pt_def src_def)
    from open_mr_spec [OF conc this se(1,2)] obtain mr where
      "open_mr env src (int s) (int e) = Some mr" "mr_ok mr" "mr_rest mr = range_of pt s e" by blast
    then show ?thesis using False idx r se(3,4) bytes by (simp add: getPartReader_def src_def [symmetric])
  next
    case True
    then obtain c n where box: "secretbox_ok seal (fe_opn env)" "int (length pt) < max_plain"
      and c: "NewCipher (fe_scrypt env) (fe_aes env) (fe_key env) (p_Salt p) = Some (Inr c)"
      and n: "length n = fileNonceSize" and size: "p_Size p = int (length (enc_file seal (dataKey c) n pt))"
      and src: "serves src (enc_file seal (dataKey c) n pt)"
      using rg(3) by (auto simp: part_stored_def p_def pt_def src_def)
    have "e < length (enc_file seal (dataKey c) n pt)"
      using se(2) length_enc_file [OF box(1), of pt "dataKey c" n] by simp
    from open_mr_spec [OF conc src se(1) this] obtain mr where
      mr: "open_mr env src (int s) (int e) = Some mr" by blast
    have off: "0 \<le> int s" "int s < int (length pt)" "0 \<le> int e - int s + 1" "int e - int s + 1 < max_plain"
      using se box(2) by auto
    from DecryptDataSeek_spec [OF tg.io_reader_axioms box(1) zero_less_one part_opener_spec [OF conc src size] n off(1,2) box(2) off(3,4),
        of "fe_sel env" mr_Close]
    obtain fh where fh: "DecryptDataSeek (fe_opn env) (mr_Read (fe_sel env)) mr_Close c (part_opener env src p)
        (int s) (int e - int s + 1) = Some (Inr fh)" "dec_ok mr_rest mr_ok fh"
      "dec_rest (fe_opn env) mr_rest fh = take (nat (int e - int s + 1)) (drop s pt)" by auto
    have "nat (int e - int s + 1) = Suc e - s" using se(1) by linarith
    with fh True idx r se(3,4) bytes mr c secretbox_open_len [OF box(1)] show ?thesis
      by (simp add: getPartReader_def src_def [symmetric] range_of_def)
  qed
qed

subsection \<open>The reader of a file\<close>

definition fr_later :: "bytes list \<Rightarrow> file_reader \<Rightarrow> bytes" where
  "fr_later P r = concat (map (rng_bytes P) (drop (Suc (fr_pos r)) (fr_ranges r)))"

definition fr_rest :: "file_env \<Rightarrow> bytes list \<Rightarrow> file_reader \<Rightarrow> bytes" where
  "fr_rest env P r =
     (if fr_remaining r \<le> 0 then []
      else (case fr_reader r of None \<Rightarrow> [] | Some pr \<Rightarrow> pr_rest env pr) @ fr_later P r)"

definition file_stored ::
  "file_env \<Rightarrow> (bytes \<Rightarrow> bytes \<Rightarrow> bytes \<Rightarrow> bytes) \<Rightarrow> bool option \<Rightarrow> int option \<Rightarrow> part list \<Rightarrow> bytes list \<Rightarrow> bool" where
  "file_stored env seal encrypted channelId parts P \<longleftrightarrow>
     0 < fe_conc env \<and> length parts = length P \<and>
     (\<exists>enc ch. encrypted = Some enc \<and> channelId = Some ch \<and>
        (\<forall>i<length P. part_stored env seal enc ch (parts ! i) (P ! i)))"

definition fr_ok :: "file_env \<Rightarrow> (bytes \<Rightarrow> bytes \<Rightarrow> bytes \<Rightarrow> bytes) \<Rightarrow> bytes list \<Rightarrow> file_reader \<Rightarrow> bool" where
  "fr_ok env seal P r \<longleftrightarrow> fr_remaining r \<le> 0 \<or>
     (file_stored env seal (fr_encrypted r) (fr_channel r) (fr_parts r) P \<and>
      (\<forall>rg\<in>set (fr_ranges r). rng_ok P rg) \<and>
      (\<exists>pr. fr_reader r = Some pr \<and> pr_ok env pr \<and>
         int (length (pr_rest env pr @ fr_later P r)) = fr_remaining r))"

definition fr_rank :: "file_reader \<Rightarrow> nat \<times> nat" where
  "fr_rank r = (length (fr_ranges r) - fr_pos r, case fr_reader r of None \<Rightarrow> 0 | Some pr \<Rightarrow> pr_rank pr)"

lemma initializeReader_spec:
  assumes stored: "file_stored env seal (fr_encrypted r) (fr_channel r) (fr_parts r) P"
    and pos: "fr_pos r < length (fr_ranges r)" and ok: "rng_ok P (fr_ranges r ! fr_pos r)"
  shows "\<exists>pr. initializeReader env r = Some (r\<lparr>fr_reader := Some pr\<rparr>, None) \<and> pr_ok env pr \<and>
    pr_rest env pr = rng_bytes P (fr_ranges r ! fr_pos r)"
proof -
  from stored obtain enc ch where r: "fr_encrypted r = Some enc" "fr_channel r = Some ch" "0 < fe_conc env"
    "length (fr_parts r) = length P" "\<forall>i<length P. part_stored env seal enc ch (fr_parts r ! i) (P ! i)"
    by (auto simp: file_stored_def)
  from getPartReader_spec [OF pos refl r(2,1) ok r(4) _ r(3), of seal] ok r(5) obtain pr where
    "getPartReader env r = Some (Inr pr)" "pr_ok env pr" "pr_rest env pr = rng_bytes P (fr_ranges r ! fr_pos r)"
    unfolding rng_ok_def by blast
  then show ?thesis by (intro exI [of _ pr]) (simp add: initializeReader_def)
qed

lemma moveToNextPart_spec:
  assumes stored: "file_stored env seal (fr_encrypted r) (fr_channel r) (fr_parts r) P"
    and rg: "\<forall>rg\<in>set (fr_ranges r). rng_ok P rg" and pr: "fr_reader r = Some pr"
    and left: "int (length (fr_later P r)) = fr_remaining r" "0 < fr_remaining r"
  shows "\<exists>r'. moveToNextPart env r = Some (r', None) \<and> fr_ok env seal P r' \<and> fr_rest env P r' = fr_later P r \<and>
    fst (fr_rank r') < fst (fr_rank r)"
proof -
  define r1 where "r1 = r\<lparr>fr_reader := Some (fst (pr_Close pr)), fr_pos := fr_pos r + 1\<rparr>"
  have pos: "Suc (fr_pos r) < length (fr_ranges r)" using left by (cases "Suc (fr_pos r) < length (fr_ranges r)") (auto simp: fr_later_def)
  define rg' where "rg' = fr_ranges r ! Suc (fr_pos r)"
  have later: "fr_later P r = rng_bytes P rg' @ fr_later P r1"
    using pos by (simp add: fr_later_def r1_def rg'_def Cons_nth_drop_Suc [symmetric])
  from initializeReader_spec [of env seal r1 P] stored pos rg obtain pr' where
    init: "initializeReader env r1 = Some (r1\<lparr>fr_reader := Some pr'\<rparr>, None)" "pr_ok env pr'"
      "pr_rest env pr' = rng_bytes P rg'" by (auto simp: r1_def rg'_def)
  have "moveToNextPart env r = Some (r1\<lparr>fr_reader := Some pr'\<rparr>, None)"
    using pr pos init(1) by (simp add: moveToNextPart_def r1_def)
  moreover have "fr_later P (r1\<lparr>fr_reader := Some pr'\<rparr>) = fr_later P r1" by (simp add: fr_later_def)
  moreover have "fst (fr_rank (r1\<lparr>fr_reader := Some pr'\<rparr>)) < fst (fr_rank r)"
    using pos diff_less_mono2 [of "fr_pos r" "Suc (fr_pos r)"] by (simp add: fr_rank_def r1_def)
  ultimately show ?thesis using init later left stored rg
    by (intro exI [of _ "r1\<lparr>fr_reader := Some pr'\<rparr>"]) (simp add: fr_ok_def fr_rest_def r1_def)
qed

lemma fr_Read_spec:
  assumes ok: "fr_ok env seal P r"
  shows "\<exists>r' bs e. fr_Read env r k = Some (r', bs, e) \<and> fr_ok env seal P r' \<and> fr_rest env P r = bs @ fr_rest env P r' \<and>
    length bs \<le> k \<and> (e = None \<or> e = Some EOF \<and> fr_rest env P r' = []) \<and>
    (0 < k \<longrightarrow> bs = [] \<longrightarrow> e = None \<longrightarrow> fr_rank r' < fr_rank r)"
proof (cases "fr_remaining r \<le> 0")
  case True
  then show ?thesis by (auto simp: fr_Read_def fr_ok_def fr_rest_def)
next
  case False
  with ok obtain pr where stored: "file_stored env seal (fr_encrypted r) (fr_channel r) (fr_parts r) P"
    and rg: "\<forall>rg\<in>set (fr_ranges r). rng_ok P rg" and pr: "fr_reader r = Some pr" "pr_ok env pr"
    and len: "int (length (pr_rest env pr @ fr_later P r)) = fr_remaining r" by (auto simp: fr_ok_def)
  from pr_Read_spec [OF pr(2), of k] obtain pr' bs e where
    rd: "pr_Read env pr k = Some (pr', bs, e)" "pr_ok env pr'" "pr_rest env pr = bs @ pr_rest env pr'" "length bs \<le> k"
      "e = None \<or> e = Some EOF \<and> pr_rest env pr' = []" "0 < k \<longrightarrow> bs = [] \<longrightarrow> e = None \<longrightarrow> pr_rank pr' < pr_rank pr" by blast
  define r1 where "r1 = r\<lparr>fr_reader := Some pr', fr_remaining := fr_remaining r - int (length bs)\<rparr>"
  have later: "fr_later P r1 = fr_later P r" by (simp add: fr_later_def r1_def)
  have len1: "int (length (pr_rest env pr' @ fr_later P r1)) = fr_remaining r1"
    using len rd(3) unfolding later by (simp add: r1_def)
  have rest: "fr_rest env P r = bs @ pr_rest env pr' @ fr_later P r1" using False pr rd(3) by (simp add: fr_rest_def later)
  have unf: "fr_Read env r k = (if e = Some EOF \<and> 0 < fr_remaining r1
      then map_option (\<lambda>(r2, err2). (r2, bs, err2)) (moveToNextPart env r1) else Some (r1, bs, e))"
    using False pr rd(1) by (simp add: fr_Read_def Let_def r1_def)
  show ?thesis
  proof (cases "e = Some EOF \<and> 0 < fr_remaining r1")
    case True
    with rd(5) len1 have "int (length (fr_later P r1)) = fr_remaining r1" "pr_rest env pr' = []" by auto
    with True moveToNextPart_spec [of env seal r1 P pr'] stored rg obtain r' where
      "moveToNextPart env r1 = Some (r', None)" "fr_ok env seal P r'" "fr_rest env P r' = fr_later P r1"
      "fst (fr_rank r') < fst (fr_rank r1)" "pr_rest env pr' = []" by (auto simp: r1_def)
    moreover have "fst (fr_rank r1) = fst (fr_rank r)" by (simp add: fr_rank_def r1_def)
    ultimately show ?thesis using unf True rest rd(4)
      by (intro exI [of _ r'] exI [of _ bs]) (simp add: less_prod_def)
  next
    case False
    have "fr_ok env seal P r1" using stored rg rd(2) len1 by (simp add: fr_ok_def r1_def)
    moreover have "fr_remaining r1 \<le> 0 \<longrightarrow> pr_rest env pr' @ fr_later P r1 = []"
      using len1 by (metis length_0_conv nat_int nat_le_0)
    then have "fr_rest env P r1 = pr_rest env pr' @ fr_later P r1"
      by (simp add: fr_rest_def) (simp add: r1_def)
    moreover have "e = Some EOF \<longrightarrow> fr_rest env P r1 = []" using False by (auto simp: fr_rest_def)
    moreover have "bs = [] \<Longrightarrow> pr_rank pr' < pr_rank pr \<Longrightarrow> fr_rank r1 < fr_rank r"
      using pr(1) by (simp add: fr_rank_def r1_def less_prod_def')
    ultimately show ?thesis using unf False rest rd(4,5,6) by auto
  qed
qed

interpretation fr: io_reader "fr_Read env" "fr_rest env P" "fr_ok env seal P" fr_rank for env P seal
  by (rule io_readerI) (rule fr_Read_spec)

lemma NewReader_spec:
  assumes stored: "file_stored env seal encrypted channelId parts P"
    and uniform: "uniform_parts (length (hd P)) P" and se: "s \<le> e" "e < length (concat P)"
  shows "\<exists>r. NewReader env encrypted channelId parts (int s) (int e) = Some (Inr r) \<and> fr_ok env seal P r \<and>
    fr_rest env P r = range_of (concat P) s e"
proof -
  define ps where "ps = length (hd P)"
  have ps: "0 < ps" "P \<noteq> []" using uniform by (simp_all add: uniform_parts_def ps_def)
  from stored obtain enc ch where r: "encrypted = Some enc" "channelId = Some ch" "length parts = length P"
    "\<forall>i<length P. part_stored env seal enc ch (parts ! i) (P ! i)" by (auto simp: file_stored_def)
  have "part_stored env seal enc ch (parts ! 0) (P ! 0)" using r(4) ps(2) by simp
  then have size: "(if enc then p_DecryptedSize (parts ! 0) else p_Size (parts ! 0)) = int ps"
    using ps(2) by (simp add: part_stored_def ps_def hd_conv_nth split: if_splits)
  define ranges where "ranges = map (\<lambda>k. nat_range s e ps (s div ps + k)) [0..<Suc (e div ps - s div ps)]"
  have calc: "calculatePartByteRanges (int s) (int e) (int ps) = Some ranges"
    unfolding ranges_def by (rule calculatePartByteRanges_nat [OF ps(1) se(1)])
  have le: "s div ps \<le> e div ps" using se(1) by (rule div_le_mono)
  have ok: "\<forall>rg\<in>set ranges. rng_ok P rg"
    using nat_range_ok(1) [OF uniform [folded ps_def] se] le by (auto simp: ranges_def)
  have bytes: "concat (map (rng_bytes P) ranges) = range_of (concat P) s e"
    unfolding ranges_def by (rule ranges_bytes [OF uniform [folded ps_def] se])
  have ne: "ranges \<noteq> []" by (simp add: ranges_def)
  define r0 where "r0 = \<lparr>fr_encrypted = encrypted, fr_channel = channelId, fr_parts = parts, fr_ranges = ranges,
    fr_pos = 0, fr_reader = None, fr_remaining = int e - int s + 1, fr_closed = False, fr_closeErr = None\<rparr>"
  from initializeReader_spec [of env seal r0 P] stored ok ne obtain pr where
    init: "initializeReader env r0 = Some (r0\<lparr>fr_reader := Some pr\<rparr>, None)" "pr_ok env pr"
      "pr_rest env pr = rng_bytes P (ranges ! 0)" by (auto simp: r0_def)
  define r1 where "r1 = r0\<lparr>fr_reader := Some pr\<rparr>"
  have "pr_rest env pr @ fr_later P r1 = range_of (concat P) s e"
    using init(3) ne bytes by (cases ranges) (simp_all add: fr_later_def r1_def r0_def)
  moreover have "length (range_of (concat P) s e) = Suc e - s" using se by simp
  ultimately have "pr_rest env pr @ fr_later P r1 = range_of (concat P) s e"
    "int (length (pr_rest env pr @ fr_later P r1)) = int e - int s + 1" using se(1) by (simp_all del: length_append)
  then have "fr_ok env seal P r1 \<and> fr_rest env P r1 = range_of (concat P) s e"
    using stored ok init(2) se(1) unfolding fr_ok_def fr_rest_def
    by (intro conjI disjI2 exI [of _ pr]) (simp_all add: r1_def r0_def del: length_append)
  moreover have "NewReader env encrypted channelId parts (int s) (int e) = Some (Inr r1)"
    using r(1,3) ps(2) size calc init(1)
    by (simp add: NewReader_def index_at_def r0_def r1_def)
  ultimately show ?thesis by blast
qed

subsection \<open>Properties\<close>


definition demo_env :: "bytes list \<Rightarrow> file_env" where
  "demo_env docs =
     \<lparr>fe_chunks = (\<lambda>ch i. \<lparr>ce_chunk = (\<lambda>off lim a. Inr (chunk_of (docs ! nat i) off lim)),
        ce_stop = (\<lambda>_ _. False), ce_done = (\<lambda>_ _. None), ce_spare = (\<lambda>_. []), ce_first = hd\<rparr>),
      fe_conc = 4, fe_sel = False, fe_key = [], fe_scrypt = (\<lambda>_ _ _ _ _ n. Inr (replicate n 0)),
      fe_aes = (\<lambda>_. None), fe_opn = toy_open\<rparr>"

definition demo_cipher :: cipher where
  "demo_cipher = \<lparr>dataKey = replicate 32 0, nameKey = replicate 32 0, nameTweak = replicate 16 0\<rparr>"

lemma demo_conc: "fe_conc (demo_env docs) = 4"
  by (simp add: demo_env_def)

lemma demo_NewCipher:
  "NewCipher (fe_scrypt (demo_env docs)) (fe_aes (demo_env docs)) key salt = Some (Inr demo_cipher)"
  by (simp add: NewCipher_def cipher_Key_def demo_env_def zero_cipher_def demo_cipher_def slice_from_def go_copy_def)

lemma demo_serves: "serves (fe_chunks (demo_env docs) ch i) (docs ! nat i)"
  by (auto simp: serves_def honest_def demo_env_def intro: exI [of _ "0 :: nat"])

definition demo_ct :: "bytes \<Rightarrow> bytes" where
  "demo_ct pt = enc_file toy_seal (dataKey demo_cipher) (replicate 24 7) pt"

definition demo_parts :: "bytes list \<Rightarrow> part list" where
  "demo_parts pts =
     map (\<lambda>i. \<lparr>p_ID = int i, p_Size = int (length (demo_ct (pts ! i))), p_DecryptedSize = int (length (pts ! i)),
                p_Salt = []\<rparr>) [0..<length pts]"

lemma demo_stored:
  assumes "\<forall>x\<in>set pts. int (length x) < max_plain"
  shows "file_stored (demo_env (map demo_ct pts)) toy_seal (Some True) (Some 9) (demo_parts pts) pts"
proof -
  have "part_stored (demo_env (map demo_ct pts)) toy_seal True 9 (demo_parts pts ! i) (pts ! i)" if i: "i < length pts" for i
  proof -
    have "serves (fe_chunks (demo_env (map demo_ct pts)) 9 (int i)) (demo_ct (pts ! i))"
      using demo_serves [of "map demo_ct pts" 9 "int i"] i by simp
    moreover have "secretbox_ok toy_seal (fe_opn (demo_env (map demo_ct pts)))" by (simp add: demo_env_def toy_box)
    moreover have "length (replicate 24 (7 :: byte)) = fileNonceSize" by simp
    moreover have "int (length (pts ! i)) < max_plain" using assms i by simp
    ultimately show ?thesis using i demo_NewCipher unfolding part_stored_def demo_ct_def demo_parts_def
      by (auto intro!: exI [of _ "replicate 24 (7 :: byte)"])
  qed
  then show ?thesis by (auto simp: file_stored_def demo_conc demo_parts_def intro!: exI [of _ True])
qed


text \<open>
  The handler's \<open>io.CopyN\<close> over the reader copies exactly the announced number of bytes: a
  prefix of the range, without error, for every count up to the length of the range.\<close>

lemma file_copy_exact:
  assumes "file_stored env seal encrypted channelId parts P" "uniform_parts (length (hd P)) P"
    and "s \<le> e" "e < length (concat P)" "n \<le> Suc e - s"
  shows "\<exists>r r'. NewReader env encrypted channelId parts (int s) (int e) = Some (Inr r) \<and>
    copyN (fr_Read env) r n = Some (r', take n (drop s (concat P)), None)"
proof -
  from NewReader_spec [OF assms(1-4)] obtain r where r:
    "NewReader env encrypted channelId parts (int s) (int e) = Some (Inr r)" "fr_ok env seal P r"
    "fr_rest env P r = range_of (concat P) s e" by blast
  have "length (range_of (concat P) s e) = Suc e - s" using assms(3,4) by simp
  moreover have "take n (range_of (concat P) s e) = take n (drop s (concat P))"
    using assms(5) by (simp add: range_of_def min_absorb1)
  ultimately show ?thesis using fr.copyN_spec [of env seal P r n] r assms(5) by (metis (no_types))
qed

lemma file_copy_exact_witness:
  "\<exists>r r'. NewReader (demo_env (map demo_ct [[1, 2, 3]])) (Some True) (Some 9) (demo_parts [[1, 2, 3]]) 0 2 = Some (Inr r) \<and>
    copyN (fr_Read (demo_env (map demo_ct [[1, 2, 3]]))) r 2 = Some (r', [1, 2], None)"
proof -
  let ?P = "[[1, 2, 3]] :: bytes list"
  have "file_stored (demo_env (map demo_ct ?P)) toy_seal (Some True) (Some 9) (demo_parts ?P) ?P"
    by (rule demo_stored) simp
  moreover have "uniform_parts (length (hd ?P)) ?P" by (simp add: uniform_parts_def)
  ultimately show ?thesis
    using file_copy_exact [of "demo_env (map demo_ct ?P)" toy_seal "Some True" "Some 9" "demo_parts ?P" ?P 0 2 2] by simp
qed

text \<open>
  A byte range is split into part ranges without gap or overlap: every part range lies inside
  its part and the bytes they denote are, in order, the bytes of the range.\<close>

lemma part_ranges_partition:
  assumes "uniform_parts ps P" "s \<le> e" "e < length (concat P)"
  shows "\<exists>rs. calculatePartByteRanges (int s) (int e) (int ps) = Some rs \<and> (\<forall>rg\<in>set rs. rng_ok P rg) \<and>
    concat (map (rng_bytes P) rs) = range_of (concat P) s e"
proof -
  have "0 < ps" using assms(1) by (simp add: uniform_parts_def)
  moreover have "s div ps \<le> e div ps" using assms(2) by (rule div_le_mono)
  ultimately show ?thesis
    using calculatePartByteRanges_nat [of ps s e] nat_range_ok(1) [OF assms] ranges_bytes [OF assms] assms(2) by auto
qed

lemma part_ranges_partition_witness:
  "\<exists>rs. calculatePartByteRanges 1 3 3 = Some rs \<and> concat (map (rng_bytes [[1, 2, 3], [4, 5]]) rs) = [2, 3, 4]"
  using part_ranges_partition [of 3 "[[1, 2, 3], [4, 5]]" 1 3] by (auto simp: uniform_parts_def range_of_def numeral_eq_Suc)

end
