(* ===== verification/Transition.thy ===== *)
theory Transition
  imports Prelude
begin

section \<open>Step relations\<close>

text \<open>
  The concurrent parts of the program (the chunk producer and its reader, the block hasher, the
  client pool, the event buses) are step relations whose runs are all interleavings of their
  goroutines. The locales are the interface of that style of proof: an invariant that holds at
  the start and that every step keeps holds in every reachable state, and a measure that every
  step of a kind lowers bounds the number of those steps.
\<close>

inductive reachable :: "('s \<Rightarrow> bool) \<Rightarrow> ('s \<Rightarrow> 's \<Rightarrow> bool) \<Rightarrow> 's \<Rightarrow> bool"
  for init :: "'s \<Rightarrow> bool" and step :: "'s \<Rightarrow> 's \<Rightarrow> bool"
where
  start: "init x \<Longrightarrow> reachable init step x"
| move: "reachable init step x \<Longrightarrow> step x y \<Longrightarrow> reachable init step y"

locale step_invariant =
  fixes init :: "'s \<Rightarrow> bool" and step :: "'s \<Rightarrow> 's \<Rightarrow> bool" and inv :: "'s \<Rightarrow> bool"
  assumes at_start: "init x \<Longrightarrow> inv x"
    and kept: "inv x \<Longrightarrow> step x y \<Longrightarrow> inv y"
begin

lemma reachable_inv: "reachable init step x \<Longrightarrow> inv x"
  by (induction rule: reachable.induct) (auto intro: at_start kept)

lemma steps_inv: "step\<^sup>*\<^sup>* x y \<Longrightarrow> inv x \<Longrightarrow> inv y"
  by (induction rule: rtranclp_induct) (auto intro: kept)

end

text \<open>
  A system that can always move on until it is done, with a measure that such a move lowers:
  from every state of the invariant a run leads to a done state.
\<close>

locale step_progress = step_invariant +
  fixes finished :: "'s \<Rightarrow> bool" and meas :: "'s \<Rightarrow> nat" and calm :: "'s \<Rightarrow> bool"
  assumes moves: "inv x \<Longrightarrow> calm x \<Longrightarrow> \<not> finished x \<Longrightarrow> \<exists>y. step x y \<and> calm y \<and> meas y < meas x"
begin

lemma reaches_end: "inv x \<Longrightarrow> calm x \<Longrightarrow> \<exists>y. step\<^sup>*\<^sup>* x y \<and> inv y \<and> calm y \<and> finished y"
proof (induction x rule: measure_induct_rule [of meas])
  case (less x)
  show ?case
  proof (cases "finished x")
    case False
    with moves less.prems obtain y where y: "step x y" "calm y" "meas y < meas x" by blast
    with less.IH [of y] kept less.prems show ?thesis
      by (meson converse_rtranclp_into_rtranclp)
  qed (use less.prems in blast)
qed

lemma reachable_end:
  "reachable init step x \<Longrightarrow> calm x \<Longrightarrow> \<exists>y. step\<^sup>*\<^sup>* x y \<and> inv y \<and> calm y \<and> finished y"
  using reachable_inv reaches_end by blast

end

end
