(* ===== verification/Tg_Stream.thy ===== *)
theory Tg_Stream
  imports Tg_Reader Transition "HOL-Library.Sublist"
begin

section \<open>Producer and consumer interleaved (internal/reader/tg_reader.go)\<close>

text \<open>
  \<open>Tg_Reader\<close> runs the producer to its end before the first \<open>Read\<close>. Here the goroutine of
  \<open>fillBuffer\<close> and the caller of \<open>Read\<close> and \<open>Close\<close> take turns in any order, over a channel of
  capacity \<open>cap\<close> (an unbuffered channel hands one buffer over, so it counts as one slot). The
  context may end at any time. The state adds to the reader the program point of the producer,
  the bytes delivered so far and the errors the reads returned.
\<close>

datatype ppc = Idle | Sending "buffer list" | Stopped

record stream =
  st_r :: mr
  st_pc :: ppc
  st_out :: bytes
  st_ends :: "go_error list"

inductive prod_step :: "chunk_env \<Rightarrow> nat \<Rightarrow> stream \<Rightarrow> stream \<Rightarrow> bool" for env :: chunk_env and cap :: nat where
  fetch: "st_pc x = Idle \<Longrightarrow> m_currentPart (st_r x) < m_totalParts (st_r x) \<Longrightarrow>
    fetchBatch env (st_r x) = Some ([], bufs) \<Longrightarrow> prod_step env cap x (x\<lparr>st_pc := Sending bufs\<rparr>)"
| fetch_failed: "st_pc x = Idle \<Longrightarrow> m_currentPart (st_r x) < m_totalParts (st_r x) \<Longrightarrow>
    fetchBatch env (st_r x) = Some (errs, bufs) \<Longrightarrow> errs \<noteq> [] \<Longrightarrow>
    prod_step env cap x (x\<lparr>st_pc := Stopped, st_r := (mr_cancel (batch_failed env errs (st_r x)))\<lparr>m_closed := True\<rparr>\<rparr>)"
| send: "st_pc x = Sending (b # bs) \<Longrightarrow> length (m_chan (st_r x)) < max 1 cap \<Longrightarrow>
    prod_step env cap x (x\<lparr>st_pc := Sending bs, st_r := (st_r x)\<lparr>m_chan := m_chan (st_r x) @ [b]\<rparr>\<rparr>)"
| send_aborted: "st_pc x = Sending (b # bs) \<Longrightarrow> m_ctxErr (st_r x) = Some e \<Longrightarrow>
    prod_step env cap x (x\<lparr>st_pc := Stopped, st_r := (mr_cancel (st_r x))\<lparr>m_closed := True\<rparr>\<rparr>)"
| sent: "st_pc x = Sending [] \<Longrightarrow> prod_step env cap x (x\<lparr>st_pc := Idle, st_r := batch_sent (st_r x)\<rparr>)"
| finish: "st_pc x = Idle \<Longrightarrow> \<not> m_currentPart (st_r x) < m_totalParts (st_r x) \<Longrightarrow>
    prod_step env cap x (x\<lparr>st_pc := Stopped, st_r := (st_r x)\<lparr>m_closed := True\<rparr>\<rparr>)"

inductive cons_step :: "stream \<Rightarrow> stream \<Rightarrow> bool" where
  read: "mr_Read sel (st_r x) k = Some (r', bs, err) \<Longrightarrow>
    cons_step x (x\<lparr>st_r := r', st_out := st_out x @ bs,
                   st_ends := st_ends x @ (case err of None \<Rightarrow> [] | Some e \<Rightarrow> [e])\<rparr>)"
| close: "cons_step x (x\<lparr>st_r := fst (mr_Close (st_r x))\<rparr>)"
| ctx_done: "m_ctxErr (st_r x) = None \<Longrightarrow> e \<in> {CtxCanceled, CtxDeadlineExceeded} \<Longrightarrow>
    cons_step x (x\<lparr>st_r := (st_r x)\<lparr>m_ctxErr := Some e\<rparr>\<rparr>)"

definition stream_step :: "chunk_env \<Rightarrow> nat \<Rightarrow> stream \<Rightarrow> stream \<Rightarrow> bool" where
  "stream_step env cap x y \<longleftrightarrow> prod_step env cap x y \<or> cons_step x y"

definition new_stream :: "int \<Rightarrow> int \<Rightarrow> int \<Rightarrow> stream" where
  "new_stream start end concurrency =
     \<lparr>st_r = newTGMultiReader start end concurrency, st_pc = Idle, st_out = [], st_ends = []\<rparr>"

subsection \<open>The invariant\<close>

definition bufs_bytes :: "buffer list \<Rightarrow> bytes" where
  "bufs_bytes bs = concat (map (\<lambda>b. cur_bytes (Some b)) bs)"

lemma bufs_bytes_simps [simp]:
  "bufs_bytes [] = []" "bufs_bytes (b # bs) = cur_bytes (Some b) @ bufs_bytes bs"
  "bufs_bytes (bs @ bs') = bufs_bytes bs @ bufs_bytes bs'"
  by (simp_all add: bufs_bytes_def)

lemma mr_pending_bufs: "mr_pending r = cur_bytes (m_cur r) @ bufs_bytes (m_chan r)"
  by (simp add: mr_pending_def bufs_bytes_def)

text \<open>What the producer has in hand and what it has still to fetch.\<close>

fun hand :: "ppc \<Rightarrow> buffer list" where
  "hand (Sending bs) = bs"
| "hand _ = []"

definition unfetched :: "bytes \<Rightarrow> nat \<Rightarrow> nat \<Rightarrow> nat \<Rightarrow> nat \<Rightarrow> bytes" where
  "unfetched doc cs s e i = bufs_bytes (map (piece_buf doc cs s e) [i..<piece_count cs s e])"

fun prod_ok :: "mr \<Rightarrow> bytes \<Rightarrow> nat \<Rightarrow> nat \<Rightarrow> nat \<Rightarrow> nat \<Rightarrow> bytes \<Rightarrow> ppc \<Rightarrow> bool" where
  "prod_ok r doc cs s e i rest Idle \<longleftrightarrow> rest = unfetched doc cs s e i \<and> \<not> m_closed r"
| "prod_ok r doc cs s e i rest (Sending bs) \<longleftrightarrow>
     (\<exists>b>0. batch_size r = int b \<and> i + b \<le> piece_count cs s e \<and> rest = unfetched doc cs s e (i + b)) \<and>
     (\<forall>b\<in>set bs. cur_ok (Some b)) \<and> \<not> m_closed r"
| "prod_ok r doc cs s e i rest Stopped \<longleftrightarrow> m_closed r \<and> (m_ctxErr r = None \<longrightarrow> rest = [])"

definition stream_core :: "bytes \<Rightarrow> nat \<Rightarrow> nat \<Rightarrow> mr \<Rightarrow> ppc \<Rightarrow> bytes \<Rightarrow> bool" where
  "stream_core doc s e r pc out \<longleftrightarrow>
     (\<exists>cs i rest. mr_at r cs s e i \<and> prod_ok r doc cs s e i rest pc \<and>
        int (length out) + m_limit r = int (Suc e - s) \<and>
        (\<forall>b\<in>set (m_chan r). cur_ok (Some b)) \<and>
        (if cur_ok (m_cur r)
         then out @ mr_pending r @ bufs_bytes (hand pc) @ rest = range_of doc s e
         else (\<exists>c. m_cur r = Some c \<and> b_buf c = None) \<and> prefix out (range_of doc s e) \<and>
              (0 < m_limit r \<longrightarrow> m_ctxErr r \<noteq> None)))"

definition stream_inv :: "chunk_env \<Rightarrow> bytes \<Rightarrow> nat \<Rightarrow> nat \<Rightarrow> stream \<Rightarrow> bool" where
  "stream_inv env doc s e x \<longleftrightarrow> honest env doc \<and> e < length doc \<and>
     stream_core doc s e (st_r x) (st_pc x) (st_out x) \<and>
     m_ctxErr (st_r x) \<notin> {Some EOF, Some ErrStreamAbandoned} \<and>
     (EOF \<in> set (st_ends x) \<longrightarrow> m_limit (st_r x) \<le> 0) \<and>
     (ErrStreamAbandoned \<in> set (st_ends x) \<longrightarrow> m_ctxErr (st_r x) \<noteq> None)"

definition stream_init :: "chunk_env \<Rightarrow> bytes \<Rightarrow> nat \<Rightarrow> nat \<Rightarrow> stream \<Rightarrow> bool" where
  "stream_init env doc s e x \<longleftrightarrow> honest env doc \<and> s \<le> e \<and> e < length doc \<and>
     (\<exists>conc>0. x = new_stream (int s) (int e) conc)"

lemma stream_init_inv: "stream_init env doc s e x \<Longrightarrow> stream_inv env doc s e x"
proof -
  assume "stream_init env doc s e x"
  then obtain conc where env: "honest env doc" "s \<le> e" "e < length doc" "0 < conc"
    and x: "x = new_stream (int s) (int e) conc" by (auto simp: stream_init_def)
  define cs where "cs = nat (CalculateChunkSize (int s) (int e))"
  have "mr_at (st_r x) cs s e 0" using new_mr_at [OF env(2,4)] by (simp add: x new_stream_def cs_def)
  moreover have "unfetched doc cs s e 0 = range_of doc s e"
    using pending_pieces [OF _ env(2), of cs doc] by (simp add: unfetched_def bufs_bytes_def cs_def)
  moreover have "st_r x = newTGMultiReader (int s) (int e) conc" "st_pc x = Idle" "st_out x = []" "st_ends x = []"
    by (simp_all add: x new_stream_def)
  ultimately show ?thesis using env
    unfolding stream_inv_def stream_core_def
    by (intro conjI exI [of _ cs] exI [of _ "0 :: nat"] exI [of _ "range_of doc s e"])
      (simp_all add: newTGMultiReader_fields mr_pending_bufs)
qed

subsection \<open>Every step keeps the invariant\<close>

lemma mr_at_cong:
  "m_concurrency r' = m_concurrency r \<Longrightarrow> m_totalParts r' = m_totalParts r \<Longrightarrow> m_leftCut r' = m_leftCut r \<Longrightarrow>
   m_rightCut r' = m_rightCut r \<Longrightarrow> m_chunkSize r' = m_chunkSize r \<Longrightarrow> m_currentPart r' = m_currentPart r \<Longrightarrow>
   m_offset r' = m_offset r \<Longrightarrow> mr_at r' cs s e i = mr_at r cs s e i \<and> batch_size r' = batch_size r"
  by (simp add: mr_at_def batch_size_def)

lemma mr_cancel_fields [simp]:
  "m_chan (mr_cancel r) = m_chan r" "m_cur (mr_cancel r) = m_cur r" "m_limit (mr_cancel r) = m_limit r"
  "m_closed (mr_cancel r) = m_closed r" "m_ctxErr (mr_cancel r) \<noteq> None"
  "mr_at (mr_cancel r) cs s e i = mr_at r cs s e i" "batch_size (mr_cancel r) = batch_size r"
  "mr_pending (mr_cancel r) = mr_pending r"
  by (simp_all add: mr_cancel_def mr_at_def batch_size_def mr_pending_def)

lemma mr_cancel_ctxErr: "m_ctxErr r \<notin> {Some EOF, Some ErrStreamAbandoned} \<Longrightarrow>
    m_ctxErr (mr_cancel r) \<notin> {Some EOF, Some ErrStreamAbandoned}"
  by (auto simp: mr_cancel_def split: option.splits)

lemma batch_failed_fields [simp]:
  "m_chan (batch_failed env errs r) = m_chan r" "m_cur (batch_failed env errs r) = m_cur r"
  "m_limit (batch_failed env errs r) = m_limit r" "m_ctxErr (batch_failed env errs r) = m_ctxErr r"
  "mr_at (batch_failed env errs r) cs s e i = mr_at r cs s e i"
  "mr_pending (batch_failed env errs r) = mr_pending r"
  by (simp_all add: batch_failed_def mr_at_def mr_pending_def Let_def)

lemma mr_update_fields [simp]:
  "mr_at (r\<lparr>m_closed := c\<rparr>) cs s e i = mr_at r cs s e i" "mr_pending (r\<lparr>m_closed := c\<rparr>) = mr_pending r"
  "mr_at (r\<lparr>m_chan := q\<rparr>) cs s e i = mr_at r cs s e i" "batch_size (r\<lparr>m_chan := q\<rparr>) = batch_size r"
  "mr_at (r\<lparr>m_ctxErr := x\<rparr>) cs s e i = mr_at r cs s e i" "batch_size (r\<lparr>m_ctxErr := x\<rparr>) = batch_size r"
  "mr_pending (r\<lparr>m_ctxErr := x\<rparr>) = mr_pending r"
  "mr_at (r\<lparr>m_cur := y\<rparr>) cs s e i = mr_at r cs s e i" "batch_size (r\<lparr>m_cur := y\<rparr>) = batch_size r"
  "mr_at (r\<lparr>m_limit := l\<rparr>) cs s e i = mr_at r cs s e i" "batch_size (r\<lparr>m_limit := l\<rparr>) = batch_size r"
  by (simp_all add: mr_at_def mr_pending_def batch_size_def)

lemma batch_sent_fields [simp]:
  "m_chan (batch_sent r) = m_chan r" "m_cur (batch_sent r) = m_cur r" "m_limit (batch_sent r) = m_limit r"
  "m_ctxErr (batch_sent r) = m_ctxErr r" "m_closed (batch_sent r) = m_closed r" "mr_pending (batch_sent r) = mr_pending r"
  by (simp_all add: batch_sent_def mr_pending_def)

lemma piece_buf_ok [simp]: "cur_ok (Some (piece_buf doc cs s e i))"
  by (simp add: piece_buf_def)

text \<open>Fetching a batch moves the next pieces from what is unfetched into the hand.\<close>

lemma unfetched_split:
  "i + b \<le> piece_count cs s e \<Longrightarrow>
     unfetched doc cs s e i = bufs_bytes (map (piece_buf doc cs s e) [i..<i + b]) @ unfetched doc cs s e (i + b)"
  unfolding unfetched_def by (metis bufs_bytes_simps(3) le_Suc_ex map_append upt_add_eq_append le_add1)

lemma unfetched_all [simp]: "unfetched doc cs s e (piece_count cs s e) = []"
  by (simp add: unfetched_def)

text \<open>
  A step of the producer keeps the current buffer and the limit, and the bytes that are in the
  channel, in its hand and not yet fetched.
\<close>

definition stream_at :: "bytes \<Rightarrow> nat \<Rightarrow> nat \<Rightarrow> nat \<Rightarrow> nat \<Rightarrow> bytes \<Rightarrow> mr \<Rightarrow> ppc \<Rightarrow> bytes \<Rightarrow> bool" where
  "stream_at doc s e cs i rest r pc out \<longleftrightarrow>
     mr_at r cs s e i \<and> prod_ok r doc cs s e i rest pc \<and>
     int (length out) + m_limit r = int (Suc e - s) \<and>
     (\<forall>b\<in>set (m_chan r). cur_ok (Some b)) \<and>
     (if cur_ok (m_cur r)
      then out @ mr_pending r @ bufs_bytes (hand pc) @ rest = range_of doc s e
      else (\<exists>c. m_cur r = Some c \<and> b_buf c = None) \<and> prefix out (range_of doc s e) \<and>
           (0 < m_limit r \<longrightarrow> m_ctxErr r \<noteq> None))"

lemma stream_core_at: "stream_core doc s e r pc out \<longleftrightarrow> (\<exists>cs i rest. stream_at doc s e cs i rest r pc out)"
  by (simp only: stream_core_def stream_at_def)

lemma producer_moves:
  assumes "stream_at doc s e cs i rest r pc out" "m_cur r' = m_cur r" "m_limit r' = m_limit r"
    "m_ctxErr r \<noteq> None \<Longrightarrow> m_ctxErr r' \<noteq> None" "mr_at r' cs s e i'" "prod_ok r' doc cs s e i' rest' pc'"
    "\<forall>b\<in>set (m_chan r'). cur_ok (Some b)"
    "bufs_bytes (m_chan r') @ bufs_bytes (hand pc') @ rest' = bufs_bytes (m_chan r) @ bufs_bytes (hand pc) @ rest"
  shows "stream_core doc s e r' pc' out"
proof -
  have "mr_pending r' @ bufs_bytes (hand pc') @ rest' = mr_pending r @ bufs_bytes (hand pc) @ rest"
    using assms(2,8) by (simp add: mr_pending_bufs)
  then have "stream_at doc s e cs i' rest' r' pc' out"
    using assms(1-7) unfolding stream_at_def
    by (cases "cur_ok (m_cur r)") (simp_all del: cur_ok.simps)
  then show ?thesis unfolding stream_core_at by blast
qed

lemma prod_step_core:
  assumes step: "prod_step env cap x y" and env: "honest env doc" "e < length doc"
    and core: "stream_core doc s e (st_r x) (st_pc x) (st_out x)"
  shows "stream_core doc s e (st_r y) (st_pc y) (st_out x)"
proof -
  from core obtain cs i rest where at: "stream_at doc s e cs i rest (st_r x) (st_pc x) (st_out x)"
    unfolding stream_core_at by blast
  then have r: "mr_at (st_r x) cs s e i" "\<forall>b\<in>set (m_chan (st_r x)). cur_ok (Some b)"
    and ok: "prod_ok (st_r x) doc cs s e i rest (st_pc x)" unfolding stream_at_def by blast+
  have idx: "m_currentPart (st_r x) = int i" "m_totalParts (st_r x) = int (piece_count cs s e)" "i \<le> piece_count cs s e"
    using r(1) by (simp_all add: mr_at_def)
  show ?thesis using step
  proof cases
    case (fetch bufs)
    with idx have "i < piece_count cs s e" by simp
    from fetchBatch_honest [OF r(1) this env(2,1)] fetch(4) obtain b where
      b: "batch_size (st_r x) = int b" "0 < b" "i + b \<le> piece_count cs s e"
      and bufs: "bufs = map (piece_buf doc cs s e) [i..<i + b]" by auto
    have "bufs_bytes bufs @ unfetched doc cs s e (i + b) = rest"
      using ok fetch(2) unfetched_split [OF b(3), of doc] by (simp add: bufs)
    then show ?thesis using r b ok fetch
      by (intro producer_moves [OF at, of _ i "unfetched doc cs s e (i + b)"]) (auto simp: bufs piece_buf_def)
  next
    case (fetch_failed errs bufs)
    then show ?thesis using r ok by (intro producer_moves [OF at, of _ i rest]) simp_all
  next
    case (send b bs)
    then show ?thesis using r ok by (intro producer_moves [OF at, of _ i rest]) auto
  next
    case (send_aborted b bs err)
    then show ?thesis using r ok
      by (intro producer_moves [OF at, of _ i "bufs_bytes (b # bs) @ rest"]) simp_all
  next
    case sent
    with ok obtain b where b: "batch_size (st_r x) = int b" "i + b \<le> piece_count cs s e"
      "rest = unfetched doc cs s e (i + b)" by auto
    then show ?thesis using r ok sent mr_at_sent [OF r(1) b(1,2)]
      by (intro producer_moves [OF at, of _ "i + b" rest]) simp_all
  next
    case finish
    with idx have "i = piece_count cs s e" by simp
    then show ?thesis using r ok finish by (intro producer_moves [OF at, of _ i rest]) simp_all
  qed
qed

lemma prod_step_keeps:
  assumes "prod_step env cap x y"
  shows "st_out y = st_out x" "st_ends y = st_ends x" "m_limit (st_r y) = m_limit (st_r x)"
    "m_ctxErr (st_r x) \<noteq> None \<Longrightarrow> m_ctxErr (st_r y) \<noteq> None"
    "m_ctxErr (st_r x) \<notin> {Some EOF, Some ErrStreamAbandoned} \<Longrightarrow> m_ctxErr (st_r y) \<notin> {Some EOF, Some ErrStreamAbandoned}"
  using assms by (auto elim!: prod_step.cases simp: mr_cancel_def split: option.splits)

lemma prod_step_inv:
  "prod_step env cap x y \<Longrightarrow> stream_inv env doc s e x \<Longrightarrow> stream_inv env doc s e y"
  using prod_step_core [of env cap x y doc e s] prod_step_keeps [of env cap x y]
  unfolding stream_inv_def by simp

text \<open>One \<open>Read\<close>, whatever the state of the context and the channel.\<close>

lemma mr_deliver_any:
  assumes "mr_deliver r k = Some (r', bs, err)" "cur_ok (m_cur r)" "m_cur r = Some cur"
  shows "\<exists>c. r' = r\<lparr>m_cur := Some c, m_limit := m_limit r - int (length bs)\<rparr> \<and>
    (if 0 < m_limit r' then cur_ok (Some c) \<and> cur_bytes (m_cur r) = bs @ cur_bytes (Some c) \<and> err = None
     else b_buf c = None \<and> prefix bs (cur_bytes (m_cur r)) \<and> err = Some EOF)"
proof -
  from assms(2,3) obtain B where B: "b_buf cur = Some B" "b_offset cur \<le> length B" by (auto split: option.splits)
  have adv: "drop (b_offset cur) B = take k (drop (b_offset cur) B) @
      drop (b_offset cur + length (take k (drop (b_offset cur) B))) B"
    by (rule copy_advance [symmetric])
  have bs: "bs = take k (drop (b_offset cur) B)" using assms(1,3) B
    by (auto simp: mr_deliver_def buffer_buffer_def slice_from_def Let_def split: if_splits)
  have bound: "b_offset cur + length bs \<le> length B" using B(2) by (auto simp: bs min_def)
  show ?thesis
  proof (cases "0 < m_limit r - int (length bs)")
    case True
    then have "r' = r\<lparr>m_cur := Some (buffer_increment cur (length bs)), m_limit := m_limit r - int (length bs)\<rparr> \<and> err = None"
      using assms(1,3) B by (auto simp: mr_deliver_def buffer_buffer_def slice_from_def Let_def bs split: if_splits)
    then show ?thesis using True B bound adv assms(3)
      by (intro exI [of _ "buffer_increment cur (length bs)"]) (simp add: buffer_increment_def bs)
  next
    case False
    then have "r' = r\<lparr>m_cur := Some ((buffer_increment cur (length bs))\<lparr>b_buf := None\<rparr>),
        m_limit := m_limit r - int (length bs)\<rparr> \<and> err = Some EOF"
      using assms(1,3) B by (auto simp: mr_deliver_def buffer_buffer_def slice_from_def Let_def bs split: if_splits)
    then show ?thesis using False B assms(3)
      by (intro exI [of _ "(buffer_increment cur (length bs))\<lparr>b_buf := None\<rparr>"]) (simp add: bs take_is_prefix)
  qed
qed

lemma mr_receive_cases:
  assumes "mr_receive sel r = Some res"
  obtains (ctx) e where "res = Inl e" "m_ctxErr r = Some e"
    | (closed) "res = Inl ErrStreamAbandoned" "m_closed r" "m_chan r = []"
    | (buf) b bs where "m_chan r = b # bs" "res = Inr (r\<lparr>m_cur := Some b, m_chan := bs\<rparr>)"
  using assms by (auto simp: mr_receive_def split: option.splits if_splits list.splits)

lemma mr_Read_any:
  assumes read: "mr_Read sel r k = Some (r', bs, err)" and ok: "0 < m_limit r" "cur_ok (m_cur r)"
    "\<forall>b\<in>set (m_chan r). cur_ok (Some b)"
  shows "\<exists>c q. r' = r\<lparr>m_cur := c, m_chan := q, m_limit := m_limit r - int (length bs)\<rparr> \<and> set q \<subseteq> set (m_chan r) \<and>
    (if 0 < m_limit r' then cur_ok c \<and> mr_pending r = bs @ mr_pending r' \<and>
        (err = None \<or> bs = [] \<and> r' = r \<and> (err = m_ctxErr r \<or> err = Some ErrStreamAbandoned \<and> m_closed r \<and> mr_pending r = []))
     else (\<exists>b. c = Some b \<and> b_buf b = None) \<and> prefix bs (mr_pending r) \<and> err = Some EOF)"
proof (cases "cur_bytes (m_cur r) = []")
  case False
  then obtain cur where cur: "m_cur r = Some cur" by (cases "m_cur r") auto
  have "mr_deliver r k = Some (r', bs, err)"
    using read ok(1) False buffer_isEmpty_ok [OF ok(2)] by (simp add: mr_Read_def)
  from mr_deliver_any [OF this ok(2) cur] obtain c where
    "r' = r\<lparr>m_cur := Some c, m_limit := m_limit r - int (length bs)\<rparr>"
    "if 0 < m_limit r' then cur_ok (Some c) \<and> cur_bytes (m_cur r) = bs @ cur_bytes (Some c) \<and> err = None
     else b_buf c = None \<and> prefix bs (cur_bytes (m_cur r)) \<and> err = Some EOF" by blast
  then show ?thesis by (intro exI [of _ "Some c"] exI [of _ "m_chan r"])
      (auto simp: mr_pending_bufs simp del: cur_bytes.simps cur_ok.simps split: if_splits)
next
  case empty: True
  with read ok(1) buffer_isEmpty_ok [OF ok(2)] obtain res where rcv: "mr_receive sel r = Some res"
    and res: "(case res of Inl e \<Rightarrow> Some (r, [], Some e) | Inr r1 \<Rightarrow> mr_deliver r1 k) = Some (r', bs, err)"
    by (auto simp: mr_Read_def bind_eq_Some_conv)
  from rcv show ?thesis
  proof (cases rule: mr_receive_cases)
    case (ctx e)
    with res ok show ?thesis by (intro exI [of _ "m_cur r"] exI [of _ "m_chan r"]) auto
  next
    case closed
    with res ok empty show ?thesis by (intro exI [of _ "m_cur r"] exI [of _ "m_chan r"]) (auto simp: mr_pending_bufs)
  next
    case (buf b q)
    define r1 where "r1 = r\<lparr>m_cur := Some b, m_chan := q\<rparr>"
    have del: "mr_deliver r1 k = Some (r', bs, err)" "cur_ok (m_cur r1)" "m_cur r1 = Some b"
      using res buf ok(3) by (simp_all add: r1_def)
    from mr_deliver_any [OF del] obtain c where
      "r' = r1\<lparr>m_cur := Some c, m_limit := m_limit r1 - int (length bs)\<rparr>"
      "if 0 < m_limit r' then cur_ok (Some c) \<and> cur_bytes (m_cur r1) = bs @ cur_bytes (Some c) \<and> err = None
       else b_buf c = None \<and> prefix bs (cur_bytes (m_cur r1)) \<and> err = Some EOF" by blast
    then show ?thesis using buf(1) empty by (intro exI [of _ "Some c"] exI [of _ q])
        (auto simp: mr_pending_bufs r1_def simp del: cur_bytes.simps cur_ok.simps split: if_splits)
  qed
qed

lemma prod_ok_cong:
  "m_closed r' = m_closed r \<Longrightarrow> batch_size r' = batch_size r \<Longrightarrow> (m_ctxErr r' = None \<Longrightarrow> m_ctxErr r = None) \<Longrightarrow>
   prod_ok r doc cs s e i rest pc \<Longrightarrow> prod_ok r' doc cs s e i rest pc"
  by (cases pc) auto

lemma stream_at_ok:
  assumes "stream_at doc s e cs i rest r pc out" "mr_Read sel r k = Some res" "0 < m_limit r"
  shows "cur_ok (m_cur r)"
proof (rule ccontr)
  assume "\<not> cur_ok (m_cur r)"
  with assms(1) obtain c where "m_cur r = Some c" "b_buf c = None" by (auto simp: stream_at_def simp del: cur_ok.simps)
  with assms(2,3) show False by (simp add: mr_Read_def buffer_isEmpty_def)
qed

text \<open>With the producer done and nothing pending, the whole range is out.\<close>

lemma stream_at_drained:
  assumes at: "stream_at doc s e cs i rest r pc out" and e: "e < length doc"
    and closed: "m_closed r" "m_ctxErr r = None" "cur_ok (m_cur r)" "mr_pending r = []"
  shows "m_limit r \<le> 0"
proof -
  have "pc = Stopped" "rest = []" using at closed by (cases pc; simp add: stream_at_def)+
  with at closed have "out = range_of doc s e" by (simp add: stream_at_def del: cur_ok.simps)
  moreover have "s \<le> e" "int (length out) + m_limit r = int (Suc e - s)"
    using at unfolding stream_at_def mr_at_def by blast+
  ultimately show ?thesis using e by simp
qed

lemma cons_read_core:
  assumes read: "mr_Read sel r k = Some (r', bs, err)" and lim: "0 < m_limit r" and e: "e < length doc"
    and core: "stream_core doc s e r pc out"
  shows "stream_core doc s e r' pc (out @ bs) \<and> m_ctxErr r' = m_ctxErr r \<and>
    (err = Some EOF \<longrightarrow> m_limit r' \<le> 0 \<or> m_ctxErr r = Some EOF) \<and>
    (err = Some ErrStreamAbandoned \<longrightarrow> m_ctxErr r \<noteq> None)"
proof -
  from core obtain cs i rest where at: "stream_at doc s e cs i rest r pc out" unfolding stream_core_at by blast
  then have r: "mr_at r cs s e i" "\<forall>b\<in>set (m_chan r). cur_ok (Some b)" "prod_ok r doc cs s e i rest pc"
    and len: "int (length out) + m_limit r = int (Suc e - s)" unfolding stream_at_def by blast+
  note ok = stream_at_ok [OF at read lim]
  with at have eq: "out @ mr_pending r @ bufs_bytes (hand pc) @ rest = range_of doc s e" by (simp add: stream_at_def)
  from mr_Read_any [OF read lim ok r(2)] obtain c q where
    r': "r' = r\<lparr>m_cur := c, m_chan := q, m_limit := m_limit r - int (length bs)\<rparr>"
    and q: "set q \<subseteq> set (m_chan r)"
    and res: "if 0 < m_limit r' then cur_ok c \<and> mr_pending r = bs @ mr_pending r' \<and>
        (err = None \<or> bs = [] \<and> r' = r \<and> (err = m_ctxErr r \<or>
           err = Some ErrStreamAbandoned \<and> m_closed r \<and> mr_pending r = []))
      else (\<exists>b. c = Some b \<and> b_buf b = None) \<and> prefix bs (mr_pending r) \<and> err = Some EOF" by blast
  have fields: "m_cur r' = c" "m_chan r' = q" "m_ctxErr r' = m_ctxErr r" "m_limit r' = m_limit r - int (length bs)"
    by (simp_all add: r')
  have at': "mr_at r' cs s e i" "prod_ok r' doc cs s e i rest pc"
    using r prod_ok_cong [of r' r] by (auto simp: r')
  have base: "int (length (out @ bs)) + m_limit r' = int (Suc e - s)" "\<forall>b\<in>set (m_chan r'). cur_ok (Some b)"
    using len q r(2) by (auto simp: fields simp del: cur_ok.simps)
  show ?thesis
  proof (cases "0 < m_limit r'")
    case True
    with res have cases: "cur_ok c" "mr_pending r = bs @ mr_pending r'" "err = None \<or> err = m_ctxErr r \<or>
        err = Some ErrStreamAbandoned \<and> m_closed r \<and> mr_pending r = []"
      by (simp, simp, metis)
    then have "stream_at doc s e cs i rest r' pc (out @ bs)"
      using at' base eq by (simp add: stream_at_def fields del: cur_ok.simps)
    moreover have "err = Some ErrStreamAbandoned \<longrightarrow> m_ctxErr r \<noteq> None"
      using cases(3) stream_at_drained [OF at e _ _ ok] lim by (metis not_le option.distinct(1))
    ultimately show ?thesis using cases(3) fields unfolding stream_core_at by auto
  next
    case False
    with res have cases: "\<exists>b. c = Some b \<and> b_buf b = None" "prefix bs (mr_pending r)" "err = Some EOF" by simp_all
    have "prefix (out @ bs) (range_of doc s e)" using cases(2) eq by (metis append.assoc prefix_def)
    with cases(1) False at' base have "stream_at doc s e cs i rest r' pc (out @ bs)"
      by (auto simp: stream_at_def fields)
    with cases(3) False fields show ?thesis unfolding stream_core_at by auto
  qed
qed

lemma core_ctxErr:
  assumes "stream_core doc s e r pc out" "c = m_cur r \<or> (\<exists>b. c = Some b \<and> b_buf b = None)"
  shows "stream_core doc s e (r\<lparr>m_ctxErr := Some err, m_cur := c\<rparr>) pc out"
proof -
  define r' where "r' = r\<lparr>m_ctxErr := Some err, m_cur := c\<rparr>"
  from assms(1) obtain cs i rest where at: "stream_at doc s e cs i rest r pc out" unfolding stream_core_at by blast
  then have r: "mr_at r cs s e i" "\<forall>b\<in>set (m_chan r). cur_ok (Some b)" "prod_ok r doc cs s e i rest pc"
    and len: "int (length out) + m_limit r = int (Suc e - s)" unfolding stream_at_def by blast+
  have fields: "mr_at r' cs s e i" "m_limit r' = m_limit r" "m_chan r' = m_chan r" "m_cur r' = c" "m_ctxErr r' = Some err"
    using r(1) by (simp_all add: r'_def)
  have ok: "prod_ok r' doc cs s e i rest pc"
    by (rule prod_ok_cong [OF _ _ _ r(3)]) (simp_all add: r'_def)
  have pre: "prefix out (range_of doc s e)"
    using at prefixI [of "range_of doc s e" out] unfolding stream_at_def by metis
  have "if cur_ok c then out @ mr_pending r' @ bufs_bytes (hand pc) @ rest = range_of doc s e
      else (\<exists>b. c = Some b \<and> b_buf b = None) \<and> prefix out (range_of doc s e) \<and> (0 < m_limit r' \<longrightarrow> m_ctxErr r' \<noteq> None)"
  proof (cases "c = m_cur r")
    case True
    then have "mr_pending r' = mr_pending r" by (simp add: mr_pending_bufs fields)
    with True at fields(5) show ?thesis by (simp add: stream_at_def split: if_splits)
  next
    case False
    with assms(2) pre fields(5) show ?thesis by auto
  qed
  then have "stream_at doc s e cs i rest r' pc out"
    using r ok len fields unfolding stream_at_def by simp
  then show ?thesis unfolding stream_core_at r'_def by blast
qed

lemma cons_step_inv:
  assumes "cons_step x y" "stream_inv env doc s e x"
  shows "stream_inv env doc s e y"
  using assms(1)
proof cases
  case (read sel k r' bs err)
  show ?thesis
  proof (cases "m_limit (st_r x) \<le> 0")
    case True
    with read have "r' = st_r x" "bs = []" "err = Some EOF" by (auto simp: mr_Read_def)
    with assms(2) True show ?thesis unfolding stream_inv_def read(1) by simp
  next
    case False
    then have lim: "0 < m_limit (st_r x)" by simp
    show ?thesis
      using cons_read_core [OF read(2) lim] assms(2) lim
      unfolding stream_inv_def read(1) by (auto split: option.splits)
  qed
next
  case close
  define err where "err = (case m_ctxErr (st_r x) of None \<Rightarrow> CtxCanceled | Some e \<Rightarrow> e)"
  define c where "c = map_option (\<lambda>b. b\<lparr>b_buf := None\<rparr>) (m_cur (st_r x))"
  have eq: "fst (mr_Close (st_r x)) = (st_r x)\<lparr>m_ctxErr := Some err, m_cur := c\<rparr>"
    by (simp add: mr_Close_def mr_cancel_def err_def c_def)
  have "c = m_cur (st_r x) \<or> (\<exists>b. c = Some b \<and> b_buf b = None)" by (cases "m_cur (st_r x)") (auto simp: c_def)
  with assms(2) have "stream_core doc s e (fst (mr_Close (st_r x))) (st_pc x) (st_out x)"
    unfolding eq stream_inv_def by (intro core_ctxErr) auto
  moreover have "Some err \<notin> {Some EOF, Some ErrStreamAbandoned}"
    using assms(2) by (auto simp: stream_inv_def err_def split: option.splits)
  ultimately show ?thesis using assms(2) unfolding stream_inv_def close eq by simp
next
  case (ctx_done err)
  have "(st_r x)\<lparr>m_ctxErr := Some err\<rparr> = (st_r x)\<lparr>m_ctxErr := Some err, m_cur := m_cur (st_r x)\<rparr>" by simp
  then have "stream_core doc s e ((st_r x)\<lparr>m_ctxErr := Some err\<rparr>) (st_pc x) (st_out x)"
    using assms(2) core_ctxErr [of doc s e "st_r x" "st_pc x" "st_out x" "m_cur (st_r x)" err]
    unfolding stream_inv_def by metis
  then show ?thesis using assms(2) ctx_done unfolding stream_inv_def by auto
qed

interpretation stream: step_invariant "stream_init env doc s e" "stream_step env cap" "stream_inv env doc s e"
  for env doc s e cap
  by unfold_locales (auto intro: stream_init_inv prod_step_inv cons_step_inv simp: stream_step_def)

subsection \<open>Progress\<close>

text \<open>
  Steps of the producer still to come, at most: three for a chunk that is not fetched, one for a
  buffer in hand, and the ends of the batch and of the loop.
\<close>

fun prod_rank :: "mr \<Rightarrow> ppc \<Rightarrow> nat" where
  "prod_rank r Idle = 1 + 3 * nat (m_totalParts r - m_currentPart r)"
| "prod_rank r (Sending bs) = 2 + length bs + 3 * nat (m_totalParts r - m_currentPart r - batch_size r)"
| "prod_rank r Stopped = 0"

lemma prod_step_rank:
  assumes step: "prod_step env cap x y" and inv: "stream_inv env doc s e x"
  shows "prod_rank (st_r y) (st_pc y) < prod_rank (st_r x) (st_pc x)"
proof -
  have env: "honest env doc" "e < length doc" using inv unfolding stream_inv_def by blast+
  from inv obtain cs i rest where at: "stream_at doc s e cs i rest (st_r x) (st_pc x) (st_out x)"
    unfolding stream_inv_def stream_core_at by blast
  then have r: "mr_at (st_r x) cs s e i" unfolding stream_at_def by blast
  have idx: "m_currentPart (st_r x) = int i" "m_totalParts (st_r x) = int (piece_count cs s e)" "i \<le> piece_count cs s e"
    using r by (simp_all add: mr_at_def)
  show ?thesis using step
  proof cases
    case (fetch bufs)
    with idx have "i < piece_count cs s e" by simp
    from fetchBatch_honest [OF r this env(2,1)] fetch(4) obtain b where
      b: "batch_size (st_r x) = int b" "0 < b" "i + b \<le> piece_count cs s e"
      and bufs: "bufs = map (piece_buf doc cs s e) [i..<i + b]" by auto
    have "nat (int (piece_count cs s e) - int i) = nat (int (piece_count cs s e) - int i - int b) + b" using b(3) by simp
    then show ?thesis using fetch(2) b(2) by (simp add: fetch(1) bufs b(1) idx)
  next
    case (send b bs)
    then show ?thesis by (simp add: batch_size_def)
  next
    case sent
    then show ?thesis by (simp add: batch_sent_def diff_diff_eq)
  qed simp_all
qed

text \<open>While the context is alive the reader can go on until the whole range is delivered.\<close>

definition stream_calm :: "chunk_env \<Rightarrow> bytes \<Rightarrow> stream \<Rightarrow> bool" where
  "stream_calm env doc x \<longleftrightarrow> serves env doc \<and> m_ctxErr (st_r x) = None"

definition stream_rank :: "stream \<Rightarrow> nat" where
  "stream_rank x = nat (m_limit (st_r x)) + length (m_chan (st_r x)) + 2 * prod_rank (st_r x) (st_pc x)"

lemma producer_can_move:
  assumes inv: "stream_inv env doc s e x" and calm: "serves env doc"
    and pc: "st_pc x \<noteq> Stopped" and room: "m_chan (st_r x) = []"
  shows "\<exists>y. prod_step env cap x y \<and> m_ctxErr (st_r y) = m_ctxErr (st_r x) \<and> length (m_chan (st_r y)) \<le> 1"
proof -
  have env: "honest env doc" "e < length doc" using inv unfolding stream_inv_def by blast+
  from inv obtain cs i rest where at: "stream_at doc s e cs i rest (st_r x) (st_pc x) (st_out x)"
    unfolding stream_inv_def stream_core_at by blast
  then have r: "mr_at (st_r x) cs s e i" unfolding stream_at_def by blast
  show ?thesis
  proof (cases "st_pc x")
    case Idle
    show ?thesis
    proof (cases "m_currentPart (st_r x) < m_totalParts (st_r x)")
      case True
      then have "i < piece_count cs s e" using r by (simp add: mr_at_def)
      from fetchBatch_honest [OF r this env(2,1)] calm obtain bufs where "fetchBatch env (st_r x) = Some ([], bufs)"
        by blast
      with prod_step.fetch [OF Idle True, of env bufs cap] room show ?thesis by fastforce
    next
      case False
      with prod_step.finish [OF Idle False, of env cap] room show ?thesis by fastforce
    qed
  next
    case (Sending bs)
    show ?thesis
    proof (cases bs)
      case Nil
      with prod_step.sent [of x env cap] Sending room show ?thesis by fastforce
    next
      case (Cons b bs')
      with prod_step.send [of x b bs' cap env] Sending room show ?thesis by fastforce
    qed
  next
    case Stopped
    with pc show ?thesis by simp
  qed
qed

lemma deliver_progress:
  assumes "m_cur r = Some cur" "cur_ok (m_cur r)"
  shows "\<exists>r' bs err. mr_deliver r 1 = Some (r', bs, err) \<and> m_chan r' = m_chan r \<and> m_ctxErr r' = m_ctxErr r \<and>
    m_limit r' = m_limit r - int (length bs) \<and> (cur_bytes (m_cur r) \<noteq> [] \<longrightarrow> bs \<noteq> [])"
  using assms by (auto simp: mr_deliver_def buffer_buffer_def slice_from_def Let_def split: option.splits)

lemma read_progress:
  assumes lim: "0 < m_limit r" "m_ctxErr r = None" and ok: "cur_ok (m_cur r)" "\<forall>b\<in>set (m_chan r). cur_ok (Some b)"
    and some: "cur_bytes (m_cur r) \<noteq> [] \<or> m_chan r \<noteq> []"
  shows "\<exists>r' bs err. mr_Read False r 1 = Some (r', bs, err) \<and> m_ctxErr r' = None \<and>
    nat (m_limit r') + length (m_chan r') < nat (m_limit r) + length (m_chan r)"
proof (cases "cur_bytes (m_cur r) = []")
  case False
  then obtain cur where cur: "m_cur r = Some cur" by (cases "m_cur r") auto
  from deliver_progress [OF cur ok(1)] False lim obtain r' bs err where
    "mr_deliver r 1 = Some (r', bs, err)" "m_chan r' = m_chan r" "m_ctxErr r' = None"
    "m_limit r' = m_limit r - int (length bs)" "bs \<noteq> []" by auto
  then show ?thesis using False buffer_isEmpty_ok [OF ok(1)] lim by (simp add: mr_Read_def)
next
  case True
  with some obtain b q where chan: "m_chan r = b # q" by (cases "m_chan r") auto
  define r1 where "r1 = r\<lparr>m_cur := Some b, m_chan := q\<rparr>"
  have "m_cur r1 = Some b" "cur_ok (m_cur r1)" using ok(2) chan by (simp_all add: r1_def)
  from deliver_progress [OF this] lim obtain r' bs err where
    "mr_deliver r1 1 = Some (r', bs, err)" "m_chan r' = q" "m_ctxErr r' = None"
    "m_limit r' = m_limit r - int (length bs)" by (auto simp: r1_def)
  then show ?thesis using True buffer_isEmpty_ok [OF ok(1)] lim chan by (simp add: mr_Read_def mr_receive_def r1_def)
qed

lemma prod_step_chan: "prod_step env cap x y \<Longrightarrow> m_chan (st_r x) = [] \<Longrightarrow> length (m_chan (st_r y)) \<le> 1"
  by (auto elim!: prod_step.cases)

lemma stream_moves:
  assumes inv: "stream_inv env doc s e x" and calm: "stream_calm env doc x" and lim: "0 < m_limit (st_r x)"
  shows "\<exists>y. stream_step env cap x y \<and> stream_calm env doc y \<and> stream_rank y < stream_rank x"
proof -
  have env: "serves env doc" "m_ctxErr (st_r x) = None" "e < length doc"
    using inv calm unfolding stream_inv_def stream_calm_def by blast+
  from inv obtain cs i rest where at: "stream_at doc s e cs i rest (st_r x) (st_pc x) (st_out x)"
    unfolding stream_inv_def stream_core_at by blast
  then have ok: "cur_ok (m_cur (st_r x))" "\<forall>b\<in>set (m_chan (st_r x)). cur_ok (Some b)"
    using lim env(2) unfolding stream_at_def by metis+
  show ?thesis
  proof (cases "cur_bytes (m_cur (st_r x)) \<noteq> [] \<or> m_chan (st_r x) \<noteq> []")
    case True
    from read_progress [OF lim env(2) ok True] obtain r' bs err where
      rd: "mr_Read False (st_r x) 1 = Some (r', bs, err)" "m_ctxErr r' = None"
        "nat (m_limit r') + length (m_chan r') < nat (m_limit (st_r x)) + length (m_chan (st_r x))" by blast
    from rd(1) lim ok mr_Read_any [OF rd(1) lim ok]
    have "prod_rank r' (st_pc x) = prod_rank (st_r x) (st_pc x)" by (cases "st_pc x") (auto simp: batch_size_def)
    with cons_step.read [OF rd(1)] rd(2,3) env(1) show ?thesis
      by (fastforce simp: stream_step_def stream_calm_def stream_rank_def)
  next
    case False
    then have empty: "m_chan (st_r x) = []" "mr_pending (st_r x) = []" by (simp_all add: mr_pending_bufs)
    have "st_pc x \<noteq> Stopped"
      using stream_at_drained [OF at env(3) _ env(2) ok(1) empty(2)] lim at by (auto simp: stream_at_def)
    from producer_can_move [OF inv env(1) this empty(1), of cap] obtain y where
      y: "prod_step env cap x y" "m_ctxErr (st_r y) = None" "length (m_chan (st_r y)) \<le> 1" using env(2) by metis
    from prod_step_rank [OF y(1) inv] prod_step_keeps(3) [OF y(1)] y empty env(1) show ?thesis
      by (intro exI [of _ y]) (simp add: stream_step_def stream_calm_def stream_rank_def)
  qed
qed

interpretation stream_live: step_progress "stream_init env doc s e" "stream_step env cap" "stream_inv env doc s e"
    "\<lambda>x. m_limit (st_r x) \<le> 0" stream_rank "stream_calm env doc"
  for env doc s e cap
  by unfold_locales (simp add: stream_moves)

text \<open>In a state of the invariant the bytes delivered are a prefix of the range, and all of it at the limit.\<close>

lemma stream_inv_out:
  assumes "stream_inv env doc s e x"
  shows "prefix (st_out x) (range_of doc s e)" "m_limit (st_r x) \<le> 0 \<Longrightarrow> st_out x = range_of doc s e"
proof -
  from assms obtain cs i rest where at: "stream_at doc s e cs i rest (st_r x) (st_pc x) (st_out x)"
    and e: "e < length doc" unfolding stream_inv_def stream_core_at by blast
  show pre: "prefix (st_out x) (range_of doc s e)"
    using at prefixI [of "range_of doc s e" "st_out x"] unfolding stream_at_def by metis
  have "s \<le> e" "int (length (st_out x)) + m_limit (st_r x) = int (Suc e - s)"
    using at unfolding stream_at_def mr_at_def by blast+
  moreover obtain zs where zs: "range_of doc s e = st_out x @ zs" using pre by (auto simp: prefix_def)
  moreover have "length (st_out x @ zs) = Suc e - s" if "s \<le> e" using e that by (simp flip: zs)
  ultimately have "m_limit (st_r x) \<le> 0 \<Longrightarrow> length zs = 0" unfolding length_append by linarith
  with zs show "m_limit (st_r x) \<le> 0 \<Longrightarrow> st_out x = range_of doc s e" by simp
qed

subsection \<open>Properties\<close>

text \<open>C3: Under every interleaving of producer, reads, \<open>Close\<close> and the end of the context, with a
  chunk source that may fail at any time, the bytes delivered are a prefix of the requested range,
  a read reports EOF only when the whole range has been delivered, and \<open>ErrStreamAbandoned\<close> only
  after the context has ended.\<close>

theorem stream_safe:
  assumes "honest env doc" "s \<le> e" "e < length doc" "0 < conc"
    and "reachable (\<lambda>x. x = new_stream (int s) (int e) conc) (stream_step env cap) x"
  shows "prefix (st_out x) (range_of doc s e) \<and>
    (EOF \<in> set (st_ends x) \<longrightarrow> st_out x = range_of doc s e) \<and>
    (ErrStreamAbandoned \<in> set (st_ends x) \<longrightarrow> m_ctxErr (st_r x) \<noteq> None)"
proof -
  have init: "stream_init env doc s e (new_stream (int s) (int e) conc)"
    using assms(1-4) by (auto simp: stream_init_def)
  have "reachable (stream_init env doc s e) (stream_step env cap) x"
    using assms(5) by (induction rule: reachable.induct) (auto intro: reachable.intros init)
  then have "stream_inv env doc s e x" by (rule stream.reachable_inv)
  with stream_inv_out [OF this] show ?thesis unfolding stream_inv_def by blast
qed

definition doc_env :: "bytes \<Rightarrow> chunk_env" where
  "doc_env doc = \<lparr>ce_chunk = (\<lambda>off lim a. if a = 0 then Inl CtxDeadlineExceeded else Inr (chunk_of doc off lim)),
     ce_stop = (\<lambda>_ _. False), ce_done = (\<lambda>_ _. None), ce_spare = (\<lambda>_. []), ce_first = hd\<rparr>"

lemma doc_env_serves: "serves (doc_env doc) doc"
  unfolding serves_def honest_def retried_def
  by (auto simp: doc_env_def chunk_error_def isRetryableChunkError_def intro!: exI [of _ "1 :: nat"])

theorem stream_safe_witness:
  "\<exists>x. reachable (\<lambda>x. x = new_stream (int 1) (int 2) 2) (stream_step (doc_env [1, 2, 3, 4]) 1) x \<and>
    prefix (st_out x) [2, 3]"
proof -
  let ?x = "new_stream (int 1) (int 2) 2"
  have "reachable (\<lambda>x. x = ?x) (stream_step (doc_env [1, 2, 3, 4]) 1) ?x" by (rule reachable.start) simp
  moreover have "honest (doc_env [1, 2, 3, 4]) [1, 2, 3, 4]" using doc_env_serves by (simp add: serves_def)
  ultimately show ?thesis using stream_safe [of "doc_env [1, 2, 3, 4]" "[1, 2, 3, 4]" 1 2 2 1 ?x]
    by (auto simp: range_of_def)
qed

text \<open>C4: No deadlock: with a chunk source that answers one of its three attempts, from every
  reachable state in which the context is still alive the stream can go on, over a channel of any
  capacity, until the whole range has been delivered.\<close>

theorem stream_completes:
  assumes "serves env doc" "s \<le> e" "e < length doc" "0 < conc"
    and "reachable (\<lambda>x. x = new_stream (int s) (int e) conc) (stream_step env cap) x" "m_ctxErr (st_r x) = None"
  shows "\<exists>y. (stream_step env cap)\<^sup>*\<^sup>* x y \<and> st_out y = range_of doc s e \<and> m_ctxErr (st_r y) = None"
proof -
  have init: "stream_init env doc s e (new_stream (int s) (int e) conc)"
    using assms(1-4) by (auto simp: stream_init_def serves_def)
  have "reachable (stream_init env doc s e) (stream_step env cap) x"
    using assms(5) by (induction rule: reachable.induct) (auto intro: reachable.intros init)
  moreover have "stream_calm env doc x" using assms(1,6) by (simp add: stream_calm_def)
  ultimately obtain y where "(stream_step env cap)\<^sup>*\<^sup>* x y" "stream_inv env doc s e y" "m_limit (st_r y) \<le> 0"
    "stream_calm env doc y" using stream_live.reachable_end by blast
  then show ?thesis using stream_inv_out(2) unfolding stream_calm_def by blast
qed

theorem stream_completes_witness:
  "\<exists>y. (stream_step (doc_env [1, 2, 3, 4]) 1)\<^sup>*\<^sup>* (new_stream 1 2 2) y \<and> st_out y = [2, 3] \<and> m_ctxErr (st_r y) = None"
proof -
  let ?x = "new_stream (int 1) (int 2) 2"
  have "reachable (\<lambda>x. x = ?x) (stream_step (doc_env [1, 2, 3, 4]) 1) ?x" by (rule reachable.start) simp
  moreover have "m_ctxErr (st_r ?x) = None" by (simp add: new_stream_def newTGMultiReader_def Let_def)
  ultimately show ?thesis
    using stream_completes [OF doc_env_serves, of 1 2 "[1, 2, 3, 4]" 2 1 ?x] by (simp add: range_of_def)
qed

text \<open>C39: A chunk is tried at most three times, and again only after a retryable error while neither the
  backoff nor the context has ended; a success is returned as it is, a failure as an error.\<close>

theorem chunk_attempts_bounded:
  "\<exists>a res. fetchChunkWithRetry att stop done part = (res, Suc a) \<and> a \<le> 2 \<and>
    (\<forall>b<a. \<not> stop b \<and> done b = None \<and>
       (\<exists>err. att b = Inl err \<and> isRetryableChunkError (Some (chunk_error part err)))) \<and>
    (case att a of Inr chunk \<Rightarrow> res = Inr chunk | Inl err \<Rightarrow> \<exists>e. res = Inl e)"
  using fetch_loop_attempts [of 0 att stop "done" part] by (simp add: fetchChunkWithRetry_def)

theorem chunk_attempts_bounded_witness:
  "\<exists>a res. fetchChunkWithRetry (\<lambda>_. Inl ErrChunkTimeout) (\<lambda>_. False) (\<lambda>_. None) 0 = (res, Suc a) \<and> a \<le> 2"
  using chunk_attempts_bounded [of "\<lambda>_. Inl ErrChunkTimeout" "\<lambda>_. False" "\<lambda>_. None" 0] by blast

end
