(* ===== verification/Block_Hasher.thy ===== *)
theory Block_Hasher
  imports Transition "HOL-Library.AList"
begin

section \<open>The tree hasher (internal/hash/hash.go)\<close>

text \<open>
  Uploads are hashed in blocks of 16 MiB by a pool of workers. The writer sends full blocks over
  the channel \<open>jobs\<close>, takes finished sums from the channel \<open>results\<close> without blocking, and puts
  them in order through the map \<open>outOfOrder\<close>; \<open>Sum\<close> sends the last partial block, closes \<open>jobs\<close>
  and waits for the sums that are pending.

  The writer, the workers and the two bounded channels are one step relation. \<open>w\<close> is the number
  of workers (\<^verbatim>\<open>runtime.GOMAXPROCS(0)\<close>, at least one), \<open>bs\<close> the block size, \<open>sum256\<close> the
  function \<^verbatim>\<open>blake3.Sum256\<close>. The blocks sent so far are kept as \<open>hs_sent\<close>, for the statements
  only.
\<close>

definition BlockSize :: nat where
  "BlockSize = 16 * 1024 * 1024"

type_synonym job = "nat \<times> bytes"

record hasher =
  bh_jobs :: "job list"
  bh_results :: "job list"
  bh_currentBlock :: bytes
  bh_blockHashes :: "bytes list"
  bh_outOfOrder :: "(nat \<times> bytes) list"
  bh_nextDispatchIndex :: nat
  bh_nextCommitIndex :: nat
  bh_pending :: int
  bh_closed :: bool

definition NewBlockHasher :: hasher where
  "NewBlockHasher =
     \<lparr>bh_jobs = [], bh_results = [], bh_currentBlock = [], bh_blockHashes = [], bh_outOfOrder = [],
      bh_nextDispatchIndex = 0, bh_nextCommitIndex = 0, bh_pending = 0, bh_closed = False\<rparr>"

text \<open>\<open>initWorkers\<close>: at least one worker, and queues of twice as many places, at least two.\<close>

definition workerCount :: "int \<Rightarrow> nat" where
  "workerCount gomaxprocs = (if gomaxprocs < 1 then 1 else nat gomaxprocs)"

definition queueSize :: "nat \<Rightarrow> nat" where
  "queueSize w = (if w * 2 < 2 then 2 else w * 2)"

definition dispatchBlock :: "hasher \<Rightarrow> hasher" where
  "dispatchBlock h =
     h\<lparr>bh_jobs := bh_jobs h @ [(bh_nextDispatchIndex h, bh_currentBlock h)],
       bh_nextDispatchIndex := bh_nextDispatchIndex h + 1, bh_pending := bh_pending h + 1,
       bh_currentBlock := []\<rparr>"

function commit_loop :: "(nat \<times> bytes) list \<Rightarrow> nat \<Rightarrow> bytes list \<Rightarrow> (nat \<times> bytes) list \<times> nat \<times> bytes list" where
  "commit_loop ooo c hs =
     (case map_of ooo c of
        None \<Rightarrow> (ooo, c, hs)
      | Some v \<Rightarrow> commit_loop (AList.delete c ooo) (c + 1) (hs @ [v]))"
  by pat_completeness auto
termination
proof (relation "measure (\<lambda>(ooo, c, hs). length ooo)", goal_cases)
  case (2 ooo c hs v)
  then have "(c, v) \<in> set ooo" by (rule map_of_SomeD)
  then have "length (AList.delete c ooo) < length ooo"
    unfolding AList.delete_eq by (intro length_filter_less) auto
  then show ?case by simp
qed simp

declare commit_loop.simps [simp del]

definition processResult :: "job \<Rightarrow> hasher \<Rightarrow> hasher" where
  "processResult res h =
     (case commit_loop (AList.update (fst res) (snd res) (bh_outOfOrder h)) (bh_nextCommitIndex h) (bh_blockHashes h) of
        (ooo, c, hs) \<Rightarrow> h\<lparr>bh_pending := bh_pending h - 1, bh_outOfOrder := ooo, bh_nextCommitIndex := c,
                            bh_blockHashes := hs\<rparr>)"

definition closeJobs :: "hasher \<Rightarrow> hasher" where
  "closeJobs h = (if bh_closed h then h else h\<lparr>bh_closed := True\<rparr>)"

definition GetBlockCount :: "hasher \<Rightarrow> nat" where
  "GetBlockCount h = bh_nextDispatchIndex h"

definition sum_result :: "hasher \<Rightarrow> bytes" where
  "sum_result h = concat (bh_blockHashes h)"

text \<open>\<open>ComputeTreeHash\<close> and \<open>SumToHex\<close>; \<open>blake3\<close> is the hash function of the library.\<close>

definition ComputeTreeHash :: "(bytes \<Rightarrow> bytes) \<Rightarrow> bytes \<Rightarrow> bytes" where
  "ComputeTreeHash blake3 concatenatedBlockHashes = blake3 concatenatedBlockHashes"

definition hex_digit :: "nat \<Rightarrow> char" where
  "hex_digit n = (if n < 10 then char_of (48 + n) else char_of (87 + n))"

definition SumToHex :: "bytes \<Rightarrow> string" where
  "SumToHex bs = concat (map (\<lambda>b. [hex_digit (unat b div 16), hex_digit (unat b mod 16)]) bs)"

subsection \<open>Writer and workers\<close>

text \<open>
  Where the writer is: in \<open>Write\<close> with the bytes still to take, at the send of a full block, in
  the non-blocking drain after it, at the send of the partial block in \<open>Sum\<close>, in the loop that
  collects, or done with the result.
\<close>

datatype wpc = Writing bytes | Dispatching bytes | Draining bytes | SumDispatching | Collecting | Summed bytes

record hsys =
  hs_h :: hasher
  hs_held :: "job list"
  hs_pc :: wpc
  hs_sent :: "bytes list"

definition take_block :: "nat \<Rightarrow> hasher \<Rightarrow> bytes \<Rightarrow> nat" where
  "take_block bs h p =
     (let remaining = int bs - int (length (bh_currentBlock h))
      in nat (if remaining > int (length p) then int (length p) else remaining))"

inductive writer_step :: "nat \<Rightarrow> nat \<Rightarrow> hsys \<Rightarrow> hsys \<Rightarrow> bool" for w bs :: nat where
  fill: "hs_pc x = Writing p \<Longrightarrow> p \<noteq> [] \<Longrightarrow> n = take_block bs (hs_h x) p \<Longrightarrow>
    cur = bh_currentBlock (hs_h x) @ take n p \<Longrightarrow>
    writer_step w bs x (x\<lparr>hs_h := (hs_h x)\<lparr>bh_currentBlock := cur\<rparr>,
      hs_pc := (if length cur = bs then Dispatching (drop n p) else Writing (drop n p))\<rparr>)"
| dispatch: "hs_pc x = Dispatching p \<Longrightarrow> length (bh_jobs (hs_h x)) < queueSize w \<Longrightarrow>
    writer_step w bs x (x\<lparr>hs_h := dispatchBlock (hs_h x), hs_pc := Draining p,
      hs_sent := hs_sent x @ [bh_currentBlock (hs_h x)]\<rparr>)"
| drain: "hs_pc x = Draining p \<Longrightarrow> bh_results (hs_h x) = res # rs \<Longrightarrow>
    writer_step w bs x (x\<lparr>hs_h := processResult res ((hs_h x)\<lparr>bh_results := rs\<rparr>)\<rparr>)"
| drained: "hs_pc x = Draining p \<Longrightarrow> bh_results (hs_h x) = [] \<Longrightarrow> writer_step w bs x (x\<lparr>hs_pc := Writing p\<rparr>)"
| sum_partial: "hs_pc x = Writing [] \<Longrightarrow> bh_currentBlock (hs_h x) \<noteq> [] \<Longrightarrow>
    writer_step w bs x (x\<lparr>hs_pc := SumDispatching\<rparr>)"
| sum_dispatch: "hs_pc x = SumDispatching \<Longrightarrow> length (bh_jobs (hs_h x)) < queueSize w \<Longrightarrow>
    writer_step w bs x (x\<lparr>hs_h := closeJobs (dispatchBlock (hs_h x)), hs_pc := Collecting,
      hs_sent := hs_sent x @ [bh_currentBlock (hs_h x)]\<rparr>)"
| sum_whole: "hs_pc x = Writing [] \<Longrightarrow> bh_currentBlock (hs_h x) = [] \<Longrightarrow>
    writer_step w bs x (x\<lparr>hs_h := closeJobs (hs_h x), hs_pc := Collecting\<rparr>)"
| collect: "hs_pc x = Collecting \<Longrightarrow> bh_pending (hs_h x) > 0 \<Longrightarrow> bh_results (hs_h x) = res # rs \<Longrightarrow>
    writer_step w bs x (x\<lparr>hs_h := processResult res ((hs_h x)\<lparr>bh_results := rs\<rparr>)\<rparr>)"
| collect_closed: "hs_pc x = Collecting \<Longrightarrow> bh_pending (hs_h x) > 0 \<Longrightarrow> bh_results (hs_h x) = [] \<Longrightarrow>
    bh_jobs (hs_h x) = [] \<Longrightarrow> hs_held x = [] \<Longrightarrow> bh_closed (hs_h x) \<Longrightarrow>
    writer_step w bs x (x\<lparr>hs_pc := Summed (sum_result (hs_h x))\<rparr>)"
| collected: "hs_pc x = Collecting \<Longrightarrow> \<not> bh_pending (hs_h x) > 0 \<Longrightarrow>
    writer_step w bs x (x\<lparr>hs_pc := Summed (sum_result (hs_h x))\<rparr>)"

inductive worker_step :: "nat \<Rightarrow> (bytes \<Rightarrow> bytes) \<Rightarrow> hsys \<Rightarrow> hsys \<Rightarrow> bool" for w :: nat and sum256 :: "bytes \<Rightarrow> bytes" where
  receive: "bh_jobs (hs_h x) = j # js \<Longrightarrow> length (hs_held x) < w \<Longrightarrow>
    worker_step w sum256 x (x\<lparr>hs_h := (hs_h x)\<lparr>bh_jobs := js\<rparr>, hs_held := hs_held x @ [j]\<rparr>)"
| deliver: "hs_held x = us @ (i, d) # vs \<Longrightarrow> length (bh_results (hs_h x)) < queueSize w \<Longrightarrow>
    worker_step w sum256 x (x\<lparr>hs_h := (hs_h x)\<lparr>bh_results := bh_results (hs_h x) @ [(i, sum256 d)]\<rparr>,
      hs_held := us @ vs\<rparr>)"

definition hash_step :: "nat \<Rightarrow> nat \<Rightarrow> (bytes \<Rightarrow> bytes) \<Rightarrow> hsys \<Rightarrow> hsys \<Rightarrow> bool" where
  "hash_step w bs sum256 x y \<longleftrightarrow> writer_step w bs x y \<or> worker_step w sum256 x y"

definition new_hash :: "bytes \<Rightarrow> hsys" where
  "new_hash input = \<lparr>hs_h = NewBlockHasher, hs_held = [], hs_pc = Writing input, hs_sent = []\<rparr>"

text \<open>What the hash is meant to be: the sums of the blocks of the input, in order.\<close>

function blocks_of :: "nat \<Rightarrow> bytes \<Rightarrow> bytes list" where
  "blocks_of bs xs = (if bs = 0 \<or> xs = [] then [] else take bs xs # blocks_of bs (drop bs xs))"
  by pat_completeness auto
termination
  by (relation "measure (\<lambda>(bs, xs). length xs)") auto

declare blocks_of.simps [simp del]

definition block_sums :: "nat \<Rightarrow> (bytes \<Rightarrow> bytes) \<Rightarrow> bytes \<Rightarrow> bytes" where
  "block_sums bs sum256 input = concat (map sum256 (blocks_of bs input))"

lemma blocks_of_Nil [simp]: "blocks_of bs [] = []"
  by (subst blocks_of.simps) simp

lemma blocks_of_full:
  "0 < bs \<Longrightarrow> \<forall>b\<in>set bls. length b = bs \<Longrightarrow> blocks_of bs (concat bls @ ys) = bls @ blocks_of bs ys"
proof (induction bls)
  case (Cons b bls)
  then show ?case by (subst blocks_of.simps) auto
qed simp

lemma blocks_of_short: "ys \<noteq> [] \<Longrightarrow> length ys \<le> bs \<Longrightarrow> blocks_of bs ys = [ys]"
  by (subst blocks_of.simps) (cases "bs = 0"; auto)

subsection \<open>Bookkeeping\<close>

text \<open>
  Every block sent is in exactly one place: a job, in the hands of a worker, a result, waiting
  out of order, or committed; the committed ones are a prefix.
\<close>

definition flight :: "hasher \<Rightarrow> job list \<Rightarrow> nat list" where
  "flight h held = map fst (bh_jobs h) @ map fst held @ map fst (bh_results h)"

definition waiting :: "hasher \<Rightarrow> nat set" where
  "waiting h = dom (map_of (bh_outOfOrder h))"

definition book :: "(bytes \<Rightarrow> bytes) \<Rightarrow> bytes list \<Rightarrow> hasher \<Rightarrow> job list \<Rightarrow> bool" where
  "book sum256 sent h held \<longleftrightarrow>
     bh_nextDispatchIndex h = length sent \<and> bh_nextCommitIndex h \<le> length sent \<and>
     bh_nextCommitIndex h \<notin> waiting h \<and>
     (\<forall>j \<in> set (bh_jobs h) \<union> set held. snd j = sent ! fst j) \<and>
     (\<forall>j \<in> set (bh_results h). snd j = sum256 (sent ! fst j)) \<and>
     (\<forall>i v. map_of (bh_outOfOrder h) i = Some v \<longrightarrow> v = sum256 (sent ! i)) \<and>
     distinct (flight h held) \<and> set (flight h held) \<inter> waiting h = {} \<and>
     set (flight h held) \<union> waiting h = {bh_nextCommitIndex h..<length sent} \<and>
     bh_blockHashes h = map sum256 (take (bh_nextCommitIndex h) sent) \<and>
     bh_pending h = int (length (flight h held))"

text \<open>The commit loop moves a run of consecutive sums from the map to the hashes.\<close>

lemma commit_loop_spec:
  assumes "\<forall>i v. map_of ooo i = Some v \<longrightarrow> v = sum256 (sent ! i)" "dom (map_of ooo) \<subseteq> {c..<length sent}"
    "c \<le> length sent" "hs = map sum256 (take c sent)"
  shows "\<exists>ooo' c'. commit_loop ooo c hs = (ooo', c', map sum256 (take c' sent)) \<and> c \<le> c' \<and> c' \<le> length sent \<and>
    map_of ooo' = map_of ooo |` {c'..} \<and> {c..<c'} \<subseteq> dom (map_of ooo) \<and> map_of ooo' c' = None"
  using assms
proof (induction ooo c hs rule: commit_loop.induct)
  case (1 ooo c hs)
  show ?case
  proof (cases "map_of ooo c")
    case None
    then have "map_of ooo |` {c..} = map_of ooo" using 1(3) by (auto simp: restrict_map_def fun_eq_iff domIff) (metis atLeast_iff atLeastLessThan_iff domIff subsetD)
    with None 1(4,5) show ?thesis by (subst commit_loop.simps) simp
  next
    case (Some v)
    then have c: "c < length sent" "v = sum256 (sent ! c)" using 1(2,3) by auto
    have del: "map_of (AList.delete c ooo) = (map_of ooo)(c := None)" by (simp add: AList.delete_conv')
    have hs: "hs @ [v] = map sum256 (take (c + 1) sent)" using c 1(5) by (simp add: take_Suc_conv_app_nth)
    have dom: "dom (map_of (AList.delete c ooo)) \<subseteq> {c + 1..<length sent}"
      using 1(3) by (auto simp: del domIff split: if_splits)
    have sums: "\<forall>i v. map_of (AList.delete c ooo) i = Some v \<longrightarrow> v = sum256 (sent ! i)" using 1(2) by (simp add: del)
    from 1(1) [OF Some sums dom _ hs] c(1) obtain ooo' c' where
      IH: "commit_loop (AList.delete c ooo) (c + 1) (hs @ [v]) = (ooo', c', map sum256 (take c' sent))"
      "c + 1 \<le> c'" "c' \<le> length sent" "map_of ooo' = map_of (AList.delete c ooo) |` {c'..}"
      "{c + 1..<c'} \<subseteq> dom (map_of (AList.delete c ooo))" "map_of ooo' c' = None" by auto
    have "map_of ooo' = map_of ooo |` {c'..}" using IH(2) by (auto simp: IH(4) del restrict_map_def)
    moreover have "{c..<c'} \<subseteq> dom (map_of ooo)"
    proof
      fix i assume "i \<in> {c..<c'}"
      then have "i = c \<or> i \<in> {c + 1..<c'}" by auto
      then show "i \<in> dom (map_of ooo)" using Some IH(5) by (auto simp: del split: if_splits)
    qed
    ultimately show ?thesis using IH Some by (subst commit_loop.simps) auto
  qed
qed

lemma book_dispatch:
  assumes "book sum256 sent h held"
  shows "book sum256 (sent @ [bh_currentBlock h]) (dispatchBlock h) held"
proof -
  let ?h = "dispatchBlock h" and ?sent = "sent @ [bh_currentBlock h]"
  have c: "bh_nextDispatchIndex h = length sent" "bh_nextCommitIndex h \<le> length sent"
      "bh_nextCommitIndex h \<notin> waiting h"
    and data: "\<forall>j \<in> set (bh_jobs h) \<union> set held. snd j = sent ! fst j"
      "\<forall>j \<in> set (bh_results h). snd j = sum256 (sent ! fst j)"
      "\<forall>i v. map_of (bh_outOfOrder h) i = Some v \<longrightarrow> v = sum256 (sent ! i)"
    and places: "distinct (flight h held)" "set (flight h held) \<inter> waiting h = {}"
      "set (flight h held) \<union> waiting h = {bh_nextCommitIndex h..<length sent}"
    and hashes: "bh_blockHashes h = map sum256 (take (bh_nextCommitIndex h) sent)"
      "bh_pending h = int (length (flight h held))" using assms unfolding book_def by blast+
  have lt: "i < length sent" if "i \<in> set (flight h held) \<union> waiting h" for i using that places(3) by auto
  have jobs: "\<And>j. j \<in> set (bh_jobs h) \<union> set held \<union> set (bh_results h) \<Longrightarrow> fst j < length sent"
    by (rule lt) (auto simp: flight_def)
  have ooo: "\<And>i v. map_of (bh_outOfOrder h) i = Some v \<Longrightarrow> i < length sent" by (rule lt) (auto simp: waiting_def)
  have wait: "waiting ?h = waiting h" by (simp add: waiting_def dispatchBlock_def)
  have fl: "flight ?h held = map fst (bh_jobs h) @ length sent # map fst held @ map fst (bh_results h)"
    by (simp add: flight_def dispatchBlock_def c(1))
  have set: "set (flight ?h held) = insert (length sent) (set (flight h held))"
    unfolding fl by (simp add: flight_def Un_assoc)
  have new: "length sent \<notin> set (flight h held) \<union> waiting h" using lt by blast
  show ?thesis unfolding book_def
  proof (intro conjI)
    show "bh_nextCommitIndex ?h \<notin> waiting ?h" using c(3) wait by (simp add: dispatchBlock_def)
    show "\<forall>j \<in> set (bh_jobs ?h) \<union> set held. snd j = ?sent ! fst j"
      using data(1) jobs c(1) by (auto simp: dispatchBlock_def nth_append)
    show "\<forall>j \<in> set (bh_results ?h). snd j = sum256 (?sent ! fst j)"
      using data(2) jobs by (auto simp: dispatchBlock_def nth_append)
    show "\<forall>i v. map_of (bh_outOfOrder ?h) i = Some v \<longrightarrow> v = sum256 (?sent ! i)"
      using data(3) ooo by (auto simp: dispatchBlock_def nth_append)
    show "distinct (flight ?h held)" unfolding fl using places(1) new by (auto simp: flight_def)
    show "set (flight ?h held) \<inter> waiting ?h = {}" using places(2) new by (auto simp: set wait)
    have "set (flight ?h held) \<union> waiting ?h = insert (length sent) {bh_nextCommitIndex h..<length sent}"
      using places(3) by (simp add: set wait)
    then show "set (flight ?h held) \<union> waiting ?h = {bh_nextCommitIndex ?h..<length ?sent}"
      using c(2) by (simp add: atLeastLessThanSuc dispatchBlock_def)
  qed (use c hashes fl in \<open>simp_all add: dispatchBlock_def flight_def\<close>)
qed

lemma book_receive:
  assumes "book sum256 sent h held" "bh_jobs h = j # js"
  shows "book sum256 sent (h\<lparr>bh_jobs := js\<rparr>) (held @ [j])"
  using assms unfolding book_def flight_def waiting_def by auto

lemma book_deliver:
  assumes "book sum256 sent h (us @ (i, d) # vs)"
  shows "book sum256 sent (h\<lparr>bh_results := bh_results h @ [(i, sum256 d)]\<rparr>) (us @ vs)"
  using assms unfolding book_def flight_def waiting_def by auto

lemma book_process:
  assumes "book sum256 sent h held" "bh_results h = res # rs"
  shows "book sum256 sent (processResult res (h\<lparr>bh_results := rs\<rparr>)) held"
proof -
  let ?c = "bh_nextCommitIndex h" and ?ooo = "AList.update (fst res) (snd res) (bh_outOfOrder h)"
  have c: "bh_nextDispatchIndex h = length sent" "?c \<le> length sent"
    and data: "\<forall>j \<in> set (bh_jobs h) \<union> set held. snd j = sent ! fst j"
      "\<forall>j \<in> set (bh_results h). snd j = sum256 (sent ! fst j)"
      "\<forall>i v. map_of (bh_outOfOrder h) i = Some v \<longrightarrow> v = sum256 (sent ! i)"
    and places: "distinct (flight h held)" "set (flight h held) \<inter> waiting h = {}"
      "set (flight h held) \<union> waiting h = {?c..<length sent}"
    and hashes: "bh_blockHashes h = map sum256 (take ?c sent)"
      "bh_pending h = int (length (flight h held))" using assms unfolding book_def by blast+
  define fl where "fl = map fst (bh_jobs h) @ map fst held @ map fst rs"
  have split: "set (flight h held) = insert (fst res) (set fl)" "fst res \<notin> set fl" "distinct fl"
    "length (flight h held) = Suc (length fl)"
    using places(1) by (auto simp: flight_def fl_def assms(2))
  have upd: "map_of ?ooo = (map_of (bh_outOfOrder h))(fst res \<mapsto> snd res)" by (simp add: update_conv')
  have sums: "\<forall>i v. map_of ?ooo i = Some v \<longrightarrow> v = sum256 (sent ! i)"
    unfolding upd using data(2,3) by (auto simp: assms(2))
  have dom: "dom (map_of ?ooo) = insert (fst res) (waiting h)" by (auto simp: upd waiting_def)
  have all: "set fl \<union> dom (map_of ?ooo) = {?c..<length sent}" "set fl \<inter> dom (map_of ?ooo) = {}"
    using places(2,3) split(1,2) by (auto simp: dom)
  from commit_loop_spec [OF sums _ c(2) hashes(1)] all(1) obtain ooo' c' where
    loop: "commit_loop ?ooo ?c (bh_blockHashes h) = (ooo', c', map sum256 (take c' sent))"
    "?c \<le> c'" "c' \<le> length sent" "map_of ooo' = map_of ?ooo |` {c'..}" "{?c..<c'} \<subseteq> dom (map_of ?ooo)"
    "map_of ooo' c' = None" by blast
  define h' where "h' = h\<lparr>bh_results := rs, bh_pending := bh_pending h - 1, bh_outOfOrder := ooo',
    bh_nextCommitIndex := c', bh_blockHashes := map sum256 (take c' sent)\<rparr>"
  have proc: "processResult res (h\<lparr>bh_results := rs\<rparr>) = h'" by (simp add: processResult_def loop(1) h'_def)
  have fl': "flight h' held = fl" by (simp add: flight_def fl_def h'_def)
  have wait: "waiting h' = dom (map_of ?ooo) \<inter> {c'..}" by (simp add: waiting_def h'_def loop(4))
  have "set fl \<inter> {?c..<c'} = {}" using loop(5) all(2) by blast
  moreover have "set fl \<subseteq> {?c..<length sent}" using all(1) by blast
  ultimately have fl_ge: "set fl \<subseteq> {c'..<length sent}" by force
  have "set fl \<union> waiting h' = {c'..<length sent}"
  proof -
    have "set fl \<union> waiting h' = (set fl \<union> dom (map_of ?ooo)) \<inter> {c'..}" using fl_ge by (auto simp: wait)
    also have "\<dots> = {c'..<length sent}" using all(1) loop(2) by auto
    finally show ?thesis .
  qed
  moreover have "\<forall>i v. map_of (bh_outOfOrder h') i = Some v \<longrightarrow> v = sum256 (sent ! i)"
    using sums by (simp add: h'_def loop(4) restrict_map_def)
  moreover have "set fl \<inter> waiting h' = {}" using all(2) by (auto simp: wait)
  moreover have "bh_nextCommitIndex h' \<notin> waiting h'" using loop(6) by (auto simp: waiting_def h'_def)
  moreover have "bh_pending h' = int (length fl)" using hashes(2) split(4) by (simp add: h'_def)
  moreover have "\<forall>j \<in> set (bh_results h'). snd j = sum256 (sent ! fst j)" using data(2) by (simp add: h'_def assms(2))
  ultimately show ?thesis unfolding proc book_def fl'
    using c(1) data(1) loop(3) split(3) by (intro conjI) (simp_all add: h'_def)
qed

subsection \<open>The invariant of the whole\<close>

fun pc_input :: "wpc \<Rightarrow> bytes" where
  "pc_input (Writing p) = p"
| "pc_input (Dispatching p) = p"
| "pc_input (Draining p) = p"
| "pc_input _ = []"

text \<open>
  Besides the bookkeeping: the bytes sent, in the current block and not yet taken are the input;
  when the writer is about to send, at most \<open>3 w\<close> blocks are in flight, since the results were
  empty at the end of the last drain.
\<close>

fun pc_ok :: "nat \<Rightarrow> nat \<Rightarrow> (bytes \<Rightarrow> bytes) \<Rightarrow> bytes \<Rightarrow> hsys \<Rightarrow> wpc \<Rightarrow> bool" where
  "pc_ok w bs sum256 input x (Writing p) \<longleftrightarrow>
     (\<forall>b\<in>set (hs_sent x). length b = bs) \<and> length (bh_currentBlock (hs_h x)) < bs \<and>
     length (flight (hs_h x) (hs_held x)) \<le> 3 * w"
| "pc_ok w bs sum256 input x (Dispatching p) \<longleftrightarrow>
     (\<forall>b\<in>set (hs_sent x). length b = bs) \<and> length (bh_currentBlock (hs_h x)) = bs \<and>
     length (flight (hs_h x) (hs_held x)) \<le> 3 * w"
| "pc_ok w bs sum256 input x (Draining p) \<longleftrightarrow>
     (\<forall>b\<in>set (hs_sent x). length b = bs) \<and> bh_currentBlock (hs_h x) = []"
| "pc_ok w bs sum256 input x SumDispatching \<longleftrightarrow>
     (\<forall>b\<in>set (hs_sent x). length b = bs) \<and> bh_currentBlock (hs_h x) \<noteq> [] \<and>
     length (bh_currentBlock (hs_h x)) < bs \<and> length (flight (hs_h x) (hs_held x)) \<le> 3 * w"
| "pc_ok w bs sum256 input x Collecting \<longleftrightarrow>
     bh_currentBlock (hs_h x) = [] \<and> hs_sent x = blocks_of bs input"
| "pc_ok w bs sum256 input x (Summed r) \<longleftrightarrow>
     bh_currentBlock (hs_h x) = [] \<and> hs_sent x = blocks_of bs input \<and> r = block_sums bs sum256 input"

definition hash_inv :: "nat \<Rightarrow> nat \<Rightarrow> (bytes \<Rightarrow> bytes) \<Rightarrow> bytes \<Rightarrow> hsys \<Rightarrow> bool" where
  "hash_inv w bs sum256 input x \<longleftrightarrow> 0 < w \<and> 0 < bs \<and>
     book sum256 (hs_sent x) (hs_h x) (hs_held x) \<and>
     concat (hs_sent x) @ bh_currentBlock (hs_h x) @ pc_input (hs_pc x) = input \<and>
     length (bh_jobs (hs_h x)) \<le> queueSize w \<and> length (hs_held x) \<le> w \<and>
     pc_ok w bs sum256 input x (hs_pc x)"

definition hash_init :: "nat \<Rightarrow> nat \<Rightarrow> bytes \<Rightarrow> hsys \<Rightarrow> bool" where
  "hash_init w bs input x \<longleftrightarrow> 0 < w \<and> 0 < bs \<and> x = new_hash input"

lemma hash_init_inv: "hash_init w bs input x \<Longrightarrow> hash_inv w bs sum256 input x"
  by (auto simp: hash_init_def hash_inv_def new_hash_def NewBlockHasher_def book_def flight_def waiting_def)

lemma dispatchBlock_fields [simp]:
  "bh_currentBlock (dispatchBlock h) = []" "bh_results (dispatchBlock h) = bh_results h"
  "length (bh_jobs (dispatchBlock h)) = Suc (length (bh_jobs h))"
  by (simp_all add: dispatchBlock_def)

lemma processResult_fields [simp]:
  "bh_currentBlock (processResult res h) = bh_currentBlock h" "bh_jobs (processResult res h) = bh_jobs h"
  "bh_results (processResult res h) = bh_results h"
  by (simp_all add: processResult_def split: prod.splits)

lemma closeJobs_fields [simp]:
  "bh_currentBlock (closeJobs h) = bh_currentBlock h" "bh_jobs (closeJobs h) = bh_jobs h"
  "bh_results (closeJobs h) = bh_results h" "book sum256 sent (closeJobs h) held = book sum256 sent h held"
  by (simp_all add: closeJobs_def book_def flight_def waiting_def)

lemma book_currentBlock [simp]: "book sum256 sent (h\<lparr>bh_currentBlock := b\<rparr>) held = book sum256 sent h held"
  by (simp add: book_def flight_def waiting_def)

lemma flight_currentBlock [simp]: "flight (h\<lparr>bh_currentBlock := b\<rparr>) held = flight h held"
  by (simp add: flight_def)

lemma queueSize_pos [simp]: "0 < w \<Longrightarrow> queueSize w = 2 * w"
  by (simp add: queueSize_def)

text \<open>With everything collected, the result is the hash of the input.\<close>

lemma book_sum:
  assumes "book sum256 sent h held" "\<not> bh_pending h > 0"
  shows "bh_blockHashes h = map sum256 sent"
proof -
  have "flight h held = []" using assms(1,2) by (simp add: book_def)
  then have "waiting h = {bh_nextCommitIndex h..<length sent}" using assms(1) by (simp add: book_def)
  then have "bh_nextCommitIndex h = length sent" using assms(1) by (auto simp: book_def)
  with assms(1) show ?thesis by (simp add: book_def)
qed

lemma fill_take:
  assumes "length (bh_currentBlock h) < bs" "p \<noteq> []"
  shows "take_block bs h p = min (length p) (bs - length (bh_currentBlock h))" "0 < take_block bs h p"
  using assms by (auto simp: take_block_def Let_def)

lemma writer_step_inv:
  assumes "writer_step w bs x y" "hash_inv w bs sum256 input x"
  shows "hash_inv w bs sum256 input y"
proof -
  have w: "0 < w" "0 < bs" and bk: "book sum256 (hs_sent x) (hs_h x) (hs_held x)"
    and io: "concat (hs_sent x) @ bh_currentBlock (hs_h x) @ pc_input (hs_pc x) = input"
    and caps: "length (bh_jobs (hs_h x)) \<le> queueSize w" "length (hs_held x) \<le> w"
    and pc: "pc_ok w bs sum256 input x (hs_pc x)" using assms(2) unfolding hash_inv_def by blast+
  show ?thesis using assms(1)
  proof cases
    case (fill p n cur)
    have cb: "length (bh_currentBlock (hs_h x)) < bs" using pc fill by simp
    note n = fill_take [OF cb fill(3), folded fill(4)]
    have "length cur \<le> bs" using fill(5) n(1) cb by simp
    then show ?thesis using w bk io caps pc fill n unfolding hash_inv_def by auto
  next
    case (dispatch p)
    then show ?thesis using w book_dispatch [OF bk] io caps pc unfolding hash_inv_def by simp
  next
    case (drain p res rs)
    then show ?thesis using w book_process [OF bk drain(3)] io caps pc unfolding hash_inv_def by simp
  next
    case (drained p)
    then have "length (flight (hs_h x) (hs_held x)) \<le> 3 * w" using caps w by (simp add: flight_def)
    then show ?thesis using w bk io caps pc drained unfolding hash_inv_def by simp
  next
    case sum_partial
    then show ?thesis using w bk io caps pc unfolding hash_inv_def by simp
  next
    case sum_dispatch
    have "blocks_of bs input = hs_sent x @ [bh_currentBlock (hs_h x)]"
      using io pc sum_dispatch(2) w(2) blocks_of_full [of bs "hs_sent x" "bh_currentBlock (hs_h x)"]
      by (auto simp: blocks_of_short)
    then show ?thesis using w book_dispatch [OF bk] io caps pc sum_dispatch unfolding hash_inv_def by simp
  next
    case sum_whole
    have "blocks_of bs input = hs_sent x"
      using io pc sum_whole w(2) blocks_of_full [of bs "hs_sent x" "[]"] by auto
    then show ?thesis using w bk io caps pc sum_whole unfolding hash_inv_def by simp
  next
    case (collect res rs)
    then show ?thesis using w book_process [OF bk collect(4)] io caps pc unfolding hash_inv_def by simp
  next
    case collect_closed
    then have "flight (hs_h x) (hs_held x) = []" by (simp add: flight_def)
    with bk collect_closed(3) have False by (simp add: book_def)
    then show ?thesis ..
  next
    case collected
    then show ?thesis using w bk io caps pc book_sum [OF bk]
      unfolding hash_inv_def by (simp add: sum_result_def block_sums_def)
  qed
qed

lemma worker_step_inv:
  assumes "worker_step w sum256 x y" "hash_inv w bs sum256 input x"
  shows "hash_inv w bs sum256 input y"
proof -
  have w: "0 < w" "0 < bs" and bk: "book sum256 (hs_sent x) (hs_h x) (hs_held x)"
    and io: "concat (hs_sent x) @ bh_currentBlock (hs_h x) @ pc_input (hs_pc x) = input"
    and caps: "length (bh_jobs (hs_h x)) \<le> queueSize w" "length (hs_held x) \<le> w"
    and pc: "pc_ok w bs sum256 input x (hs_pc x)" using assms(2) unfolding hash_inv_def by blast+
  have pc_y: "pc_ok w bs sum256 input y (hs_pc x)"
    if "hs_sent y = hs_sent x" "bh_currentBlock (hs_h y) = bh_currentBlock (hs_h x)"
      "length (flight (hs_h y) (hs_held y)) = length (flight (hs_h x) (hs_held x))"
    using pc that by (cases "hs_pc x") simp_all
  show ?thesis using assms(1)
  proof cases
    case (receive j js)
    have "pc_ok w bs sum256 input y (hs_pc x)" by (rule pc_y) (simp_all add: receive flight_def)
    then show ?thesis using w book_receive [OF bk receive(2)] io caps receive unfolding hash_inv_def by simp
  next
    case (deliver us i d vs)
    have "pc_ok w bs sum256 input y (hs_pc x)" by (rule pc_y) (simp_all add: deliver flight_def)
    then show ?thesis using w book_deliver [of sum256 "hs_sent x" "hs_h x" us i d vs] bk io caps deliver
      unfolding hash_inv_def by simp
  qed
qed

subsection \<open>Progress\<close>

fun pc_weight :: "wpc \<Rightarrow> nat" where
  "pc_weight (Writing p) = 10 * length p + 9"
| "pc_weight (Dispatching p) = 10 * length p + 14"
| "pc_weight (Draining p) = 10 * length p + 10"
| "pc_weight SumDispatching = 8"
| "pc_weight Collecting = 1"
| "pc_weight (Summed r) = 0"

definition hash_rank :: "hsys \<Rightarrow> nat" where
  "hash_rank x = pc_weight (hs_pc x) + 3 * length (bh_jobs (hs_h x)) + 2 * length (hs_held x) + length (bh_results (hs_h x))"

lemma writer_step_rank:
  assumes "writer_step w bs x y" "hash_inv w bs sum256 input x"
  shows "hash_rank y < hash_rank x"
  using assms(1)
proof cases
  case (fill p n cur)
  have "length (bh_currentBlock (hs_h x)) < bs" using assms(2) fill by (simp add: hash_inv_def)
  from fill_take [OF this fill(3), folded fill(4)] have "0 < n" "n \<le> length p" by auto
  then show ?thesis using fill by (auto simp: hash_rank_def)
qed (simp_all add: hash_rank_def)

lemma worker_step_rank: "worker_step w sum256 x y \<Longrightarrow> hash_rank y < hash_rank x"
  by (auto elim!: worker_step.cases simp: hash_rank_def)

lemma workers_can_move:
  assumes "0 < w" "bh_jobs (hs_h x) \<noteq> [] \<or> hs_held x \<noteq> []" "length (bh_results (hs_h x)) < queueSize w"
  shows "\<exists>y. worker_step w sum256 x y"
proof (cases "hs_held x")
  case Nil
  with assms(2) obtain j js where "bh_jobs (hs_h x) = j # js" by (cases "bh_jobs (hs_h x)") auto
  with Nil assms(1) show ?thesis using worker_step.receive [of x j js w sum256] by auto
next
  case (Cons j vs)
  then show ?thesis using worker_step.deliver [of x "[]" "fst j" "snd j" vs w sum256] assms(3) by auto
qed

lemma full_queue_moves:
  assumes w: "0 < w" and full: "\<not> length (bh_jobs (hs_h x)) < queueSize w"
    and room: "length (flight (hs_h x) (hs_held x)) \<le> 3 * w"
  shows "\<exists>y. worker_step w sum256 x y"
proof (rule workers_can_move [OF w])
  show "bh_jobs (hs_h x) \<noteq> [] \<or> hs_held x \<noteq> []" using full w by auto
  show "length (bh_results (hs_h x)) < queueSize w" using full room w by (simp add: flight_def)
qed

lemma hash_moves:
  assumes inv: "hash_inv w bs sum256 input x" and running: "\<nexists>r. hs_pc x = Summed r"
  shows "\<exists>y. hash_step w bs sum256 x y"
proof -
  have w: "0 < w" and bk: "book sum256 (hs_sent x) (hs_h x) (hs_held x)"
    and pc: "pc_ok w bs sum256 input x (hs_pc x)" using inv unfolding hash_inv_def by blast+
  show ?thesis
  proof (cases "hs_pc x")
    case (Writing p)
    show ?thesis
    proof (cases "p = []")
      case True
      with Writing show ?thesis unfolding hash_step_def
        using writer_step.sum_partial [of x w bs] writer_step.sum_whole [of x w bs] by blast
    next
      case False
      from writer_step.fill [OF Writing False refl refl] show ?thesis unfolding hash_step_def by blast
    qed
  next
    case (Dispatching p)
    with pc have "length (flight (hs_h x) (hs_held x)) \<le> 3 * w" by simp
    with full_queue_moves [OF w] writer_step.dispatch [OF Dispatching] show ?thesis
      unfolding hash_step_def by blast
  next
    case (Draining p)
    then show ?thesis unfolding hash_step_def
      using writer_step.drain [OF Draining] writer_step.drained [OF Draining] by (cases "bh_results (hs_h x)") blast+
  next
    case SumDispatching
    with pc have "length (flight (hs_h x) (hs_held x)) \<le> 3 * w" by simp
    with full_queue_moves [OF w] writer_step.sum_dispatch [OF SumDispatching] show ?thesis
      unfolding hash_step_def by blast
  next
    case Collecting
    show ?thesis
    proof (cases "bh_pending (hs_h x) > 0 \<and> bh_results (hs_h x) = []")
      case True
      with bk have "bh_jobs (hs_h x) \<noteq> [] \<or> hs_held x \<noteq> []" by (auto simp: book_def flight_def)
      then have "\<exists>y. worker_step w sum256 x y" by (rule workers_can_move [OF w]) (use True w in simp)
      then show ?thesis unfolding hash_step_def by blast
    next
      case False
      then show ?thesis unfolding hash_step_def
        using writer_step.collect [OF Collecting] writer_step.collected [OF Collecting] by (cases "bh_results (hs_h x)") blast+
    qed
  qed (use running in blast)
qed

lemma hash_step_rank:
  "hash_step w bs sum256 x y \<Longrightarrow> hash_inv w bs sum256 input x \<Longrightarrow> hash_rank y < hash_rank x"
  using writer_step_rank worker_step_rank unfolding hash_step_def by blast

interpretation hasher: step_progress "hash_init w bs input" "hash_step w bs sum256" "hash_inv w bs sum256 input"
    "\<lambda>x. \<exists>r. hs_pc x = Summed r" hash_rank "\<lambda>_. True"
  for w bs input sum256
proof unfold_locales
  fix x y
  show "hash_init w bs input x \<Longrightarrow> hash_inv w bs sum256 input x" by (rule hash_init_inv)
  show "hash_inv w bs sum256 input x \<Longrightarrow> hash_step w bs sum256 x y \<Longrightarrow> hash_inv w bs sum256 input y"
    using writer_step_inv worker_step_inv unfolding hash_step_def by blast
  show "hash_inv w bs sum256 input x \<Longrightarrow> True \<Longrightarrow> \<not> (\<exists>r. hs_pc x = Summed r) \<Longrightarrow>
      \<exists>y. hash_step w bs sum256 x y \<and> True \<and> hash_rank y < hash_rank x"
    using hash_moves hash_step_rank by blast
qed

subsection \<open>Properties\<close>

text \<open>C8: The hash does not depend on the schedule: under every interleaving of the writer and any
  number of workers, when \<open>Sum\<close> returns, its result is the concatenation of the sums of the
  blocks of the input in order, however the workers' results arrive.\<close>

theorem hash_schedule_independent:
  assumes "0 < w" "0 < bs"
    and "reachable (\<lambda>x. x = new_hash input) (hash_step w bs sum256) x" "hs_pc x = Summed r"
  shows "r = block_sums bs sum256 input"
proof -
  have "reachable (hash_init w bs input) (hash_step w bs sum256) x"
    using assms(3) by (induction rule: reachable.induct) (auto intro: reachable.intros simp: hash_init_def assms(1,2))
  then have "hash_inv w bs sum256 input x" by (rule hasher.reachable_inv)
  with assms(4) show ?thesis by (simp add: hash_inv_def)
qed

text \<open>C24: The hasher never deadlocks and never runs forever, although its two queues are bounded and
  the writer takes results only between its sends: in every reachable state before the end some
  goroutine can move, and every step lowers a measure, so every run ends with a result.\<close>

theorem hash_no_deadlock:
  assumes "0 < w" "0 < bs" "reachable (\<lambda>x. x = new_hash input) (hash_step w bs sum256) x"
  shows "((\<exists>r. hs_pc x = Summed r) \<or> (\<exists>y. hash_step w bs sum256 x y)) \<and>
    (\<forall>y. hash_step w bs sum256 x y \<longrightarrow> hash_rank y < hash_rank x) \<and>
    (\<exists>y. (hash_step w bs sum256)\<^sup>*\<^sup>* x y \<and> hs_pc y = Summed (block_sums bs sum256 input))"
proof -
  have "reachable (hash_init w bs input) (hash_step w bs sum256) x"
    using assms(3) by (induction rule: reachable.induct) (auto intro: reachable.intros simp: hash_init_def assms(1,2))
  then have inv: "hash_inv w bs sum256 input x" by (rule hasher.reachable_inv)
  from hasher.reaches_end [OF this TrueI] obtain y r where
    y: "(hash_step w bs sum256)\<^sup>*\<^sup>* x y" "hash_inv w bs sum256 input y" "hs_pc y = Summed r" by blast
  then have "hs_pc y = Summed (block_sums bs sum256 input)" by (simp add: hash_inv_def)
  with y(1) hash_moves [OF inv] hash_step_rank [OF _ inv] show ?thesis by blast
qed

theorem hash_no_deadlock_witness:
  "\<exists>y. (hash_step 2 3 (take 1))\<^sup>*\<^sup>* (new_hash [1, 2, 3, 4, 5]) y \<and> hs_pc y = Summed [1, 4]"
proof -
  have "reachable (\<lambda>x. x = new_hash [1, 2, 3, 4, 5]) (hash_step 2 3 (take 1)) (new_hash [1, 2, 3, 4, 5])"
    by (rule reachable.start) simp
  moreover have "block_sums 3 (take 1) [1, 2, 3, 4, 5] = [1, 4]"
    by (simp add: block_sums_def blocks_of.simps)
  ultimately show ?thesis
    using hash_no_deadlock [of 2 3 "[1, 2, 3, 4, 5]" "take 1" "new_hash [1, 2, 3, 4, 5]"] by auto
qed

theorem hash_schedule_independent_witness:
  "\<exists>x r. reachable (\<lambda>x. x = new_hash []) (hash_step 1 3 (take 1)) x \<and> hs_pc x = Summed r \<and> r = []"
proof -
  let ?x = "new_hash []" let ?y = "?x\<lparr>hs_h := closeJobs (hs_h ?x), hs_pc := Collecting\<rparr>"
  let ?z = "?y\<lparr>hs_pc := Summed (sum_result (hs_h ?y))\<rparr>"
  have "hash_step 1 3 (take 1) ?x ?y" unfolding hash_step_def
    by (intro disjI1 writer_step.sum_whole) (simp_all add: new_hash_def NewBlockHasher_def)
  moreover have "hash_step 1 3 (take 1) ?y ?z" unfolding hash_step_def
    by (intro disjI1 writer_step.collected) (simp_all add: new_hash_def NewBlockHasher_def closeJobs_def)
  ultimately have "reachable (\<lambda>x. x = new_hash []) (hash_step 1 3 (take 1)) ?z" 
    by (intro reachable.move [OF reachable.move [OF reachable.start]]) simp_all
  with hash_schedule_independent [OF _ _ this] show ?thesis by (force simp: block_sums_def)
qed

end
