(* ===== verification/Http_Range.thy ===== *)
theory Http_Range
  imports Prelude
begin

section \<open>Range headers and file categories (internal/http_range/range.go, internal/category/category.go)\<close>

text \<open>
  \<open>Parse\<close> turns a Range header into the byte ranges that the streaming handlers pass to the file
  reader. Indexing the second field of a range without a dash panics, which the model shows as
  \<open>None\<close>. The second part is the classification of file names by extension.
\<close>

subsection \<open>Decimal numbers\<close>

text \<open>\<^verbatim>\<open>strconv.ParseInt(s, 10, 64)\<close>: an optional sign and digits, within the range of int64; the
  code uses the value only when there is no error.\<close>

definition parse_uint :: "string \<Rightarrow> nat option" where
  "parse_uint s = (if s = [] then None else digits_val 0 s)"

definition in_int64 :: "int \<Rightarrow> int option" where
  "in_int64 i = (if - (2 ^ 63) \<le> i \<and> i < 2 ^ 63 then Some i else None)"

definition ParseInt :: "string \<Rightarrow> int option" where
  "ParseInt s =
     (case s of
        [] \<Rightarrow> None
      | c # cs \<Rightarrow>
          if c = CHR ''-'' then Option.bind (parse_uint cs) (\<lambda>n. in_int64 (- int n))
          else if c = CHR ''+'' then Option.bind (parse_uint cs) (\<lambda>n. in_int64 (int n))
          else Option.bind (parse_uint s) (\<lambda>n. in_int64 (int n)))"

lemma nat_digits_not_Nil [simp]: "nat_digits n \<noteq> []"
  by (subst nat_digits.simps) simp

lemma digit_not_special:
  "digit_of c \<noteq> None \<Longrightarrow> c \<noteq> CHR ''-'' \<and> c \<noteq> CHR ''+'' \<and> c \<noteq> CHR '','' \<and> c \<noteq> CHR ''=''"
  by (auto simp: digit_of_def Let_def)

lemma nat_digits_no_special:
  "CHR ''-'' \<notin> set (nat_digits n)" "CHR ''+'' \<notin> set (nat_digits n)" "CHR '','' \<notin> set (nat_digits n)"
  using nat_digits_digits digit_not_special by blast+

lemma ParseInt_nat_digits: "int n < 2 ^ 63 \<Longrightarrow> ParseInt (nat_digits n) = Some (int n)"
proof -
  assume n: "int n < 2 ^ 63"
  obtain c cs where cs: "nat_digits n = c # cs" by (cases "nat_digits n") auto
  then have "c \<noteq> CHR ''-''" "c \<noteq> CHR ''+''" using nat_digits_no_special [of n] by auto
  with cs n digits_val_nat_digits [of n] show ?thesis
    by (simp add: ParseInt_def parse_uint_def in_int64_def)
qed

lemma ParseInt_itoa: "0 \<le> i \<Longrightarrow> i < 2 ^ 63 \<Longrightarrow> ParseInt (itoa i) = Some i"
  using ParseInt_nat_digits [of "nat i"] by (simp add: itoa_def)

subsection \<open>Parse\<close>

record http_range =
  hr_Start :: int
  hr_End :: int

text \<open>
  The range of a specification with the two numbers as parsed, clipped to the size; an empty list
  if it is skipped.
\<close>

definition clip_range :: "int \<Rightarrow> int option \<Rightarrow> int option \<Rightarrow> http_range list" where
  "clip_range sz start end =
     (if start = None \<and> end = None then []
      else
        let s = (case start of None \<Rightarrow> i64 (sz - the end) | Some s \<Rightarrow> s);
            e = (if start = None \<or> end = None then i64 (sz - 1) else the end);
            e' = (if e \<ge> sz then i64 (sz - 1) else e)
        in if s > e' \<or> s < 0 then [] else [\<lparr>hr_Start = s, hr_End = e'\<rparr>])"

text \<open>One specification: \<open>None\<close> if indexing panics.\<close>

definition parse_range :: "int \<Rightarrow> string \<Rightarrow> http_range list option" where
  "parse_range sz spec =
     (let r = split_on CHR ''-'' spec in
      Option.bind (index_at r 0) (\<lambda>r0. Option.bind (index_at r 1) (\<lambda>r1.
        Some (clip_range sz (ParseInt r0) (ParseInt r1)))))"

definition Parse :: "string \<Rightarrow> int \<Rightarrow> (go_error + http_range list) option" where
  "Parse header sz =
     (if CHR ''='' \<notin> set header then Some (Inl ErrInvalid)
      else
        let arr = split_on CHR '','' (tl (dropWhile (\<lambda>c. c \<noteq> CHR ''='') header)) in
        map_option (\<lambda>rs. let ranges = concat rs in if ranges = [] then Inl ErrNoOverlap else Inr ranges)
          (those (map (parse_range sz) arr)))"

lemma parse_range_None: "parse_range sz spec = None \<longleftrightarrow> CHR ''-'' \<notin> set spec"
proof -
  obtain w ws where ws: "split_on CHR ''-'' spec = w # ws" by (cases "split_on CHR ''-'' spec") auto
  have "ws = [] \<longleftrightarrow> CHR ''-'' \<notin> set spec"
  proof
    assume "ws = []"
    then have "spec = w" using split_on_join [of "CHR ''-''" spec] ws by simp
    with ws show "CHR ''-'' \<notin> set spec" using split_on_no_sep [of w "CHR ''-''" spec] by simp
  next
    assume "CHR ''-'' \<notin> set spec"
    with ws show "ws = []" by (simp add: split_on_id)
  qed
  with ws show ?thesis by (cases ws) (auto simp: parse_range_def index_at_def Let_def)
qed

lemma clip_range_bounds:
  "rg \<in> set (clip_range sz start end) \<Longrightarrow> 0 \<le> sz \<Longrightarrow> sz < 2 ^ 63 \<Longrightarrow>
     0 \<le> hr_Start rg \<and> hr_Start rg \<le> hr_End rg \<and> hr_End rg < sz"
  by (auto simp: clip_range_def Let_def split: if_splits)

lemma parse_range_pair:
  assumes "CHR ''-'' \<notin> set a" "CHR ''-'' \<notin> set b"
  shows "parse_range sz (a @ ''-'' @ b) = Some (clip_range sz (ParseInt a) (ParseInt b))"
proof -
  have "split_on CHR ''-'' (a @ ''-'' @ b) = [a, b]"
    using assms by (simp add: split_on_append split_on_id)
  then show ?thesis by (simp add: parse_range_def Let_def index_at_def)
qed

lemma those_eq_Some: "those xs = Some ys \<longleftrightarrow> xs = map Some ys"
proof (induction xs arbitrary: ys)
  case (Cons x xs)
  then show ?case by (cases x; cases ys) auto
qed auto

lemma Parse_pieces:
  assumes "CHR ''='' \<in> set header"
  shows "Parse header sz = map_option (\<lambda>rs. if concat rs = [] then Inl ErrNoOverlap else Inr (concat rs))
    (those (map (parse_range sz) (split_on CHR '','' (tl (dropWhile (\<lambda>c. c \<noteq> CHR ''='') header)))))"
  using assms by (simp add: Parse_def Let_def)

lemma Parse_single:
  assumes "CHR '','' \<notin> set spec" "parse_range sz spec = Some rs"
  shows "Parse (''bytes='' @ spec) sz = Some (if rs = [] then Inl ErrNoOverlap else Inr rs)"
  using assms by (subst Parse_pieces) (simp_all add: split_on_id)

subsection \<open>File categories\<close>

datatype category = Document | Image | Video | Audio | Archive | Other

definition documentExtensions :: "string list" where
  "documentExtensions = [''doc'', ''docx'', ''ppt'', ''pptx'', ''pps'', ''ppsx'', ''odt'', ''xls'', ''xlsx'', ''csv'', ''pdf'', ''txt'']"

definition imageExtensions :: "string list" where
  "imageExtensions = [''jpg'', ''jpeg'', ''png'', ''gif'', ''bmp'', ''svg'', ''webp'', ''heif'', ''heic'']"

definition videoExtensions :: "string list" where
  "videoExtensions = [''mp4'', ''webm'', ''mov'', ''avi'', ''m4v'', ''flv'', ''wmv'', ''mkv'', ''mpg'', ''mpeg'', ''m2v'', ''mpv'']"

definition audioExtensions :: "string list" where
  "audioExtensions = [''mp3'', ''wav'', ''ogg'', ''m4a'', ''flac'', ''aac'', ''wma'', ''aiff'', ''ape'', ''alac'', ''opus'', ''pcm'']"

definition archiveExtensions :: "string list" where
  "archiveExtensions = [''zip'', ''rar'', ''tar'', ''gz'', ''7z'', ''iso'', ''dmg'', ''pkg'', ''xz'', ''tgz'']"

text \<open>\<^verbatim>\<open>filepath.Ext\<close>: from the last dot on, if there is one in the last path element.\<close>

definition filepath_Ext :: "string \<Rightarrow> string" where
  "filepath_Ext path =
     (let base = takeWhile (\<lambda>c. c \<noteq> CHR ''/'') (rev path) in
      if CHR ''.'' \<in> set base then CHR ''.'' # rev (takeWhile (\<lambda>c. c \<noteq> CHR ''.'') base) else [])"

fun category_contains :: "string list \<Rightarrow> string \<Rightarrow> bool" where
  "category_contains [] item = False"
| "category_contains (a # exts) item = (if a = item then True else category_contains exts item)"

definition ext_category :: "string \<Rightarrow> category" where
  "ext_category fileExtension =
     (if category_contains documentExtensions fileExtension then Document
      else if category_contains imageExtensions fileExtension then Image
      else if category_contains videoExtensions fileExtension then Video
      else if category_contains audioExtensions fileExtension then Audio
      else if category_contains archiveExtensions fileExtension then Archive
      else Other)"

definition GetCategory :: "string \<Rightarrow> category" where
  "GetCategory fileName =
     (let fileExtension = filepath_Ext fileName
      in ext_category (if fileExtension \<noteq> [] then to_lower (tl fileExtension) else fileExtension))"

lemma category_contains_iff: "category_contains exts item \<longleftrightarrow> item \<in> set exts"
  by (induction exts) auto

lemma takeWhile_neq_append: "c \<notin> set xs \<Longrightarrow> takeWhile (\<lambda>x. x \<noteq> c) (xs @ c # ys) = xs"
  by (induction xs) auto

lemma filepath_Ext_dot:
  assumes "CHR ''.'' \<notin> set ext" "CHR ''/'' \<notin> set ext"
  shows "filepath_Ext (base @ ''.'' @ ext) = CHR ''.'' # ext"
proof -
  define tl where "tl = takeWhile (\<lambda>c. c \<noteq> CHR ''/'') (rev base)"
  have "takeWhile (\<lambda>c. c \<noteq> CHR ''/'') (rev ext @ CHR ''.'' # rev base) = rev ext @ CHR ''.'' # tl"
    using assms(2) by (induction ext rule: rev_induct) (auto simp: tl_def)
  then show ?thesis using assms(1) takeWhile_neq_append [of "CHR ''.''" "rev ext" tl]
    by (simp add: filepath_Ext_def Let_def)
qed

lemma filepath_Ext_none: "CHR ''.'' \<notin> set path \<Longrightarrow> filepath_Ext path = []"
  by (auto simp: filepath_Ext_def Let_def dest: set_takeWhileD)

lemma Parse_inside:
  assumes "Parse header sz = Some (Inr ranges)" "0 \<le> sz" "sz < 2 ^ 63" "rg \<in> set ranges"
  shows "0 \<le> hr_Start rg \<and> hr_Start rg \<le> hr_End rg \<and> hr_End rg < sz"
proof -
  obtain arr rs where "map (parse_range sz) arr = map Some rs" "ranges = concat rs"
    using assms(1) by (auto simp: Parse_def Let_def those_eq_Some split: if_splits)
  moreover from this assms(4) obtain l where l: "l \<in> set rs" "rg \<in> set l" by auto
  ultimately have "Some l \<in> set (map (parse_range sz) arr)" by simp
  then obtain spec where "parse_range sz spec = Some l" by auto
  then obtain a b where "l = clip_range sz a b" by (auto simp: parse_range_def Let_def bind_eq_Some_conv)
  with l(2) clip_range_bounds assms(2,3) show ?thesis by blast
qed

subsection \<open>Properties\<close>

text \<open>C40: Every range that \<open>Parse\<close> returns lies inside the file: it starts at or after zero, is not
  empty and ends before the size, whatever the header says.\<close>

theorem parsed_ranges_inside:
  assumes "Parse header sz = Some (Inr ranges)" "0 \<le> sz" "sz < 2 ^ 63" "rg \<in> set ranges"
  shows "0 \<le> hr_Start rg \<and> hr_Start rg \<le> hr_End rg \<and> hr_End rg < sz"
  using assms by (rule Parse_inside)

theorem parsed_ranges_inside_witness:
  "Parse ''bytes=5-999'' 10 = Some (Inr [\<lparr>hr_Start = 5, hr_End = 9\<rparr>]) \<and>
   hr_End \<lparr>hr_Start = 5, hr_End = 9\<rparr> < (10 :: int)"
proof -
  have p: "Parse ''bytes=5-999'' 10 = Some (Inr [\<lparr>hr_Start = 5, hr_End = 9\<rparr>])" by code_simp
  from parsed_ranges_inside [OF p, of "\<lparr>hr_Start = 5, hr_End = 9\<rparr>"] p show ?thesis by simp
qed

text \<open>
  The three forms of a range mean what RFC 9110 says: \<open>a-b\<close> gives the bytes from \<open>a\<close> to \<open>b\<close> or to
  the end, \<open>a-\<close> those from \<open>a\<close> on, and \<open>-n\<close> the last \<open>n\<close>; a range with nothing in the file is
  \<open>ErrNoOverlap\<close>.\<close>

lemma range_forms:
  assumes "0 < sz" "sz < 2 ^ 63" "0 \<le> a" "a < sz" "a \<le> b" "b < 2 ^ 63" "0 < n" "n \<le> sz" "sz \<le> c" "c < 2 ^ 63"
  shows "Parse (''bytes='' @ itoa a @ ''-'' @ itoa b) sz = Some (Inr [\<lparr>hr_Start = a, hr_End = min b (sz - 1)\<rparr>]) \<and>
    Parse (''bytes='' @ itoa a @ ''-'') sz = Some (Inr [\<lparr>hr_Start = a, hr_End = sz - 1\<rparr>]) \<and>
    Parse (''bytes=-'' @ itoa n) sz = Some (Inr [\<lparr>hr_Start = sz - n, hr_End = sz - 1\<rparr>]) \<and>
    Parse (''bytes='' @ itoa c @ ''-'') sz = Some (Inl ErrNoOverlap)"
proof -
  have nums: "CHR ''-'' \<notin> set (itoa i)" "CHR '','' \<notin> set (itoa i)" "i < 2 ^ 63 \<Longrightarrow> ParseInt (itoa i) = Some i"
    if "0 \<le> i" for i using that nat_digits_no_special ParseInt_itoa by (simp_all add: itoa_def)
  have empty: "ParseInt [] = None" by (simp add: ParseInt_def)
  have ab: "parse_range sz (itoa a @ ''-'' @ itoa b) = Some [\<lparr>hr_Start = a, hr_End = min b (sz - 1)\<rparr>]"
    using assms nums by (subst parse_range_pair) (auto simp: clip_range_def Let_def)
  have a: "parse_range sz (itoa a @ ''-'' @ []) = Some [\<lparr>hr_Start = a, hr_End = sz - 1\<rparr>]"
    using assms nums empty by (subst parse_range_pair) (auto simp: clip_range_def Let_def)
  have n: "parse_range sz ([] @ ''-'' @ itoa n) = Some [\<lparr>hr_Start = sz - n, hr_End = sz - 1\<rparr>]"
    using assms nums empty by (subst parse_range_pair) (auto simp: clip_range_def Let_def)
  have c: "parse_range sz (itoa c @ ''-'' @ []) = Some []"
    using assms nums empty by (subst parse_range_pair) (auto simp: clip_range_def Let_def)
  show ?thesis using assms nums Parse_single [OF _ ab] Parse_single [OF _ a] Parse_single [OF _ n] Parse_single [OF _ c]
    by simp
qed

lemma range_forms_witness:
  "Parse (''bytes='' @ itoa 2 @ ''-'' @ itoa 50) 10 = Some (Inr [\<lparr>hr_Start = 2, hr_End = 9\<rparr>]) \<and>
   Parse (''bytes=-'' @ itoa 3) 10 = Some (Inr [\<lparr>hr_Start = 7, hr_End = 9\<rparr>])"
  using range_forms [of 10 2 50 3 10] by simp

text \<open>
  \<open>Parse\<close> panics exactly on a header whose list contains a specification without a dash, such
  as \<open>bytes=5\<close>: indexing the second field is out of range.\<close>

lemma parse_panics_iff:
  "Parse header sz = None \<longleftrightarrow> CHR ''='' \<in> set header \<and>
     (\<exists>spec \<in> set (split_on CHR '','' (tl (dropWhile (\<lambda>c. c \<noteq> CHR ''='') header))). CHR ''-'' \<notin> set spec)"
proof -
  have none: "those xs = None \<longleftrightarrow> None \<in> set xs" for xs :: "http_range list option list"
    by (induction xs) (auto split: option.splits)
  have "None \<in> set (map (parse_range sz) arr) \<longleftrightarrow> (\<exists>spec \<in> set arr. CHR ''-'' \<notin> set spec)" for arr
    unfolding parse_range_None [symmetric, of _ sz] by (simp add: image_iff eq_commute [of None])
  then show ?thesis
    by (cases "CHR ''='' \<in> set header") (simp_all add: Parse_pieces none, simp add: Parse_def)
qed

lemma parse_panics_iff_witness: "Parse ''bytes=5'' 10 = None"
proof -
  have "split_on CHR '','' (tl (dropWhile (\<lambda>c. c \<noteq> CHR ''='') ''bytes=5'')) = [''5'']" by code_simp
  then show ?thesis using parse_panics_iff [of "''bytes=5''" 10] by simp
qed

text \<open>The category of a file depends only on the letters after the last dot of its name, upper or
  lower case, and a name without a dot is \<open>Other\<close>; no extension is listed under two categories,
  so the order of the tests does not matter.\<close>

lemma category_by_extension:
  assumes "CHR ''.'' \<notin> set ext" "CHR ''/'' \<notin> set ext" "CHR ''.'' \<notin> set plain"
  shows "GetCategory (base @ ''.'' @ ext) = ext_category (to_lower ext) \<and> GetCategory plain = Other \<and>
    distinct (documentExtensions @ imageExtensions @ videoExtensions @ audioExtensions @ archiveExtensions)"
proof -
  have "distinct (documentExtensions @ imageExtensions @ videoExtensions @ audioExtensions @ archiveExtensions)" by code_simp
  moreover have "ext_category [] = Other" by code_simp
  ultimately show ?thesis using filepath_Ext_dot [OF assms(1,2), of base] filepath_Ext_none [OF assms(3)]
    by (simp add: GetCategory_def Let_def)
qed

theorem category_by_extension_witness: "GetCategory ''a.b/clip.MKV'' = Video \<and> GetCategory ''README'' = Other"
proof -
  have "ext_category (to_lower ''MKV'') = Video" by code_simp
  with category_by_extension [of "''MKV''" "''README''" "''a.b/clip''"] show ?thesis by simp
qed

end
