(* ===== verification/Client_Pool.thy ===== *)
theory Client_Pool
  imports Transition "HOL-Library.AList"
begin

section \<open>The client pool and the bot selectors (internal/tgc/client_pool.go, bot_selector.go)\<close>

text \<open>
  The pool keeps one background Telegram client per user session and per bot of a user. Streams
  acquire a connection of a client and release it; idle clients are stopped; a circuit breaker
  takes a bot out for a while after repeated failures.

  The maps of the pool are association lists; a \<^verbatim>\<open>*PooledClient\<close> is identified with the entry
  of its key, which is the same object within one call. Each exported operation is one step: its
  wait for another goroutine that creates the same client does not return here (\<open>None\<close>). Times
  are in nanoseconds. What happens outside, while a client starts, is the record \<open>start_env\<close>.
\<close>

datatype strategy = RoundRobin | LeastConnections

record circuit =
  cb_consecutiveFailures :: int
  cb_totalFailures :: int
  cb_totalSuccesses :: int
  cb_circuitTrips :: int
  cb_circuitSkips :: int
  cb_openUntil :: int

record 'c pooled =
  pc_Connections :: int
  pc_LastUsed :: int
  pc_Key :: string
  pc_hasStop :: bool
  pc_Creating :: bool
  pc_IsReady :: bool
  pc_TgClient :: "'c option"

record 'c pool =
  cp_clients :: "(string \<times> 'c pooled) list"
  cp_botCircuit :: "(string \<times> circuit) list"
  cp_idleTimeout :: int
  cp_totalConns :: int
  cp_strategy :: strategy
  cp_currentIdx :: "(string \<times> nat) list"
  cp_failures :: int
  cp_cooldown :: int

text \<open>The configuration: idle timeout, routing strategy, circuit threshold and cooldown.\<close>

record pool_cnf =
  cn_PoolIdleTimeout :: int
  cn_PoolRoutingStrategy :: string
  cn_BotCircuitFailures :: int
  cn_BotCircuitCooldown :: int

definition minute :: int where "minute = 60 * 10 ^ 9"

definition NewClientPool :: "pool_cnf option \<Rightarrow> 'c pool" where
  "NewClientPool cnf =
     \<lparr>cp_clients = [], cp_botCircuit = [],
      cp_idleTimeout = (case cnf of None \<Rightarrow> 30 * minute
        | Some c \<Rightarrow> if cn_PoolIdleTimeout c > 0 then cn_PoolIdleTimeout c else 30 * minute),
      cp_totalConns = 0,
      cp_strategy = (case cnf of None \<Rightarrow> LeastConnections
        | Some c \<Rightarrow> if cn_PoolRoutingStrategy c = ''round_robin'' then RoundRobin else LeastConnections),
      cp_currentIdx = [],
      cp_failures = (case cnf of None \<Rightarrow> 0 | Some c \<Rightarrow> cn_BotCircuitFailures c),
      cp_cooldown = (case cnf of None \<Rightarrow> 0 | Some c \<Rightarrow> cn_BotCircuitCooldown c)\<rparr>"

definition isBotClientKey :: "string \<Rightarrow> bool" where
  "isBotClientKey key = str_contains key '':bot:''"

subsection \<open>The circuit breaker\<close>

definition new_circuit :: circuit where
  "new_circuit = \<lparr>cb_consecutiveFailures = 0, cb_totalFailures = 0, cb_totalSuccesses = 0, cb_circuitTrips = 0,
     cb_circuitSkips = 0, cb_openUntil = 0\<rparr>"

definition getBotCircuitState :: "'c pool \<Rightarrow> string \<Rightarrow> circuit" where
  "getBotCircuitState p key = (case map_of (cp_botCircuit p) key of None \<Rightarrow> new_circuit | Some s \<Rightarrow> s)"

definition set_circuit :: "string \<Rightarrow> circuit \<Rightarrow> 'c pool \<Rightarrow> 'c pool" where
  "set_circuit key s p = p\<lparr>cp_botCircuit := AList.update key s (cp_botCircuit p)\<rparr>"

definition circuit_available :: "int \<Rightarrow> circuit \<Rightarrow> circuit \<times> bool" where
  "circuit_available now s =
     (if cb_openUntil s = 0 then (s, True)
      else if now \<ge> cb_openUntil s then (s\<lparr>cb_openUntil := 0, cb_consecutiveFailures := 0\<rparr>, True)
      else (s\<lparr>cb_circuitSkips := cb_circuitSkips s + 1\<rparr>, False))"

definition isBotClientAvailable :: "string \<Rightarrow> int \<Rightarrow> 'c pool \<Rightarrow> 'c pool \<times> bool" where
  "isBotClientAvailable key now p =
     (if \<not> isBotClientKey key then (p, True)
      else case circuit_available now (getBotCircuitState p key) of (s, ok) \<Rightarrow> (set_circuit key s p, ok))"

definition circuit_success :: "int \<Rightarrow> circuit \<Rightarrow> circuit" where
  "circuit_success now s =
     (let s = s\<lparr>cb_totalSuccesses := cb_totalSuccesses s + 1\<rparr> in
      if cb_openUntil s = 0 then s\<lparr>cb_consecutiveFailures := 0\<rparr>
      else if now < cb_openUntil s then s
      else s\<lparr>cb_openUntil := 0, cb_consecutiveFailures := 0\<rparr>)"

definition RecordBotSuccess :: "int \<Rightarrow> string \<Rightarrow> 'c pool \<Rightarrow> 'c pool" where
  "RecordBotSuccess now key p =
     (if \<not> isBotClientKey key then p else set_circuit key (circuit_success now (getBotCircuitState p key)) p)"

definition botCircuitFailureThreshold :: "'c pool \<Rightarrow> int" where
  "botCircuitFailureThreshold p = (if cp_failures p > 0 then cp_failures p else 3)"

definition botCircuitCooldown :: "'c pool \<Rightarrow> int" where
  "botCircuitCooldown p = (if cp_cooldown p > 0 then cp_cooldown p else 30 * 10 ^ 9)"

definition circuit_failure :: "int \<Rightarrow> int \<Rightarrow> int \<Rightarrow> circuit \<Rightarrow> circuit" where
  "circuit_failure threshold cooldown now s =
     (let s = s\<lparr>cb_totalFailures := cb_totalFailures s + 1, cb_consecutiveFailures := cb_consecutiveFailures s + 1\<rparr> in
      if cb_consecutiveFailures s < threshold then s
      else s\<lparr>cb_openUntil := now + cooldown, cb_consecutiveFailures := 0, cb_circuitTrips := cb_circuitTrips s + 1\<rparr>)"

definition RecordBotFailure :: "int \<Rightarrow> string \<Rightarrow> go_error \<Rightarrow> 'c pool \<Rightarrow> 'c pool" where
  "RecordBotFailure now key err p =
     (if \<not> isBotClientKey key \<or> errors_Is err CtxCanceled then p
      else set_circuit key
        (circuit_failure (botCircuitFailureThreshold p) (botCircuitCooldown p) now (getBotCircuitState p key)) p)"

text \<open>\<open>redactBotClientKey\<close> for the log: what follows the bot id is replaced.\<close>

fun cut_at :: "string \<Rightarrow> string \<Rightarrow> (string \<times> string) option" where
  "cut_at sep [] = (if sep = [] then Some ([], []) else None)"
| "cut_at sep (c # s) =
     (if take (length sep) (c # s) = sep then Some ([], drop (length sep) (c # s))
      else map_option (map_prod ((#) c) id) (cut_at sep s))"

definition redactBotClientKey :: "string \<Rightarrow> string" where
  "redactBotClientKey key =
     (if \<not> isBotClientKey key then key
      else case cut_at '':bot:'' key of
             None \<Rightarrow> key
           | Some (prefix, token) \<Rightarrow> prefix @ '':bot:'' @ hd (split_on CHR '':'' token) @ '':***'')"

subsection \<open>Routing\<close>

definition conns :: "'c pool \<Rightarrow> string \<Rightarrow> int" where
  "conns p key = (case map_of (cp_clients p) key of None \<Rightarrow> 0 | Some pc \<Rightarrow> pc_Connections pc)"

fun least :: "(string \<Rightarrow> int) \<Rightarrow> string \<Rightarrow> int \<Rightarrow> string list \<Rightarrow> string" where
  "least f selected minConns [] = selected"
| "least f selected minConns (c # cs) =
     (if f c < minConns then least f c (f c) cs else least f selected minConns cs)"

definition rr_key :: "string list \<Rightarrow> string" where
  "rr_key clients = ''rr:'' @ itoa (int (length clients))"

definition selectClient :: "'c pool \<Rightarrow> string list \<Rightarrow> ('c pool \<times> string option) option" where
  "selectClient p clients =
     (case clients of
        [] \<Rightarrow> Some (p, None)
      | c # cs \<Rightarrow>
          (case cp_strategy p of
             RoundRobin \<Rightarrow>
               let key = rr_key clients;
                   idx = (case map_of (cp_currentIdx p) key of None \<Rightarrow> 0 | Some i \<Rightarrow> i);
                   p' = p\<lparr>cp_currentIdx := AList.update key ((idx + 1) mod length clients) (cp_currentIdx p)\<rparr>
               in map_option (\<lambda>sel. (p', Some sel)) (index_at clients (int idx))
           | LeastConnections \<Rightarrow> Some (p, Some (least (conns p) c (conns p c) cs))))"

subsection \<open>Connections\<close>

definition Acquire :: "int \<Rightarrow> string \<Rightarrow> 'c pool \<Rightarrow> 'c pool" where
  "Acquire now key p =
     (case map_of (cp_clients p) key of
        None \<Rightarrow> p
      | Some pc \<Rightarrow> p\<lparr>cp_clients := AList.update key (pc\<lparr>pc_Connections := pc_Connections pc + 1, pc_LastUsed := now\<rparr>) (cp_clients p),
                     cp_totalConns := cp_totalConns p + 1\<rparr>)"

definition Release :: "int \<Rightarrow> string \<Rightarrow> 'c pool \<Rightarrow> 'c pool" where
  "Release now key p =
     (case map_of (cp_clients p) key of
        None \<Rightarrow> p
      | Some pc \<Rightarrow> p\<lparr>cp_clients := AList.update key (pc\<lparr>pc_Connections := pc_Connections pc - 1, pc_LastUsed := now\<rparr>) (cp_clients p),
                     cp_totalConns := cp_totalConns p - 1\<rparr>)"

definition new_pooled :: "int \<Rightarrow> string \<Rightarrow> 'c pooled" where
  "new_pooled now key = \<lparr>pc_Connections = 0, pc_LastUsed = now, pc_Key = key, pc_hasStop = False, pc_Creating = False,
     pc_IsReady = False, pc_TgClient = None\<rparr>"

definition LoadOrStore :: "int \<Rightarrow> string \<Rightarrow> 'c pool \<Rightarrow> 'c pool" where
  "LoadOrStore now key p =
     (case map_of (cp_clients p) key of
        Some _ \<Rightarrow> p
      | None \<Rightarrow> p\<lparr>cp_clients := AList.update key (new_pooled now key) (cp_clients p)\<rparr>)"

text \<open>
  Starting a client: the result of \<^verbatim>\<open>AuthClient\<close> or \<^verbatim>\<open>BotClient\<close>, of \<^verbatim>\<open>RunBackground\<close>, what the
  select received first, and the result of \<^verbatim>\<open>Auth\<close>.
\<close>

datatype started = Ready | StartTimeout | CtxDone

record 'c start_env =
  se_client :: "go_error + 'c"
  se_run :: "go_error option"
  se_wait :: started
  se_auth :: "go_error option"

definition startClient :: "'c start_env \<Rightarrow> int \<Rightarrow> string \<Rightarrow> 'c \<Rightarrow> 'c pool \<Rightarrow> ('c pool \<times> go_error option) option" where
  "startClient env now key client p =
     (case se_run env of
        Some e \<Rightarrow> Some (p, Some (ErrWrap ''failed to start client'' e))
      | None \<Rightarrow>
          (case se_wait env of
             StartTimeout \<Rightarrow> Some (p, Some (ErrText ''timeout waiting for telegram client''))
           | CtxDone \<Rightarrow> Some (p, Some (ErrText ''client context cancelled''))
           | Ready \<Rightarrow>
               (case se_auth env of
                  Some e \<Rightarrow> Some (p, Some (ErrWrap ''auth failed'' e))
                | None \<Rightarrow>
                    Option.bind (map_of (cp_clients p) key) (\<lambda>pc.
                      let p1 = p\<lparr>cp_clients := AList.update key
                                   (pc\<lparr>pc_hasStop := True, pc_LastUsed := now, pc_IsReady := True\<rparr>) (cp_clients p)\<rparr>;
                          p2 = Acquire now key p1
                      in Option.bind (map_of (cp_clients p2) key) (\<lambda>pc2.
                           Some (p2\<lparr>cp_clients := AList.update key (pc2\<lparr>pc_TgClient := Some client\<rparr>) (cp_clients p2)\<rparr>, None))))))"

definition createClient :: "'c start_env \<Rightarrow> int \<Rightarrow> string \<Rightarrow> 'c pool \<Rightarrow> ('c pool \<times> go_error option) option" where
  "createClient env now key p =
     (case se_client env of
        Inl e \<Rightarrow> Some (p, Some e)
      | Inr client \<Rightarrow> startClient env now key client p)"

definition set_Creating :: "bool \<Rightarrow> string \<Rightarrow> 'c pool \<Rightarrow> 'c pool" where
  "set_Creating b key p =
     (case map_of (cp_clients p) key of
        None \<Rightarrow> p
      | Some pc \<Rightarrow> p\<lparr>cp_clients := AList.update key (pc\<lparr>pc_Creating := b\<rparr>) (cp_clients p)\<rparr>)"

definition client_of :: "'c pool \<Rightarrow> string \<Rightarrow> 'c option" where
  "client_of p key = (case map_of (cp_clients p) key of None \<Rightarrow> None | Some pc \<Rightarrow> pc_TgClient pc)"

text \<open>Claiming the creation, creating, and clearing the claim.\<close>

definition claimAndCreate :: "'c start_env \<Rightarrow> int \<Rightarrow> string \<Rightarrow> 'c pool \<Rightarrow> ('c pool \<times> go_error option) option" where
  "claimAndCreate env now key p =
     map_option (map_prod (set_Creating False key) id) (createClient env now key (set_Creating True key p))"

type_synonym 'c get_result = "('c pool \<times> (go_error + 'c option \<times> string)) option"

definition user_key :: "int \<Rightarrow> string" where
  "user_key userID = ''user:'' @ itoa userID"

definition GetUserClient :: "'c start_env \<Rightarrow> int \<Rightarrow> int \<Rightarrow> 'c pool \<Rightarrow> 'c get_result" where
  "GetUserClient env now userID p =
     (let key = user_key userID; p1 = LoadOrStore now key p in
      Option.bind (map_of (cp_clients p1) key) (\<lambda>pc.
        if pc_IsReady pc then Some (Acquire now key p1, Inr (pc_TgClient pc, key))
        else if pc_Creating pc then None
        else Option.bind (claimAndCreate env now key p1) (\<lambda>(p2, err).
          Some (p2, case err of Some e \<Rightarrow> Inl e | None \<Rightarrow> Inr (client_of p2 key, key)))))"

definition bot_key :: "int \<Rightarrow> string \<Rightarrow> string" where
  "bot_key userID token = ''user:'' @ itoa userID @ '':bot:'' @ token"

definition removeBotCandidate :: "string list \<Rightarrow> string \<Rightarrow> string list" where
  "removeBotCandidate candidates key = filter (\<lambda>c. c \<noteq> key) candidates"

fun available_loop :: "int \<Rightarrow> string list \<Rightarrow> 'c pool \<Rightarrow> 'c pool \<times> string list" where
  "available_loop now [] p = (p, [])"
| "available_loop now (c # cs) p =
     (case isBotClientAvailable c now p of (p1, ok) \<Rightarrow>
      case available_loop now cs p1 of (p2, rest) \<Rightarrow> (p2, if ok then c # rest else rest))"

partial_function (option) bot_loop ::
  "(string \<Rightarrow> string \<Rightarrow> 'c start_env) \<Rightarrow> int \<Rightarrow> int \<Rightarrow> string list \<Rightarrow> go_error option \<Rightarrow> 'c pool \<Rightarrow> 'c get_result" where
  "bot_loop create now userID candidates lastErr p =
     (if candidates = [] then
        Some (p, Inl (case lastErr of Some e \<Rightarrow> e | None \<Rightarrow> ErrText ''no clients available''))
      else Option.bind (selectClient p candidates) (\<lambda>(p1, sel).
        case sel of
          None \<Rightarrow> Some (p1, Inl (case lastErr of Some e \<Rightarrow> e | None \<Rightarrow> ErrText ''no clients available''))
        | Some key \<Rightarrow>
            (case map_of (cp_clients p1) key of
               None \<Rightarrow> bot_loop create now userID (removeBotCandidate candidates key) (Some (ErrText ''client disappeared'')) p1
             | Some pc \<Rightarrow>
                 if pc_IsReady pc then Some (Acquire now key p1, Inr (pc_TgClient pc, key))
                 else if pc_Creating pc then None
                 else
                   let token = trim_prefix key (bot_key userID []) in
                   Option.bind (claimAndCreate (create key token) now key p1) (\<lambda>(p2, err).
                     case err of
                       Some e \<Rightarrow> bot_loop create now userID (removeBotCandidate candidates key) (Some e) (RecordBotFailure now key e p2)
                     | None \<Rightarrow> Some (p2, Inr (client_of p2 key, key))))))"

definition GetBotClient ::
  "(string \<Rightarrow> string \<Rightarrow> 'c start_env) \<Rightarrow> int \<Rightarrow> int \<Rightarrow> string list \<Rightarrow> 'c pool \<Rightarrow> 'c get_result" where
  "GetBotClient create now userID bots p =
     (if bots = [] then Some (p, Inl (ErrText ''no bots available''))
      else
        let keys = map (bot_key userID) bots;
            p1 = fold (LoadOrStore now) keys p
        in case available_loop now keys p1 of (p2, candidates) \<Rightarrow>
             if candidates = [] then Some (p2, Inl (ErrText ''all bot clients are temporarily unavailable''))
             else bot_loop create now userID candidates None p2)"

subsection \<open>Idle clients, statistics, shutdown\<close>

definition is_idle :: "'c pool \<Rightarrow> int \<Rightarrow> 'c pooled \<Rightarrow> bool" where
  "is_idle p now pc \<longleftrightarrow> pc_Connections pc = 0 \<and> now - pc_LastUsed pc > cp_idleTimeout p"

definition idleCheck :: "int \<Rightarrow> 'c pool \<Rightarrow> 'c pool" where
  "idleCheck now p =
     (let gone = map fst (filter (\<lambda>(k, pc). is_idle p now pc) (cp_clients p))
      in p\<lparr>cp_clients := filter (\<lambda>(k, pc). k \<notin> set gone) (cp_clients p),
           cp_botCircuit := filter (\<lambda>(k, s). k \<notin> set gone) (cp_botCircuit p)\<rparr>)"

definition pool_Close :: "'c pool \<Rightarrow> 'c pool" where
  "pool_Close p =
     p\<lparr>cp_clients := [], cp_botCircuit := filter (\<lambda>(k, s). k \<notin> set (map fst (cp_clients p))) (cp_botCircuit p)\<rparr>"

definition pool_Len :: "'c pool \<Rightarrow> nat" where
  "pool_Len p = length (cp_clients p)"

definition TotalConnections :: "'c pool \<Rightarrow> int" where
  "TotalConnections p = cp_totalConns p"

record pool_stats =
  ps_TotalClients :: nat
  ps_TotalConns :: int
  ps_ClientStats :: "(string \<times> int) list"
  ps_BotFailures :: "(string \<times> int) list"
  ps_BotSuccesses :: "(string \<times> int) list"
  ps_BotCircuitTrips :: "(string \<times> int) list"
  ps_BotCircuitSkips :: "(string \<times> int) list"
  ps_BotCircuitOpen :: "(string \<times> bool) list"
  ps_Strategy :: strategy

definition pool_Stats :: "int \<Rightarrow> 'c pool \<Rightarrow> pool_stats" where
  "pool_Stats now p =
     \<lparr>ps_TotalClients = pool_Len p, ps_TotalConns = cp_totalConns p,
      ps_ClientStats = map (\<lambda>(k, pc). (pc_Key pc, pc_Connections pc)) (cp_clients p),
      ps_BotFailures = map (\<lambda>(k, s). (k, cb_totalFailures s)) (cp_botCircuit p),
      ps_BotSuccesses = map (\<lambda>(k, s). (k, cb_totalSuccesses s)) (cp_botCircuit p),
      ps_BotCircuitTrips = map (\<lambda>(k, s). (k, cb_circuitTrips s)) (cp_botCircuit p),
      ps_BotCircuitSkips = map (\<lambda>(k, s). (k, cb_circuitSkips s)) (cp_botCircuit p),
      ps_BotCircuitOpen = map (\<lambda>(k, s). (k, cb_openUntil s > now)) (cp_botCircuit p),
      ps_Strategy = cp_strategy p\<rparr>"

subsection \<open>Bot selectors\<close>

type_synonym bot_idx = "(string \<times> nat) list"

definition selectorKey :: "string \<Rightarrow> int \<Rightarrow> string" where
  "selectorKey op userID = op @ '':'' @ itoa userID"

definition memory_Next :: "string \<Rightarrow> int \<Rightarrow> string list \<Rightarrow> bot_idx \<Rightarrow> (bot_idx \<times> (go_error + string \<times> nat)) option" where
  "memory_Next op userID bots currIdx =
     (if bots = [] then Some (currIdx, Inl (ErrText ''no bots available''))
      else
        let key = selectorKey op userID;
            idx = (case map_of currIdx key of None \<Rightarrow> 0 | Some i \<Rightarrow> i)
        in map_option (\<lambda>b. (AList.update key ((idx + 1) mod length bots) currIdx, Inr (b, idx)))
             (index_at bots (int idx)))"

text \<open>The Redis selector: \<open>incr\<close> is the value that INCR returns.\<close>

definition redis_Next :: "(go_error + int) \<Rightarrow> string list \<Rightarrow> (go_error + string \<times> int) option" where
  "redis_Next incr bots =
     (if bots = [] then Some (Inl (ErrText ''no bots available''))
      else case incr of
             Inl e \<Rightarrow> Some (Inl (ErrWrap ''redis incr failed'' e))
           | Inr idx \<Rightarrow>
               let actualIdx = go_mod (i64 (idx - 1)) (int (length bots))
               in map_option (\<lambda>b. Inr (b, actualIdx)) (index_at bots actualIdx))"

subsection \<open>Invariants\<close>

text \<open>
  Well-formed pools: keys are unique and stored in their clients, the total counts the
  connections, a ready client has its Telegram client, no creation is under way between two
  operations, the round-robin index of each length is in range and no circuit has reached the
  threshold of failures without opening.
\<close>

definition pooled_ok :: "string \<Rightarrow> 'c pooled \<Rightarrow> bool" where
  "pooled_ok k pc \<longleftrightarrow> pc_Key pc = k \<and> \<not> pc_Creating pc \<and> (pc_IsReady pc \<longrightarrow> pc_TgClient pc \<noteq> None \<and> pc_hasStop pc)"

definition clients_ok :: "'c pool \<Rightarrow> bool" where
  "clients_ok p \<longleftrightarrow> distinct (map fst (cp_clients p)) \<and> (\<forall>(k, pc) \<in> set (cp_clients p). pooled_ok k pc) \<and>
     cp_totalConns p = sum_list (map (\<lambda>(k, pc). pc_Connections pc) (cp_clients p))"

definition idx_ok :: "'c pool \<Rightarrow> bool" where
  "idx_ok p \<longleftrightarrow> (\<forall>cs i. cs \<noteq> [] \<longrightarrow> map_of (cp_currentIdx p) (rr_key cs) = Some i \<longrightarrow> i < length cs)"

definition circuits_ok :: "'c pool \<Rightarrow> bool" where
  "circuits_ok p \<longleftrightarrow> (\<forall>s \<in> snd ` set (cp_botCircuit p).
     0 \<le> cb_consecutiveFailures s \<and> cb_consecutiveFailures s < botCircuitFailureThreshold p)"

definition pool_ok :: "'c pool \<Rightarrow> bool" where
  "pool_ok p \<longleftrightarrow> clients_ok p \<and> idx_ok p \<and> circuits_ok p"

lemma sum_list_update:
  fixes f :: "'v \<Rightarrow> int"
  shows "distinct (map fst al) \<Longrightarrow> sum_list (map (\<lambda>(k, v). f v) (AList.update k v al)) =
    sum_list (map (\<lambda>(k, v). f v) al) + f v - (case map_of al k of None \<Rightarrow> 0 | Some w \<Rightarrow> f w)"
proof (induction al)
  case (Cons a al)
  then show ?case by (cases a) (auto simp: map_of_eq_None_iff split: option.splits)
qed simp

lemma set_update_subset: "set (AList.update k v al) \<subseteq> insert (k, v) (set al)"
  by (induction al) auto

lemma client_update_ok:
  assumes "clients_ok p" "map_of (cp_clients p) k = Some pc" "pooled_ok k pc'"
  shows "clients_ok (p\<lparr>cp_clients := AList.update k pc' (cp_clients p),
    cp_totalConns := cp_totalConns p + (pc_Connections pc' - pc_Connections pc)\<rparr>)"
  using assms set_update_subset [of k pc' "cp_clients p"]
  by (auto simp: clients_ok_def sum_list_update distinct_update)

lemma client_update_same_ok:
  assumes "clients_ok p" "map_of (cp_clients p) k = Some pc" "pooled_ok k pc'" "pc_Connections pc' = pc_Connections pc"
  shows "clients_ok (p\<lparr>cp_clients := AList.update k pc' (cp_clients p)\<rparr>)"
  using client_update_ok [OF assms(1-3)] assms(4) by (simp add: clients_ok_def)

lemma clients_okD: "clients_ok p \<Longrightarrow> map_of (cp_clients p) k = Some pc \<Longrightarrow> pooled_ok k pc"
  by (auto simp: clients_ok_def dest!: map_of_SomeD)

lemma conns_update:
  "conns (p\<lparr>cp_clients := AList.update k pc (cp_clients p)\<rparr>) k' = (if k' = k then pc_Connections pc else conns p k')"
  by (simp add: conns_def update_conv')

lemma conns_cong [simp]:
  "conns (p\<lparr>cp_totalConns := t\<rparr>) k = conns p k" "conns (p\<lparr>cp_currentIdx := ix\<rparr>) k = conns p k"
  "conns (p\<lparr>cp_botCircuit := cs\<rparr>) k = conns p k" "conns (p\<lparr>cp_clients := al, cp_totalConns := t\<rparr>) k = conns (p\<lparr>cp_clients := al\<rparr>) k"
  by (simp_all add: conns_def)

lemma Acquire_spec:
  assumes "clients_ok p" "map_of (cp_clients p) k = Some pc"
  shows "clients_ok (Acquire now k p)" "conns (Acquire now k p) k' = conns p k' + (if k' = k then 1 else 0)"
proof -
  let ?pc = "pc\<lparr>pc_Connections := pc_Connections pc + 1, pc_LastUsed := now\<rparr>"
  have "pooled_ok k ?pc" using clients_okD [OF assms] by (simp add: pooled_ok_def)
  from client_update_ok [OF assms this] show "clients_ok (Acquire now k p)" using assms(2) by (simp add: Acquire_def)
  show "conns (Acquire now k p) k' = conns p k' + (if k' = k then 1 else 0)"
    using assms(2) by (simp add: Acquire_def conns_update) (simp add: conns_def)
qed

lemma Release_spec:
  assumes "clients_ok p" "map_of (cp_clients p) k = Some pc"
  shows "clients_ok (Release now k p)" "conns (Release now k p) k' = conns p k' - (if k' = k then 1 else 0)"
proof -
  let ?pc = "pc\<lparr>pc_Connections := pc_Connections pc - 1, pc_LastUsed := now\<rparr>"
  have "pooled_ok k ?pc" using clients_okD [OF assms] by (simp add: pooled_ok_def)
  from client_update_ok [OF assms this] show "clients_ok (Release now k p)" using assms(2) by (simp add: Release_def)
  show "conns (Release now k p) k' = conns p k' - (if k' = k then 1 else 0)"
    using assms(2) by (simp add: Release_def conns_update) (simp add: conns_def)
qed

lemma LoadOrStore_spec:
  assumes "clients_ok p"
  shows "clients_ok (LoadOrStore now k p)" "conns (LoadOrStore now k p) = conns p"
    "\<exists>pc. map_of (cp_clients (LoadOrStore now k p)) k = Some pc"
    "map_of (cp_clients p) k' = Some pc' \<Longrightarrow> map_of (cp_clients (LoadOrStore now k p)) k' = Some pc'"
proof -
  show "clients_ok (LoadOrStore now k p)"
    using assms set_update_subset [of k "new_pooled now k" "cp_clients p"]
    by (auto simp: LoadOrStore_def clients_ok_def sum_list_update distinct_update new_pooled_def pooled_ok_def split: option.splits)
  show "conns (LoadOrStore now k p) = conns p"
    by (auto simp: LoadOrStore_def fun_eq_iff conns_update new_pooled_def split: option.splits) (simp add: conns_def)
  show "\<exists>pc. map_of (cp_clients (LoadOrStore now k p)) k = Some pc"
    by (auto simp: LoadOrStore_def update_conv' split: option.splits)
  show "map_of (cp_clients p) k' = Some pc' \<Longrightarrow> map_of (cp_clients (LoadOrStore now k p)) k' = Some pc'"
    by (auto simp: LoadOrStore_def update_conv' split: option.splits)
qed

lemma update_twice: "AList.update k v (AList.update k w al) = AList.update k v al"
  by (induction al) auto

text \<open>The entry of a client that has just been started, and the pool with it.\<close>

definition pc_started :: "int \<Rightarrow> 'c \<Rightarrow> 'c pooled \<Rightarrow> 'c pooled" where
  "pc_started now client pc =
     pc\<lparr>pc_hasStop := True, pc_IsReady := True, pc_Connections := pc_Connections pc + 1, pc_LastUsed := now,
        pc_TgClient := Some client\<rparr>"

definition with_client :: "string \<Rightarrow> 'c pooled \<Rightarrow> int \<Rightarrow> 'c pool \<Rightarrow> 'c pool" where
  "with_client k pc n p = p\<lparr>cp_totalConns := cp_totalConns p + n, cp_clients := AList.update k pc (cp_clients p)\<rparr>"

lemma with_client_twice: "with_client k pc n (with_client k pc' m p) = with_client k pc (m + n) p"
  by (simp add: with_client_def update_twice)

lemma with_client_map [simp]: "map_of (cp_clients (with_client k pc n p)) k = Some pc"
  by (simp add: with_client_def update_conv')

lemma set_Creating_with: "map_of (cp_clients p) k = Some pc \<Longrightarrow> set_Creating b k p = with_client k (pc\<lparr>pc_Creating := b\<rparr>) 0 p"
  by (simp add: set_Creating_def with_client_def)

lemma createClient_cases:
  assumes "map_of (cp_clients p) k = Some pc"
  shows "(\<exists>e. createClient env now k p = Some (p, Some e)) \<or>
    (\<exists>client. createClient env now k p = Some (with_client k (pc_started now client pc) 1 p, None))"
proof (cases "se_client env")
  case (Inr client)
  show ?thesis
  proof (cases "se_run env = None \<and> se_wait env = Ready \<and> se_auth env = None")
    case True
    then have "createClient env now k p = Some (with_client k (pc_started now client pc) 1 p, None)"
      using assms Inr
      by (simp add: createClient_def startClient_def Acquire_def update_conv' update_twice Let_def with_client_def pc_started_def)
    then show ?thesis by blast
  next
    case False
    with Inr show ?thesis
      by (auto simp: createClient_def startClient_def split: option.splits started.splits)
  qed
qed (simp add: createClient_def)

lemma claimAndCreate_cases:
  assumes "map_of (cp_clients p) k = Some pc"
  shows "(\<exists>e. claimAndCreate env now k p = Some (with_client k (pc\<lparr>pc_Creating := False\<rparr>) 0 p, Some e)) \<or>
    (\<exists>client. claimAndCreate env now k p =
       Some (with_client k ((pc_started now client (pc\<lparr>pc_Creating := True\<rparr>))\<lparr>pc_Creating := False\<rparr>) 1 p, None))"
  using createClient_cases [of "set_Creating True k p" k "pc\<lparr>pc_Creating := True\<rparr>" env now] assms
  by (auto simp: claimAndCreate_def set_Creating_with with_client_twice)

definition same_rest :: "'c pool \<Rightarrow> 'c pool \<Rightarrow> bool" where
  "same_rest p q \<longleftrightarrow> cp_botCircuit q = cp_botCircuit p \<and> cp_currentIdx q = cp_currentIdx p \<and> cp_strategy q = cp_strategy p \<and>
     cp_failures q = cp_failures p \<and> cp_cooldown q = cp_cooldown p"

lemma same_rest_ok: "same_rest p q \<Longrightarrow> idx_ok q = idx_ok p \<and> circuits_ok q = circuits_ok p"
  by (simp add: same_rest_def idx_ok_def circuits_ok_def botCircuitFailureThreshold_def)

lemma same_rest_ops [simp]: "same_rest p p" "same_rest p (Acquire now k p)" "same_rest p (Release now k p)"
    "same_rest p (LoadOrStore now k p)"
  by (simp_all add: same_rest_def Acquire_def Release_def LoadOrStore_def split: option.splits)

lemma with_client_ok:
  assumes "clients_ok p" "map_of (cp_clients p) k = Some pc" "pooled_ok k pc'" "n = pc_Connections pc' - pc_Connections pc"
  shows "clients_ok (with_client k pc' n p)" "same_rest p (with_client k pc' n p)"
    "fst ` set (cp_clients (with_client k pc' n p)) = fst ` set (cp_clients p)"
    "conns (with_client k pc' n p) k' = conns p k' + (if k' = k then n else 0)"
proof -
  show "clients_ok (with_client k pc' n p)"
    using client_update_ok [OF assms(1-3)] assms(4) by (simp add: clients_ok_def with_client_def)
  have "k \<in> fst ` set (cp_clients p)" using assms(2) by (metis domI dom_map_of_conv_image_fst)
  then show "fst ` set (cp_clients (with_client k pc' n p)) = fst ` set (cp_clients p)"
    by (auto simp: with_client_def dom_update)
qed (use assms(2,4) in \<open>auto simp: same_rest_def with_client_def conns_def update_conv'\<close>)

lemma claimAndCreate_spec:
  assumes ok: "clients_ok p" and k: "map_of (cp_clients p) k = Some pc"
  shows "\<exists>p' err. claimAndCreate env now k p = Some (p', err) \<and> clients_ok p' \<and> same_rest p p' \<and>
    fst ` set (cp_clients p') = fst ` set (cp_clients p) \<and>
    (\<forall>k'. conns p' k' = conns p k' + (if k' = k \<and> err = None then 1 else 0)) \<and>
    (err = None \<longrightarrow> (\<exists>pc'. map_of (cp_clients p') k = Some pc' \<and> pc_IsReady pc' \<and> pc_TgClient pc' \<noteq> None))"
  using claimAndCreate_cases [OF k, of env now]
proof (elim disjE exE)
  fix e assume *: "claimAndCreate env now k p = Some (with_client k (pc\<lparr>pc_Creating := False\<rparr>) 0 p, Some e)"
  have "pooled_ok k (pc\<lparr>pc_Creating := False\<rparr>)" using clients_okD [OF ok k] by (simp add: pooled_ok_def)
  from with_client_ok [OF ok k this, of 0] * show ?thesis by simp
next
  fix client
  let ?pc = "(pc_started now client (pc\<lparr>pc_Creating := True\<rparr>))\<lparr>pc_Creating := False\<rparr>"
  assume *: "claimAndCreate env now k p = Some (with_client k ?pc 1 p, None)"
  have "pooled_ok k ?pc" using clients_okD [OF ok k] by (simp add: pooled_ok_def pc_started_def)
  from with_client_ok [OF ok k this, of 1] * show ?thesis by (simp add: pc_started_def)
qed

text \<open>The circuit operations touch nothing but the circuits and keep their bound.\<close>

lemma set_circuit_ok:
  assumes "circuits_ok p" "0 \<le> cb_consecutiveFailures s" "cb_consecutiveFailures s < botCircuitFailureThreshold p"
  shows "circuits_ok (set_circuit key s p)"
  using assms set_update_subset [of key s "cp_botCircuit p"]
  by (fastforce simp: circuits_ok_def set_circuit_def botCircuitFailureThreshold_def)

lemma threshold_pos: "0 < botCircuitFailureThreshold p"
  by (simp add: botCircuitFailureThreshold_def)

lemma getBotCircuitState_ok:
  "circuits_ok p \<Longrightarrow> 0 \<le> cb_consecutiveFailures (getBotCircuitState p k) \<and>
     cb_consecutiveFailures (getBotCircuitState p k) < botCircuitFailureThreshold p"
  using threshold_pos [of p]
  by (fastforce simp: circuits_ok_def getBotCircuitState_def new_circuit_def dest: map_of_SomeD split: option.splits)

lemma set_circuit_rest [simp]:
  "cp_clients (set_circuit k s p) = cp_clients p" "cp_totalConns (set_circuit k s p) = cp_totalConns p"
  "conns (set_circuit k s p) = conns p" "clients_ok (set_circuit k s p) = clients_ok p" "idx_ok (set_circuit k s p) = idx_ok p"
  by (simp_all add: set_circuit_def fun_eq_iff clients_ok_def idx_ok_def)

definition only_circuits :: "'c pool \<Rightarrow> 'c pool \<Rightarrow> bool" where
  "only_circuits p q \<longleftrightarrow> cp_clients q = cp_clients p \<and> conns q = conns p \<and> (pool_ok p \<longrightarrow> pool_ok q)"

lemma isBotClientAvailable_only: "only_circuits p (fst (isBotClientAvailable k now p))"
  using set_circuit_ok [of p] getBotCircuitState_ok [of p k] threshold_pos [of p]
  by (auto simp: only_circuits_def isBotClientAvailable_def circuit_available_def pool_ok_def split: prod.splits)

lemma RecordBotFailure_only: "only_circuits p (RecordBotFailure now k e p)"
  using set_circuit_ok [of p] getBotCircuitState_ok [of p k] threshold_pos [of p]
  by (auto simp: only_circuits_def RecordBotFailure_def circuit_failure_def pool_ok_def Let_def)

lemma RecordBotSuccess_only: "only_circuits p (RecordBotSuccess now k p)"
  using set_circuit_ok [of p] getBotCircuitState_ok [of p k] threshold_pos [of p]
  by (auto simp: only_circuits_def RecordBotSuccess_def circuit_success_def pool_ok_def Let_def)

lemma least_spec:
  "minConns = f selected \<Longrightarrow> least f selected minConns cs \<in> insert selected (set cs) \<and>
     (\<forall>c \<in> insert selected (set cs). f (least f selected minConns cs) \<le> f c)"
  by (induction f selected minConns cs rule: least.induct) force+

lemma rr_key_length: "rr_key cs = rr_key ds \<longleftrightarrow> length cs = length ds"
  by (auto simp: rr_key_def itoa_def nat_digits_inj)

lemma selectClient_spec:
  assumes ok: "idx_ok p" and cs: "clients \<noteq> []"
  shows "\<exists>p' sel. selectClient p clients = Some (p', Some sel) \<and> sel \<in> set clients \<and> idx_ok p' \<and>
    (\<exists>ix. p' = p\<lparr>cp_currentIdx := ix\<rparr>) \<and>
    (cp_strategy p = LeastConnections \<longrightarrow> (\<forall>c \<in> set clients. conns p sel \<le> conns p c))"
proof (cases "cp_strategy p")
  case LeastConnections
  obtain c cs' where c: "clients = c # cs'" using cs by (cases clients) auto
  then show ?thesis using LeastConnections least_spec [of "conns p c" "conns p" c cs'] ok
    by (auto simp: selectClient_def intro!: exI [of _ "cp_currentIdx p"])
next
  case RoundRobin
  define idx where "idx = (case map_of (cp_currentIdx p) (rr_key clients) of None \<Rightarrow> 0 | Some i \<Rightarrow> i)"
  have idx: "idx < length clients" using ok cs by (auto simp: idx_def idx_ok_def split: option.splits)
  define p' where "p' = p\<lparr>cp_currentIdx := AList.update (rr_key clients) ((idx + 1) mod length clients) (cp_currentIdx p)\<rparr>"
  have "idx_ok p'" unfolding idx_ok_def
  proof (intro allI impI)
    fix ds i assume "ds \<noteq> []" "map_of (cp_currentIdx p') (rr_key ds) = Some i"
    then show "i < length ds" using ok cs
      by (cases "rr_key ds = rr_key clients") (auto simp: p'_def update_conv' idx_ok_def rr_key_length)
  qed
  moreover have "selectClient p clients = Some (p', Some (clients ! idx))"
    using RoundRobin idx cs by (cases clients) (simp_all add: selectClient_def idx_def index_at_def p'_def Let_def)
  ultimately show ?thesis using idx RoundRobin by (auto simp: p'_def)
qed

lemma removeBotCandidate_less: "sel \<in> set cs \<Longrightarrow> length (removeBotCandidate cs sel) < length cs"
  unfolding removeBotCandidate_def by (rule length_filter_less) auto

text \<open>The loop of \<open>GetBotClient\<close> ends, and it acquires a connection exactly when it succeeds.\<close>

definition got :: "string list \<Rightarrow> 'c pool \<Rightarrow> 'c pool \<Rightarrow> go_error + 'c option \<times> string \<Rightarrow> bool" where
  "got keys p p' res \<longleftrightarrow> pool_ok p' \<and>
     (case res of
        Inl _ \<Rightarrow> conns p' = conns p
      | Inr (c, key) \<Rightarrow> key \<in> set keys \<and> c \<noteq> None \<and> (\<forall>k. conns p' k = conns p k + (if k = key then 1 else 0)))"

lemma Acquire_pool_ok: "pool_ok p \<Longrightarrow> map_of (cp_clients p) k = Some pc \<Longrightarrow> pool_ok (Acquire now k p)"
  using Acquire_spec(1) [of p k pc now] same_rest_ok [of p "Acquire now k p"] by (auto simp: pool_ok_def)

lemma bot_loop_spec:
  assumes "pool_ok p" "set candidates \<subseteq> fst ` set (cp_clients p)"
  shows "\<exists>p' res. bot_loop create now userID candidates lastErr p = Some (p', res) \<and> got candidates p p' res"
  using assms
proof (induction "length candidates" arbitrary: candidates lastErr p rule: less_induct)
  case less
  show ?case
  proof (cases "candidates = []")
    case True
    with less.prems(1) show ?thesis by (subst bot_loop.simps) (simp add: got_def)
  next
    case False
    have idx: "idx_ok p" using less.prems(1) by (simp add: pool_ok_def)
    from selectClient_spec [OF idx False] obtain p1 key ix where
      sel: "selectClient p candidates = Some (p1, Some key)" "key \<in> set candidates" "idx_ok p1" "p1 = p\<lparr>cp_currentIdx := ix\<rparr>" by blast
    have p1: "pool_ok p1" "conns p1 = conns p" "cp_clients p1 = cp_clients p"
      using less.prems(1) sel(3,4) by (auto simp: pool_ok_def clients_ok_def circuits_ok_def botCircuitFailureThreshold_def)
    have "key \<in> dom (map_of (cp_clients p1))" using sel(2) less.prems(2) p1(3) by (auto simp: dom_map_of_conv_image_fst)
    then obtain pc where pc: "map_of (cp_clients p1) key = Some pc" by auto
    have pok: "pooled_ok key pc" using clients_okD [OF _ pc] p1(1) by (simp add: pool_ok_def)
    show ?thesis
    proof (cases "pc_IsReady pc")
      case True
      have "bot_loop create now userID candidates lastErr p = Some (Acquire now key p1, Inr (pc_TgClient pc, key))"
        using False sel(1) pc True by (subst bot_loop.simps) simp
      moreover have "got candidates p (Acquire now key p1) (Inr (pc_TgClient pc, key))"
        using Acquire_pool_ok [OF p1(1) pc] Acquire_spec(2) [OF _ pc] p1 pok True sel(2)
        by (auto simp: got_def pooled_ok_def pool_ok_def)
      ultimately show ?thesis by blast
    next
      case notready: False
      let ?env = "create key (trim_prefix key (bot_key userID []))"
      from claimAndCreate_spec [OF _ pc, of ?env now] p1(1) obtain p2 err where
        cr: "claimAndCreate ?env now key p1 = Some (p2, err)" "clients_ok p2" "same_rest p1 p2"
        "fst ` set (cp_clients p2) = fst ` set (cp_clients p1)"
        "\<forall>k'. conns p2 k' = conns p1 k' + (if k' = key \<and> err = None then 1 else 0)"
        "err = None \<longrightarrow> (\<exists>pc'. map_of (cp_clients p2) key = Some pc' \<and> pc_IsReady pc' \<and> pc_TgClient pc' \<noteq> None)"
        by (auto simp: pool_ok_def)
      have p2: "pool_ok p2" using cr(2) same_rest_ok [OF cr(3)] p1(1) by (simp add: pool_ok_def)
      have step: "bot_loop create now userID candidates lastErr p = (case err of
          Some e \<Rightarrow> bot_loop create now userID (removeBotCandidate candidates key) (Some e) (RecordBotFailure now key e p2)
        | None \<Rightarrow> Some (p2, Inr (client_of p2 key, key)))"
        using False sel(1) pc notready pok cr(1) by (subst bot_loop.simps) (simp add: Let_def pooled_ok_def)
      show ?thesis
      proof (cases err)
        case None
        with step cr(5,6) p2 p1(2) sel(2) show ?thesis by (auto simp: got_def client_of_def)
      next
        case (Some e)
        let ?p3 = "RecordBotFailure now key e p2"
        have p3: "pool_ok ?p3" "conns ?p3 = conns p" "cp_clients ?p3 = cp_clients p2"
          using RecordBotFailure_only [of p2 now key e] p2 cr(5) Some p1(2) by (auto simp: only_circuits_def)
        have "set (removeBotCandidate candidates key) \<subseteq> fst ` set (cp_clients ?p3)"
          using less.prems(2) p3(3) cr(4) p1(3) by (auto simp: removeBotCandidate_def)
        from less.hyps [OF removeBotCandidate_less [OF sel(2)] p3(1) this] obtain p' res where
          "bot_loop create now userID (removeBotCandidate candidates key) (Some e) ?p3 = Some (p', res)"
          "got (removeBotCandidate candidates key) ?p3 p' res" by blast
        with step Some p3(2) show ?thesis
          by (auto simp: got_def removeBotCandidate_def split: sum.splits)
      qed
    qed
  qed
qed

lemma LoadOrStore_pool_ok: "pool_ok p \<Longrightarrow> pool_ok (LoadOrStore now k p)"
  using LoadOrStore_spec(1) [of p now k] same_rest_ok [of p "LoadOrStore now k p"] by (auto simp: pool_ok_def)

lemma slots_spec:
  "pool_ok p \<Longrightarrow> pool_ok (fold (LoadOrStore now) keys p) \<and> conns (fold (LoadOrStore now) keys p) = conns p \<and>
     set keys \<union> fst ` set (cp_clients p) \<subseteq> fst ` set (cp_clients (fold (LoadOrStore now) keys p))"
proof (induction keys arbitrary: p)
  case (Cons k keys)
  have ok: "clients_ok p" using Cons.prems by (simp add: pool_ok_def)
  have "insert k (fst ` set (cp_clients p)) \<subseteq> fst ` set (cp_clients (LoadOrStore now k p))"
    using LoadOrStore_spec(3) [OF ok, of now k] LoadOrStore_spec(4) [OF ok, of _ _ now k] by (auto simp flip: dom_map_of_conv_image_fst)
  moreover note Cons.IH [OF LoadOrStore_pool_ok [OF Cons.prems], of now k]
  ultimately have "insert k (set keys \<union> fst ` set (cp_clients p)) \<subseteq>
      fst ` set (cp_clients (fold (LoadOrStore now) keys (LoadOrStore now k p)))" by blast
  then show ?case using Cons.IH [OF LoadOrStore_pool_ok [OF Cons.prems], of now k] LoadOrStore_spec(2) [OF ok, of now k]
    by simp
qed simp

lemma available_loop_spec:
  "pool_ok p \<Longrightarrow> available_loop now cs p = (p', av) \<Longrightarrow>
     pool_ok p' \<and> conns p' = conns p \<and> cp_clients p' = cp_clients p \<and> set av \<subseteq> set cs"
proof (induction cs arbitrary: p p' av)
  case (Cons c cs)
  obtain p1 ok where av: "isBotClientAvailable c now p = (p1, ok)" by fastforce
  have "only_circuits p p1" using isBotClientAvailable_only [of p c now] av by simp
  with Cons.IH [of p1] Cons.prems av show ?case by (auto simp: only_circuits_def split: prod.splits if_splits)
qed simp

lemma GetBotClient_spec:
  assumes "pool_ok p"
  shows "\<exists>p' res. GetBotClient create now userID bots p = Some (p', res) \<and> got (map (bot_key userID) bots) p p' res"
proof (cases "bots = []")
  case True
  with assms show ?thesis by (simp add: GetBotClient_def got_def)
next
  case False
  define keys where "keys = map (bot_key userID) bots"
  define p1 where "p1 = fold (LoadOrStore now) keys p"
  have p1: "pool_ok p1" "conns p1 = conns p" "set keys \<subseteq> fst ` set (cp_clients p1)"
    using slots_spec [OF assms, of now keys] by (auto simp: p1_def)
  obtain p2 av where av: "available_loop now keys p1 = (p2, av)" by fastforce
  note p2 = available_loop_spec [OF p1(1) av]
  show ?thesis
  proof (cases "av = []")
    case True
    then show ?thesis using False av p1 p2 by (simp add: GetBotClient_def keys_def p1_def got_def)
  next
    case av': False
    have "pool_ok p2" "set av \<subseteq> fst ` set (cp_clients p2)" using p1(3) p2 by auto
    from bot_loop_spec [OF this, of create now userID None] obtain p' res where
      "bot_loop create now userID av None p2 = Some (p', res)" "got av p2 p' res" by blast
    with False av av' p1 p2 show ?thesis
      by (auto simp: GetBotClient_def keys_def p1_def got_def split: sum.splits)
  qed
qed

lemma GetUserClient_spec:
  assumes "pool_ok p"
  shows "\<exists>p' res. GetUserClient env now userID p = Some (p', res) \<and> got [user_key userID] p p' res"
proof -
  let ?k = "user_key userID" and ?p1 = "LoadOrStore now (user_key userID) p"
  have p1: "pool_ok ?p1" "conns ?p1 = conns p"
    using LoadOrStore_pool_ok [OF assms] LoadOrStore_spec(2) assms by (auto simp: pool_ok_def)
  from LoadOrStore_spec(3) [of p now ?k] assms obtain pc where pc: "map_of (cp_clients ?p1) ?k = Some pc" by (auto simp: pool_ok_def)
  have pok: "pooled_ok ?k pc" using clients_okD [OF _ pc] p1(1) by (simp add: pool_ok_def)
  show ?thesis
  proof (cases "pc_IsReady pc")
    case True
    have "GetUserClient env now userID p = Some (Acquire now ?k ?p1, Inr (pc_TgClient pc, ?k))"
      using pc True by (simp add: GetUserClient_def Let_def)
    moreover have "got [?k] p (Acquire now ?k ?p1) (Inr (pc_TgClient pc, ?k))"
      using Acquire_pool_ok [OF p1(1) pc] Acquire_spec(2) [OF _ pc] p1 pok True
      by (auto simp: got_def pooled_ok_def pool_ok_def)
    ultimately show ?thesis by blast
  next
    case False
    from claimAndCreate_spec [OF _ pc, of env now] p1(1) obtain p2 err where
      cr: "claimAndCreate env now ?k ?p1 = Some (p2, err)" "clients_ok p2" "same_rest ?p1 p2"
      "\<forall>k'. conns p2 k' = conns ?p1 k' + (if k' = ?k \<and> err = None then 1 else 0)"
      "err = None \<longrightarrow> (\<exists>pc'. map_of (cp_clients p2) ?k = Some pc' \<and> pc_IsReady pc' \<and> pc_TgClient pc' \<noteq> None)"
      by (auto simp: pool_ok_def)
    have p2: "pool_ok p2" using cr(2) same_rest_ok [OF cr(3)] p1(1) by (simp add: pool_ok_def)
    have "GetUserClient env now userID p = Some (p2, case err of Some e \<Rightarrow> Inl e | None \<Rightarrow> Inr (client_of p2 ?k, ?k))"
      using pc False pok cr(1) by (simp add: GetUserClient_def Let_def pooled_ok_def)
    moreover have "got [?k] p p2 (case err of Some e \<Rightarrow> Inl e | None \<Rightarrow> Inr (client_of p2 ?k, ?k))"
      using p2 cr(4,5) p1(2) by (auto simp: got_def client_of_def split: option.splits)
    ultimately show ?thesis by blast
  qed
qed

lemma sum_list_filter_zero:
  fixes f :: "'v \<Rightarrow> int"
  shows "(\<And>k v. (k, v) \<in> set al \<Longrightarrow> \<not> P k \<Longrightarrow> f v = 0) \<Longrightarrow>
    sum_list (map (\<lambda>(k, v). f v) (filter (\<lambda>(k, v). P k) al)) = sum_list (map (\<lambda>(k, v). f v) al)"
proof (induction al)
  case (Cons a al)
  obtain k v where a: "a = (k, v)" by (cases a)
  have "\<not> P k \<Longrightarrow> f v = 0" using Cons.prems [of k v] a by simp
  with Cons a show ?case by auto
qed simp

lemma map_of_filter_keys: "map_of (filter (\<lambda>(k, v). P k) al) k = (if P k then map_of al k else None)"
  by (induction al) auto

lemma idleCheck_spec:
  assumes "pool_ok p"
  shows "pool_ok (idleCheck now p)" "conns (idleCheck now p) = conns p"
    "conns p k \<noteq> 0 \<Longrightarrow> map_of (cp_clients (idleCheck now p)) k = map_of (cp_clients p) k"
proof -
  have ok: "clients_ok p" using assms by (simp add: pool_ok_def)
  let ?al = "cp_clients p"
  define gone where "gone = map fst (filter (\<lambda>(k, pc). is_idle p now pc) ?al)"
  have dist: "distinct (map fst ?al)" using ok by (simp add: clients_ok_def)
  have zero: "pc_Connections pc = 0" if "(k, pc) \<in> set ?al" "\<not> k \<notin> set gone" for k pc
  proof -
    from that(2) obtain pc' where "(k, pc') \<in> set ?al" "is_idle p now pc'" by (auto simp: gone_def)
    moreover have "pc' = pc" using dist that(1) calculation(1) by (metis eq_key_imp_eq_value)
    ultimately show ?thesis by (simp add: is_idle_def)
  qed
  have cl: "cp_clients (idleCheck now p) = filter (\<lambda>(k, pc). k \<notin> set gone) ?al"
    by (simp add: idleCheck_def gone_def Let_def)
  have zero': "conns p k = 0" if "k \<in> set gone" for k
    using zero [of k] that by (auto simp: conns_def split: option.splits dest: map_of_SomeD)
  show "conns (idleCheck now p) = conns p"
    using zero' by (auto simp: fun_eq_iff cl conns_def map_of_filter_keys)
  show "conns p k \<noteq> 0 \<Longrightarrow> map_of (cp_clients (idleCheck now p)) k = map_of ?al k"
    using zero' [of k] by (auto simp: cl map_of_filter_keys)
  have "distinct (map fst (filter (\<lambda>(k, pc). k \<notin> set gone) ?al))" using dist by (simp add: distinct_map_filter)
  moreover have "sum_list (map (\<lambda>(k, pc). pc_Connections pc) (filter (\<lambda>(k, pc). k \<notin> set gone) ?al)) =
      sum_list (map (\<lambda>(k, pc). pc_Connections pc) ?al)"
    by (rule sum_list_filter_zero) (rule zero)
  moreover have "cp_totalConns (idleCheck now p) = cp_totalConns p" by (simp add: idleCheck_def Let_def)
  ultimately have "clients_ok (idleCheck now p)" using ok by (auto simp: clients_ok_def cl)
  moreover have "idx_ok (idleCheck now p)" "circuits_ok (idleCheck now p)"
    using assms by (auto simp: pool_ok_def idx_ok_def circuits_ok_def idleCheck_def Let_def botCircuitFailureThreshold_def)
  ultimately show "pool_ok (idleCheck now p)" by (simp add: pool_ok_def)
qed

lemma Release_pool_ok: "pool_ok p \<Longrightarrow> map_of (cp_clients p) k = Some pc \<Longrightarrow> pool_ok (Release now k p)"
  using Release_spec(1) [of p k pc now] same_rest_ok [of p "Release now k p"] by (auto simp: pool_ok_def)

subsection \<open>Connection accounting in every history\<close>

text \<open>
  A history of the pool: its clients call the exported operations in any order and at any time.
  Beside the pool, a state has the number of connections of each key that were handed out and not
  yet released; a stream releases only what it was given.
\<close>

type_synonym 'c pool_state = "'c pool \<times> (string \<Rightarrow> nat)"

fun handed :: "go_error + 'c option \<times> string \<Rightarrow> (string \<Rightarrow> nat) \<Rightarrow> (string \<Rightarrow> nat)" where
  "handed (Inl e) out = out"
| "handed (Inr (c, key)) out = out(key := Suc (out key))"

inductive pool_step :: "'c pool_state \<Rightarrow> 'c pool_state \<Rightarrow> bool" where
  get_user: "GetUserClient env now userID p = Some (p', res) \<Longrightarrow> pool_step (p, out) (p', handed res out)"
| get_bot: "GetBotClient create now userID bots p = Some (p', res) \<Longrightarrow> pool_step (p, out) (p', handed res out)"
| release: "0 < out key \<Longrightarrow> pool_step (p, out) (Release now key p, out(key := out key - 1))"
| idle: "pool_step (p, out) (idleCheck now p, out)"
| success: "pool_step (p, out) (RecordBotSuccess now key p, out)"
| failure: "pool_step (p, out) (RecordBotFailure now key err p, out)"

definition pool_init :: "'c pool_state \<Rightarrow> bool" where
  "pool_init s \<longleftrightarrow> (\<exists>cnf. s = (NewClientPool cnf, \<lambda>_. 0))"

definition accounted :: "'c pool_state \<Rightarrow> bool" where
  "accounted s \<longleftrightarrow> pool_ok (fst s) \<and> (\<forall>k. conns (fst s) k = int (snd s k))"

lemma got_accounted: "accounted (p, out) \<Longrightarrow> got keys p p' res \<Longrightarrow> accounted (p', handed res out)"
  by (cases res) (auto simp: accounted_def got_def)

lemma release_accounted:
  assumes "accounted (p, out)" "0 < out key"
  shows "accounted (Release now key p, out(key := out key - 1))"
proof -
  from assms have "conns p key \<noteq> 0" by (simp add: accounted_def)
  then obtain pc where pc: "map_of (cp_clients p) key = Some pc" by (auto simp: conns_def split: option.splits)
  with assms Release_pool_ok [OF _ pc] Release_spec(2) [OF _ pc] show ?thesis
    by (auto simp: accounted_def pool_ok_def of_nat_diff)
qed

lemma pool_step_accounted: "pool_step s t \<Longrightarrow> accounted s \<Longrightarrow> accounted t"
proof (induction rule: pool_step.induct)
  case (get_user env now userID p p' res out)
  from GetUserClient_spec [of p env now userID] get_user have "got [user_key userID] p p' res" by (auto simp: accounted_def)
  then show ?case using get_user.prems by (rule got_accounted [rotated])
next
  case (get_bot create now userID bots p p' res out)
  from GetBotClient_spec [of p create now userID bots] get_bot have "got (map (bot_key userID) bots) p p' res" by (auto simp: accounted_def)
  then show ?case using get_bot.prems by (rule got_accounted [rotated])
next
  case release
  then show ?case by (intro release_accounted)
next
  case (idle p out now)
  then show ?case using idleCheck_spec(1,2) [of p now] by (simp add: accounted_def)
next
  case (success p out now key)
  then show ?case using RecordBotSuccess_only [of p now key] by (simp add: accounted_def only_circuits_def)
next
  case (failure p out now key err)
  then show ?case using RecordBotFailure_only [of p now key err] by (simp add: accounted_def only_circuits_def)
qed

lemma NewClientPool_ok: "pool_ok (NewClientPool cnf)" "conns (NewClientPool cnf) k = 0"
  by (simp_all add: NewClientPool_def pool_ok_def clients_ok_def idx_ok_def circuits_ok_def conns_def)

interpretation accounting: step_invariant pool_init pool_step accounted
  by unfold_locales (auto simp: pool_init_def accounted_def NewClientPool_ok dest: pool_step_accounted [unfolded accounted_def])

subsection \<open>Repeated calls\<close>

text \<open>A history of failures of one bot, each at its time.\<close>

definition bot_failures :: "string \<Rightarrow> (int \<times> go_error) list \<Rightarrow> 'c pool \<Rightarrow> 'c pool" where
  "bot_failures key fs p = fold (\<lambda>(now, err). RecordBotFailure now key err) fs p"

fun memory_run :: "string \<Rightarrow> int \<Rightarrow> string list \<Rightarrow> nat \<Rightarrow> bot_idx \<Rightarrow> (go_error + string \<times> nat) list option" where
  "memory_run op userID bots 0 idx = Some []"
| "memory_run op userID bots (Suc n) idx =
     Option.bind (memory_Next op userID bots idx) (\<lambda>(idx', r). map_option ((#) r) (memory_run op userID bots n idx'))"

lemma getBotCircuitState_set [simp]: "getBotCircuitState (set_circuit key s p) key = s"
  by (simp add: getBotCircuitState_def set_circuit_def update_conv')

lemma RecordBotFailure_config [simp]:
  "botCircuitFailureThreshold (RecordBotFailure now k e p) = botCircuitFailureThreshold p"
  "botCircuitCooldown (RecordBotFailure now k e p) = botCircuitCooldown p"
  by (simp_all add: RecordBotFailure_def set_circuit_def botCircuitFailureThreshold_def botCircuitCooldown_def)

lemma failures_below:
  assumes "isBotClientKey key" "\<forall>(t, e) \<in> set fs. \<not> errors_Is e CtxCanceled"
    "cb_consecutiveFailures (getBotCircuitState p key) + int (length fs) < botCircuitFailureThreshold p"
  shows "cb_consecutiveFailures (getBotCircuitState (bot_failures key fs p) key) =
      cb_consecutiveFailures (getBotCircuitState p key) + int (length fs) \<and>
    cb_openUntil (getBotCircuitState (bot_failures key fs p) key) = cb_openUntil (getBotCircuitState p key) \<and>
    botCircuitFailureThreshold (bot_failures key fs p) = botCircuitFailureThreshold p \<and>
    botCircuitCooldown (bot_failures key fs p) = botCircuitCooldown p"
  using assms
proof (induction fs arbitrary: p)
  case (Cons f fs)
  obtain t e where f: "f = (t, e)" by (cases f)
  let ?p = "RecordBotFailure t key e p"
  have "cb_consecutiveFailures (getBotCircuitState ?p key) = cb_consecutiveFailures (getBotCircuitState p key) + 1"
    "cb_openUntil (getBotCircuitState ?p key) = cb_openUntil (getBotCircuitState p key)"
    using Cons.prems f by (auto simp: RecordBotFailure_def circuit_failure_def Let_def)
  with Cons.IH [of ?p] Cons.prems f show ?case by (simp add: bot_failures_def)
qed (simp add: bot_failures_def)

lemma available_iff:
  "isBotClientKey key \<Longrightarrow> snd (isBotClientAvailable key now p) \<longleftrightarrow>
     cb_openUntil (getBotCircuitState p key) = 0 \<or> cb_openUntil (getBotCircuitState p key) \<le> now"
  by (auto simp: isBotClientAvailable_def circuit_available_def split: prod.splits)

lemma memory_Next_eq:
  assumes "bots \<noteq> []" "idx = (case map_of m (selectorKey op userID) of None \<Rightarrow> 0 | Some i \<Rightarrow> i)" "idx < length bots"
  shows "memory_Next op userID bots m =
    Some (AList.update (selectorKey op userID) ((idx + 1) mod length bots) m, Inr (bots ! idx, idx))"
  using assms by (auto simp: memory_Next_def Let_def index_at_def)

lemma memory_run_eq:
  assumes "bots \<noteq> []" "idx = (case map_of m (selectorKey op userID) of None \<Rightarrow> 0 | Some i \<Rightarrow> i)" "idx < length bots"
  shows "memory_run op userID bots n m =
    Some (map (\<lambda>i. Inr (bots ! ((idx + i) mod length bots), (idx + i) mod length bots)) [0..<n])"
  using assms(2,3)
proof (induction n arbitrary: m idx)
  case (Suc n)
  let ?m = "AList.update (selectorKey op userID) ((idx + 1) mod length bots) m"
  have "memory_run op userID bots n ?m =
      Some (map (\<lambda>i. Inr (bots ! (((idx + 1) mod length bots + i) mod length bots), ((idx + 1) mod length bots + i) mod length bots)) [0..<n])"
    using Suc.prems assms(1) by (intro Suc.IH) (auto simp: update_conv')
  moreover have "((idx + 1) mod length bots + i) mod length bots = (idx + Suc i) mod length bots" for i
    by (simp add: mod_add_left_eq)
  ultimately show ?case using memory_Next_eq [OF assms(1) Suc.prems] Suc.prems
    by (simp add: upt_conv_Cons map_Suc_upt [symmetric] del: upt_Suc)
qed simp

lemma redis_Next_eq:
  assumes "bots \<noteq> []" "0 < v" "v < 2 ^ 63"
  shows "redis_Next (Inr v) bots = Some (Inr (bots ! nat ((v - 1) mod int (length bots)), (v - 1) mod int (length bots)))"
  using assms by (auto simp: redis_Next_def Let_def index_at_def go_mod_nonneg)

lemma itoa_no_colon: "CHR '':'' \<notin> set (itoa i)" "CHR ''b'' \<notin> set (itoa i)"
  using itoa_chars [of "CHR '':''" i] itoa_chars [of "CHR ''b''" i] by (auto simp: digit_of_def)

lemma cut_at_skip: "CHR '':'' \<notin> set a \<Longrightarrow> cut_at (CHR '':'' # s) (a @ CHR '':'' # s @ t) = Some (a, t)"
proof (induction a)
  case Nil
  have "take (length s) (s @ t) = s" by simp
  then show ?case by simp
qed auto

subsection \<open>Properties\<close>

text \<open>C5: The pool's accounting is right in every history of client requests, releases, idle checks and circuit reports:
  the connections of each key are exactly those handed out and not released, the total is their sum,
  and a client with an outstanding connection is in the pool and survives an idle check unchanged.\<close>

theorem pool_accounting:
  assumes "reachable pool_init pool_step (p, out)"
  shows "(\<forall>k. conns p k = int (out k)) \<and> distinct (map fst (cp_clients p)) \<and>
    TotalConnections p = (\<Sum>(k, pc) \<leftarrow> cp_clients p. int (out k)) \<and>
    (\<forall>k now. 0 < out k \<longrightarrow> (\<exists>pc. map_of (cp_clients p) k = Some pc \<and> map_of (cp_clients (idleCheck now p)) k = Some pc))"
proof -
  have ok: "pool_ok p" and cs: "\<And>k. conns p k = int (out k)"
    using accounting.reachable_inv [OF assms] by (auto simp: accounted_def)
  have dist: "distinct (map fst (cp_clients p))" using ok by (simp add: pool_ok_def clients_ok_def)
  have "pc_Connections pc = int (out k)" if "(k, pc) \<in> set (cp_clients p)" for k pc
    using cs [of k] map_of_is_SomeI [OF dist that] by (simp add: conns_def)
  then have "TotalConnections p = (\<Sum>(k, pc) \<leftarrow> cp_clients p. int (out k))"
    using ok by (auto simp: TotalConnections_def pool_ok_def clients_ok_def intro!: arg_cong [of _ _ sum_list])
  moreover have "\<exists>pc. map_of (cp_clients p) k = Some pc \<and> map_of (cp_clients (idleCheck now p)) k = Some pc" if "0 < out k" for k now
    using that cs [of k] idleCheck_spec(3) [OF ok, of k now] by (auto simp: conns_def split: option.splits)
  ultimately show ?thesis using cs dist by blast
qed

definition sample_env :: "nat start_env" where
  "sample_env = \<lparr>se_client = Inr 7, se_run = None, se_wait = Ready, se_auth = None\<rparr>"

lemma itoa_5: "itoa 5 = ''5''"
  by code_simp

lemma sample_get:
  "\<exists>p. GetUserClient sample_env 0 5 (NewClientPool None) = Some (p, Inr (Some 7, ''user:5''))"
  by (simp add: GetUserClient_def NewClientPool_def LoadOrStore_def claimAndCreate_def createClient_def startClient_def
      set_Creating_def Acquire_def client_of_def user_key_def itoa_5 new_pooled_def sample_env_def Let_def
      update_conv')

theorem pool_accounting_witness:
  "\<exists>(p :: nat pool) out. reachable pool_init pool_step (p, out) \<and> out ''user:5'' = 1 \<and> conns p ''user:5'' = 1"
proof -
  from sample_get obtain p where "GetUserClient sample_env 0 5 (NewClientPool None) = Some (p, Inr (Some 7, ''user:5''))" ..
  from pool_step.get_user [OF this, of "\<lambda>_. 0"]
  have r: "reachable pool_init pool_step (p, (\<lambda>_. 0)(''user:5'' := 1))"
    by (intro reachable.move [OF reachable.start]) (auto simp: pool_init_def)
  from pool_accounting [OF r] r show ?thesis by (intro exI [of _ p] exI [of _ "(\<lambda>_. 0)(''user:5'' := 1)"]) simp
qed

text \<open>
  \<open>GetBotClient\<close> always returns: its loop drops one candidate per failed creation. In a well-formed pool it
  never hands out a missing client; when it succeeds, exactly the returned client has one connection more,
  and when it fails, no connection is counted.\<close>

lemma GetBotClient_returns:
  assumes "pool_ok p"
  shows "\<exists>p' res. GetBotClient create now userID bots p = Some (p', res) \<and> pool_ok p' \<and>
    (case res of
       Inl e \<Rightarrow> conns p' = conns p
     | Inr (c, key) \<Rightarrow> key \<in> set (map (bot_key userID) bots) \<and> c \<noteq> None \<and>
         (\<forall>k. conns p' k = conns p k + (if k = key then 1 else 0)))"
  using GetBotClient_spec [OF assms, of create now userID bots] by (auto simp: got_def)

lemma GetBotClient_returns_witness:
  "\<exists>p' res. GetBotClient (\<lambda>key token. sample_env) 0 5 [''1:a'', ''2:b''] (NewClientPool None) = Some (p', res) \<and> pool_ok p'"
  using GetBotClient_returns [OF NewClientPool_ok(1) [of None], of "\<lambda>key token. sample_env" 0 5 "[''1:a'', ''2:b'']"] by blast

text \<open>
  The circuit breaker: fewer failures in a row than the threshold leave a bot available; the failure that reaches
  the threshold takes it out exactly until the cooldown is over. Cancelled requests do not count.\<close>

lemma circuit_breaker:
  assumes bot: "isBotClientKey key" and new: "getBotCircuitState p key = new_circuit"
    and fs: "\<forall>(t, e) \<in> set (fs @ [(t, e)]). \<not> errors_Is e CtxCanceled"
    and len: "int (length fs) + 1 = botCircuitFailureThreshold p" and t: "0 \<le> t"
  shows "(\<forall>n \<le> length fs. snd (isBotClientAvailable key now (bot_failures key (take n fs) p))) \<and>
    (snd (isBotClientAvailable key now (bot_failures key (fs @ [(t, e)]) p)) \<longleftrightarrow> t + botCircuitCooldown p \<le> now) \<and>
    (\<forall>q now'. errors_Is err CtxCanceled \<longrightarrow> RecordBotFailure now' key err q = q)"
proof -
  have "snd (isBotClientAvailable key now (bot_failures key (take n fs) p))" for n
    using failures_below [OF bot, of "take n fs" p] fs len new
    by (fastforce simp: available_iff [OF bot] new_circuit_def dest: in_set_takeD)
  moreover have "cb_openUntil (getBotCircuitState (bot_failures key (fs @ [(t, e)]) p) key) = t + botCircuitCooldown p"
  proof -
    let ?q = "bot_failures key fs p"
    have q: "cb_consecutiveFailures (getBotCircuitState ?q key) = int (length fs)"
      "botCircuitFailureThreshold ?q = botCircuitFailureThreshold p" "botCircuitCooldown ?q = botCircuitCooldown p"
      using failures_below [OF bot, of fs p] fs len new by (auto simp: new_circuit_def)
    have "bot_failures key (fs @ [(t, e)]) p = RecordBotFailure t key e ?q" by (simp add: bot_failures_def)
    then show ?thesis using bot fs q len by (simp add: RecordBotFailure_def circuit_failure_def Let_def)
  qed
  moreover have "0 < botCircuitCooldown p" by (simp add: botCircuitCooldown_def)
  ultimately show ?thesis using t by (auto simp: available_iff [OF bot] RecordBotFailure_def)
qed

lemma circuit_breaker_witness:
  "\<not> snd (isBotClientAvailable ''user:1:bot:9:x'' 103
      (bot_failures ''user:1:bot:9:x'' ([(100, EOF), (101, EOF)] @ [(102, EOF)]) (NewClientPool None :: nat pool)))"
proof -
  have "isBotClientKey ''user:1:bot:9:x''" by code_simp
  moreover have "getBotCircuitState (NewClientPool None :: nat pool) ''user:1:bot:9:x'' = new_circuit"
    by (simp add: getBotCircuitState_def NewClientPool_def)
  moreover have "int (length [(100 :: int, EOF), (101, EOF)]) + 1 = botCircuitFailureThreshold (NewClientPool None :: nat pool)"
    by (simp add: botCircuitFailureThreshold_def NewClientPool_def)
  ultimately show ?thesis
    using circuit_breaker [of "''user:1:bot:9:x''" "NewClientPool None :: nat pool" "[(100, EOF), (101, EOF)]" 102 EOF 103 EOF]
    by (simp add: botCircuitCooldown_def NewClientPool_def)
qed

text \<open>
  Both bot selectors are round robin and agree: the \<open>i\<close>-th call with a fixed list of bots returns bot \<open>i\<close> modulo
  their number, whether the counter is the map of one process or the shared counter of Redis.\<close>

lemma selectors_round_robin:
  assumes "bots \<noteq> []" "int n < 2 ^ 63"
  shows "memory_run op userID bots n [] = Some (map (\<lambda>i. Inr (bots ! (i mod length bots), i mod length bots)) [0..<n]) \<and>
    (\<forall>i < n. redis_Next (Inr (int i + 1)) bots = Some (Inr (bots ! (i mod length bots), int (i mod length bots))))"
proof -
  have "redis_Next (Inr (int i + 1)) bots = Some (Inr (bots ! (i mod length bots), int (i mod length bots)))" if "i < n" for i
    using redis_Next_eq [of bots "int i + 1"] that assms by (simp flip: of_nat_mod)
  then show ?thesis using memory_run_eq [of bots 0 "[]" op userID n] assms by simp
qed

lemma selectors_round_robin_witness:
  "memory_run ''stream'' 5 [''1:a'', ''2:b''] 3 [] = Some [Inr (''1:a'', 0), Inr (''2:b'', 1), Inr (''1:a'', 0)]"
  using selectors_round_robin [of "[''1:a'', ''2:b'']" 3 "''stream''" 5] by (simp add: upt_rec)

text \<open>
  The stored index belongs to the list of the previous call: when the bots of a user become
  fewer, the index may lie behind the new list and \<^verbatim>\<open>Next\<close> panics.
\<close>

lemma memory_Next_panics:
  "memory_Next op userID [b] (fst (the (memory_Next op userID [a, b] []))) = None"
  by (simp add: memory_Next_def index_at_def Let_def)

text \<open>
  The log form of a bot's key does not depend on the secret part of its token: it keeps the user, the bot id and nothing
  after the bot id.\<close>

lemma redact_hides_token:
  assumes "CHR '':'' \<notin> set botID"
  shows "redactBotClientKey (bot_key userID (botID @ '':'' @ secret)) = bot_key userID botID @ '':***''"
proof -
  have colon: "CHR '':'' \<notin> set (itoa userID)" by (rule itoa_no_colon(1))
  have "take 4 (itoa userID @ CHR '':'' # xs) \<noteq> ''bot:''" for xs
    using itoa_no_colon(2) [of userID] by (cases "itoa userID") auto
  then have cut: "cut_at '':bot:'' (bot_key userID token) = Some (''user:'' @ itoa userID, token)" for token
    using cut_at_skip [OF colon, of "''bot:''" token] by (simp add: bot_key_def eval_nat_numeral)
  have "isBotClientKey (bot_key userID (botID @ '':'' @ secret))"
    using str_contains_append [of "''user:'' @ itoa userID" "'':bot:''"] by (simp add: isBotClientKey_def bot_key_def)
  with cut [of "botID @ '':'' @ secret"] show ?thesis
    using split_on_append [OF assms, of secret] by (simp add: redactBotClientKey_def bot_key_def)
qed

lemma redact_hides_token_witness:
  "redactBotClientKey (bot_key 5 (''123'' @ '':'' @ ''secret'')) = ''user:5:bot:123:***''"
  using redact_hides_token [of "''123''" 5 "''secret''"] by (simp add: bot_key_def itoa_5)

end
