(* ===== verification/Cache.thy ===== *)
theory Cache
  imports Prelude
begin

section \<open>The cache (internal/cache/cache.go, keys.go)\<close>

text \<open>
  The cache in front of the database and of Telegram: \<open>MemoryCache\<close> over freecache and
  \<open>RedisCache\<close> over Redis behind one interface, and the fetch functions over that interface.

  The stores themselves are other packages. A store is a state with four operations, which are
  parameters here: the content of a key at a time, setting a key with a number of time units to
  live, deleting a key, and the list of its keys. What freecache and Redis document about them is
  the locale \<open>byte_store\<close>: a key holds nothing or what was last set, until it is deleted or its
  time is over; a store may drop other entries at any \<open>Set\<close> (freecache evicts when it is full).
  The encoding (\<^verbatim>\<open>msgpack\<close>) is a pair of functions, the faults of the connection to Redis a
  function of the time and the key. Times and durations are nanoseconds.
\<close>

subsection \<open>Keys\<close>

text \<open>\<open>Key\<close> joins the formatted values: strings are taken as they are, integers in decimal.\<close>

datatype key_arg = KNil | KStr string | KInt int

fun formatValue :: "key_arg \<Rightarrow> string" where
  "formatValue KNil = ''nil''"
| "formatValue (KStr s) = s"
| "formatValue (KInt i) = itoa i"

definition Key :: "key_arg list \<Rightarrow> string" where
  "Key args = join_with '':'' (map formatValue args)"

definition KeyUserChannel :: "int \<Rightarrow> string" where
  "KeyUserChannel userID = Key [KStr ''users'', KStr ''channel'', KInt userID]"

definition KeyUserBots :: "int \<Rightarrow> string" where
  "KeyUserBots userID = Key [KStr ''users'', KStr ''bots'', KInt userID]"

definition KeyUserSessions :: "int \<Rightarrow> string" where
  "KeyUserSessions userID = Key [KStr ''users'', KStr ''sessions'', KInt userID]"

definition KeyFile :: "string \<Rightarrow> string" where
  "KeyFile fileID = Key [KStr ''files'', KStr fileID]"

definition KeyFileMessages :: "string \<Rightarrow> string" where
  "KeyFileMessages fileID = Key [KStr ''files'', KStr ''messages'', KStr fileID]"

definition KeyFilePath :: "string \<Rightarrow> string" where
  "KeyFilePath fileID = Key [KStr ''files'', KStr ''path'', KStr fileID]"

definition KeyFileLocation :: "string \<Rightarrow> string \<Rightarrow> string \<Rightarrow> key_arg \<Rightarrow> string" where
  "KeyFileLocation inst botID fileID partID =
     Key [KStr ''files'', KStr ''location'', KStr ''bot'', KStr ''instance'', KStr fileID, partID, KStr botID, KStr inst]"

definition KeyFileLocationPattern :: "string \<Rightarrow> string" where
  "KeyFileLocationPattern fileID =
     Key [KStr ''files'', KStr ''location'', KStr ''bot'', KStr ''instance'', KStr fileID, KStr ''*'']"

definition KeySessionHash :: "string \<Rightarrow> string" where
  "KeySessionHash hash = Key [KStr ''sessions'', KStr hash]"

definition KeySessionToken :: "string \<Rightarrow> string \<Rightarrow> string" where
  "KeySessionToken inst token = Key [KStr ''sessions'', KStr inst, KStr token]"

definition KeyShare :: "string \<Rightarrow> string" where
  "KeyShare shareID = Key [KStr ''shares'', KStr shareID]"

definition KeyChannelLimit :: "int \<Rightarrow> string" where
  "KeyChannelLimit channelID = Key [KStr ''channels'', KStr ''limit'', KInt channelID]"

definition KeyPeer :: "int \<Rightarrow> string" where
  "KeyPeer userID = Key [KStr ''peers'', KInt userID]"

definition staleKey :: "string \<Rightarrow> string" where
  "staleKey key = Key [KStr key, KStr ''stale'']"

subsection \<open>Patterns: \<^verbatim>\<open>filepath.Match\<close>\<close>

text \<open>
  The matcher of Go's standard library for names of one-byte characters: \<^verbatim>\<open>*\<close> and \<^verbatim>\<open>?\<close> do not match
  a slash, a class is a list of ranges, and a malformed pattern matches nothing.
\<close>

fun getEsc :: "string \<Rightarrow> (char \<times> string) option" where
  "getEsc [] = None"
| "getEsc (c # cs) =
     (if c = CHR ''-'' \<or> c = CHR '']'' then None
      else if c = CHR 0x5C then (case cs of d # e # r \<Rightarrow> Some (d, e # r) | _ \<Rightarrow> None)
      else if cs = [] then None else Some (c, cs))"

lemma getEsc_length: "getEsc p = Some (c, q) \<Longrightarrow> length q < length p"
  by (cases p) (auto split: if_splits list.splits)

definition class_range :: "string \<Rightarrow> (char \<times> char \<times> string) option" where
  "class_range p =
     (case getEsc p of
        None \<Rightarrow> None
      | Some (lo, q) \<Rightarrow>
          (case q of
             CHR ''-'' # q' \<Rightarrow> map_option (\<lambda>(hi, r). (lo, hi, r)) (getEsc q')
           | _ \<Rightarrow> Some (lo, lo, q)))"

lemma class_range_length: "class_range p = Some (lo, hi, q) \<Longrightarrow> length q < length p"
proof -
  assume *: "class_range p = Some (lo, hi, q)"
  then obtain c r where r: "getEsc p = Some (c, r)" by (auto simp: class_range_def split: option.splits)
  then have "length r < length p" by (rule getEsc_length)
  moreover have "length q \<le> length r"
  proof (cases "\<exists>r'. r = CHR ''-'' # r'")
    case True
    then obtain r' where r': "r = CHR ''-'' # r'" by blast
    with * r have "getEsc r' = Some (hi, q)" by (auto simp: class_range_def)
    then show ?thesis using r' getEsc_length by fastforce
  next
    case False
    with * r have "q = r" by (simp add: class_range_def split: list.splits char.splits bool.splits)
    then show ?thesis by simp
  qed
  ultimately show ?thesis by simp
qed

function class_loop :: "char \<Rightarrow> bool \<Rightarrow> bool \<Rightarrow> string \<Rightarrow> (bool \<times> string) option" where
  "class_loop x first matched p =
     (if \<not> first \<and> p \<noteq> [] \<and> hd p = CHR '']'' then Some (matched, tl p)
      else case class_range p of
             None \<Rightarrow> None
           | Some (lo, hi, q) \<Rightarrow>
               class_loop x False (matched \<or> (of_char lo :: nat) \<le> of_char x \<and> (of_char x :: nat) \<le> of_char hi) q)"
  by pat_completeness auto
termination
  by (relation "measure (\<lambda>(x, f, m, p). length p)") (auto dest: class_range_length)

declare class_loop.simps [simp del]

lemma class_loop_length: "class_loop x f m p = Some (b, q) \<Longrightarrow> length q < length p"
proof (induction x f m p arbitrary: b q rule: class_loop.induct)
  case (1 x f m p)
  show ?case
  proof (cases "\<not> f \<and> p \<noteq> [] \<and> hd p = CHR '']''")
    case True
    with 1(2) show ?thesis by (subst (asm) class_loop.simps) auto
  next
    case False
    from 1(2) False obtain lo hi r where r: "class_range p = Some (lo, hi, r)"
      "class_loop x False (m \<or> (of_char lo :: nat) \<le> of_char x \<and> (of_char x :: nat) \<le> of_char hi) r = Some (b, q)"
      by (subst (asm) class_loop.simps) (auto split: option.splits prod.splits)
    from 1(1) [OF False r(1) refl refl r(2)] class_range_length [OF r(1)] show ?thesis by simp
  qed
qed

definition class_match :: "char \<Rightarrow> string \<Rightarrow> string option" where
  "class_match x p =
     (let negated = (p \<noteq> [] \<and> hd p = CHR ''^'') in
      case class_loop x True False (if negated then tl p else p) of
        None \<Rightarrow> None
      | Some (matched, q) \<Rightarrow> if matched = negated then None else Some q)"

lemma class_match_length: "class_match x p = Some q \<Longrightarrow> length q < length p"
  by (cases p) (auto simp: class_match_def Let_def split: option.splits if_splits dest: class_loop_length)

function filepath_Match :: "string \<Rightarrow> string \<Rightarrow> bool" where
  "filepath_Match [] s = (s = [])"
| "filepath_Match (c # p) s =
     (if c = CHR ''*'' then filepath_Match p s \<or> (case s of [] \<Rightarrow> False | x # s' \<Rightarrow> x \<noteq> CHR ''/'' \<and> filepath_Match (c # p) s')
      else case s of
             [] \<Rightarrow> False
           | x # s' \<Rightarrow>
               if c = CHR ''?'' then x \<noteq> CHR ''/'' \<and> filepath_Match p s'
               else if c = CHR ''['' then (case class_match x p of None \<Rightarrow> False | Some q \<Rightarrow> filepath_Match q s')
               else if c = CHR 0x5C then (case p of [] \<Rightarrow> False | d # q \<Rightarrow> x = d \<and> filepath_Match q s')
               else x = c \<and> filepath_Match p s')"
  by pat_completeness auto
termination
  by (relation "measures [\<lambda>(p, s). length s, \<lambda>(p, s). length p]") (auto dest: class_match_length)

subsection \<open>Stores\<close>

text \<open>The operations of a store of bytes, with the time at which they are called.\<close>

record 's store_ops =
  st_get :: "'s \<Rightarrow> int \<Rightarrow> string \<Rightarrow> bytes option"
  st_set :: "'s \<Rightarrow> int \<Rightarrow> string \<Rightarrow> bytes \<Rightarrow> int \<Rightarrow> 's \<times> go_error option"
  st_del :: "'s \<Rightarrow> string \<Rightarrow> 's"
  st_keys :: "'s \<Rightarrow> string list"

record 'v codec =
  co_Marshal :: "'v \<Rightarrow> go_error + bytes"
  co_Unmarshal :: "bytes \<Rightarrow> go_error + 'v"

definition cache_prefix :: string where
  "cache_prefix = ''teldrive:''"

subsection \<open>The memory cache\<close>

definition memory_Get :: "'s store_ops \<Rightarrow> 'v codec \<Rightarrow> 's \<Rightarrow> int \<Rightarrow> string \<Rightarrow> go_error + 'v" where
  "memory_Get st co s now key =
     (case st_get st s now (cache_prefix @ key) of
        None \<Rightarrow> Inl CacheNotFound
      | Some data \<Rightarrow> co_Unmarshal co data)"

text \<open>The time to live is cut to whole seconds; freecache takes zero as no limit.\<close>

definition memory_Set :: "'s store_ops \<Rightarrow> 'v codec \<Rightarrow> 's \<Rightarrow> int \<Rightarrow> string \<Rightarrow> 'v \<Rightarrow> int \<Rightarrow> 's \<times> go_error option" where
  "memory_Set st co s now key v expiration =
     (case co_Marshal co v of
        Inl e \<Rightarrow> (s, Some e)
      | Inr data \<Rightarrow> st_set st s now (cache_prefix @ key) data (go_div expiration (10 ^ 9)))"

definition memory_Delete :: "'s store_ops \<Rightarrow> string list \<Rightarrow> 's \<Rightarrow> 's" where
  "memory_Delete st keys s =
     fold (\<lambda>key s. st_del st (st_del st s (cache_prefix @ key)) (cache_prefix @ staleKey key)) keys s"

definition memory_DeletePattern :: "'s store_ops \<Rightarrow> string \<Rightarrow> 's \<Rightarrow> 's" where
  "memory_DeletePattern st pattern s =
     fold (\<lambda>key s. if filepath_Match (cache_prefix @ pattern) key then st_del st s key else s) (st_keys st s) s"

subsection \<open>The Redis cache\<close>

text \<open>
  A call may fail on its way: \<open>fault\<close> tells for which time and key, with which error, and whether
  the server had carried the command out. \<open>glob\<close> is the server's pattern match.
\<close>

type_synonym faults = "int \<Rightarrow> string \<Rightarrow> (go_error \<times> bool) option"

definition redis_Get :: "'s store_ops \<Rightarrow> faults \<Rightarrow> 'v codec \<Rightarrow> 's \<Rightarrow> int \<Rightarrow> string \<Rightarrow> go_error + 'v" where
  "redis_Get st fault co s now key =
     (case fault now (cache_prefix @ key) of
        Some (e, _) \<Rightarrow> Inl e
      | None \<Rightarrow>
          (case st_get st s now (cache_prefix @ key) of
             None \<Rightarrow> Inl RedisNil
           | Some data \<Rightarrow> co_Unmarshal co data))"

definition redis_Set ::
  "'s store_ops \<Rightarrow> faults \<Rightarrow> 'v codec \<Rightarrow> 's \<Rightarrow> int \<Rightarrow> string \<Rightarrow> 'v \<Rightarrow> int \<Rightarrow> 's \<times> go_error option" where
  "redis_Set st fault co s now key v expiration =
     (case co_Marshal co v of
        Inl e \<Rightarrow> (s, Some e)
      | Inr data \<Rightarrow>
          (case fault now (cache_prefix @ key) of
             Some (e, False) \<Rightarrow> (s, Some e)
           | Some (e, True) \<Rightarrow> (fst (st_set st s now (cache_prefix @ key) data expiration), Some e)
           | None \<Rightarrow> st_set st s now (cache_prefix @ key) data expiration))"

definition redis_del_keys :: "string list \<Rightarrow> string list" where
  "redis_del_keys keys = concat (map (\<lambda>key. [cache_prefix @ key, cache_prefix @ staleKey key]) keys)"

definition redis_Delete :: "'s store_ops \<Rightarrow> (go_error \<times> bool) option \<Rightarrow> string list \<Rightarrow> 's \<Rightarrow> 's \<times> go_error option" where
  "redis_Delete st fault keys s =
     (let s' = fold (\<lambda>key s. st_del st s key) (redis_del_keys keys) s in
      case fault of
        None \<Rightarrow> (s', None)
      | Some (e, applied) \<Rightarrow> (if applied then s' else s, Some e))"

text \<open>The errors of \<open>DeletePattern\<close> are joined: the list is empty exactly when it returns nil.\<close>

definition redis_DeletePattern ::
  "'s store_ops \<Rightarrow> (string \<Rightarrow> string \<Rightarrow> bool) \<Rightarrow> (string \<Rightarrow> (go_error \<times> bool) option) \<Rightarrow> go_error option \<Rightarrow> string \<Rightarrow> 's \<Rightarrow>
   's \<times> go_error list" where
  "redis_DeletePattern st glob fault iterErr pattern s =
     (let hits = filter (glob (cache_prefix @ pattern)) (st_keys st s);
          (s', errs) = fold (\<lambda>key (s, errs).
             case fault key of
               None \<Rightarrow> (st_del st s key, errs)
             | Some (e, applied) \<Rightarrow> (if applied then st_del st s key else s, errs @ [e])) hits (s, [])
      in (s', errs @ (case iterErr of None \<Rightarrow> [] | Some e \<Rightarrow> [e])))"

subsection \<open>Fetching through a cache\<close>

definition isNotFound :: "go_error \<Rightarrow> bool" where
  "isNotFound err = (errors_Is err CacheNotFound \<or> errors_Is err RedisNil)"

definition maxDuration :: "int \<Rightarrow> int \<Rightarrow> int" where
  "maxDuration a b = (if a \<ge> b then a else b)"

text \<open>
  What a fetch meets: the times of its first look, of the look inside the flight and of the store;
  whether it joins a flight of the same key that another call has started (with the result of
  that flight, which has no value of the caller's type when the other call has another type);
  and whether the caller's context ends first.
\<close>

record 'v fetch_env =
  fe_first :: int
  fe_again :: int
  fe_store :: int
  fe_joined :: "(go_error + 'v option) option"
  fe_done :: "go_error option"

definition waitSingleflight :: "'v fetch_env \<Rightarrow> string \<Rightarrow> go_error + 'v option \<Rightarrow> go_error + 'v" where
  "waitSingleflight env key r =
     (case fe_done env of
        Some e \<Rightarrow> Inl e
      | None \<Rightarrow>
          (case r of
             Inl e \<Rightarrow> Inl e
           | Inr None \<Rightarrow> Inl (ErrText (''cache fetch type mismatch for key '' @ key))
           | Inr (Some v) \<Rightarrow> Inr v))"

type_synonym ('s, 'v) cache_get = "'s \<Rightarrow> int \<Rightarrow> string \<Rightarrow> go_error + 'v"
type_synonym ('s, 'v) cache_set = "'s \<Rightarrow> int \<Rightarrow> string \<Rightarrow> 'v \<Rightarrow> int \<Rightarrow> 's \<times> go_error option"

definition cache_flight ::
  "('s, 'v) cache_get \<Rightarrow> ('s \<Rightarrow> 'v \<Rightarrow> 's) \<Rightarrow> int \<Rightarrow> string \<Rightarrow> go_error + 'v \<Rightarrow> 's \<Rightarrow> 's \<times> (go_error + 'v)" where
  "cache_flight get store again key fn s =
     (case get s again key of
        Inr cachedValue \<Rightarrow> (s, Inr cachedValue)
      | Inl _ \<Rightarrow>
          (case fn of
             Inl execErr \<Rightarrow> (s, Inl execErr)
           | Inr freshValue \<Rightarrow> (store s freshValue, Inr freshValue)))"

definition store_fresh :: "('s, 'v) cache_set \<Rightarrow> int \<Rightarrow> string \<Rightarrow> int \<Rightarrow> 's \<Rightarrow> 'v \<Rightarrow> 's" where
  "store_fresh put now key expiration s v = fst (put s now key v expiration)"

definition store_both :: "('s, 'v) cache_set \<Rightarrow> int \<Rightarrow> string \<Rightarrow> int \<Rightarrow> int \<Rightarrow> 's \<Rightarrow> 'v \<Rightarrow> 's" where
  "store_both put now key expiration staleExpiration s v =
     store_fresh put now (staleKey key) (maxDuration expiration staleExpiration) (store_fresh put now key expiration s v) v"

definition do_flight ::
  "('s, 'v) cache_get \<Rightarrow> ('s \<Rightarrow> 'v \<Rightarrow> 's) \<Rightarrow> 'v fetch_env \<Rightarrow> string \<Rightarrow> go_error + 'v \<Rightarrow> 's \<Rightarrow> 's \<times> (go_error + 'v)" where
  "do_flight get store env key fn s =
     (case fe_joined env of
        Some r \<Rightarrow> (s, waitSingleflight env key r)
      | None \<Rightarrow>
          (case cache_flight get store (fe_again env) key fn s of
             (s', r) \<Rightarrow> (s', waitSingleflight env key (map_sum id Some r))))"

definition Fetch ::
  "('s, 'v) cache_get \<Rightarrow> ('s, 'v) cache_set \<Rightarrow> 'v fetch_env \<Rightarrow> string \<Rightarrow> int \<Rightarrow> go_error + 'v \<Rightarrow> 's \<Rightarrow> 's \<times> (go_error + 'v)" where
  "Fetch get put env key expiration fn s =
     (case get s (fe_first env) key of
        Inr v \<Rightarrow> (s, Inr v)
      | Inl err \<Rightarrow>
          if isNotFound err then do_flight get (store_fresh put (fe_store env) key expiration) env key fn s
          else (s, Inl err))"

definition FetchArg ::
  "('s, 'v) cache_get \<Rightarrow> ('s, 'v) cache_set \<Rightarrow> 'v fetch_env \<Rightarrow> string \<Rightarrow> int \<Rightarrow> ('a \<Rightarrow> go_error + 'v) \<Rightarrow> 'a \<Rightarrow> 's \<Rightarrow>
   's \<times> (go_error + 'v)" where
  "FetchArg get put env key expiration fn a s = Fetch get put env key expiration (fn a) s"

text \<open>\<open>FetchWithStale\<close> also says whether it has started a refresh in the background.\<close>

definition FetchWithStale ::
  "('s, 'v) cache_get \<Rightarrow> ('s, 'v) cache_set \<Rightarrow> 'v fetch_env \<Rightarrow> string \<Rightarrow> int \<Rightarrow> int \<Rightarrow> go_error + 'v \<Rightarrow> 's \<Rightarrow>
   's \<times> (go_error + 'v) \<times> bool" where
  "FetchWithStale get put env key expiration staleExpiration fn s =
     (case get s (fe_first env) key of
        Inr v \<Rightarrow> (s, Inr v, False)
      | Inl err \<Rightarrow>
          if \<not> isNotFound err then (s, Inl err, False)
          else (case get s (fe_first env) (staleKey key) of
                  Inr staleValue \<Rightarrow> (s, Inr staleValue, True)
                | Inl _ \<Rightarrow>
                    (case do_flight get (store_both put (fe_store env) key expiration staleExpiration) env key fn s of
                       (s', r) \<Rightarrow> (s', r, False))))"

definition refreshStaleValue ::
  "('s, 'v) cache_get \<Rightarrow> ('s, 'v) cache_set \<Rightarrow> 'v fetch_env \<Rightarrow> string \<Rightarrow> int \<Rightarrow> int \<Rightarrow> go_error + 'v \<Rightarrow> 's \<Rightarrow> 's" where
  "refreshStaleValue get put env key expiration staleExpiration fn s =
     (if fe_joined env \<noteq> None then s
      else fst (cache_flight get (store_both put (fe_store env) key expiration staleExpiration) (fe_again env) key fn s))"

subsection \<open>What stores and caches promise\<close>

text \<open>
  The documented behaviour of the stores. \<open>unit\<close> is the length of a unit of the time to live: a
  second for freecache, a nanosecond for Redis; no positive number of units means no limit.
\<close>

locale byte_store =
  fixes st :: "'s store_ops" and unit :: int
  assumes set_same: "st_set st s now k d ttl = (s', None) \<Longrightarrow> st_get st s' t k = Some x \<Longrightarrow> x = d"
    and set_seen: "st_set st s now k d ttl = (s', None) \<Longrightarrow> now \<le> t \<Longrightarrow> ttl \<le> 0 \<or> t < now + ttl * unit \<Longrightarrow>
      st_get st s' t k = Some d"
    and set_expired: "st_set st s now k d ttl = (s', None) \<Longrightarrow> 0 < ttl \<Longrightarrow> now + ttl * unit \<le> t \<Longrightarrow> st_get st s' t k = None"
    and set_other: "st_set st s now k d ttl = (s', e) \<Longrightarrow> k' \<noteq> k \<or> e \<noteq> None \<Longrightarrow> st_get st s' t k' = Some x \<Longrightarrow>
      st_get st s t k' = Some x"
    and del_same: "st_get st (st_del st s k) t k = None"
    and del_other: "st_get st (st_del st s k) t k' = Some x \<Longrightarrow> st_get st s t k' = Some x"
    and keys_all: "st_get st s t k \<noteq> None \<Longrightarrow> k \<in> set (st_keys st s)"
begin

lemma dels_gone: "k \<in> set ks \<or> st_get st s t k = None \<Longrightarrow> st_get st (fold (\<lambda>k s. st_del st s k) ks s) t k = None"
proof (induction ks arbitrary: s)
  case (Cons k' ks)
  have "st_get st s t k = None \<Longrightarrow> st_get st (st_del st s k') t k = None"
    using del_other [of s k' t k] by (cases "st_get st (st_del st s k') t k") auto
  with Cons show ?case using del_same [of s k t] by auto
qed auto

lemma dels_other: "st_get st (fold (\<lambda>k s. st_del st s k) ks s) t k = Some x \<Longrightarrow> st_get st s t k = Some x"
  by (induction ks arbitrary: s) (auto dest: del_other)

lemma dels_if: "fold (\<lambda>k s. if P k then st_del st s k else s) ks s = fold (\<lambda>k s. st_del st s k) (filter P ks) s"
  by (induction ks arbitrary: s) auto

end

definition codec_ok :: "'v codec \<Rightarrow> bool" where
  "codec_ok co \<longleftrightarrow> (\<forall>v data. co_Marshal co v = Inr data \<longrightarrow> co_Unmarshal co data = Inr v)"

text \<open>
  The interface \<open>Cacher\<close>, as its clients rely on it: a key gives an error or the value last set,
  and a deleted key, with its stale copy, gives an error.
\<close>

locale cacher =
  fixes get :: "('s, 'v) cache_get" and put :: "('s, 'v) cache_set" and remove :: "string list \<Rightarrow> 's \<Rightarrow> 's"
  assumes put_same: "put s now k v ttl = (s', None) \<Longrightarrow> get s' t k = Inr w \<Longrightarrow> w = v"
    and put_other: "put s now k v ttl = (s', e) \<Longrightarrow> k' \<noteq> k \<Longrightarrow> get s' t k' = Inr w \<Longrightarrow> \<exists>t'. get s t' k' = Inr w"
    and put_failed: "put s now k v ttl = (s', Some err) \<Longrightarrow> get s' t k = Inr w \<Longrightarrow> w = v \<or> (\<exists>t'. get s t' k = Inr w)"
    and remove_gone: "k \<in> set ks \<Longrightarrow> k' = k \<or> k' = staleKey k \<Longrightarrow> get (remove ks s) t k' \<noteq> Inr w"
    and remove_other: "get (remove ks s) t k = Inr w \<Longrightarrow> \<exists>t'. get s t' k = Inr w"

text \<open>
  The abstract specification of a cache: for each key, the values that a read may give. A successful
  \<open>Set\<close> leaves one, a failed one adds its value, a \<open>Delete\<close> leaves none.
\<close>

datatype 'v cache_op = CSet int string 'v int | CDelete "string list"

fun cache_step :: "('s, 'v) cache_set \<Rightarrow> (string list \<Rightarrow> 's \<Rightarrow> 's) \<Rightarrow> 'v cache_op \<Rightarrow> 's \<Rightarrow> 's" where
  "cache_step put remove (CSet now k v ttl) s = fst (put s now k v ttl)"
| "cache_step put remove (CDelete ks) s = remove ks s"

fun spec_step :: "('s, 'v) cache_set \<Rightarrow> (string list \<Rightarrow> 's \<Rightarrow> 's) \<Rightarrow> 'v cache_op \<Rightarrow> 's \<Rightarrow> (string \<Rightarrow> 'v set) \<Rightarrow> (string \<Rightarrow> 'v set)" where
  "spec_step put remove (CSet now k v ttl) s m =
     (if snd (put s now k v ttl) = None then m(k := {v}) else m(k := insert v (m k)))"
| "spec_step put remove (CDelete ks) s m = (\<lambda>k. if k \<in> set ks \<union> staleKey ` set ks then {} else m k)"

fun cache_run :: "('s, 'v) cache_set \<Rightarrow> (string list \<Rightarrow> 's \<Rightarrow> 's) \<Rightarrow> 'v cache_op list \<Rightarrow> 's \<Rightarrow> (string \<Rightarrow> 'v set) \<Rightarrow> 's \<times> (string \<Rightarrow> 'v set)" where
  "cache_run put remove [] s m = (s, m)"
| "cache_run put remove (a # as) s m = cache_run put remove as (cache_step put remove a s) (spec_step put remove a s m)"

context cacher
begin

definition coherent :: "'s \<Rightarrow> (string \<Rightarrow> 'v set) \<Rightarrow> bool" where
  "coherent s m \<longleftrightarrow> (\<forall>t k w. get s t k = Inr w \<longrightarrow> w \<in> m k)"

lemma step_coherent: "coherent s m \<Longrightarrow> coherent (cache_step put remove a s) (spec_step put remove a s m)"
proof (cases a)
  case (CSet now k v ttl)
  assume c: "coherent s m"
  obtain s' e where p: "put s now k v ttl = (s', e)" by fastforce
  show ?thesis unfolding coherent_def
  proof (intro allI impI)
    fix t k' w assume "get (cache_step put remove a s) t k' = Inr w"
    then have g: "get s' t k' = Inr w" using CSet p by simp
    show "w \<in> spec_step put remove a s m k'"
    proof (cases "k' = k")
      case True
      with g p CSet c put_same [of s now k v ttl s' t w] put_failed [of s now k v ttl s' _ t w] show ?thesis
        by (cases e) (auto simp: coherent_def)
    next
      case False
      with put_other [OF p False g] c CSet p show ?thesis by (auto simp: coherent_def)
    qed
  qed
next
  case (CDelete ks)
  assume "coherent s m"
  then show ?thesis using CDelete remove_gone [of _ ks] remove_other [of ks s] by (fastforce simp: coherent_def)
qed

lemma run_coherent: "coherent s m \<Longrightarrow> cache_run put remove as s m = (s', m') \<Longrightarrow> coherent s' m'"
  by (induction as arbitrary: s m) (auto dest: step_coherent)

lemma do_flight_result:
  assumes "do_flight get store env key fn s = (s', Inr v)" "fe_joined env = None"
  shows "(s' = s \<and> get s (fe_again env) key = Inr v) \<or> (s' = store s v \<and> fn = Inr v)"
  using assms by (auto simp: do_flight_def cache_flight_def waitSingleflight_def split: sum.splits prod.splits option.splits)

end

subsection \<open>Both caches keep the promises\<close>

lemma staleKey_eq: "staleKey k = k @ '':stale''"
  by (simp add: staleKey_def Key_def)

lemma staleKey_neq [simp]: "staleKey k \<noteq> k" "k \<noteq> staleKey k"
  by (simp_all add: staleKey_eq)

lemma memory_Delete_dels: "memory_Delete st ks s = fold (\<lambda>k s. st_del st s k) (redis_del_keys ks) s"
  by (induction ks arbitrary: s) (simp_all add: memory_Delete_def redis_del_keys_def)

lemma redis_del_keys_mem: "cache_prefix @ k' \<in> set (redis_del_keys ks) \<longleftrightarrow> (\<exists>k \<in> set ks. k' = k \<or> k' = staleKey k)"
  by (auto simp: redis_del_keys_def)

lemma codec_okD: "codec_ok co \<Longrightarrow> co_Marshal co v = Inr data \<Longrightarrow> co_Unmarshal co data = Inr v"
  by (simp add: codec_ok_def)

lemma memory_Get_Inr: "memory_Get st co s t k = Inr w \<longleftrightarrow> (\<exists>x. st_get st s t (cache_prefix @ k) = Some x \<and> co_Unmarshal co x = Inr w)"
  by (auto simp: memory_Get_def split: option.splits)

lemma redis_Get_Inr:
  "redis_Get st fault co s t k = Inr w \<longleftrightarrow> fault t (cache_prefix @ k) = None \<and>
     (\<exists>x. st_get st s t (cache_prefix @ k) = Some x \<and> co_Unmarshal co x = Inr w)"
  by (auto simp: redis_Get_def split: option.splits)

lemma memory_Set_cases:
  assumes "memory_Set st co s now k v ttl = (s', e)"
  obtains "s' = s" "e \<noteq> None"
  | data e' where "co_Marshal co v = Inr data" "st_set st s now (cache_prefix @ k) data (go_div ttl (10 ^ 9)) = (s', e')"
      "e = e'"
  using assms by (auto simp: memory_Set_def split: sum.splits)

lemma redis_Set_cases:
  assumes "redis_Set st fault co s now k v ttl = (s', e)"
  obtains "s' = s" "e \<noteq> None"
  | data e' where "co_Marshal co v = Inr data" "st_set st s now (cache_prefix @ k) data ttl = (s', e')" "e = e' \<or> e \<noteq> None"
proof -
  show ?thesis
  proof (cases "co_Marshal co v")
    case (Inr data)
    obtain s1 e1 where "st_set st s now (cache_prefix @ k) data ttl = (s1, e1)" by fastforce
    with assms Inr that show ?thesis
      by (auto simp: redis_Set_def split: option.splits bool.splits)
  qed (use assms that in \<open>auto simp: redis_Set_def\<close>)
qed

text \<open>What setting a key of a store means for the reads of the cache above it.\<close>

context byte_store
begin

lemma set_read:
  assumes "codec_ok co" "co_Marshal co v = Inr data" "st_set st s now key data ttl = (s', e)"
    "st_get st s' t key' = Some x" "co_Unmarshal co x = Inr w"
  shows "(key' = key \<and> w = v) \<or> (st_get st s t key' = Some x \<and> (key' = key \<longrightarrow> e \<noteq> None))"
proof (cases "key' = key \<and> e = None")
  case True
  with assms(3,4) have "x = data" by (auto dest: set_same)
  with assms(1,2,5) True show ?thesis by (auto dest: codec_okD)
next
  case False
  with set_other [OF assms(3) _ assms(4)] show ?thesis by simp
qed

end

locale memory_cache = byte_store st "10 ^ 9" for st :: "'s store_ops" +
  fixes co :: "'v codec"
  assumes codec: "codec_ok co"

sublocale memory_cache \<subseteq> mem: cacher "memory_Get st co" "memory_Set st co" "memory_Delete st"
proof (unfold_locales, goal_cases)
  case (1 s now k v ttl s' t w)
  then obtain x where x: "st_get st s' t (cache_prefix @ k) = Some x" "co_Unmarshal co x = Inr w" by (auto simp: memory_Get_Inr)
  from 1(1) show ?case by (cases rule: memory_Set_cases) (use set_read [OF codec _ _ x] in fastforce)+
next
  case (2 s now k v ttl s' e k' t w)
  then obtain x where x: "st_get st s' t (cache_prefix @ k') = Some x" "co_Unmarshal co x = Inr w" by (auto simp: memory_Get_Inr)
  from 2(1) have "st_get st s t (cache_prefix @ k') = Some x"
    by (cases rule: memory_Set_cases) (use set_read [OF codec _ _ x] 2(2) x in fastforce)+
  then show ?case using x 2(3) by (auto simp: memory_Get_Inr)
next
  case (3 s now k v ttl s' e t w)
  then obtain x where x: "st_get st s' t (cache_prefix @ k) = Some x" "co_Unmarshal co x = Inr w" by (auto simp: memory_Get_Inr)
  from 3(1) have "w = v \<or> st_get st s t (cache_prefix @ k) = Some x"
    by (cases rule: memory_Set_cases) (use set_read [OF codec _ _ x] x in fastforce)+
  then show ?case using x 3(2) by (auto simp: memory_Get_Inr)
next
  case (4 k ks k' s t w)
  then have "st_get st (memory_Delete st ks s) t (cache_prefix @ k') = None"
    unfolding memory_Delete_dels by (intro dels_gone disjI1) (auto simp: redis_del_keys_mem)
  then show ?case by (simp add: memory_Get_Inr)
next
  case (5 ks s t k w)
  then show ?case unfolding memory_Delete_dels memory_Get_Inr by (blast dest: dels_other)
qed

locale redis_cache = byte_store st 1 for st :: "'s store_ops" +
  fixes co :: "'v codec" and fault :: faults
  assumes codec: "codec_ok co"

sublocale redis_cache \<subseteq> red: cacher "redis_Get st fault co" "redis_Set st fault co" "\<lambda>ks s. fst (redis_Delete st None ks s)"
proof (unfold_locales, goal_cases)
  case (1 s now k v ttl s' t w)
  then obtain x where x: "st_get st s' t (cache_prefix @ k) = Some x" "co_Unmarshal co x = Inr w" by (auto simp: redis_Get_Inr)
  from 1(1) show ?case by (cases rule: redis_Set_cases) (use set_read [OF codec _ _ x] in fastforce)+
next
  case (2 s now k v ttl s' e k' t w)
  then obtain x where x: "st_get st s' t (cache_prefix @ k') = Some x" "co_Unmarshal co x = Inr w" by (auto simp: redis_Get_Inr)
  from 2(1) have "st_get st s t (cache_prefix @ k') = Some x"
    by (cases rule: redis_Set_cases) (use set_read [OF codec _ _ x] 2(2) x in fastforce)+
  then show ?case using x 2(3) by (auto simp: redis_Get_Inr)
next
  case (3 s now k v ttl s' e t w)
  then obtain x where x: "st_get st s' t (cache_prefix @ k) = Some x" "co_Unmarshal co x = Inr w" by (auto simp: redis_Get_Inr)
  from 3(1) have "w = v \<or> st_get st s t (cache_prefix @ k) = Some x"
    by (cases rule: redis_Set_cases) (use set_read [OF codec _ _ x] x in fastforce)+
  then show ?case using x 3(2) by (auto simp: redis_Get_Inr)
next
  case (4 k ks k' s t w)
  then have "st_get st (fst (redis_Delete st None ks s)) t (cache_prefix @ k') = None"
    by (auto simp: redis_Delete_def Let_def redis_del_keys_mem intro!: dels_gone)
  then show ?case by (simp add: redis_Get_Inr)
next
  case (5 ks s t k w)
  then show ?case unfolding redis_Get_Inr by (auto simp: redis_Delete_def Let_def dest: dels_other)
qed

subsection \<open>A store that keeps the promises\<close>

definition map_store :: "int \<Rightarrow> (string \<times> bytes \<times> int option) list store_ops" where
  "map_store unit =
     \<lparr>st_get = (\<lambda>s now k. case map_of s k of
          None \<Rightarrow> None
        | Some (d, until) \<Rightarrow> if (case until of None \<Rightarrow> True | Some u \<Rightarrow> now < u) then Some d else None),
      st_set = (\<lambda>s now k d ttl. ((k, d, if 0 < ttl then Some (now + ttl * unit) else None) # s, None)),
      st_del = (\<lambda>s k. filter (\<lambda>(k', v). k' \<noteq> k) s),
      st_keys = (\<lambda>s. map fst s)\<rparr>"

definition byte_codec :: "bytes codec" where
  "byte_codec = \<lparr>co_Marshal = Inr, co_Unmarshal = Inr\<rparr>"

lemma map_of_filter_key: "map_of (filter (\<lambda>(k', v). k' \<noteq> k) al) k'' = (if k'' = k then None else map_of al k'')"
  by (induction al) auto

lemma map_store_ok: "byte_store (map_store unit) unit"
proof (unfold_locales, goal_cases)
  case (7 s t k)
  then have "map_of s k \<noteq> None" by (auto simp: map_store_def split: option.splits)
  then show ?case by (auto simp: map_store_def image_iff dest!: map_of_SomeD) (metis fst_conv)
qed (auto simp: map_store_def map_of_filter_key split: if_splits option.splits)

interpretation memory_sample: memory_cache "map_store (10 ^ 9)" byte_codec
  by (intro memory_cache.intro memory_cache_axioms.intro map_store_ok) (simp add: codec_ok_def byte_codec_def)

interpretation redis_sample: redis_cache "map_store 1" byte_codec "\<lambda>_ _. None"
  by (intro redis_cache.intro redis_cache_axioms.intro map_store_ok) (simp add: codec_ok_def byte_codec_def)

subsection \<open>Histories, stale copies, patterns\<close>

context memory_cache
begin

lemma memory_history:
  assumes "\<And>t k. st_get st s t k = None" "cache_run (memory_Set st co) (memory_Delete st) ops s (\<lambda>_. {}) = (s', m')"
    "memory_Get st co s' t k = Inr w"
  shows "w \<in> m' k"
proof -
  have "mem.coherent s (\<lambda>_. {})" by (simp add: mem.coherent_def memory_Get_Inr assms(1))
  from mem.run_coherent [OF this assms(2)] assms(3) show ?thesis by (auto simp: mem.coherent_def)
qed

lemma mem_cacher: "cacher (memory_Get st co) (memory_Set st co) (memory_Delete st)"
  by (rule mem.cacher_axioms)

text \<open>A deleted key is fetched from its source.\<close>

lemma fetch_deleted:
  assumes "k \<in> set ks" "fe_joined fe = None" "fe_done fe = None"
  shows "snd (Fetch (memory_Get st co) put fe k ttl fn (memory_Delete st ks s)) = fn"
proof -
  have "st_get st (memory_Delete st ks s) t (cache_prefix @ k) = None" for t
    unfolding memory_Delete_dels using assms(1) by (intro dels_gone disjI1) (auto simp: redis_del_keys_mem)
  then have "memory_Get st co (memory_Delete st ks s) t k = Inl CacheNotFound" for t by (simp add: memory_Get_def)
  with assms(2,3) show ?thesis
    by (cases fn) (simp_all add: Fetch_def do_flight_def cache_flight_def waitSingleflight_def isNotFound_def)
qed

lemma memory_Set_Get:
  assumes "memory_Set st co s now k v ttl = (s', None)" "now \<le> t" "secs = go_div ttl (10 ^ 9)"
  shows "secs \<le> 0 \<or> t < now + secs * 10 ^ 9 \<Longrightarrow> memory_Get st co s' t k = Inr v"
    "0 < secs \<Longrightarrow> now + secs * 10 ^ 9 \<le> t \<Longrightarrow> memory_Get st co s' t k = Inl CacheNotFound"
proof -
  from assms(1) obtain data where d: "co_Marshal co v = Inr data"
    "st_set st s now (cache_prefix @ k) data (go_div ttl (10 ^ 9)) = (s', None)" by (auto elim: memory_Set_cases)
  show "secs \<le> 0 \<or> t < now + secs * 10 ^ 9 \<Longrightarrow> memory_Get st co s' t k = Inr v"
    using set_seen [OF d(2) assms(2)] assms(3) codec_okD [OF codec d(1)] by (simp add: memory_Get_def)
  show "0 < secs \<Longrightarrow> now + secs * 10 ^ 9 \<le> t \<Longrightarrow> memory_Get st co s' t k = Inl CacheNotFound"
    using set_expired [OF d(2)] assms(3) by (simp add: memory_Get_def)
qed

lemma memory_Set_keeps:
  assumes "memory_Set st co s now k v ttl = (s', None)" "k' \<noteq> k"
  shows "memory_Get st co s' t k' = memory_Get st co s t k' \<or> memory_Get st co s' t k' = Inl CacheNotFound"
proof -
  from assms(1) obtain data where d: "co_Marshal co v = Inr data"
    "st_set st s now (cache_prefix @ k) data (go_div ttl (10 ^ 9)) = (s', None)" by (auto elim: memory_Set_cases)
  show ?thesis using set_other [OF d(2), of "cache_prefix @ k'" t] assms(2)
    by (cases "st_get st s' t (cache_prefix @ k')") (auto simp: memory_Get_def)
qed

lemma memory_DeletePattern_gone:
  "filepath_Match (cache_prefix @ pattern) (cache_prefix @ k) \<Longrightarrow>
     memory_Get st co (memory_DeletePattern st pattern s) t k = Inl CacheNotFound"
proof -
  assume m: "filepath_Match (cache_prefix @ pattern) (cache_prefix @ k)"
  have "st_get st (memory_DeletePattern st pattern s) t (cache_prefix @ k) = None"
    unfolding memory_DeletePattern_def dels_if
    by (rule dels_gone) (use m keys_all [of s t "cache_prefix @ k"] in auto)
  then show ?thesis by (simp add: memory_Get_def)
qed

lemma stale_served:
  assumes s1: "memory_Set st co s now key v E = (s1, None)"
    and s2: "memory_Set st co s1 now (staleKey key) v (maxDuration E S) = (s2, None)"
    and t: "now \<le> fe_first env" "go_div (maxDuration E S) (10 ^ 9) \<le> 0 \<or> fe_first env < now + go_div (maxDuration E S) (10 ^ 9) * 10 ^ 9"
  shows "\<exists>refresh. FetchWithStale (memory_Get st co) (memory_Set st co) env key E S fn s2 = (s2, Inr v, refresh) \<and>
    (0 < go_div E (10 ^ 9) \<and> now + go_div E (10 ^ 9) * 10 ^ 9 \<le> fe_first env \<longrightarrow> refresh)"
proof -
  let ?t = "fe_first env"
  have stale: "memory_Get st co s2 ?t (staleKey key) = Inr v" using memory_Set_Get(1) [OF s2 t(1) refl] t(2) by simp
  have fresh: "memory_Get st co s1 ?t key = Inr v \<or> memory_Get st co s1 ?t key = Inl CacheNotFound"
    using memory_Set_Get [OF s1 t(1) refl] by fastforce
  have gone: "memory_Get st co s1 ?t key = Inl CacheNotFound" if "0 < go_div E (10 ^ 9)" "now + go_div E (10 ^ 9) * 10 ^ 9 \<le> ?t"
    using memory_Set_Get(2) [OF s1 t(1) refl] that by simp
  from memory_Set_keeps [OF s2, of key ?t] fresh gone stale show ?thesis
    by (cases "memory_Get st co s2 ?t key") (auto simp: FetchWithStale_def isNotFound_def)
qed

end

context redis_cache
begin

lemma redis_history:
  assumes "\<And>t k. st_get st s t k = None"
    "cache_run (redis_Set st fault co) (\<lambda>ks s. fst (redis_Delete st None ks s)) ops s (\<lambda>_. {}) = (s', m')"
    "redis_Get st fault co s' t k = Inr w"
  shows "w \<in> m' k"
proof -
  have "red.coherent s (\<lambda>_. {})" by (simp add: red.coherent_def redis_Get_Inr assms(1))
  from red.run_coherent [OF this assms(2)] assms(3) show ?thesis by (auto simp: red.coherent_def)
qed

end

text \<open>Matching of a literal and of a trailing star.\<close>

definition plain :: "string \<Rightarrow> bool" where
  "plain s \<longleftrightarrow> set s \<inter> {CHR ''*'', CHR ''?'', CHR ''['', CHR 0x5C} = {}"

lemma filepath_Match_plain: "plain a \<Longrightarrow> filepath_Match (a @ p) (a @ s) = filepath_Match p s"
  by (induction a) (auto simp: plain_def)

lemma filepath_Match_star: "CHR ''/'' \<notin> set s \<Longrightarrow> filepath_Match [CHR ''*''] s"
  by (induction s) auto

lemma filepath_Match_prefix: "plain a \<Longrightarrow> CHR ''/'' \<notin> set s \<Longrightarrow> filepath_Match (a @ ''*'') (a @ s)"
  using filepath_Match_plain [of a "''*''" s] filepath_Match_star by blast

definition loc_prefix :: "string \<Rightarrow> string" where
  "loc_prefix fileID = ''files:location:bot:instance:'' @ fileID @ '':''"

lemma KeyFileLocationPattern_eq: "KeyFileLocationPattern fileID = loc_prefix fileID @ ''*''"
  by (simp add: KeyFileLocationPattern_def Key_def loc_prefix_def)

lemma KeyFileLocation_eq:
  "KeyFileLocation inst botID fileID part = loc_prefix fileID @ formatValue part @ '':'' @ botID @ '':'' @ inst"
  by (simp add: KeyFileLocation_def Key_def loc_prefix_def)

lemma loc_prefix_plain: "plain fileID \<Longrightarrow> plain (cache_prefix @ loc_prefix fileID)"
  by (auto simp: plain_def loc_prefix_def cache_prefix_def)

lemma join_inj:
  "\<forall>x \<in> set xs. c \<notin> set x \<Longrightarrow> \<forall>y \<in> set ys. c \<notin> set y \<Longrightarrow> xs \<noteq> [] \<Longrightarrow> ys \<noteq> [] \<Longrightarrow>
     join_with [c] xs = join_with [c] ys \<longleftrightarrow> xs = ys"
proof -
  have "split_on c (join_with [c] xs) = xs" if "\<forall>x \<in> set xs. c \<notin> set x" "xs \<noteq> []" for xs :: "string list"
    using that by (induction "[c]" xs rule: join_with.induct) (auto simp: split_on_id split_on_append)
  then show "\<forall>x \<in> set xs. c \<notin> set x \<Longrightarrow> \<forall>y \<in> set ys. c \<notin> set y \<Longrightarrow> xs \<noteq> [] \<Longrightarrow> ys \<noteq> [] \<Longrightarrow> ?thesis"
    by metis
qed

subsection \<open>Properties\<close>



text \<open>
  The stale window of \<open>FetchWithStale\<close>: after a fetch has stored a value and its stale copy, a later fetch before the
  longer of the two times (in whole seconds) is over returns that value at once, whatever the database would
  answer; once the fresh copy has expired, it also starts the refresh in the background.\<close>

lemma stale_window:
  assumes "memory_cache st co"
    and "memory_Set st co s now key v E = (s1, None)" "memory_Set st co s1 now (staleKey key) v (maxDuration E S) = (s2, None)"
    and "now \<le> fe_first env"
      "go_div (maxDuration E S) (10 ^ 9) \<le> 0 \<or> fe_first env < now + go_div (maxDuration E S) (10 ^ 9) * 10 ^ 9"
  shows "store_both (memory_Set st co) now key E S s v = s2 \<and>
    (\<exists>refresh. FetchWithStale (memory_Get st co) (memory_Set st co) env key E S fn s2 = (s2, Inr v, refresh) \<and>
      (0 < go_div E (10 ^ 9) \<and> now + go_div E (10 ^ 9) * 10 ^ 9 \<le> fe_first env \<longrightarrow> refresh))"
  using memory_cache.stale_served [OF assms] assms(2,3) by (simp add: store_both_def store_fresh_def)

lemma stale_window_witness:
  "\<exists>s2. FetchWithStale (memory_Get (map_store (10 ^ 9)) byte_codec) (memory_Set (map_store (10 ^ 9)) byte_codec)
     \<lparr>fe_first = 3 * 10 ^ 9, fe_again = 0, fe_store = 0, fe_joined = None, fe_done = None\<rparr> ''k'' (10 ^ 9) (5 * 10 ^ 9)
     (Inl EOF) s2 = (s2, Inr [7], True)"
proof -
  let ?set = "memory_Set (map_store (10 ^ 9)) byte_codec" and ?env = "\<lparr>fe_first = 3 * 10 ^ 9, fe_again = 0, fe_store = 0, fe_joined = None, fe_done = None\<rparr> :: bytes fetch_env"
  have ok: "\<exists>s'. ?set s now k v ttl = (s', None)" for s now k v ttl
    by (simp add: memory_Set_def byte_codec_def map_store_def)
  obtain s1 where s1: "?set [] 0 ''k'' [7] (10 ^ 9) = (s1, None)" using ok by blast
  obtain s2 where s2: "?set s1 0 (staleKey ''k'') [7] (maxDuration (10 ^ 9) (5 * 10 ^ 9)) = (s2, None)" using ok by blast
  show ?thesis
    using stale_window [OF memory_sample.memory_cache_axioms s1 s2, of ?env "Inl EOF"]
    by (auto simp: go_div_def maxDuration_def)
qed

text \<open>
  Changing a file drops every cached Telegram location of its parts from the memory cache: the pattern covers the
  keys of all parts, bots and sessions, and the keys of their negative entries.\<close>

lemma location_pattern_complete:
  assumes "memory_cache st co" "plain fileID" "CHR ''/'' \<notin> set (formatValue part @ botID @ inst)"
  shows "memory_Get st co (memory_DeletePattern st (KeyFileLocationPattern fileID) s) t (KeyFileLocation inst botID fileID part) =
      Inl CacheNotFound \<and>
    memory_Get st co (memory_DeletePattern st (KeyFileLocationPattern fileID) s) t
      (Key [KStr (KeyFileLocation inst botID fileID part), KStr ''neg'']) = Inl CacheNotFound"
proof -
  have "filepath_Match (cache_prefix @ KeyFileLocationPattern fileID) (cache_prefix @ KeyFileLocation inst botID fileID part @ rest)"
    if "CHR ''/'' \<notin> set rest" for rest
    using filepath_Match_prefix [OF loc_prefix_plain [OF assms(2)], of "formatValue part @ '':'' @ botID @ '':'' @ inst @ rest"] assms(3) that
    by (simp add: KeyFileLocationPattern_eq KeyFileLocation_eq)
  from this [of "[]"] this [of "'':neg''"] show ?thesis
    by (auto simp: Key_def intro!: memory_cache.memory_DeletePattern_gone [OF assms(1)])
qed

lemma location_pattern_complete_witness:
  "memory_Get (map_store (10 ^ 9)) byte_codec
     (memory_DeletePattern (map_store (10 ^ 9)) (KeyFileLocationPattern ''f1'') [(''teldrive:files:location:bot:instance:f1:3:b:i'', [1], None)])
     0 (KeyFileLocation ''i'' ''b'' ''f1'' (KStr ''3'')) = Inl CacheNotFound"
  using location_pattern_complete [OF memory_sample.memory_cache_axioms, of "''f1''" "KStr ''3''" "''b''" "''i''"]
  by (simp add: plain_def)

text \<open>Cache keys do not collide: keys built from parts without a colon are equal only if their parts are equal.\<close>

lemma keys_injective:
  assumes "\<forall>a \<in> set xs \<union> set ys. CHR '':'' \<notin> set (formatValue a)" "xs \<noteq> []" "ys \<noteq> []"
  shows "Key xs = Key ys \<longleftrightarrow> map formatValue xs = map formatValue ys"
  using assms join_inj [of "map formatValue xs" "CHR '':''" "map formatValue ys"] by (auto simp: Key_def)

theorem keys_injective_witness: "KeyFilePath ''f1'' \<noteq> KeyFileMessages ''f1''"
  using keys_injective [of "[KStr ''files'', KStr ''path'', KStr ''f1'']" "[KStr ''files'', KStr ''messages'', KStr ''f1'']"]
  by (simp add: KeyFilePath_def KeyFileMessages_def)

end
