(* ===== verification/Chunk_Source.thy ===== *)
theory Chunk_Source
  imports Cache Tg_Reader
begin

section \<open>Locations of parts (internal/reader/tg_reader.go, internal/tgc/helpers.go)\<close>

text \<open>
  The chunk source of a part asks Telegram for the location of the part's document and keeps it in
  the cache; a failed lookup is kept too, for a short time. Answers of the Telegram API are data:
  the classes the sources distinguish by type assertions are constructors, and an assertion
  without a check panics (\<open>None\<close>) on any other constructor. \<open>'l\<close> is the type of file locations,
  \<open>'ch\<close> the type of channels.
\<close>

datatype 'ch tg_chat = Channel 'ch | OtherChat
datatype 'l tg_document = TgDocument 'l | OtherDocument
datatype 'l tg_media = MediaDocument "'l tg_document" | OtherMedia
datatype 'l tg_message = MessageEmpty | Message "'l tg_media" | OtherMessage
datatype 'l tg_messages = ChannelMessages "'l tg_message list" | OtherMessages
datatype tg_upload = UploadFile bytes | OtherUpload string

definition ErrInValidChannelId :: go_error where
  "ErrInValidChannelId = ErrText ''invalid channel id''"

definition GetChannelFull :: "go_error + 'ch tg_chat list \<Rightarrow> (go_error + 'ch) option" where
  "GetChannelFull channels =
     (case channels of
        Inl e \<Rightarrow> Some (Inl e)
      | Inr [] \<Rightarrow> Some (Inl ErrInValidChannelId)
      | Inr (Channel c # _) \<Rightarrow> Some (Inr c)
      | Inr (OtherChat # _) \<Rightarrow> None)"

definition GetChannelById :: "('ch \<Rightarrow> 'i) \<Rightarrow> go_error + 'ch tg_chat list \<Rightarrow> (go_error + 'i) option" where
  "GetChannelById asInput channels = map_option (map_sum id asInput) (GetChannelFull channels)"

text \<open>\<open>ask\<close> is the answer of \<^verbatim>\<open>ChannelsGetMessages\<close> for the message of the part in the channel.\<close>

definition GetLocation ::
  "('ch \<Rightarrow> 'i) \<Rightarrow> go_error + 'ch tg_chat list \<Rightarrow> ('i \<Rightarrow> int \<Rightarrow> go_error + 'l tg_messages) \<Rightarrow> int \<Rightarrow> (go_error + 'l option) option" where
  "GetLocation asInput channels ask partId =
     Option.bind (GetChannelById asInput channels) (\<lambda>ch.
       case ch of
         Inl e \<Rightarrow> Some (Inl e)
       | Inr channel \<Rightarrow>
           (case ask channel partId of
              Inl e \<Rightarrow> Some (Inl e)
            | Inr OtherMessages \<Rightarrow> None
            | Inr (ChannelMessages ms) \<Rightarrow>
                (case ms of
                   [] \<Rightarrow> Some (Inl (ErrText ''no messages found''))
                 | MessageEmpty # _ \<Rightarrow> Some (Inl (ErrText ''no messages found''))
                 | Message (MediaDocument (TgDocument l)) # _ \<Rightarrow> Some (Inr (Some l))
                 | Message _ # _ \<Rightarrow> None
                 | OtherMessage # _ \<Rightarrow> Some (Inr None))))"

definition GetLocationCached ::
  "('ch \<Rightarrow> 'i) \<Rightarrow> go_error + 'ch tg_chat list \<Rightarrow> ('i \<Rightarrow> int \<Rightarrow> go_error + 'l tg_messages) \<Rightarrow> int \<Rightarrow> (go_error + 'l) option" where
  "GetLocationCached asInput channels ask partId =
     Option.bind (GetChannelById asInput channels) (\<lambda>ch.
       case ch of
         Inl e \<Rightarrow> Some (Inl e)
       | Inr channel \<Rightarrow>
           (case ask channel partId of
              Inl e \<Rightarrow> Some (Inl e)
            | Inr OtherMessages \<Rightarrow> Some (Inl (ErrText ''no messages found''))
            | Inr (ChannelMessages ms) \<Rightarrow>
                Some (case ms of
                   [] \<Rightarrow> Inl (ErrText ''no messages found'')
                 | MessageEmpty # _ \<Rightarrow> Inl (ErrText ''no messages found'')
                 | Message OtherMedia # _ \<Rightarrow> Inl (ErrText (''unexpected media type for part '' @ itoa partId))
                 | Message (MediaDocument OtherDocument) # _ \<Rightarrow> Inl (ErrText (''unexpected document type for part '' @ itoa partId))
                 | Message (MediaDocument (TgDocument l)) # _ \<Rightarrow> Inr l
                 | OtherMessage # _ \<Rightarrow> Inl (ErrText ''no messages found''))))"

definition GetChunk :: "('l \<Rightarrow> int \<Rightarrow> int \<Rightarrow> go_error + tg_upload) \<Rightarrow> 'l \<Rightarrow> int \<Rightarrow> int \<Rightarrow> go_error + bytes" where
  "GetChunk getFile location offset limit =
     (case getFile location offset limit of
        Inl e \<Rightarrow> Inl e
      | Inr (UploadFile bs) \<Rightarrow> Inr bs
      | Inr (OtherUpload ty) \<Rightarrow> Inl (ErrText (''unexpected type '' @ ty)))"

subsection \<open>The negative cache\<close>

record locationLookupFailure =
  lf_Message :: string
  lf_DeadlineExceeded :: bool
  lf_Canceled :: bool
  lf_ChunkTimeoutMarker :: bool

definition locationCacheTTL :: int where "locationCacheTTL = 30 * 60 * 10 ^ 9"
definition locationNegativeCacheTTL :: int where "locationNegativeCacheTTL = 10 * 10 ^ 9"

definition locationFailureKey :: "string \<Rightarrow> string" where
  "locationFailureKey key = Key [KStr key, KStr ''neg'']"

definition getCachedLocationFailure :: "('s, locationLookupFailure) cache_get \<Rightarrow> 's \<Rightarrow> int \<Rightarrow> string \<Rightarrow> go_error option" where
  "getCachedLocationFailure get s now key =
     (case get s now (locationFailureKey key) of
        Inl _ \<Rightarrow> None
      | Inr failure \<Rightarrow>
          Some (if lf_Message failure = [] then ErrText ''location unavailable''
                else if lf_DeadlineExceeded failure then ErrWrap (lf_Message failure) CtxDeadlineExceeded
                else if lf_Canceled failure then ErrWrap (lf_Message failure) CtxCanceled
                else if lf_ChunkTimeoutMarker failure then ErrWrap (lf_Message failure) ErrChunkTimeout
                else ErrText (lf_Message failure)))"

definition lookup_failure :: "go_error \<Rightarrow> locationLookupFailure" where
  "lookup_failure err =
     \<lparr>lf_Message = error_text err, lf_DeadlineExceeded = errors_Is err CtxDeadlineExceeded,
      lf_Canceled = errors_Is err CtxCanceled, lf_ChunkTimeoutMarker = errors_Is err ErrChunkTimeout\<rparr>"

definition setCachedLocationFailure ::
  "('s, locationLookupFailure) cache_set \<Rightarrow> 's \<Rightarrow> int \<Rightarrow> string \<Rightarrow> go_error \<Rightarrow> 's \<times> go_error option" where
  "setCachedLocationFailure put s now key err = put s now (locationFailureKey key) (lookup_failure err) locationNegativeCacheTTL"

subsection \<open>Loading a location\<close>

text \<open>
  As in a fetch, the environment says when the steps happen, whether the call joins a flight of
  another caller, and whether its context ends first. \<open>lookup\<close> is the result of \<^verbatim>\<open>getLocation\<close>.
\<close>

definition location_flight ::
  "('s, 'l) cache_get \<Rightarrow> ('s, 'l) cache_set \<Rightarrow> ('s, locationLookupFailure) cache_get \<Rightarrow> ('s, locationLookupFailure) cache_set \<Rightarrow>
   'l fetch_env \<Rightarrow> string \<Rightarrow> go_error + 'l \<Rightarrow> 's \<Rightarrow> 's \<times> (go_error + 'l)" where
  "location_flight get put getF putF env key lookup s =
     (case get s (fe_again env) key of
        Inr cached \<Rightarrow> (s, Inr cached)
      | Inl _ \<Rightarrow>
          (case getCachedLocationFailure getF s (fe_again env) key of
             Some err \<Rightarrow> (s, Inl err)
           | None \<Rightarrow>
               (case lookup of
                  Inl fetchErr \<Rightarrow>
                    (if errors_Is fetchErr CtxCanceled then s
                     else fst (setCachedLocationFailure putF s (fe_store env) key fetchErr), Inl fetchErr)
                | Inr loc \<Rightarrow> (fst (put s (fe_store env) key loc locationCacheTTL), Inr loc))))"

definition location_wait :: "'l fetch_env \<Rightarrow> string \<Rightarrow> go_error + 'l option \<Rightarrow> go_error + 'l" where
  "location_wait env key r =
     (case fe_done env of
        Some e \<Rightarrow> Inl e
      | None \<Rightarrow>
          (case r of
             Inl e \<Rightarrow> Inl e
           | Inr None \<Rightarrow> Inl (ErrText (''location fetch type mismatch for key '' @ key))
           | Inr (Some l) \<Rightarrow> Inr l))"

definition loadLocation ::
  "('s, 'l) cache_get \<Rightarrow> ('s, 'l) cache_set \<Rightarrow> ('s, locationLookupFailure) cache_get \<Rightarrow> ('s, locationLookupFailure) cache_set \<Rightarrow>
   'l fetch_env \<Rightarrow> string \<Rightarrow> go_error + 'l \<Rightarrow> 's \<Rightarrow> 's \<times> (go_error + 'l)" where
  "loadLocation get put getF putF env key lookup s =
     (case get s (fe_first env) key of
        Inr location \<Rightarrow> (s, Inr location)
      | Inl _ \<Rightarrow>
          (case fe_joined env of
             Some r \<Rightarrow> (s, location_wait env key r)
           | None \<Rightarrow>
               (case location_flight get put getF putF env key lookup s of
                  (s', r) \<Rightarrow> (s', location_wait env key (map_sum id Some r)))))"

definition source_Chunk ::
  "('s, 'l) cache_get \<Rightarrow> ('s, 'l) cache_set \<Rightarrow> ('s, locationLookupFailure) cache_get \<Rightarrow> ('s, locationLookupFailure) cache_set \<Rightarrow>
   'l fetch_env \<Rightarrow> string \<Rightarrow> go_error + 'l \<Rightarrow> ('l \<Rightarrow> int \<Rightarrow> int \<Rightarrow> go_error + bytes) \<Rightarrow> int \<Rightarrow> int \<Rightarrow> 's \<Rightarrow> 's \<times> (go_error + bytes)" where
  "source_Chunk get put getF putF env key lookup getChunk offset limit s =
     (case loadLocation get put getF putF env key lookup s of
        (s', Inl err) \<Rightarrow> (s', Inl err)
      | (s', Inr location) \<Rightarrow> (s', getChunk location offset limit))"

subsection \<open>Lemmas\<close>

lemma lookup_failure_class:
  assumes "error_text err \<noteq> []" "\<not> errors_Is err CtxCanceled"
    "get s now (locationFailureKey key) = Inr (lookup_failure err)"
  shows "\<exists>e. getCachedLocationFailure get s now key = Some e \<and>
    isRetryableChunkError (Some e) = isRetryableChunkError (Some err) \<and> \<not> errors_Is e CtxCanceled \<and>
    errors_Is e CtxDeadlineExceeded = errors_Is err CtxDeadlineExceeded"
  using assms by (auto simp: getCachedLocationFailure_def lookup_failure_def isRetryableChunkError_def)

lemma locations_agree:
  assumes "GetLocation asInput channels ask partId = Some (Inr (Some l))"
  shows "GetLocationCached asInput channels ask partId = Some (Inr l)"
proof (cases "GetChannelById asInput channels")
  case (Some ch)
  then obtain c where c: "GetChannelById asInput channels = Some (Inr c)" using assms by (cases ch) (auto simp: GetLocation_def)
  then obtain ms where ms: "ask c partId = Inr (ChannelMessages ms)" using assms
    by (cases "ask c partId"; cases "projr (ask c partId)") (auto simp: GetLocation_def)
  obtain m rest where m: "ms = m # rest" using assms c ms by (cases ms) (auto simp: GetLocation_def)
  with assms c ms have "m = Message (MediaDocument (TgDocument l))"
    by (auto simp: GetLocation_def split: tg_message.splits tg_media.splits tg_document.splits)
  with c ms m show ?thesis by (simp add: GetLocationCached_def)
qed (use assms in \<open>simp add: GetLocation_def\<close>)

text \<open>The lookup that is used never panics on the answer of Telegram, unlike \<open>GetLocation\<close>.\<close>

lemma GetLocationCached_returns:
  "GetChannelById asInput channels \<noteq> None \<Longrightarrow> GetLocationCached asInput channels ask partId \<noteq> None"
  by (auto simp: GetLocationCached_def split: sum.splits tg_messages.splits)

subsection \<open>Properties\<close>

text \<open>
  A failed location lookup is remembered and not repeated: for ten seconds the memory cache answers the next lookups of
  the part without asking Telegram, with an error that the retry logic treats exactly as the original one;
  a cancelled lookup leaves the cache as it was.\<close>

lemma negative_location_cache:
  assumes "memory_cache st co" "memory_cache st coF"
    and none: "\<And>t. st_get st s t (cache_prefix @ key) = None" "\<And>t. st_get st s t (cache_prefix @ locationFailureKey key) = None"
    and err: "error_text err \<noteq> []" "\<not> errors_Is err CtxCanceled" "fe_joined env = None" "fe_done env = None"
    and run: "loadLocation (memory_Get st co) (memory_Set st co) (memory_Get st coF) (memory_Set st coF) env key (Inl err) s = (s1, r)"
    and stored: "snd (setCachedLocationFailure (memory_Set st coF) s (fe_store env) key err) = None"
    and later: "fe_joined env' = None" "fe_done env' = None" "fe_store env \<le> fe_again env'"
      "fe_again env' < fe_store env + locationNegativeCacheTTL"
  shows "r = Inl err \<and>
    (\<exists>e. loadLocation (memory_Get st co) (memory_Set st co) (memory_Get st coF) (memory_Set st coF) env' key lookup s1 = (s1, Inl e) \<and>
      isRetryableChunkError (Some e) = isRetryableChunkError (Some err) \<and>
      errors_Is e CtxDeadlineExceeded = errors_Is err CtxDeadlineExceeded) \<and>
    fst (loadLocation (memory_Get st co) (memory_Set st co) (memory_Get st coF) (memory_Set st coF) env key (Inl CtxCanceled) s) = s"
proof -
  have noloc: "memory_Get st co s t key = Inl CacheNotFound" and noneg: "memory_Get st coF s t (locationFailureKey key) = Inl CacheNotFound" for t
    using none by (simp_all add: memory_Get_def)
  then have noF: "getCachedLocationFailure (memory_Get st coF) s t key = None" for t by (simp add: getCachedLocationFailure_def)
  obtain s2 where set: "memory_Set st coF s (fe_store env) (locationFailureKey key) (lookup_failure err) locationNegativeCacheTTL = (s2, None)"
    using stored by (cases "memory_Set st coF s (fe_store env) (locationFailureKey key) (lookup_failure err) locationNegativeCacheTTL")
      (simp add: setCachedLocationFailure_def)
  have r: "r = Inl err" "s1 = s2"
    using run err noloc noF set
    by (auto simp: loadLocation_def location_flight_def location_wait_def setCachedLocationFailure_def)
  have "key \<noteq> locationFailureKey key" by (simp add: locationFailureKey_def Key_def)
  have loc2: "memory_Get st co s2 t key = Inl CacheNotFound" for t
  proof -
    have "st_get st s2 t (cache_prefix @ key) = None"
    proof (rule ccontr)
      assume "st_get st s2 t (cache_prefix @ key) \<noteq> None"
      then obtain x where x: "st_get st s2 t (cache_prefix @ key) = Some x" by blast
      from set have "st_get st s t (cache_prefix @ key) = Some x"
        using memory_cache.axioms(1) [OF assms(2)] x \<open>key \<noteq> locationFailureKey key\<close>
        by (auto elim!: memory_Set_cases dest: byte_store.set_other [where k' = "cache_prefix @ key"])
      then show False using none(1) by simp
    qed
    then show ?thesis by (simp add: memory_Get_def)
  qed
  have "memory_Get st coF s2 (fe_again env') (locationFailureKey key) = Inr (lookup_failure err)"
    using memory_cache.memory_Set_Get(1) [OF assms(2) set later(3) refl] later(4)
    by (simp add: locationNegativeCacheTTL_def go_div_def)
  from lookup_failure_class [of err "memory_Get st coF", OF err(1,2) this] obtain e where
    "getCachedLocationFailure (memory_Get st coF) s2 (fe_again env') key = Some e"
    "isRetryableChunkError (Some e) = isRetryableChunkError (Some err)"
    "errors_Is e CtxDeadlineExceeded = errors_Is err CtxDeadlineExceeded" by blast
  then show ?thesis using r loc2 later(1,2) err(3) noloc noF
    by (auto simp: loadLocation_def location_flight_def location_wait_def)
qed

text \<open>An encoding of failures: three flags and the message.\<close>

definition failure_codec :: "locationLookupFailure codec" where
  "failure_codec =
     \<lparr>co_Marshal = (\<lambda>f. Inr ([of_bool (lf_DeadlineExceeded f), of_bool (lf_Canceled f), of_bool (lf_ChunkTimeoutMarker f)] @
         map (\<lambda>c. word_of_nat (of_char c)) (lf_Message f))),
      co_Unmarshal = (\<lambda>bs. case bs of
           a # b # c # m \<Rightarrow> Inr \<lparr>lf_Message = map (\<lambda>x. char_of (unat x)) m, lf_DeadlineExceeded = (a = 1), lf_Canceled = (b = 1),
             lf_ChunkTimeoutMarker = (c = 1)\<rparr>
         | _ \<Rightarrow> Inl EOF)\<rparr>"

interpretation failures_sample: memory_cache "map_store (10 ^ 9)" failure_codec
  by (intro memory_cache.intro memory_cache_axioms.intro map_store_ok)
    (auto simp: codec_ok_def failure_codec_def char_of_byte comp_def)

lemma negative_location_cache_witness:
  "\<exists>s1 e. loadLocation (memory_Get (map_store (10 ^ 9)) byte_codec) (memory_Set (map_store (10 ^ 9)) byte_codec)
     (memory_Get (map_store (10 ^ 9)) failure_codec) (memory_Set (map_store (10 ^ 9)) failure_codec)
     \<lparr>fe_first = 5, fe_again = 6, fe_store = 7, fe_joined = None, fe_done = None\<rparr> ''k'' (Inr [1]) s1 = (s1, Inl e) \<and>
     isRetryableChunkError (Some e) = isRetryableChunkError (Some ErrChunkTimeout)"
proof -
  let ?env = "\<lparr>fe_first = 1, fe_again = 2, fe_store = 3, fe_joined = None, fe_done = None\<rparr> :: bytes fetch_env"
    and ?env' = "\<lparr>fe_first = 5, fe_again = 6, fe_store = 7, fe_joined = None, fe_done = None\<rparr> :: bytes fetch_env"
  obtain s1 r where run: "loadLocation (memory_Get (map_store (10 ^ 9)) byte_codec) (memory_Set (map_store (10 ^ 9)) byte_codec)
     (memory_Get (map_store (10 ^ 9)) failure_codec) (memory_Set (map_store (10 ^ 9)) failure_codec) ?env ''k'' (Inl ErrChunkTimeout) [] = (s1, r)"
    by fastforce
  have "snd (setCachedLocationFailure (memory_Set (map_store (10 ^ 9)) failure_codec) [] 3 ''k'' ErrChunkTimeout) = None"
    by (simp add: setCachedLocationFailure_def memory_Set_def failure_codec_def map_store_def)
  then show ?thesis
    using negative_location_cache [OF memory_sample.memory_cache_axioms failures_sample.memory_cache_axioms _ _ _ _ _ _ run,
        of ?env' "Inr [1]"]
    by (fastforce simp: map_store_def locationNegativeCacheTTL_def)
qed

end
