(* ===== verification/Events.thy ===== *)
theory Events
  imports Transition "HOL-Library.AList"
begin

section \<open>Event broadcasting (internal/events)\<close>

text \<open>
  File operations are recorded as events: they are saved to the database by a pool of workers and
  delivered to the subscribers of their user. The polling broadcaster serves a single instance
  and finds events in the database; the Redis broadcaster publishes them and receives those of
  all instances.

  A channel is a number; its buffer is the list \<open>bb_chans\<close> gives it, of at most 100 events. The
  events table of the database is \<open>bb_db\<close>, in the order of insertion. Identifiers and times of
  events come from outside. Each operation is one step; goroutines interleave between steps.
\<close>

record 'src event =
  ev_ID :: string
  ev_Type :: string
  ev_UserID :: int
  ev_Source :: 'src
  ev_CreatedAt :: int

record 'src broadcaster =
  bb_subscribers :: "(int \<times> nat list) list"
  bb_chans :: "nat \<Rightarrow> 'src event list"
  bb_closed :: "nat list"
  bb_nextChan :: nat
  bb_dbWorkerCh :: "'src event list"
  bb_recentEvents :: "(string \<times> int) list"
  bb_DBWorkers :: int
  bb_DBBufferSize :: int
  bb_DeduplicationTTL :: int
  bb_db :: "'src event list"

record broadcaster_config =
  bc_DBWorkers :: int
  bc_DBBufferSize :: int
  bc_DeduplicationTTL :: int

definition DefaultBroadcasterConfig :: broadcaster_config where
  "DefaultBroadcasterConfig =
     \<lparr>bc_DBWorkers = 10, bc_DBBufferSize = 1000, bc_DeduplicationTTL = 30 * 60 * 10 ^ 9\<rparr>"

definition newBaseBroadcaster :: "broadcaster_config \<Rightarrow> 'src event list \<Rightarrow> 'src broadcaster" where
  "newBaseBroadcaster config db =
     \<lparr>bb_subscribers = [], bb_chans = (\<lambda>_. []), bb_closed = [], bb_nextChan = 0, bb_dbWorkerCh = [], bb_recentEvents = [],
      bb_DBWorkers = (if bc_DBWorkers config \<le> 0 then bc_DBWorkers DefaultBroadcasterConfig else bc_DBWorkers config),
      bb_DBBufferSize = (if bc_DBBufferSize config \<le> 0 then bc_DBBufferSize DefaultBroadcasterConfig else bc_DBBufferSize config),
      bb_DeduplicationTTL =
        (if bc_DeduplicationTTL config \<le> 0 then bc_DeduplicationTTL DefaultBroadcasterConfig else bc_DeduplicationTTL config),
      bb_db = db\<rparr>"

text \<open>One turn of a database worker: \<open>saved\<close> is whether the insert succeeds.\<close>

definition dbWorker :: "bool \<Rightarrow> 'src broadcaster \<Rightarrow> 'src broadcaster" where
  "dbWorker saved b =
     (case bb_dbWorkerCh b of
        [] \<Rightarrow> b
      | evt # rest \<Rightarrow> b\<lparr>bb_dbWorkerCh := rest, bb_db := (if saved then bb_db b @ [evt] else bb_db b)\<rparr>)"

subsection \<open>Deduplication\<close>

definition cleanupOldEvents :: "int \<Rightarrow> 'src broadcaster \<Rightarrow> 'src broadcaster" where
  "cleanupOldEvents now b =
     b\<lparr>bb_recentEvents := filter (\<lambda>(id, ts). \<not> now - ts > bb_DeduplicationTTL b) (bb_recentEvents b)\<rparr>"

definition markProcessed :: "int \<Rightarrow> string \<Rightarrow> 'src broadcaster \<Rightarrow> 'src broadcaster" where
  "markProcessed now eventID b =
     (let b1 = b\<lparr>bb_recentEvents := AList.update eventID now (AList.delete eventID (bb_recentEvents b))\<rparr>;
          n = length (bb_recentEvents b1)
      in if n > 0 \<and> n mod 100 = 0 then cleanupOldEvents now b1 else b1)"

definition shouldProcess :: "int \<Rightarrow> string \<Rightarrow> 'src broadcaster \<Rightarrow> 'src broadcaster \<times> bool" where
  "shouldProcess now eventID b =
     (case map_of (bb_recentEvents b) eventID of
        Some ts \<Rightarrow> if now - ts < bb_DeduplicationTTL b then (b, False) else (markProcessed now eventID b, True)
      | None \<Rightarrow> (markProcessed now eventID b, True))"

subsection \<open>Subscribers\<close>

definition subs_of :: "'src broadcaster \<Rightarrow> int \<Rightarrow> nat list" where
  "subs_of b userID = (case map_of (bb_subscribers b) userID of None \<Rightarrow> [] | Some subs \<Rightarrow> subs)"

definition send_nonblocking :: "'src event \<Rightarrow> nat \<Rightarrow> (nat \<Rightarrow> 'src event list) \<Rightarrow> (nat \<Rightarrow> 'src event list)" where
  "send_nonblocking evt ch chans = (if length (chans ch) < 100 then chans(ch := chans ch @ [evt]) else chans)"

definition broadcast :: "'src event \<Rightarrow> 'src broadcaster \<Rightarrow> 'src broadcaster" where
  "broadcast evt b = b\<lparr>bb_chans := fold (send_nonblocking evt) (subs_of b (ev_UserID evt)) (bb_chans b)\<rparr>"

definition base_Subscribe :: "int \<Rightarrow> 'src broadcaster \<Rightarrow> 'src broadcaster \<times> nat" where
  "base_Subscribe userID b =
     (let ch = bb_nextChan b in
      (b\<lparr>bb_nextChan := Suc ch, bb_subscribers := AList.update userID (subs_of b userID @ [ch]) (bb_subscribers b)\<rparr>, ch))"

fun remove_first :: "nat \<Rightarrow> nat list \<Rightarrow> nat list" where
  "remove_first ch [] = []"
| "remove_first ch (c # cs) = (if c = ch then cs else c # remove_first ch cs)"

definition base_Unsubscribe :: "int \<Rightarrow> nat \<Rightarrow> 'src broadcaster \<Rightarrow> 'src broadcaster" where
  "base_Unsubscribe userID ch b =
     (case map_of (bb_subscribers b) userID of
        None \<Rightarrow> b
      | Some subs \<Rightarrow>
          let subs' = remove_first ch subs in
          b\<lparr>bb_subscribers := (if subs' = [] then AList.delete userID (bb_subscribers b)
                                else AList.update userID subs' (bb_subscribers b))\<rparr>)"

text \<open>The goroutine that \<open>Unsubscribe\<close> leaves behind: it drains the channel and closes it.\<close>

definition drain_and_close :: "nat \<Rightarrow> 'src broadcaster \<Rightarrow> 'src broadcaster" where
  "drain_and_close ch b = b\<lparr>bb_chans := (bb_chans b)(ch := []), bb_closed := ch # bb_closed b\<rparr>"

text \<open>A subscriber takes the first event of its channel.\<close>

definition chan_receive :: "nat \<Rightarrow> 'src broadcaster \<Rightarrow> 'src broadcaster" where
  "chan_receive ch b = b\<lparr>bb_chans := (bb_chans b)(ch := tl (bb_chans b ch))\<rparr>"

definition queueForDB :: "'src event \<Rightarrow> 'src broadcaster \<Rightarrow> 'src broadcaster \<times> bool" where
  "queueForDB evt b =
     (if int (length (bb_dbWorkerCh b)) < bb_DBBufferSize b then (b\<lparr>bb_dbWorkerCh := bb_dbWorkerCh b @ [evt]\<rparr>, True)
      else (b, False))"

definition createEvent :: "string \<Rightarrow> int \<Rightarrow> string \<Rightarrow> int \<Rightarrow> 'src \<Rightarrow> 'src event" where
  "createEvent newID now eventType userID source =
     \<lparr>ev_ID = newID, ev_Type = eventType, ev_UserID = userID, ev_Source = source, ev_CreatedAt = now\<rparr>"

subsection \<open>The polling broadcaster\<close>

record 'src polling =
  pb_base :: "'src broadcaster"
  pb_lastPollTime :: int
  pb_polling :: bool
  pb_pollers :: nat

definition NewPollingBroadcaster :: "broadcaster_config \<Rightarrow> 'src event list \<Rightarrow> int \<Rightarrow> 'src polling" where
  "NewPollingBroadcaster config db now =
     \<lparr>pb_base = newBaseBroadcaster config db, pb_lastPollTime = now, pb_polling = False, pb_pollers = 0\<rparr>"

definition startPolling :: "int \<Rightarrow> 'src polling \<Rightarrow> 'src polling" where
  "startPolling now p =
     (if pb_polling p then p
      else p\<lparr>pb_polling := True, pb_lastPollTime := now, pb_pollers := Suc (pb_pollers p)\<rparr>)"

definition stopPolling :: "'src polling \<Rightarrow> 'src polling" where
  "stopPolling p = (if \<not> pb_polling p then p else p\<lparr>pb_polling := False\<rparr>)"

definition getTotalSubscribers :: "'src broadcaster \<Rightarrow> nat" where
  "getTotalSubscribers b = sum_list (map (\<lambda>(u, subs). length subs) (bb_subscribers b))"

text \<open>
  The query: events created after the last poll, by creation time, at most 1000. Its result is a
  stable sort of the selected rows; a failing query is \<open>None\<close>.
\<close>

definition poll_query :: "int \<Rightarrow> 'src event list \<Rightarrow> 'src event list" where
  "poll_query since db = take 1000 (sort_key ev_CreatedAt (filter (\<lambda>e. ev_CreatedAt e > since) db))"

fun process_events :: "int \<Rightarrow> 'src event list \<Rightarrow> 'src broadcaster \<Rightarrow> 'src broadcaster" where
  "process_events now [] b = b"
| "process_events now (evt # evts) b =
     (case shouldProcess now (ev_ID evt) b of
        (b1, ok) \<Rightarrow> process_events now evts (if ok then broadcast evt b1 else b1))"

definition checkForNewEvents :: "int \<Rightarrow> bool \<Rightarrow> 'src polling \<Rightarrow> 'src polling" where
  "checkForNewEvents now queryOk p =
     (if \<not> queryOk then p
      else p\<lparr>pb_lastPollTime := now,
             pb_base := process_events now (poll_query (pb_lastPollTime p) (bb_db (pb_base p))) (pb_base p)\<rparr>)"

text \<open>One tick of a poller: a poller that finds polling switched off ends.\<close>

definition poll_tick :: "int \<Rightarrow> bool \<Rightarrow> 'src polling \<Rightarrow> 'src polling" where
  "poll_tick now queryOk p =
     (if pb_pollers p = 0 then p
      else if \<not> pb_polling p then p\<lparr>pb_pollers := pb_pollers p - 1\<rparr>
      else checkForNewEvents now queryOk p)"

definition polling_Subscribe :: "int \<Rightarrow> int \<Rightarrow> 'src polling \<Rightarrow> 'src polling \<times> nat" where
  "polling_Subscribe now userID p =
     (case base_Subscribe userID (pb_base p) of
        (b, ch) \<Rightarrow>
          let p1 = p\<lparr>pb_base := b\<rparr>
          in (if getTotalSubscribers b = 1 then startPolling now p1 else p1, ch))"

definition polling_Unsubscribe :: "int \<Rightarrow> nat \<Rightarrow> 'src polling \<Rightarrow> 'src polling" where
  "polling_Unsubscribe userID ch p =
     (let p1 = p\<lparr>pb_base := base_Unsubscribe userID ch (pb_base p)\<rparr>
      in if getTotalSubscribers (pb_base p1) = 0 then stopPolling p1 else p1)"

definition polling_Record :: "'src event \<Rightarrow> 'src polling \<Rightarrow> 'src polling" where
  "polling_Record evt p = p\<lparr>pb_base := fst (queueForDB evt (broadcast evt (pb_base p)))\<rparr>"

subsection \<open>The Redis broadcaster\<close>

text \<open>
  \<open>published\<close> is what has gone to the Redis channel. \<open>Record\<close> queues the event and publishes it,
  unless encoding or publishing fails. A message received is decoded, checked and broadcast.
\<close>

definition redis_Record :: "('src event \<Rightarrow> go_error + string) \<Rightarrow> bool \<Rightarrow> 'src event \<Rightarrow> 'src broadcaster \<times> string list \<Rightarrow> 'src broadcaster \<times> string list" where
  "redis_Record marshalEvent publishOk evt st =
     (case st of (b, published) \<Rightarrow>
        (fst (queueForDB evt b),
         case marshalEvent evt of
           Inl _ \<Rightarrow> published
         | Inr payload \<Rightarrow> if publishOk then published @ [payload] else published))"

definition redis_message :: "(string \<Rightarrow> go_error + 'src event) \<Rightarrow> int \<Rightarrow> string \<Rightarrow> 'src broadcaster \<Rightarrow> 'src broadcaster" where
  "redis_message unmarshal now payload b =
     (case unmarshal payload of
        Inl _ \<Rightarrow> b
      | Inr evt \<Rightarrow>
          (case shouldProcess now (ev_ID evt) b of
             (b1, ok) \<Rightarrow> if ok then broadcast evt b1 else b1))"

subsection \<open>Histories\<close>

text \<open>
  What can happen to the shared part of a broadcaster. A subscriber unsubscribes with its own
  channel; a channel is drained and closed only after it has left the list.
\<close>

inductive base_step :: "'src broadcaster \<Rightarrow> 'src broadcaster \<Rightarrow> bool" where
  subscribe: "base_step b (fst (base_Subscribe u b))"
| unsubscribe: "ch \<in> set (subs_of b u) \<Longrightarrow> base_step b (base_Unsubscribe u ch b)"
| drain: "ch < bb_nextChan b \<Longrightarrow> (\<And>u. ch \<notin> set (subs_of b u)) \<Longrightarrow> base_step b (drain_and_close ch b)"
| receive: "base_step b (chan_receive ch b)"
| enqueue: "base_step b (fst (queueForDB e b))"
| save: "base_step b (dbWorker saved b)"
| deliver: "base_step b (broadcast e b)"
| mark: "base_step b (fst (shouldProcess now i b))"

inductive polling_step :: "'src polling \<Rightarrow> 'src polling \<Rightarrow> bool" where
  subscribe: "polling_step p (fst (polling_Subscribe now u p))"
| unsubscribe: "ch \<in> set (subs_of (pb_base p) u) \<Longrightarrow> polling_step p (polling_Unsubscribe u ch p)"
| record_event: "polling_step p (polling_Record (createEvent newID now ty u src) p)"
| tick: "polling_step p (poll_tick now queryOk p)"
| own: "base_step (pb_base p) b \<Longrightarrow> polling_step p (p\<lparr>pb_base := b\<rparr>)"

inductive redis_step ::
  "('src event \<Rightarrow> go_error + string) \<Rightarrow> (string \<Rightarrow> go_error + 'src event) \<Rightarrow>
   'src broadcaster \<times> string list \<Rightarrow> 'src broadcaster \<times> string list \<Rightarrow> bool" for marshalEvent unmarshal where
  record_event: "redis_step marshalEvent unmarshal st (redis_Record marshalEvent publishOk (createEvent newID now ty u src) st)"
| receive_message: "redis_step marshalEvent unmarshal (b, published) (redis_message unmarshal now payload b, published)"
| own: "base_step b b' \<Longrightarrow> redis_step marshalEvent unmarshal (b, published) (b', published)"

text \<open>The invariant of the shared part.\<close>

definition base_inv :: "'src broadcaster \<Rightarrow> bool" where
  "base_inv b \<longleftrightarrow> (\<forall>u. distinct (subs_of b u) \<and> map_of (bb_subscribers b) u \<noteq> Some []) \<and>
     (\<forall>u u' ch. ch \<in> set (subs_of b u) \<and> ch \<in> set (subs_of b u') \<longrightarrow> u = u') \<and>
     (\<forall>u. \<forall>ch \<in> set (subs_of b u). ch < bb_nextChan b \<and> ch \<notin> set (bb_closed b) \<and> (\<forall>e \<in> set (bb_chans b ch). ev_UserID e = u)) \<and>
     (\<forall>ch \<in> set (bb_closed b). ch < bb_nextChan b) \<and>
     (\<forall>ch. length (bb_chans b ch) \<le> 100 \<and> (bb_nextChan b \<le> ch \<longrightarrow> bb_chans b ch = [])) \<and>
     int (length (bb_dbWorkerCh b)) \<le> bb_DBBufferSize b"

lemma sends_eq:
  "distinct cs \<Longrightarrow> fold (send_nonblocking e) cs chans ch =
     (if ch \<in> set cs \<and> length (chans ch) < 100 then chans ch @ [e] else chans ch)"
  by (induction cs arbitrary: chans) (auto simp: send_nonblocking_def)

lemma set_remove_first: "distinct cs \<Longrightarrow> set (remove_first ch cs) = set cs - {ch}"
  by (induction cs) auto

lemma distinct_remove_first: "distinct cs \<Longrightarrow> distinct (remove_first ch cs)"
  by (induction cs) (auto simp: set_remove_first)

lemma subs_of_Subscribe:
  "subs_of (fst (base_Subscribe u b)) u' = (if u' = u then subs_of b u @ [bb_nextChan b] else subs_of b u')"
  by (simp add: subs_of_def base_Subscribe_def Let_def update_conv')

lemma subs_of_Unsubscribe: "subs_of (base_Unsubscribe u ch b) u' = (if u' = u then remove_first ch (subs_of b u) else subs_of b u')"
  by (auto simp: subs_of_def base_Unsubscribe_def Let_def update_conv' delete_conv' split: option.splits)

lemma base_other [simp]:
  "subs_of (broadcast e b) u = subs_of b u" "subs_of (fst (queueForDB e b)) u = subs_of b u" "subs_of (dbWorker saved b) u = subs_of b u"
  "subs_of (chan_receive ch b) u = subs_of b u" "subs_of (drain_and_close ch b) u = subs_of b u"
  "subs_of (fst (shouldProcess now i b)) u = subs_of b u"
  by (simp_all add: subs_of_def broadcast_def queueForDB_def dbWorker_def chan_receive_def drain_and_close_def shouldProcess_def
      markProcessed_def cleanupOldEvents_def Let_def split: list.splits option.splits)

lemma Subscribe_inv: assumes "base_inv b" shows "base_inv (fst (base_Subscribe u b))"
proof -
  let ?b = "fst (base_Subscribe u b)" and ?n = "bb_nextChan b"
  have n: "?n \<notin> set (subs_of b u')" for u' using assms by (auto simp: base_inv_def)
  have fields: "bb_chans ?b = bb_chans b" "bb_closed ?b = bb_closed b" "bb_nextChan ?b = Suc ?n" "bb_dbWorkerCh ?b = bb_dbWorkerCh b"
    "bb_DBBufferSize ?b = bb_DBBufferSize b" by (simp_all add: base_Subscribe_def Let_def)
  have "map_of (bb_subscribers ?b) u' \<noteq> Some []" for u'
    using assms by (auto simp: base_Subscribe_def Let_def update_conv' base_inv_def)
  then show ?thesis using assms n unfolding base_inv_def fields subs_of_Subscribe
    by (auto simp: less_Suc_eq) blast+
qed

lemma Unsubscribe_inv: assumes "base_inv b" shows "base_inv (base_Unsubscribe u ch b)"
proof -
  let ?b = "base_Unsubscribe u ch b"
  have fields: "bb_chans ?b = bb_chans b" "bb_closed ?b = bb_closed b" "bb_nextChan ?b = bb_nextChan b" "bb_dbWorkerCh ?b = bb_dbWorkerCh b"
    "bb_DBBufferSize ?b = bb_DBBufferSize b" by (simp_all add: base_Unsubscribe_def Let_def split: option.splits)
  have "map_of (bb_subscribers ?b) u' \<noteq> Some []" for u'
    using assms by (auto simp: base_Unsubscribe_def Let_def update_conv' delete_conv' base_inv_def split: option.splits)
  moreover have "distinct (subs_of b u)" using assms by (simp add: base_inv_def)
  ultimately show ?thesis using assms unfolding base_inv_def fields subs_of_Unsubscribe
    by (auto simp: set_remove_first distinct_remove_first) blast+
qed

lemma broadcast_inv: assumes "base_inv b" shows "base_inv (broadcast e b)"
proof -
  have d: "distinct (subs_of b (ev_UserID e))" using assms by (simp add: base_inv_def)
  have chans: "bb_chans (broadcast e b) ch =
      (if ch \<in> set (subs_of b (ev_UserID e)) \<and> length (bb_chans b ch) < 100 then bb_chans b ch @ [e] else bb_chans b ch)" for ch
    by (simp add: broadcast_def sends_eq [OF d])
  have fields: "bb_subscribers (broadcast e b) = bb_subscribers b" "bb_closed (broadcast e b) = bb_closed b" "bb_nextChan (broadcast e b) = bb_nextChan b"
    "bb_dbWorkerCh (broadcast e b) = bb_dbWorkerCh b" "bb_DBBufferSize (broadcast e b) = bb_DBBufferSize b"
    by (simp_all add: broadcast_def)
  show ?thesis using assms unfolding base_inv_def fields base_other chans
    by (auto split: if_splits) (metis leD)+
qed

lemma simple_inv:
  assumes "base_inv b"
  shows "base_inv (fst (queueForDB e b))" "base_inv (dbWorker saved b)" "base_inv (fst (shouldProcess now i b))"
    "base_inv (chan_receive ch b)"
    "ch < bb_nextChan b \<Longrightarrow> (\<And>u. ch \<notin> set (subs_of b u)) \<Longrightarrow> base_inv (drain_and_close ch b)"
proof -
  show "base_inv (fst (queueForDB e b))" using assms by (auto simp: base_inv_def queueForDB_def subs_of_def)
  show "base_inv (dbWorker saved b)" using assms by (auto simp: base_inv_def dbWorker_def subs_of_def split: list.splits)
  show "base_inv (fst (shouldProcess now i b))"
    using assms by (auto simp: base_inv_def shouldProcess_def markProcessed_def cleanupOldEvents_def Let_def subs_of_def split: option.splits)
  show "base_inv (chan_receive ch b)" using assms
    by (auto simp: base_inv_def chan_receive_def subs_of_def le_diff_conv dest: list.set_sel(2) [rotated] intro: le_trans)
      (metis list.sel(2) list.set_sel(2))+
  show "ch < bb_nextChan b \<Longrightarrow> (\<And>u. ch \<notin> set (subs_of b u)) \<Longrightarrow> base_inv (drain_and_close ch b)"
    using assms by (auto simp: base_inv_def drain_and_close_def subs_of_def)
qed

lemma base_step_inv: "base_step b b' \<Longrightarrow> base_inv b \<Longrightarrow> base_inv b'"
  by (induction rule: base_step.induct) (auto intro: Subscribe_inv Unsubscribe_inv broadcast_inv simple_inv)

lemma newBase_inv: "base_inv (newBaseBroadcaster config db)"
  by (simp add: base_inv_def newBaseBroadcaster_def DefaultBroadcasterConfig_def subs_of_def)

interpretation bus: step_invariant "\<lambda>b. \<exists>config db. b = newBaseBroadcaster config db" base_step base_inv
  by unfold_locales (auto intro: base_step_inv newBase_inv)

text \<open>The operations of both broadcasters are made of steps of the shared part.\<close>

lemma process_events_steps: "base_step\<^sup>*\<^sup>* b (process_events now evts b)"
proof (induction evts arbitrary: b)
  case (Cons e evts)
  obtain b1 ok where sp: "shouldProcess now (ev_ID e) b = (b1, ok)" by fastforce
  have "base_step b b1" using base_step.mark [of b now "ev_ID e"] sp by simp
  then have "base_step\<^sup>*\<^sup>* b (if ok then broadcast e b1 else b1)"
    by (auto intro: rtranclp.rtrancl_into_rtrancl base_step.deliver)
  with Cons [of "if ok then broadcast e b1 else b1"] sp show ?case by auto
qed simp

lemma polling_base_steps: "polling_step p q \<Longrightarrow> base_step\<^sup>*\<^sup>* (pb_base p) (pb_base q)"
proof (induction rule: polling_step.induct)
  case (subscribe p now u)
  have "pb_base (fst (polling_Subscribe now u p)) = fst (base_Subscribe u (pb_base p))"
    by (simp add: polling_Subscribe_def startPolling_def Let_def split: prod.splits)
  then show ?case by (simp add: base_step.subscribe r_into_rtranclp)
next
  case (unsubscribe ch p u)
  have "pb_base (polling_Unsubscribe u ch p) = base_Unsubscribe u ch (pb_base p)"
    by (simp add: polling_Unsubscribe_def stopPolling_def Let_def)
  with unsubscribe show ?case by (simp add: base_step.unsubscribe r_into_rtranclp)
next
  case (record_event p newID now ty u src)
  let ?e = "createEvent newID now ty u src"
  have "base_step (pb_base p) (broadcast ?e (pb_base p))"
    "base_step (broadcast ?e (pb_base p)) (pb_base (polling_Record ?e p))"
    by (simp_all add: polling_Record_def base_step.intros)
  then show ?case by (meson rtranclp.rtrancl_into_rtrancl r_into_rtranclp)
next
  case (tick p now queryOk)
  then show ?case by (simp add: poll_tick_def checkForNewEvents_def process_events_steps)
next
  case (own p b)
  then show ?case by (simp add: r_into_rtranclp)
qed

lemma redis_base_steps: "redis_step marshalEvent unmarshal st st' \<Longrightarrow> base_step\<^sup>*\<^sup>* (fst st) (fst st')"
proof (induction rule: redis_step.induct)
  case (record_event st publishOk newID now ty u src)
  then show ?case by (auto simp: redis_Record_def base_step.enqueue split: prod.splits intro!: r_into_rtranclp)
next
  case (receive_message b published now payload)
  show ?case
  proof (cases "unmarshal payload")
    case (Inr e)
    have "redis_message unmarshal now payload b = process_events now [e] b"
      using Inr by (simp add: redis_message_def split: prod.splits)
    then show ?thesis using process_events_steps [of b now "[e]"] by (simp only: fst_conv)
  qed (simp add: redis_message_def)
next
  case (own b b' published)
  then show ?case by (simp add: r_into_rtranclp)
qed

definition polling_init :: "'src polling \<Rightarrow> bool" where
  "polling_init p \<longleftrightarrow> (\<exists>config db now. p = NewPollingBroadcaster config db now)"

definition redis_init :: "'src broadcaster \<times> string list \<Rightarrow> bool" where
  "redis_init st \<longleftrightarrow> (\<exists>config db. st = (newBaseBroadcaster config db, []))"

interpretation polling: step_invariant polling_init polling_step "\<lambda>p. base_inv (pb_base p)"
proof (unfold_locales, goal_cases)
  case (1 p)
  then show ?case by (auto simp: polling_init_def NewPollingBroadcaster_def newBase_inv)
next
  case (2 p q)
  then show ?case using bus.steps_inv polling_base_steps by blast
qed

interpretation redis_bus: step_invariant redis_init "redis_step marshalEvent unmarshal" "\<lambda>st. base_inv (fst st)"
proof (unfold_locales, goal_cases)
  case (1 st)
  then show ?case by (auto simp: redis_init_def newBase_inv)
next
  case (2 st st')
  then show ?case using bus.steps_inv redis_base_steps by blast
qed

subsection \<open>The deduplication window\<close>

text \<open>A sequence of calls of \<open>shouldProcess\<close>, with their answers.\<close>

fun dedup_run :: "(int \<times> string) list \<Rightarrow> 'src broadcaster \<Rightarrow> bool list" where
  "dedup_run [] b = []"
| "dedup_run ((now, i) # calls) b = (case shouldProcess now i b of (b', ok) \<Rightarrow> ok # dedup_run calls b')"

definition recent_ok :: "int \<Rightarrow> 'src broadcaster \<Rightarrow> bool" where
  "recent_ok now b \<longleftrightarrow> distinct (map fst (bb_recentEvents b)) \<and> (\<forall>(i, ts) \<in> set (bb_recentEvents b). ts \<le> now) \<and> 0 < bb_DeduplicationTTL b"

lemma map_of_filter_vals:
  "distinct (map fst al) \<Longrightarrow> map_of (filter (\<lambda>(k, v). P v) al) k = (case map_of al k of None \<Rightarrow> None | Some v \<Rightarrow> if P v then Some v else None)"
  by (induction al) (auto simp: map_of_eq_None_iff split: option.splits)

lemma markProcessed_recent:
  assumes "recent_ok now b"
  shows "map_of (bb_recentEvents (markProcessed now i b)) k =
      (if k = i then Some now
       else case map_of (bb_recentEvents b) k of
              None \<Rightarrow> None
            | Some ts \<Rightarrow> if map_of (bb_recentEvents (markProcessed now i b)) k = None then None else Some ts)"
    "k \<noteq> i \<Longrightarrow> map_of (bb_recentEvents b) k = Some ts \<Longrightarrow> now - ts \<le> bb_DeduplicationTTL b \<Longrightarrow>
      map_of (bb_recentEvents (markProcessed now i b)) k = Some ts"
    "recent_ok now (markProcessed now i b)" "bb_DeduplicationTTL (markProcessed now i b) = bb_DeduplicationTTL b"
proof -
  let ?al = "AList.update i now (AList.delete i (bb_recentEvents b))"
  have d: "distinct (map fst ?al)" using assms by (simp add: recent_ok_def distinct_update distinct_delete)
  have al: "map_of ?al k = (if k = i then Some now else map_of (bb_recentEvents b) k)" for k
    by (simp add: update_conv' delete_conv')
  have sub: "set ?al \<subseteq> insert (i, now) (set (bb_recentEvents b))"
  proof -
    have "set (AList.update k v al) \<subseteq> insert (k, v) (set al)" for k v and al :: "(string \<times> int) list" by (induction al) auto
    then show ?thesis by (fastforce simp: AList.delete_eq)
  qed
  have ttl: "0 < bb_DeduplicationTTL b" using assms by (simp add: recent_ok_def)
  show "map_of (bb_recentEvents (markProcessed now i b)) k =
      (if k = i then Some now
       else case map_of (bb_recentEvents b) k of
              None \<Rightarrow> None
            | Some ts \<Rightarrow> if map_of (bb_recentEvents (markProcessed now i b)) k = None then None else Some ts)"
    using ttl by (auto simp: markProcessed_def cleanupOldEvents_def Let_def map_of_filter_vals [OF d] al split: option.splits)
  show "k \<noteq> i \<Longrightarrow> map_of (bb_recentEvents b) k = Some ts \<Longrightarrow> now - ts \<le> bb_DeduplicationTTL b \<Longrightarrow>
      map_of (bb_recentEvents (markProcessed now i b)) k = Some ts"
    by (auto simp: markProcessed_def cleanupOldEvents_def Let_def map_of_filter_vals [OF d] al)
  show "recent_ok now (markProcessed now i b)"
    using assms d sub by (auto simp: recent_ok_def markProcessed_def cleanupOldEvents_def Let_def distinct_map_filter)
  show "bb_DeduplicationTTL (markProcessed now i b) = bb_DeduplicationTTL b"
    by (simp add: markProcessed_def cleanupOldEvents_def Let_def)
qed

text \<open>The specification: an event is processed unless it has been processed less than the window before.\<close>

fun dedup_spec :: "int \<Rightarrow> (int \<times> string) list \<Rightarrow> (int \<times> string) list \<Rightarrow> bool list" where
  "dedup_spec ttl done [] = []"
| "dedup_spec ttl done ((now, i) # calls) =
     (let ok = \<not> list_ex (\<lambda>(t, k). k = i \<and> now - t < ttl) done
      in ok # dedup_spec ttl (if ok then (now, i) # done else done) calls)"

definition dedup_inv :: "int \<Rightarrow> (int \<times> string) list \<Rightarrow> 'src broadcaster \<Rightarrow> bool" where
  "dedup_inv prev done b \<longleftrightarrow> recent_ok prev b \<and>
     (\<forall>k ts. map_of (bb_recentEvents b) k = Some ts \<longrightarrow> (ts, k) \<in> set done) \<and>
     (\<forall>(t, k) \<in> set done. t \<le> prev \<and>
        (prev - t \<le> bb_DeduplicationTTL b \<longrightarrow> (\<exists>ts \<ge> t. map_of (bb_recentEvents b) k = Some ts)))"

lemma dedup_inv_later: "dedup_inv prev done b \<Longrightarrow> prev \<le> now \<Longrightarrow> dedup_inv now done b"
  by (fastforce simp: dedup_inv_def recent_ok_def)

lemma shouldProcess_answer:
  assumes "dedup_inv now done b"
  shows "snd (shouldProcess now i b) = (\<not> list_ex (\<lambda>(t, k). k = i \<and> now - t < bb_DeduplicationTTL b) done)"
proof (cases "map_of (bb_recentEvents b) i")
  case None
  then have "\<not> now - t < bb_DeduplicationTTL b" if "(t, i) \<in> set done" for t
    using assms that by (fastforce simp: dedup_inv_def)
  with None show ?thesis by (auto simp: shouldProcess_def list_ex_iff)
next
  case (Some ts)
  have "(ts, i) \<in> set done" using assms Some by (simp add: dedup_inv_def)
  moreover have "now - ts < bb_DeduplicationTTL b" if "(t, i) \<in> set done" "now - t < bb_DeduplicationTTL b" for t
    using assms that Some by (fastforce simp: dedup_inv_def)
  ultimately show ?thesis using Some by (auto simp: shouldProcess_def list_ex_iff)
qed

lemma shouldProcess_inv:
  assumes "dedup_inv now done b"
  shows "dedup_inv now (if snd (shouldProcess now i b) then (now, i) # done else done) (fst (shouldProcess now i b)) \<and>
    bb_DeduplicationTTL (fst (shouldProcess now i b)) = bb_DeduplicationTTL b"
proof (cases "snd (shouldProcess now i b)")
  case False
  then have "fst (shouldProcess now i b) = b" by (auto simp: shouldProcess_def split: option.splits if_splits)
  with False assms show ?thesis by simp
next
  case True
  then have b': "fst (shouldProcess now i b) = markProcessed now i b"
    by (auto simp: shouldProcess_def split: option.splits if_splits)
  have ok: "recent_ok now b" using assms by (simp add: dedup_inv_def)
  note mp = markProcessed_recent [OF ok, where i = i]
  have 1: "(ts, k) \<in> set ((now, i) # done)" if m: "map_of (bb_recentEvents (markProcessed now i b)) k = Some ts" for k ts
  proof (cases "k = i")
    case True
    then show ?thesis using mp(1) [where k = k] m by simp
  next
    case False
    then have "map_of (bb_recentEvents b) k = Some ts" using mp(1) [where k = k] m
      by (cases "map_of (bb_recentEvents b) k") simp_all
    then show ?thesis using assms by (simp add: dedup_inv_def)
  qed
  have 2: "t \<le> now \<and> (now - t \<le> bb_DeduplicationTTL b \<longrightarrow> (\<exists>ts \<ge> t. map_of (bb_recentEvents (markProcessed now i b)) k = Some ts))"
    if "(t, k) \<in> set ((now, i) # done)" for t k
  proof (cases "k = i")
    case True
    then show ?thesis using mp(1) [where k = k] that assms by (auto simp: dedup_inv_def)
  next
    case False
    with that have t: "t \<le> now" "now - t \<le> bb_DeduplicationTTL b \<longrightarrow> (\<exists>ts \<ge> t. map_of (bb_recentEvents b) k = Some ts)"
      using assms by (auto simp: dedup_inv_def)
    then show ?thesis using mp(2) [OF False] by fastforce
  qed
  show ?thesis using True b' mp(3,4) 1 2 by (auto simp: dedup_inv_def)
qed

lemma dedup_run_spec:
  "dedup_inv prev done b \<Longrightarrow> sorted (prev # map fst calls) \<Longrightarrow> dedup_run calls b = dedup_spec (bb_DeduplicationTTL b) done calls"
proof (induction calls arbitrary: prev "done" b)
  case (Cons c calls)
  obtain now i where c: "c = (now, i)" by (cases c)
  have inv: "dedup_inv now done b" using Cons.prems c dedup_inv_later [of prev "done" b now] by simp
  obtain b' ok where sp: "shouldProcess now i b = (b', ok)" by fastforce
  have "dedup_run calls b' = dedup_spec (bb_DeduplicationTTL b') (if ok then (now, i) # done else done) calls"
    using shouldProcess_inv [OF inv, of i] sp Cons.prems(2) c by (intro Cons.IH [of now]) auto
  then show ?case using c sp shouldProcess_answer [OF inv, of i] shouldProcess_inv [OF inv, of i] by (simp add: Let_def)
qed simp

subsection \<open>Properties\<close>

definition bus_isolated :: "'src broadcaster \<Rightarrow> bool" where
  "bus_isolated b \<longleftrightarrow>
     (\<forall>u. \<forall>ch \<in> set (subs_of b u). (\<forall>e \<in> set (bb_chans b ch). ev_UserID e = u) \<and> length (bb_chans b ch) \<le> 100 \<and>
        ch \<notin> set (bb_closed b) \<and> (\<forall>u'. ch \<in> set (subs_of b u') \<longrightarrow> u' = u)) \<and>
     (\<forall>u. distinct (subs_of b u)) \<and> int (length (bb_dbWorkerCh b)) \<le> bb_DBBufferSize b"

lemma base_inv_isolated: "base_inv b \<Longrightarrow> bus_isolated b"
  unfolding base_inv_def bus_isolated_def by blast



text \<open>C29: Deduplication is exact: for calls in the order of time, \<open>shouldProcess\<close> on a new broadcaster answers as the
  specification does, that is, an event passes unless it has passed less than the window before, although old
  entries are only dropped now and then.\<close>

theorem dedup_exact:
  assumes "sorted (map fst calls)"
  shows "dedup_run calls (newBaseBroadcaster config db) =
    dedup_spec (bb_DeduplicationTTL (newBaseBroadcaster config db)) [] calls"
proof (cases calls)
  case (Cons c cs)
  have "dedup_inv (fst c) [] (newBaseBroadcaster config db)"
    by (simp add: dedup_inv_def recent_ok_def newBaseBroadcaster_def DefaultBroadcasterConfig_def)
  moreover have "sorted (fst c # map fst calls)" using assms Cons by simp
  ultimately show ?thesis by (rule dedup_run_spec)
qed simp

theorem dedup_exact_witness:
  "dedup_run [(0, ''a''), (5, ''a''), (2000 * 10 ^ 9, ''a'')] (newBaseBroadcaster DefaultBroadcasterConfig ([] :: nat event list)) =
     [True, False, True]"
  using dedup_exact [of "[(0, ''a''), (5, ''a''), (2000 * 10 ^ 9, ''a'')]" DefaultBroadcasterConfig "[] :: nat event list"]
  by (simp add: newBaseBroadcaster_def DefaultBroadcasterConfig_def Let_def)

text \<open>
  How often a subscriber gets an event. With the polling broadcaster, an event recorded after the subscription is put into
  the channel by \<open>Record\<close> and again by the next poll after it was saved: it arrives twice. With the Redis broadcaster
  it arrives once, however often Redis repeats the message within the window.\<close>

lemma event_deliveries:
  assumes later: "t0 < now" and codec: "unmarshal payload = Inr evt" and evt: "evt = createEvent newID now ty u src"
    and t: "now \<le> t1" "t1 \<le> t2" "t2 - t1 < 30 * 60 * 10 ^ 9"
  shows "(case polling_Subscribe t0 u (NewPollingBroadcaster DefaultBroadcasterConfig [] 0) of
       (p, ch) \<Rightarrow> bb_chans (pb_base (poll_tick t1 True (let q = polling_Record evt p in q\<lparr>pb_base := dbWorker True (pb_base q)\<rparr>))) ch =
         [evt, evt]) \<and>
     (case base_Subscribe u (newBaseBroadcaster DefaultBroadcasterConfig []) of
       (b, ch) \<Rightarrow> bb_chans (redis_message unmarshal t2 payload (redis_message unmarshal t1 payload b)) ch = [evt])"
  using assms
  by (simp add: polling_Subscribe_def base_Subscribe_def NewPollingBroadcaster_def newBaseBroadcaster_def DefaultBroadcasterConfig_def
      subs_of_def getTotalSubscribers_def startPolling_def polling_Record_def broadcast_def send_nonblocking_def queueForDB_def
      createEvent_def dbWorker_def poll_tick_def checkForNewEvents_def poll_query_def shouldProcess_def markProcessed_def
      redis_message_def Let_def)

lemma event_deliveries_witness:
  "\<exists>ch evt. bb_chans (redis_message (\<lambda>s. Inr evt) 7 ''x'' (redis_message (\<lambda>s. Inr evt) 6 ''x''
     (fst (base_Subscribe 1 (newBaseBroadcaster DefaultBroadcasterConfig []))))) ch = [evt :: nat event]"
  using event_deliveries [of 1 5 "\<lambda>s. Inr (createEvent ''e'' 5 ''file_create'' 1 (0 :: nat))" "''x''"
      "createEvent ''e'' 5 ''file_create'' 1 (0 :: nat)" "''e''" "''file_create''" 1 0 6 7]
  by (auto split: prod.splits)

end
