(* ===== verification/File_Store.thy ===== *)
theory File_Store
  imports Cache Block_Hasher Http_Range Transition
begin

section \<open>Files, uploads and shares in the database (pkg/services/file.go, common.go, share.go)\<close>

text \<open>
  The handlers that change the file tree. The tables are lists of rows; the SQL statements of the
  sources are functions on them, with the partial unique index on the active names
  (migration 20250125123315) that \<^verbatim>\<open>ON CONFLICT\<close> refers to: a statement that would break it fails. A recursive
  query whose rows form a cycle does not end (\<open>None\<close>). A record \<open>svc\<close> has the tables, the cache
  (an abstract state with the two delete operations as parameters) and the recorded events.
  Times are integers; an optional field of a request is its value, empty or zero when it is unset.
\<close>

record api_part =
  pt_ID :: int
  pt_Salt :: string

record file_row =
  fr_ID :: string
  fr_Name :: string
  fr_Type :: string
  fr_MimeType :: string
  fr_Size :: "int option"
  fr_Category :: "category option"
  fr_Encrypted :: "bool option"
  fr_UserId :: int
  fr_Status :: string
  fr_ParentId :: "string option"
  fr_Parts :: "api_part list option"
  fr_ChannelId :: "int option"
  fr_Hash :: "string option"
  fr_UpdatedAt :: "int option"

record upload_row =
  up_UploadId :: string
  up_UserId :: int
  up_Name :: string
  up_PartNo :: int
  up_PartId :: int
  up_Encrypted :: bool
  up_Salt :: string
  up_BlockHashes :: bytes
  up_ChannelId :: int
  up_Size :: int
  up_CreatedAt :: int

record share_row =
  sh_ID :: string
  sh_FileId :: string
  sh_Password :: "string option"
  sh_ExpiresAt :: "int option"
  sh_UserId :: int

record source =
  so_ID :: string
  so_Type :: string
  so_Name :: string
  so_ParentID :: string
  so_DestParentID :: string

datatype event_type = OpCreate | OpUpdate | OpDelete | OpMove | OpCopy

record 's svc =
  sv_files :: "file_row list"
  sv_uploads :: "upload_row list"
  sv_shares :: "share_row list"
  sv_cache :: 's
  sv_events :: "(event_type \<times> int \<times> source) list"

text \<open>An error of the API: the error and its HTTP code, 0 when none is set.\<close>

datatype api_error = ApiError go_error int

definition ErrRecordNotFound :: go_error where
  "ErrRecordNotFound = ErrText ''record not found''"

definition ErrUnique :: go_error where
  "ErrUnique = ErrText ''duplicate key value violates unique constraint''"

definition record_event :: "event_type \<Rightarrow> int \<Rightarrow> source \<Rightarrow> 's svc \<Rightarrow> 's svc" where
  "record_event op userId src v = v\<lparr>sv_events := sv_events v @ [(op, userId, src)]\<rparr>"

definition str_opt :: "string option \<Rightarrow> string" where
  "str_opt p = (case p of None \<Rightarrow> [] | Some x \<Rightarrow> x)"

subsection \<open>Active names and paths\<close>

definition active :: "file_row \<Rightarrow> bool" where
  "active f \<longleftrightarrow> fr_Status f = ''active''"

definition same_place :: "file_row \<Rightarrow> file_row \<Rightarrow> bool" where
  "same_place f g \<longleftrightarrow> fr_Name f = fr_Name g \<and> fr_ParentId f = fr_ParentId g \<and> fr_UserId f = fr_UserId g"

text \<open>The unique index: no two active rows with the same name, parent and user.\<close>

fun unique_active :: "file_row list \<Rightarrow> bool" where
  "unique_active [] = True"
| "unique_active (f # fs) = ((active f \<longrightarrow> \<not> list_ex (\<lambda>g. active g \<and> same_place f g) fs) \<and> unique_active fs)"

fun trim_left :: "char \<Rightarrow> string \<Rightarrow> string" where
  "trim_left c [] = []"
| "trim_left c (x # xs) = (if x = c then trim_left c xs else x # xs)"

definition trim_chars :: "char \<Rightarrow> string \<Rightarrow> string" where
  "trim_chars c s = rev (trim_left c (rev (trim_left c s)))"

fun hierarchy :: "file_row list \<Rightarrow> string list \<Rightarrow> string list \<Rightarrow> string list" where
  "hierarchy rows ids [] = ids"
| "hierarchy rows ids (p # ps) =
     hierarchy rows (map fr_ID (filter (\<lambda>c. fr_Name c = p \<and> active c \<and> (\<exists>h \<in> set ids. fr_ParentId c = Some h)) rows)) ps"

definition resolvePathID :: "file_row list \<Rightarrow> string \<Rightarrow> int \<Rightarrow> go_error + string" where
  "resolvePathID rows path userId =
     (let path = (if has_prefix path ''/root'' then path else ''/root/'' @ trim_chars CHR ''/'' path)
      in case split_on CHR ''/'' (trim_chars CHR ''/'' path) of
           [] \<Rightarrow> Inl ErrRecordNotFound
         | p # ps \<Rightarrow>
             (case hierarchy rows
                 (map fr_ID (filter (\<lambda>f. fr_Name f = p \<and> fr_UserId f = userId \<and> fr_ParentId f = None \<and> active f) rows)) ps of
                [] \<Rightarrow> Inl ErrRecordNotFound
              | i # _ \<Rightarrow> Inr i))"

text \<open>\<open>getFullPath\<close>: the names from the row up to a row without parent.\<close>

partial_function (option) path_tree :: "file_row list \<Rightarrow> string \<Rightarrow> string list option" where
  "path_tree rows fileID =
     (case find (\<lambda>f. fr_ID f = fileID) rows of
        None \<Rightarrow> Some []
      | Some f \<Rightarrow>
          (case fr_ParentId f of
             None \<Rightarrow> Some [fr_Name f]
           | Some p \<Rightarrow> Option.bind (path_tree rows p) (\<lambda>names. Some (names @ [fr_Name f]))))"

definition getFullPath :: "file_row list \<Rightarrow> string \<Rightarrow> string option" where
  "getFullPath rows fileID =
     map_option (\<lambda>names. let path = join_with ''/'' names
                         in trim_prefix (if path \<noteq> [] then ''/'' @ path else path) ''/root'') (path_tree rows fileID)"

subsection \<open>Deleting\<close>

definition children :: "file_row list \<Rightarrow> string list \<Rightarrow> string list" where
  "children rows ids = map fr_ID (filter (\<lambda>f. \<exists>i \<in> set ids. fr_ParentId f = Some i) rows)"

text \<open>The recursive query \<open>target_folders\<close>, level by level.\<close>

partial_function (option) target_folders :: "file_row list \<Rightarrow> string list \<Rightarrow> string list option" where
  "target_folders rows level =
     (if level = [] then Some [] else Option.bind (target_folders rows (children rows level)) (\<lambda>rest. Some (level @ rest)))"

definition marked_deleted :: "string list \<Rightarrow> string list \<Rightarrow> file_row \<Rightarrow> file_row" where
  "marked_deleted targets ids f =
     (if ((\<exists>t \<in> set targets. fr_ParentId f = Some t) \<or> fr_ID f \<in> set ids) \<and> fr_Type f = ''file''
      then f\<lparr>fr_Status := ''pending_deletion''\<rparr> else f)"

definition deleteFilesBulk :: "file_row list \<Rightarrow> string list \<Rightarrow> int \<Rightarrow> file_row list option" where
  "deleteFilesBulk rows fileIds userId =
     map_option (\<lambda>targets.
       map (marked_deleted targets fileIds) (filter (\<lambda>f. \<not> (fr_ID f \<in> set targets \<and> fr_Type f = ''folder'')) rows))
       (target_folders rows (map fr_ID (filter (\<lambda>f. fr_ID f \<in> set fileIds \<and> fr_UserId f = userId) rows)))"

text \<open>Shares refer to their file with \<^verbatim>\<open>ON DELETE CASCADE\<close>.\<close>

definition cascade_shares :: "file_row list \<Rightarrow> share_row list \<Rightarrow> share_row list" where
  "cascade_shares rows shares = filter (\<lambda>s. sh_FileId s \<in> set (map fr_ID rows)) shares"

definition source_of :: "file_row \<Rightarrow> source" where
  "source_of f = \<lparr>so_ID = fr_ID f, so_Type = fr_Type f, so_Name = fr_Name f, so_ParentID = str_opt (fr_ParentId f), so_DestParentID = []\<rparr>"

definition FilesDelete ::
  "(string list \<Rightarrow> 's \<Rightarrow> 's) \<Rightarrow> int \<Rightarrow> string list \<Rightarrow> 's svc \<Rightarrow> ('s svc \<times> api_error option) option" where
  "FilesDelete cdel userId ids v =
     (case ids of
        [] \<Rightarrow> Some (v, Some (ApiError (ErrText ''ids should not be empty'') 409))
      | i # _ \<Rightarrow>
          (case find (\<lambda>f. fr_ID f = i \<and> fr_UserId f = userId) (sv_files v) of
             None \<Rightarrow> Some (v, Some (ApiError ErrRecordNotFound 0))
           | Some fileDB \<Rightarrow>
               map_option (\<lambda>rows.
                 (record_event OpDelete userId (source_of fileDB)
                    (v\<lparr>sv_files := rows, sv_shares := cascade_shares rows (sv_shares v),
                       sv_cache := cdel (concat (map (\<lambda>i. [KeyFile i, KeyFileMessages i, KeyFilePath i]) ids)) (sv_cache v)\<rparr>), None))
                 (deleteFilesBulk (sv_files v) ids userId)))"

subsection \<open>Creating\<close>

record file_in =
  fi_Name :: string
  fi_Type :: string
  fi_Path :: string
  fi_ParentId :: string
  fi_ChannelId :: int
  fi_MimeType :: string
  fi_Parts :: "api_part list"
  fi_UploadId :: string
  fi_Size :: int
  fi_Encrypted :: bool
  fi_UpdatedAt :: "int option"

text \<open>What a handler meets: the clock, the upload retention, the channel manager's answer, the id of a new row,
  the hash function, and an error of the database for each statement that may fail.\<close>

record svc_env =
  se_now :: int
  se_retention :: int
  se_channel :: "go_error + int"
  se_newID :: string
  se_blake3 :: "bytes \<Rightarrow> bytes"
  se_uploadsErr :: "go_error option"
  se_txErr :: "go_error option"

fun replace_slashes :: "string \<Rightarrow> string" where
  "replace_slashes (a # b # s) = (if a = CHR ''/'' \<and> b = CHR ''/'' then CHR ''/'' # replace_slashes s else a # replace_slashes (b # s))"
| "replace_slashes s = s"

definition map_parts :: "api_part list \<Rightarrow> api_part list" where
  "map_parts ps = map (\<lambda>p. \<lparr>pt_ID = pt_ID p, pt_Salt = (if pt_Salt p \<noteq> [] then pt_Salt p else [])\<rparr>) ps"

definition upload_parts :: "svc_env \<Rightarrow> string \<Rightarrow> upload_row list \<Rightarrow> upload_row list" where
  "upload_parts env uploadId ups =
     sort_key up_PartNo (filter (\<lambda>u. up_UploadId u = uploadId \<and> up_CreatedAt u > se_now env - se_retention env) ups)"

definition part_of_upload :: "upload_row \<Rightarrow> api_part" where
  "part_of_upload u = \<lparr>pt_ID = up_PartId u, pt_Salt = up_Salt u\<rparr>"

definition tree_hash :: "svc_env \<Rightarrow> upload_row list \<Rightarrow> string option" where
  "tree_hash env ups =
     (let allBlockHashes = concat (map up_BlockHashes ups)
      in if allBlockHashes \<noteq> [] then Some (SumToHex (ComputeTreeHash (se_blake3 env) allBlockHashes)) else None)"

text \<open>The parts of a new file: given in the request, or those of the upload, none of which may have id 0.\<close>

definition create_parts :: "svc_env \<Rightarrow> file_in \<Rightarrow> upload_row list \<Rightarrow> api_error + (api_part list \<times> string \<times> upload_row list)" where
  "create_parts env fileIn ups =
     (if fi_Parts fileIn \<noteq> [] then Inr (fi_Parts fileIn, [], [])
      else if fi_UploadId fileIn = [] then Inr ([], [], [])
      else case se_uploadsErr env of
             Some e \<Rightarrow> Inl (ApiError e 0)
           | None \<Rightarrow>
               let us = upload_parts env (fi_UploadId fileIn) ups
               in if list_ex (\<lambda>u. up_PartId u = 0) us then Inl (ApiError (ErrText ''invalid part: part_id cannot be zero'') 400)
                  else Inr (map part_of_upload us, fi_UploadId fileIn, us))"

definition create_hash :: "svc_env \<Rightarrow> file_in \<Rightarrow> string \<Rightarrow> upload_row list \<Rightarrow> string option" where
  "create_hash env fileIn uploadId us =
     (if uploadId \<noteq> [] \<and> us \<noteq> [] then tree_hash env us
      else if fi_Size fileIn = 0 then Some (SumToHex (ComputeTreeHash (se_blake3 env) []))
      else None)"

definition folder_fields :: "file_row \<Rightarrow> file_row" where
  "folder_fields f = f\<lparr>fr_MimeType := ''drive/folder'', fr_Parts := None\<rparr>"

definition new_row :: "svc_env \<Rightarrow> file_in \<Rightarrow> int \<Rightarrow> string option \<Rightarrow> file_row" where
  "new_row env fileIn userId parent =
     \<lparr>fr_ID = se_newID env, fr_Name = fi_Name fileIn, fr_Type = fi_Type fileIn, fr_MimeType = [], fr_Size = None, fr_Category = None,
      fr_Encrypted = Some (fi_Encrypted fileIn), fr_UserId = userId, fr_Status = ''active'', fr_ParentId = parent, fr_Parts = None,
      fr_ChannelId = None, fr_Hash = None,
      fr_UpdatedAt = Some (case fi_UpdatedAt fileIn of None \<Rightarrow> se_now env | Some t \<Rightarrow> t)\<rparr>"

text \<open>The row to write, with the upload it consumes.\<close>

definition create_row :: "svc_env \<Rightarrow> file_in \<Rightarrow> int \<Rightarrow> string option \<Rightarrow> upload_row list \<Rightarrow> api_error + (file_row \<times> string)" where
  "create_row env fileIn userId parent ups =
     (let f = new_row env fileIn userId parent in
      if fi_Type fileIn = ''folder'' then Inr (folder_fields f, [])
      else if fi_Type fileIn = ''file'' then
        (case (if fi_ChannelId fileIn = 0 then se_channel env else Inr (fi_ChannelId fileIn)) of
           Inl e \<Rightarrow> Inl (ApiError e 0)
         | Inr channelId \<Rightarrow>
             (case create_parts env fileIn ups of
                Inl e \<Rightarrow> Inl e
              | Inr (parts, uploadId, us) \<Rightarrow>
                  Inr (f\<lparr>fr_ChannelId := Some channelId, fr_MimeType := fi_MimeType fileIn,
                         fr_Category := Some (GetCategory (fi_Name fileIn)),
                         fr_Parts := (if parts \<noteq> [] then Some (map_parts parts) else None),
                         fr_Hash := create_hash env fileIn uploadId us,
                         fr_Size := Some (fi_Size fileIn)\<rparr>, uploadId)))
      else Inr (f, []))"

text \<open>\<^verbatim>\<open>INSERT ... ON CONFLICT ... DO UPDATE ... RETURNING *\<close>.\<close>

fun upsert :: "file_row \<Rightarrow> file_row list \<Rightarrow> file_row list \<times> file_row" where
  "upsert f [] = ([f], f)"
| "upsert f (g # gs) =
     (if active g \<and> same_place f g then
        let g' = g\<lparr>fr_MimeType := fr_MimeType f, fr_Category := fr_Category f, fr_Parts := fr_Parts f, fr_Size := fr_Size f,
                   fr_Type := fr_Type f, fr_Encrypted := fr_Encrypted f, fr_UpdatedAt := fr_UpdatedAt f,
                   fr_ChannelId := fr_ChannelId f, fr_Status := fr_Status f, fr_Hash := fr_Hash f\<rparr>
        in (g' # gs, g')
      else case upsert f gs of (gs', r) \<Rightarrow> (g # gs', r))"

definition create_parent :: "file_in \<Rightarrow> int \<Rightarrow> file_row list \<Rightarrow> api_error + string option" where
  "create_parent fileIn userId rows =
     (let path = (if fi_Path fileIn \<noteq> [] then replace_slashes (fi_Path fileIn) else []) in
      if path \<noteq> [] \<and> fi_ParentId fileIn = [] then
        (case resolvePathID rows path userId of Inl e \<Rightarrow> Inl (ApiError e 404) | Inr p \<Rightarrow> Inr (Some p))
      else if fi_ParentId fileIn \<noteq> [] then Inr (Some (fi_ParentId fileIn))
      else Inr None)"

definition FilesCreate :: "svc_env \<Rightarrow> int \<Rightarrow> file_in \<Rightarrow> 's svc \<Rightarrow> ('s svc \<times> (api_error + file_row)) option" where
  "FilesCreate env userId fileIn v =
     (if fi_Path fileIn = [] \<and> fi_ParentId fileIn = [] then
        Some (v, Inl (ApiError (ErrText ''parent id or path is required'') 409))
      else case create_parent fileIn userId (sv_files v) of
             Inl e \<Rightarrow> Some (v, Inl e)
           | Inr parent \<Rightarrow>
               (case create_row env fileIn userId parent (sv_uploads v) of
                  Inl e \<Rightarrow> Some (v, Inl e)
                | Inr (row, uploadId) \<Rightarrow>
                    (case se_txErr env of
                       Some e \<Rightarrow> Some (v, Inl (ApiError e 0))
                     | None \<Rightarrow>
                         (case upsert row (sv_files v) of
                            (rows, fileDB) \<Rightarrow>
                              (case fr_ParentId fileDB of
                                 None \<Rightarrow> None
                               | Some p \<Rightarrow>
                                   Some (record_event OpCreate userId (source_of fileDB)
                                     (v\<lparr>sv_files := rows,
                                        sv_uploads := (if uploadId \<noteq> [] then filter (\<lambda>u. up_UploadId u \<noteq> uploadId) (sv_uploads v)
                                                       else sv_uploads v)\<rparr>), Inr fileDB))))))"

subsection \<open>Updating\<close>

text \<open>A field of the request that is not set is \<open>None\<close>; a zero time is \<open>Some None\<close>.\<close>

record file_update =
  fu_Name :: "string option"
  fu_ParentId :: "string option"
  fu_ChannelId :: "int option"
  fu_Size :: "int option"
  fu_Parts :: "api_part list"
  fu_UploadId :: "string option"
  fu_Encrypted :: "bool option"
  fu_UpdatedAt :: "int option option"

text \<open>The columns that gorm writes: those of the non-zero fields of the struct.\<close>

record file_patch =
  pa_Name :: "string option"
  pa_ParentId :: "string option"
  pa_ChannelId :: "int option"
  pa_Parts :: "api_part list option"
  pa_Size :: "int option"
  pa_Encrypted :: "bool option"
  pa_UpdatedAt :: "int option"
  pa_Hash :: "string option"

definition or_old :: "'a option \<Rightarrow> 'a \<Rightarrow> 'a" where
  "or_old p old = (case p of None \<Rightarrow> old | Some x \<Rightarrow> x)"

definition some_or :: "'a option \<Rightarrow> 'a option \<Rightarrow> 'a option" where
  "some_or p old = (case p of None \<Rightarrow> old | Some x \<Rightarrow> Some x)"

definition apply_patch :: "file_patch \<Rightarrow> file_row \<Rightarrow> file_row" where
  "apply_patch pa f =
     f\<lparr>fr_Name := or_old (pa_Name pa) (fr_Name f), fr_ParentId := some_or (pa_ParentId pa) (fr_ParentId f),
       fr_ChannelId := some_or (pa_ChannelId pa) (fr_ChannelId f), fr_Parts := some_or (pa_Parts pa) (fr_Parts f),
       fr_Size := some_or (pa_Size pa) (fr_Size f), fr_Encrypted := some_or (pa_Encrypted pa) (fr_Encrypted f),
       fr_UpdatedAt := some_or (pa_UpdatedAt pa) (fr_UpdatedAt f), fr_Hash := some_or (pa_Hash pa) (fr_Hash f)\<rparr>"

definition with_uploads :: "upload_row list \<Rightarrow> file_update \<Rightarrow> file_update" where
  "with_uploads us req =
     req\<lparr>fu_Parts := fu_Parts req @ map part_of_upload us,
         fu_Size := (if or_old (fu_Size req) 0 = 0 then Some (sum_list (map up_Size us)) else fu_Size req)\<rparr>"

definition content_update :: "file_update \<Rightarrow> bool" where
  "content_update req \<longleftrightarrow> or_old (fu_Size req) 0 \<noteq> 0 \<and> fu_Parts req \<noteq> [] \<or> fu_Size req = Some 0 \<or> fu_Encrypted req \<noteq> None"

definition update_patch :: "svc_env \<Rightarrow> file_update \<Rightarrow> upload_row list \<Rightarrow> file_patch" where
  "update_patch env req us =
     \<lparr>pa_Name = (if or_old (fu_Name req) [] \<noteq> [] then fu_Name req else None),
      pa_ParentId = (if or_old (fu_ParentId req) [] \<noteq> [] then fu_ParentId req else None),
      pa_ChannelId = (if or_old (fu_ChannelId req) 0 \<noteq> 0 then fu_ChannelId req else None),
      pa_Parts = (if or_old (fu_Size req) 0 \<noteq> 0 \<and> fu_Parts req \<noteq> [] then Some (map_parts (fu_Parts req)) else None),
      pa_Size = (if or_old (fu_Size req) 0 \<noteq> 0 \<and> fu_Parts req \<noteq> [] \<or> fu_Size req = Some 0 then fu_Size req else None),
      pa_Encrypted = fu_Encrypted req,
      pa_UpdatedAt = (if content_update req \<or> fu_UpdatedAt req \<noteq> None
        then Some (case fu_UpdatedAt req of Some (Some t) \<Rightarrow> t | _ \<Rightarrow> se_now env) else None),
      pa_Hash = (if us \<noteq> [] then tree_hash env us else None)\<rparr>"

text \<open>With an explicit time and no new content, only the column \<^verbatim>\<open>updated_at\<close> is selected.\<close>

definition selected_patch :: "file_update \<Rightarrow> file_patch \<Rightarrow> file_patch" where
  "selected_patch req pa =
     (if fu_UpdatedAt req \<noteq> None \<and> \<not> content_update req
      then \<lparr>pa_Name = None, pa_ParentId = None, pa_ChannelId = None, pa_Parts = None, pa_Size = None, pa_Encrypted = None,
            pa_UpdatedAt = pa_UpdatedAt pa, pa_Hash = None\<rparr>
      else pa)"

definition invalidateAllFilePathCache :: "(string \<Rightarrow> 's \<Rightarrow> 's) \<Rightarrow> 's \<Rightarrow> 's" where
  "invalidateAllFilePathCache cpat c =
     cpat (Key [KStr ''files'', KStr ''path'', KStr ''*'', KStr ''stale'']) (cpat (Key [KStr ''files'', KStr ''path'', KStr ''*'']) c)"

definition shouldInvalidateDescendantPathCache :: "file_row \<Rightarrow> file_update \<Rightarrow> bool" where
  "shouldInvalidateDescendantPathCache f req \<longleftrightarrow> fr_Type f = ''folder'' \<and> (fu_Name req \<noteq> None \<or> fu_ParentId req \<noteq> None)"

definition update_cache ::
  "(string list \<Rightarrow> 's \<Rightarrow> 's) \<Rightarrow> (string \<Rightarrow> 's \<Rightarrow> 's) \<Rightarrow> string \<Rightarrow> file_update \<Rightarrow> file_row \<Rightarrow> 's \<Rightarrow> 's" where
  "update_cache cdel cpat fileID req f c =
     (let c1 = (if fu_Parts req \<noteq> [] then cpat (KeyFileLocationPattern fileID) c else c);
          c2 = cdel ([KeyFile fileID, KeyFilePath fileID] @ (if fu_Parts req \<noteq> [] then [KeyFileMessages fileID] else [])) c1
      in if shouldInvalidateDescendantPathCache f req then invalidateAllFilePathCache cpat c2 else c2)"

definition FilesUpdate ::
  "(string list \<Rightarrow> 's \<Rightarrow> 's) \<Rightarrow> (string \<Rightarrow> 's \<Rightarrow> 's) \<Rightarrow> svc_env \<Rightarrow> int \<Rightarrow> string \<Rightarrow> file_update \<Rightarrow> 's svc \<Rightarrow>
   's svc \<times> (api_error + file_row)" where
  "FilesUpdate cdel cpat env userId fileID req0 v =
     (let uploadId = or_old (fu_UploadId req0) [] in
      if uploadId \<noteq> [] \<and> se_uploadsErr env \<noteq> None then (v, Inl (ApiError (the (se_uploadsErr env)) 0))
      else
        let us = (if uploadId \<noteq> [] then upload_parts env uploadId (sv_uploads v) else []);
            req = (if uploadId \<noteq> [] then with_uploads us req0 else req0);
            pa = selected_patch req (update_patch env req us);
            rows = map (\<lambda>f. if fr_ID f = fileID then apply_patch pa f else f) (sv_files v)
        in case se_txErr env of
             Some e \<Rightarrow> (v, Inl (ApiError e 0))
           | None \<Rightarrow>
               if \<not> unique_active rows then (v, Inl (ApiError ErrUnique 0))
               else (case find (\<lambda>f. fr_ID f = fileID) rows of
                       None \<Rightarrow> (v, Inl (ApiError ErrRecordNotFound 0))
                     | Some f \<Rightarrow>
                         (record_event OpUpdate userId (source_of f)
                            (v\<lparr>sv_files := rows,
                               sv_uploads := (if uploadId \<noteq> [] then filter (\<lambda>u. up_UploadId u \<noteq> uploadId) (sv_uploads v)
                                              else sv_uploads v),
                               sv_cache := update_cache cdel cpat fileID req f (sv_cache v)\<rparr>), Inr f)))"

subsection \<open>Moving\<close>

definition adopt_children :: "file_row \<Rightarrow> file_row \<Rightarrow> file_row list \<Rightarrow> file_row list" where
  "adopt_children src existing rows =
     (let names = map fr_Name (filter (\<lambda>f. fr_ParentId f = Some (fr_ID src) \<and> active f) rows)
      in map (\<lambda>f. if fr_ParentId f = Some (fr_ID existing) \<and> active f \<and> fr_Name f \<notin> set names
                  then f\<lparr>fr_ParentId := Some (fr_ID src)\<rparr> else f) rows)"

text \<open>
  What stands in the way of a move with a new name: a folder moved onto a folder adopts its
  children, then the old entry is deleted. The sum has the error of a failing statement.
\<close>

definition clear_target :: "file_row \<Rightarrow> file_row option \<Rightarrow> int \<Rightarrow> file_row list \<Rightarrow> (go_error + file_row list) option" where
  "clear_target src existing userId rows =
     (case existing of
        None \<Rightarrow> Some (Inr rows)
      | Some ex \<Rightarrow>
          let rows1 = (if fr_Type src = ''folder'' \<and> fr_Type ex = ''folder'' then adopt_children src ex rows else rows)
          in if \<not> unique_active rows1 then Some (Inl ErrUnique)
             else map_option Inr (deleteFilesBulk rows1 [fr_ID ex] userId))"

definition move_source :: "file_row \<Rightarrow> string option \<Rightarrow> source" where
  "move_source src dest =
     \<lparr>so_ID = str_opt dest, so_Type = fr_Type src, so_Name = fr_Name src, so_ParentID = str_opt (fr_ParentId src),
      so_DestParentID = str_opt dest\<rparr>"

definition moved :: "(file_row \<Rightarrow> bool) \<Rightarrow> (file_row \<Rightarrow> file_row) \<Rightarrow> file_row list \<Rightarrow> go_error + file_row list" where
  "moved P upd rows =
     (let rows' = map (\<lambda>f. if P f then upd f else f) rows in if unique_active rows' then Inr rows' else Inl ErrUnique)"

definition FilesMove ::
  "(string \<Rightarrow> 's \<Rightarrow> 's) \<Rightarrow> (string \<Rightarrow> bool) \<Rightarrow> int \<Rightarrow> string list \<Rightarrow> string \<Rightarrow> string \<Rightarrow> 's svc \<Rightarrow> ('s svc \<times> api_error option) option" where
  "FilesMove cpat isUUID userId ids destinationParent destinationName v =
     (case (if isUUID destinationParent then Inr destinationParent else resolvePathID (sv_files v) destinationParent userId) of
        Inl e \<Rightarrow> Some (v, Some (ApiError e 0))
      | Inr dest \<Rightarrow>
          (case ids of
             [] \<Rightarrow> None
           | i # _ \<Rightarrow>
               (case find (\<lambda>f. fr_ID f = i \<and> fr_UserId f = userId) (sv_files v) of
                  None \<Rightarrow> Some (v, Some (ApiError ErrRecordNotFound 0))
                | Some src \<Rightarrow>
                    let commit = (\<lambda>rows w. w\<lparr>sv_files := rows, sv_shares := cascade_shares rows (sv_shares w),
                                              sv_cache := invalidateAllFilePathCache cpat (sv_cache w)\<rparr>) in
                    if length ids = 1 \<and> destinationName \<noteq> [] then
                      let existing = find (\<lambda>f. fr_Name f = destinationName \<and> fr_UserId f = userId \<and> active f \<and> fr_ParentId f = Some dest)
                                       (sv_files v)
                      in Option.bind (clear_target src existing userId (sv_files v)) (\<lambda>r.
                           case r of
                             Inl e \<Rightarrow> Some (v, Some (ApiError e 0))
                           | Inr rows \<Rightarrow>
                               (case moved (\<lambda>f. fr_ID f = i \<and> fr_UserId f = userId)
                                   (\<lambda>f. f\<lparr>fr_ParentId := Some dest, fr_Name := destinationName\<rparr>) rows of
                                  Inl e \<Rightarrow> Some (v, Some (ApiError e 0))
                                | Inr rows' \<Rightarrow> Some (commit rows' v, None)))
                    else
                      (case moved (\<lambda>f. fr_ID f \<in> set ids \<and> fr_UserId f = userId) (\<lambda>f. f\<lparr>fr_ParentId := Some dest\<rparr>) (sv_files v) of
                         Inl e \<Rightarrow> Some (v, Some (ApiError e 0))
                       | Inr rows \<Rightarrow>
                           Some (commit rows (record_event OpMove userId (move_source src (Some dest)) v), None)))))"

subsection \<open>The unique index\<close>

lemma unique_sub:
  assumes "\<And>f. f \<in> set rows \<Longrightarrow> active (m f) \<Longrightarrow> active f" "\<And>f g. f \<in> set rows \<Longrightarrow> g \<in> set rows \<Longrightarrow> same_place (m f) (m g) \<Longrightarrow> same_place f g"
    "unique_active rows"
  shows "unique_active (map m rows)"
  using assms
proof (induction rows)
  case (Cons f fs)
  then show ?case by (auto simp: list_ex_iff)
qed simp

lemma unique_filter: "unique_active rows \<Longrightarrow> unique_active (filter P rows)"
  by (induction rows) (auto simp: list_ex_iff)

lemma marked_deleted_same: "same_place (marked_deleted T ids f) (marked_deleted T ids g) = same_place f g"
  "active (marked_deleted T ids f) \<Longrightarrow> active f" "fr_ID (marked_deleted T ids f) = fr_ID f" "fr_UserId (marked_deleted T ids f) = fr_UserId f"
  "fr_ParentId (marked_deleted T ids f) = fr_ParentId f" "fr_Name (marked_deleted T ids f) = fr_Name f" "fr_Type (marked_deleted T ids f) = fr_Type f"
  by (auto simp: marked_deleted_def same_place_def active_def split: if_splits)

lemma deleteFilesBulk_unique: "unique_active rows \<Longrightarrow> deleteFilesBulk rows ids userId = Some rows' \<Longrightarrow> unique_active rows'"
  by (auto simp: deleteFilesBulk_def marked_deleted_same intro!: unique_sub unique_filter dest: marked_deleted_same(2))

lemma deleteFilesBulk_ids:
  "deleteFilesBulk rows ids userId = Some rows' \<Longrightarrow> distinct (map fr_ID rows) \<Longrightarrow> distinct (map fr_ID rows')"
  by (auto simp: deleteFilesBulk_def comp_def marked_deleted_same distinct_map_filter)

definition upserted :: "file_row \<Rightarrow> file_row \<Rightarrow> file_row" where
  "upserted f g =
     g\<lparr>fr_MimeType := fr_MimeType f, fr_Category := fr_Category f, fr_Parts := fr_Parts f, fr_Size := fr_Size f,
       fr_Type := fr_Type f, fr_Encrypted := fr_Encrypted f, fr_UpdatedAt := fr_UpdatedAt f,
       fr_ChannelId := fr_ChannelId f, fr_Status := fr_Status f, fr_Hash := fr_Hash f\<rparr>"

lemma upserted_id: "active f \<Longrightarrow> same_place f g \<Longrightarrow> upserted f g = f\<lparr>fr_ID := fr_ID g\<rparr>"
  by (cases f; cases g) (auto simp: upserted_def same_place_def)

lemma upsert_cases:
  obtains "upsert f rows = (rows @ [f], f)" "\<forall>g \<in> set rows. \<not> (active g \<and> same_place f g)"
  | us g vs where "rows = us @ g # vs" "active g" "same_place f g" "\<forall>h \<in> set us. \<not> (active h \<and> same_place f h)"
      "upsert f rows = (us @ upserted f g # vs, upserted f g)"
proof (induction rows arbitrary: thesis)
  case (Cons h rows)
  show ?case
  proof (cases "active h \<and> same_place f h")
    case True
    then show ?thesis by (intro Cons.prems(2) [of "[]" h rows]) (auto simp: upserted_def Let_def)
  next
    case False
    show ?thesis
    proof (rule Cons.IH)
      assume "upsert f rows = (rows @ [f], f)" "\<forall>g \<in> set rows. \<not> (active g \<and> same_place f g)"
      with False show ?thesis by (intro Cons.prems(1)) auto
    next
      fix us g vs
      assume "rows = us @ g # vs" "active g" "same_place f g" "\<forall>h \<in> set us. \<not> (active h \<and> same_place f h)"
        "upsert f rows = (us @ upserted f g # vs, upserted f g)"
      with False show ?thesis by (intro Cons.prems(2) [of "h # us" g vs]) auto
    qed
  qed
qed simp

lemma unique_append: "unique_active (us @ vs) \<longleftrightarrow> unique_active us \<and> unique_active vs \<and>
    (\<forall>f \<in> set us. \<forall>g \<in> set vs. \<not> (active f \<and> active g \<and> same_place f g))"
  by (induction us) (auto simp: list_ex_iff)

lemma same_place_eq: "same_place f g \<Longrightarrow> same_place f h = same_place g h" "same_place h f = same_place f h" "same_place f f"
  by (auto simp: same_place_def)

lemma upsert_unique:
  assumes "unique_active rows" "active f"
  shows "unique_active (fst (upsert f rows))"
proof (cases rule: upsert_cases [of f rows])
  case 1
  then show ?thesis using assms by (auto simp: unique_append same_place_def)
next
  case (2 us g vs)
  have "same_place (upserted f g) h = same_place g h" "same_place h (upserted f g) = same_place h g" for h
    by (auto simp: upserted_def same_place_def)
  then show ?thesis using assms(1) 2 by (auto simp: unique_append list_ex_iff)
qed

lemma upsert_ids:
  assumes "distinct (map fr_ID rows)" "fr_ID f \<notin> fr_ID ` set rows"
  shows "distinct (map fr_ID (fst (upsert f rows)))"
proof (cases rule: upsert_cases [of f rows])
  case 1
  then show ?thesis using assms by auto
next
  case (2 us g vs)
  then show ?thesis using assms by (simp add: upserted_def)
qed

subsection \<open>Histories of the file tree\<close>

text \<open>Any user may call any handler with any request, in any order; a new row gets a fresh id.\<close>

inductive svc_step :: "(string list \<Rightarrow> 's \<Rightarrow> 's) \<Rightarrow> (string \<Rightarrow> 's \<Rightarrow> 's) \<Rightarrow> 's svc \<Rightarrow> 's svc \<Rightarrow> bool" for cdel cpat where
  create: "FilesCreate env userId fileIn v = Some (v', r) \<Longrightarrow> se_newID env \<notin> fr_ID ` set (sv_files v) \<Longrightarrow> svc_step cdel cpat v v'"
| update: "FilesUpdate cdel cpat env userId fileID req v = (v', r) \<Longrightarrow> svc_step cdel cpat v v'"
| move: "FilesMove cpat isUUID userId ids dst name v = Some (v', e) \<Longrightarrow> svc_step cdel cpat v v'"
| delete: "FilesDelete cdel userId ids v = Some (v', e) \<Longrightarrow> svc_step cdel cpat v v'"

definition svc_init :: "'s svc \<Rightarrow> bool" where
  "svc_init v \<longleftrightarrow> sv_files v = []"

definition table_ok :: "file_row list \<Rightarrow> bool" where
  "table_ok rows \<longleftrightarrow> distinct (map fr_ID rows) \<and> unique_active rows"

lemma record_event_files [simp]: "sv_files (record_event op u src v) = sv_files v" "sv_cache (record_event op u src v) = sv_cache v"
  "sv_uploads (record_event op u src v) = sv_uploads v"
  by (simp_all add: record_event_def)

lemma create_row_fields:
  "create_row env fileIn userId parent ups = Inr (row, uploadId) \<Longrightarrow>
     fr_ID row = se_newID env \<and> active row \<and> fr_ParentId row = parent \<and> fr_Name row = fi_Name fileIn \<and> fr_UserId row = userId \<and>
     fr_Type row = fi_Type fileIn \<and> (uploadId \<noteq> [] \<longrightarrow> uploadId = fi_UploadId fileIn \<and> fi_Parts fileIn = [])"
  by (auto simp: create_row_def new_row_def folder_fields_def active_def create_parts_def Let_def split: if_splits sum.splits option.splits)

lemma create_table_ok:
  assumes "FilesCreate env userId fileIn v = Some (v', r)" "se_newID env \<notin> fr_ID ` set (sv_files v)" "table_ok (sv_files v)"
  shows "table_ok (sv_files v')"
proof (cases "sv_files v' = sv_files v")
  case False
  with assms(1) obtain parent row uploadId where
    row: "create_row env fileIn userId parent (sv_uploads v) = Inr (row, uploadId)" and v': "sv_files v' = fst (upsert row (sv_files v))"
    by (auto simp: FilesCreate_def split: if_splits sum.splits prod.splits option.splits)
  from create_row_fields [OF row] assms(2,3) v' upsert_unique [of "sv_files v" row] upsert_ids [of "sv_files v" row]
  show ?thesis by (simp add: table_ok_def)
qed (use assms in simp)

lemma update_table_ok:
  "FilesUpdate cdel cpat env userId fileID req v = (v', r) \<Longrightarrow> table_ok (sv_files v) \<Longrightarrow> table_ok (sv_files v')"
  by (auto simp: FilesUpdate_def Let_def table_ok_def comp_def apply_patch_def if_distrib [of fr_ID] cong: if_cong
      split: if_splits option.splits)

lemma delete_table_ok: "FilesDelete cdel userId ids v = Some (v', e) \<Longrightarrow> table_ok (sv_files v) \<Longrightarrow> table_ok (sv_files v')"
  by (auto simp: FilesDelete_def table_ok_def split: list.splits option.splits
      dest: deleteFilesBulk_unique deleteFilesBulk_ids)

lemma moved_ok: "moved P upd rows = Inr rows' \<Longrightarrow> (\<And>f. fr_ID (upd f) = fr_ID f) \<Longrightarrow> distinct (map fr_ID rows) \<Longrightarrow> table_ok rows'"
  by (auto simp: moved_def Let_def table_ok_def comp_def if_distrib [of fr_ID] cong: if_cong split: if_splits)

lemma map_ids: "(\<And>f. fr_ID (m f) = fr_ID f) \<Longrightarrow> map fr_ID (map m rows) = map fr_ID rows"
  by (simp add: comp_def)

lemma adopt_children_ids: "map fr_ID (adopt_children src ex rows) = map fr_ID rows"
  unfolding adopt_children_def Let_def by (rule map_ids) simp

lemma clear_target_ids:
  assumes "clear_target src ex userId rows = Some (Inr rows')" "distinct (map fr_ID rows)"
  shows "distinct (map fr_ID rows')"
proof (cases ex)
  case (Some e)
  define rows1 where "rows1 = (if fr_Type src = ''folder'' \<and> fr_Type e = ''folder'' then adopt_children src e rows else rows)"
  have "deleteFilesBulk rows1 [fr_ID e] userId = Some rows'"
    using assms(1) Some by (auto simp: clear_target_def rows1_def [symmetric] Let_def split: if_splits)
  moreover have "distinct (map fr_ID rows1)" using assms(2) by (simp add: rows1_def adopt_children_ids)
  ultimately show ?thesis by (rule deleteFilesBulk_ids)
qed (use assms in \<open>simp add: clear_target_def\<close>)

text \<open>What a move leaves: nothing changed, or the rows of one last update on rows with the same ids.\<close>

lemma FilesMove_cases:
  assumes "FilesMove cpat isUUID userId ids dst name v = Some (v', e)"
  obtains "v' = v"
  | src ex rows P upd where "moved P upd rows = Inr (sv_files v')" "\<And>f. fr_ID (upd f) = fr_ID f"
      "rows = sv_files v \<or> clear_target src ex userId (sv_files v) = Some (Inr rows)"
proof -
  from assms obtain dest where dest: "v' = v \<or> (if isUUID dst then Inr dst else resolvePathID (sv_files v) dst userId) = Inr dest"
    by (auto simp: FilesMove_def split: sum.splits)
  show ?thesis
  proof (cases "v' = v")
    case False
    with dest have dest: "(if isUUID dst then Inr dst else resolvePathID (sv_files v) dst userId) = Inr dest" by blast
    obtain i rest where i: "ids = i # rest" using assms dest by (cases ids) (auto simp: FilesMove_def)
    obtain src where src: "find (\<lambda>f. fr_ID f = i \<and> fr_UserId f = userId) (sv_files v) = Some src"
      using assms dest i False by (auto simp: FilesMove_def split: option.splits)
    show ?thesis
    proof (cases "length ids = 1 \<and> name \<noteq> []")
      case True
      define ex where "ex = find (\<lambda>f. fr_Name f = name \<and> fr_UserId f = userId \<and> active f \<and> fr_ParentId f = Some dest) (sv_files v)"
      let ?upd = "\<lambda>f. f\<lparr>fr_ParentId := Some dest, fr_Name := name\<rparr>" and ?P = "\<lambda>f. fr_ID f = i \<and> fr_UserId f = userId"
      from assms dest i src True obtain r where r: "clear_target src ex userId (sv_files v) = Some r"
        by (auto simp: FilesMove_def ex_def [symmetric] Let_def bind_eq_Some_conv)
      then obtain rows where rows: "r = Inr rows"
        using assms dest i src True False by (cases r) (auto simp: FilesMove_def ex_def [symmetric] Let_def)
      have "moved ?P ?upd rows = Inr (sv_files v')"
        using assms dest i src True False r rows
        by (cases "moved ?P ?upd rows") (auto simp: FilesMove_def ex_def [symmetric] Let_def)
      with r rows have "clear_target src ex userId (sv_files v) = Some (Inr rows) \<and> moved ?P ?upd rows = Inr (sv_files v')"
        by simp
      then show ?thesis using that(2) [of ?P ?upd] by auto
    next
      case multi: False
      let ?upd = "\<lambda>f. f\<lparr>fr_ParentId := Some dest\<rparr>" and ?P = "\<lambda>f. fr_ID f \<in> set ids \<and> fr_UserId f = userId"
      have "moved ?P ?upd (sv_files v) = Inr (sv_files v')"
        using assms dest i src multi False by (auto simp: FilesMove_def Let_def split: sum.splits)
      then show ?thesis using that(2) [of ?P ?upd] by auto
    qed
  qed (use that(1) in blast)
qed

lemma move_table_ok:
  assumes "FilesMove cpat isUUID userId ids dst name v = Some (v', e)" "table_ok (sv_files v)"
  shows "table_ok (sv_files v')"
  using assms(1)
proof (cases rule: FilesMove_cases)
  case (2 src ex rows P upd)
  then have "distinct (map fr_ID rows)" using assms(2) clear_target_ids by (auto simp: table_ok_def)
  with 2 show ?thesis by (intro moved_ok)
qed (use assms in simp)

interpretation file_table: step_invariant svc_init "svc_step cdel cpat" "\<lambda>v. table_ok (sv_files v)"
proof (unfold_locales, goal_cases)
  case (1 v)
  then show ?case by (simp add: svc_init_def table_ok_def)
next
  case (2 v v')
  from 2(2,1) show ?case
    by (induction rule: svc_step.induct) (auto intro: create_table_ok update_table_ok move_table_ok delete_table_ok)
qed

subsection \<open>Subtrees\<close>

inductive below :: "file_row list \<Rightarrow> string \<Rightarrow> string \<Rightarrow> bool" for rows where
  self: "below rows i i"
| child: "f \<in> set rows \<Longrightarrow> fr_ParentId f = Some i \<Longrightarrow> below rows (fr_ID f) j \<Longrightarrow> below rows i j"

definition tree_ok :: "file_row list \<Rightarrow> bool" where
  "tree_ok rows \<longleftrightarrow> (\<exists>rank :: string \<Rightarrow> nat. \<forall>f \<in> set rows. \<forall>p. fr_ParentId f = Some p \<longrightarrow> rank p < rank (fr_ID f))"

lemma below_iff: "below rows i j \<longleftrightarrow> j = i \<or> (\<exists>f \<in> set rows. fr_ParentId f = Some i \<and> below rows (fr_ID f) j)"
  by (subst below.simps) blast

lemma target_folders_set:
  "target_folders rows level = Some T \<Longrightarrow> set T = {j. \<exists>i \<in> set level. below rows i j}"
proof (induction rule: target_folders.raw_induct [rotated, consumes 1, case_names 1])
  case (1 tf rows level T)
  show ?case
  proof (cases "level = []")
    case False
    with 1(2) obtain rest where rest: "tf rows (children rows level) = Some rest" "T = level @ rest"
      by (auto simp: bind_eq_Some_conv)
    from 1(1) [OF rest(1)] have "set rest = {j. \<exists>i \<in> set (children rows level). below rows i j}" .
    then have "set T = set level \<union> {j. \<exists>i \<in> set level. \<exists>f \<in> set rows. fr_ParentId f = Some i \<and> below rows (fr_ID f) j}"
      using rest(2) by (auto simp: children_def)
    then show ?thesis by (subst below_iff) blast
  qed (use 1(2) in simp)
qed

lemma target_folders_ends:
  assumes rank: "\<forall>f \<in> set rows. \<forall>p. fr_ParentId f = Some p \<longrightarrow> rank p < (rank (fr_ID f) :: nat)"
    and m: "\<forall>i \<in> set level. m \<le> rank i" and N: "\<forall>f \<in> set rows. rank (fr_ID f) < N" "\<forall>i \<in> set level. rank i < N"
  shows "\<exists>T. target_folders rows level = Some T"
  using m N(2)
proof (induction "N - m" arbitrary: m level)
  case 0
  then have "level = []" by (cases level) auto
  then show ?case by (subst target_folders.simps) simp
next
  case (Suc n)
  have "\<forall>i \<in> set (children rows level). Suc m \<le> rank i"
    using Suc.prems(1) rank by (force simp: children_def)
  moreover have "\<forall>i \<in> set (children rows level). rank i < N" using N(1) by (auto simp: children_def)
  moreover have "n = N - Suc m" using Suc.hyps(2) by simp
  ultimately obtain T where "target_folders rows (children rows level) = Some T" using Suc.hyps(1) by blast
  then show ?case by (cases "level = []") (subst target_folders.simps, simp)+
qed

lemma target_folders_total:
  assumes "tree_ok rows" "set level \<subseteq> fr_ID ` set rows"
  shows "\<exists>T. target_folders rows level = Some T"
proof -
  obtain rank :: "string \<Rightarrow> nat" where rank: "\<forall>f \<in> set rows. \<forall>p. fr_ParentId f = Some p \<longrightarrow> rank p < rank (fr_ID f)"
    using assms(1) unfolding tree_ok_def by blast
  obtain N where N: "\<forall>f \<in> set rows. rank (fr_ID f) < N"
    using finite_nat_set_iff_bounded [of "(rank \<circ> fr_ID) ` set rows"] by auto
  show ?thesis by (rule target_folders_ends [OF rank, of level 0 N]) (use N assms(2) in auto)
qed

text \<open>A set of rows on a cycle: the recursive query does not end once it reaches one of them.\<close>

lemma target_folders_cycle:
  "target_folders rows level = Some T \<Longrightarrow> (\<And>i. i \<in> C \<Longrightarrow> \<exists>f \<in> set rows. fr_ParentId f = Some i \<and> fr_ID f \<in> C) \<Longrightarrow> set level \<inter> C = {}"
proof (induction rule: target_folders.raw_induct [rotated, consumes 1, case_names 1])
  case (1 tf rows level T)
  show ?case
  proof (rule ccontr)
    assume "set level \<inter> C \<noteq> {}"
    then obtain i where i: "i \<in> set level" "i \<in> C" by blast
    with 1(3) obtain f where f: "f \<in> set rows" "fr_ParentId f = Some i" "fr_ID f \<in> C" by blast
    have "level \<noteq> []" using i by auto
    with 1(2) obtain rest where "tf rows (children rows level) = Some rest" by (auto simp: bind_eq_Some_conv)
    from 1(1) [OF this 1(3)] have "set (children rows level) \<inter> C = {}" by blast
    moreover have "fr_ID f \<in> set (children rows level)" using f i(1) by (auto simp: children_def)
    ultimately show False using f(3) by blast
  qed
qed

definition in_trees :: "file_row list \<Rightarrow> string list \<Rightarrow> int \<Rightarrow> string \<Rightarrow> bool" where
  "in_trees rows ids userId j \<longleftrightarrow> (\<exists>g \<in> set rows. fr_ID g \<in> set ids \<and> fr_UserId g = userId \<and> below rows (fr_ID g) j)"

lemma deleteFilesBulk_eq:
  assumes "tree_ok rows"
  shows "deleteFilesBulk rows ids userId =
    Some (map (\<lambda>f. if ((\<exists>p. fr_ParentId f = Some p \<and> in_trees rows ids userId p) \<or> fr_ID f \<in> set ids) \<and> fr_Type f = ''file''
                    then f\<lparr>fr_Status := ''pending_deletion''\<rparr> else f)
           (filter (\<lambda>f. \<not> (in_trees rows ids userId (fr_ID f) \<and> fr_Type f = ''folder'')) rows))"
proof -
  let ?level = "map fr_ID (filter (\<lambda>f. fr_ID f \<in> set ids \<and> fr_UserId f = userId) rows)"
  obtain T where T: "target_folders rows ?level = Some T" using target_folders_total [OF assms, of ?level] by auto
  have iff: "j \<in> set T \<longleftrightarrow> in_trees rows ids userId j" for j
    using target_folders_set [OF T] by (auto simp: in_trees_def)
  then have "marked_deleted T ids = (\<lambda>f. if ((\<exists>p. fr_ParentId f = Some p \<and> in_trees rows ids userId p) \<or> fr_ID f \<in> set ids) \<and>
      fr_Type f = ''file'' then f\<lparr>fr_Status := ''pending_deletion''\<rparr> else f)"
    unfolding fun_eq_iff marked_deleted_def by (auto simp: Bex_def)
  then show ?thesis by (simp only: deleteFilesBulk_def T option.map iff)
qed

subsection \<open>Lookups in a well-formed table\<close>

lemma unique_activeD: "unique_active rows \<Longrightarrow> f \<in> set rows \<Longrightarrow> g \<in> set rows \<Longrightarrow> active f \<Longrightarrow> active g \<Longrightarrow> same_place f g \<Longrightarrow> f = g"
proof (induction rows)
  case (Cons h rows)
  have "same_place g f" using Cons.prems(6) by (simp add: same_place_def)
  consider "f = h" "g = h" | "f = h" "g \<in> set rows" | "g = h" "f \<in> set rows" | "f \<in> set rows" "g \<in> set rows"
    using Cons.prems(2,3) by auto
  then show ?case
  proof cases
    case 2
    with Cons.prems show ?thesis by (auto simp: list_ex_iff)
  next
    case 3
    with Cons.prems \<open>same_place g f\<close> show ?thesis by (auto simp: list_ex_iff)
  next
    case 4
    moreover have "unique_active rows" using Cons.prems(1) by simp
    ultimately show ?thesis using Cons.IH Cons.prems(4-6) by blast
  qed simp
qed simp

lemma find_unique: "f \<in> set rows \<Longrightarrow> P f \<Longrightarrow> (\<And>g. g \<in> set rows \<Longrightarrow> P g \<Longrightarrow> g = f) \<Longrightarrow> find P rows = Some f"
proof (cases "find P rows")
  case None
  assume "f \<in> set rows" "P f"
  with None show ?thesis by (auto simp: find_None_iff)
next
  case (Some g)
  then have "g \<in> set rows" "P g" by (auto simp: find_Some_iff)
  moreover assume "\<And>g. g \<in> set rows \<Longrightarrow> P g \<Longrightarrow> g = f"
  ultimately show ?thesis using Some by blast
qed

lemma find_id: "distinct (map fr_ID rows) \<Longrightarrow> f \<in> set rows \<Longrightarrow> Q f \<Longrightarrow> find (\<lambda>g. fr_ID g = fr_ID f \<and> Q g) rows = Some f"
  by (rule find_unique) (auto simp: distinct_map dest: inj_onD)

lemma create_parent_Some:
  "fi_Path fileIn \<noteq> [] \<or> fi_ParentId fileIn \<noteq> [] \<Longrightarrow> create_parent fileIn userId rows = Inr parent \<Longrightarrow> \<exists>p. parent = Some p"
proof -
  have "replace_slashes s \<noteq> []" if "s \<noteq> []" for s using that by (induction s rule: replace_slashes.induct) auto
  then show "fi_Path fileIn \<noteq> [] \<or> fi_ParentId fileIn \<noteq> [] \<Longrightarrow> create_parent fileIn userId rows = Inr parent \<Longrightarrow> ?thesis"
    by (auto simp: create_parent_def Let_def split: if_splits sum.splits)
qed

lemma FilesCreate_cases:
  obtains e where "FilesCreate env userId fileIn v = Some (v, Inl e)"
  | p row uploadId rows fileDB where "create_parent fileIn userId (sv_files v) = Inr (Some p)"
      "create_row env fileIn userId (Some p) (sv_uploads v) = Inr (row, uploadId)" "upsert row (sv_files v) = (rows, fileDB)"
      "fr_ParentId fileDB = Some p"
      "FilesCreate env userId fileIn v = Some (record_event OpCreate userId (source_of fileDB)
         (v\<lparr>sv_files := rows, sv_uploads := (if uploadId \<noteq> [] then filter (\<lambda>u. up_UploadId u \<noteq> uploadId) (sv_uploads v) else sv_uploads v)\<rparr>),
         Inr fileDB)"
proof (cases "fi_Path fileIn = [] \<and> fi_ParentId fileIn = []")
  case True
  then show ?thesis by (intro that(1)) (auto simp: FilesCreate_def)
next
  case False
  show ?thesis
  proof (cases "create_parent fileIn userId (sv_files v)")
    case (Inl e)
    with False show ?thesis by (intro that(1) [of e]) (auto simp: FilesCreate_def)
  next
    case (Inr parent)
    then obtain p where p: "create_parent fileIn userId (sv_files v) = Inr (Some p)" using create_parent_Some False by blast
    show ?thesis
    proof (cases "create_row env fileIn userId (Some p) (sv_uploads v)")
      case (Inl e)
      with False p show ?thesis by (intro that(1) [of e]) (auto simp: FilesCreate_def)
    next
      case (Inr b)
      then obtain row uploadId where row: "create_row env fileIn userId (Some p) (sv_uploads v) = Inr (row, uploadId)" by (cases b) auto
      obtain rows fileDB where up: "upsert row (sv_files v) = (rows, fileDB)" by fastforce
      have "fr_ParentId fileDB = Some p"
        using create_row_fields [OF row] up by (cases rule: upsert_cases [of row "sv_files v"]) (auto simp: upserted_def same_place_def)
      then show ?thesis using False p row up that
        by (cases "se_txErr env") (auto simp: FilesCreate_def)
    qed
  qed
qed

subsection \<open>Properties\<close>


definition svc_sample :: svc_env where
  "svc_sample = \<lparr>se_now = 100, se_retention = 50, se_channel = Inr 9, se_newID = ''n1'', se_blake3 = (\<lambda>bs. [1]), se_uploadsErr = None,
     se_txErr = None\<rparr>"

definition sample_folder :: file_in where
  "sample_folder = \<lparr>fi_Name = ''docs'', fi_Type = ''folder'', fi_Path = [], fi_ParentId = ''r'', fi_ChannelId = 0, fi_MimeType = [],
     fi_Parts = [], fi_UploadId = [], fi_Size = 0, fi_Encrypted = False, fi_UpdatedAt = None\<rparr>"

definition empty_svc :: "unit svc" where
  "empty_svc = \<lparr>sv_files = [], sv_uploads = [], sv_shares = [], sv_cache = (), sv_events = []\<rparr>"

definition sample_upload :: upload_row where
  "sample_upload = \<lparr>up_UploadId = ''u'', up_UserId = 7, up_Name = [], up_PartNo = 1, up_PartId = 5, up_Encrypted = False, up_Salt = [],
     up_BlockHashes = [], up_ChannelId = 9, up_Size = 3,
     up_CreatedAt = 90\<rparr>"




text \<open>C25: What \<open>FilesDelete\<close> deletes, in a tree without cycles: exactly the folders of the subtrees of the caller's entries among the
  ids are removed, and exactly the files in those subtrees and the files named by the ids are marked for deletion, the
  latter whoever they belong to: only the first id is checked against the caller.\<close>

theorem delete_exact:
  assumes tree: "tree_ok (sv_files v)" and first: "find (\<lambda>f. fr_ID f = i \<and> fr_UserId f = userId) (sv_files v) = Some f0"
  shows "\<exists>v'. FilesDelete cdel userId (i # ids) v = Some (v', None) \<and>
    sv_files v' = map (\<lambda>f. if ((\<exists>p. fr_ParentId f = Some p \<and> in_trees (sv_files v) (i # ids) userId p) \<or> fr_ID f \<in> set (i # ids)) \<and>
                            fr_Type f = ''file'' then f\<lparr>fr_Status := ''pending_deletion''\<rparr> else f)
      (filter (\<lambda>f. \<not> (in_trees (sv_files v) (i # ids) userId (fr_ID f) \<and> fr_Type f = ''folder'')) (sv_files v)) \<and>
    (\<forall>f \<in> set (sv_files v). fr_ID f \<in> set ids \<and> fr_Type f = ''file'' \<and> fr_UserId f \<noteq> userId \<longrightarrow>
       f\<lparr>fr_Status := ''pending_deletion''\<rparr> \<in> set (sv_files v'))"
  using first by (auto simp: FilesDelete_def deleteFilesBulk_eq [OF tree])

definition sample_row :: "string \<Rightarrow> string \<Rightarrow> int \<Rightarrow> string option \<Rightarrow> file_row" where
  "sample_row i ty u p = \<lparr>fr_ID = i, fr_Name = i, fr_Type = ty, fr_MimeType = [], fr_Size = None, fr_Category = None, fr_Encrypted = None,
     fr_UserId = u, fr_Status = ''active'', fr_ParentId = p, fr_Parts = None, fr_ChannelId = None, fr_Hash = None, fr_UpdatedAt = None\<rparr>"

theorem delete_exact_witness:
  "\<exists>v'. FilesDelete (\<lambda>_ c. c) 1 [''a'', ''b''] (empty_svc\<lparr>sv_files := [sample_row ''a'' ''file'' 1 None, sample_row ''b'' ''file'' 2 None]\<rparr>) =
     Some (v', None) \<and> (sample_row ''b'' ''file'' 2 None)\<lparr>fr_Status := ''pending_deletion''\<rparr> \<in> set (sv_files v')"
proof -
  let ?v = "empty_svc\<lparr>sv_files := [sample_row ''a'' ''file'' 1 None, sample_row ''b'' ''file'' 2 None]\<rparr>"
  have "tree_ok (sv_files ?v)" by (auto simp: tree_ok_def sample_row_def)
  moreover have "find (\<lambda>f. fr_ID f = ''a'' \<and> fr_UserId f = 1) (sv_files ?v) = Some (sample_row ''a'' ''file'' 1 None)"
    by (simp add: sample_row_def)
  ultimately show ?thesis using delete_exact [of ?v "''a''" 1 _ "\<lambda>_ c. c" "[''b'']"] by (auto simp: sample_row_def)
qed

text \<open>
  Moving a file to where it already is, under its own name, marks it for deletion: the handler takes the file itself for the
  entry that stands in the way, deletes it and reports success.\<close>

lemma move_onto_itself_deletes:
  assumes ok: "table_ok (sv_files v)" and tree: "tree_ok (sv_files v)" and f: "f \<in> set (sv_files v)" "active f" "fr_Type f = ''file''"
    and place: "fr_ParentId f = Some dest" "isUUID dest" "fr_Name f \<noteq> []"
  shows "\<exists>v'. FilesMove cpat isUUID (fr_UserId f) [fr_ID f] dest (fr_Name f) v = Some (v', None) \<and>
    f\<lparr>fr_Status := ''pending_deletion''\<rparr> \<in> set (sv_files v') \<and> (\<forall>g \<in> set (sv_files v'). fr_ID g = fr_ID f \<longrightarrow> \<not> active g)"
proof -
  let ?rows = "sv_files v"
  have ids: "distinct (map fr_ID ?rows)" and uniq: "unique_active ?rows" using ok by (simp_all add: table_ok_def)
  have src: "find (\<lambda>g. fr_ID g = fr_ID f \<and> fr_UserId g = fr_UserId f) ?rows = Some f" by (rule find_id [OF ids f(1) refl])
  have ex: "find (\<lambda>g. fr_Name g = fr_Name f \<and> fr_UserId g = fr_UserId f \<and> active g \<and> fr_ParentId g = Some dest) ?rows = Some f"
    by (rule find_unique) (use f place unique_activeD [OF uniq _ f(1)] in \<open>auto simp: same_place_def\<close>)
  obtain rows1 where del: "deleteFilesBulk ?rows [fr_ID f] (fr_UserId f) = Some rows1" using deleteFilesBulk_eq [OF tree] by blast
  let ?P = "\<lambda>g. fr_ID g = fr_ID f \<and> fr_UserId g = fr_UserId f" and ?upd = "\<lambda>g. g\<lparr>fr_ParentId := Some dest, fr_Name := fr_Name f\<rparr>"
  from del obtain T where T: "rows1 = map (marked_deleted T [fr_ID f]) (filter (\<lambda>f. \<not> (fr_ID f \<in> set T \<and> fr_Type f = ''folder'')) ?rows)"
    by (auto simp: deleteFilesBulk_def)
  have mf: "marked_deleted T [fr_ID f] f = f\<lparr>fr_Status := ''pending_deletion''\<rparr>" using f(3) by (simp add: marked_deleted_def)
  have row: "g = f\<lparr>fr_Status := ''pending_deletion''\<rparr>" if "g \<in> set rows1" "fr_ID g = fr_ID f" for g
  proof -
    from that(1) T obtain h where h: "h \<in> set ?rows" "g = marked_deleted T [fr_ID f] h" by auto
    with that(2) have "fr_ID h = fr_ID f" by (simp add: marked_deleted_same)
    with h(1) f(1) ids have "h = f" by (auto simp: distinct_map dest: inj_onD)
    with h(2) mf show ?thesis by simp
  qed
  have mem: "f\<lparr>fr_Status := ''pending_deletion''\<rparr> \<in> set rows1" using T f mf by (auto intro!: image_eqI [of _ _ f])
  have same: "map (\<lambda>g. if ?P g then ?upd g else g) rows1 = rows1"
  proof (rule map_idI)
    fix g assume "g \<in> set rows1"
    then have "fr_ParentId g = Some dest \<and> fr_Name g = fr_Name f" if "?P g" using row [of g] place(1) that by simp
    then show "(if ?P g then ?upd g else g) = g" by (cases g) auto
  qed
  have "moved ?P ?upd rows1 = Inr rows1"
    using deleteFilesBulk_unique [OF uniq del] by (simp only: moved_def same Let_def if_True)
  then have "\<exists>v'. FilesMove cpat isUUID (fr_UserId f) [fr_ID f] dest (fr_Name f) v = Some (v', None) \<and> sv_files v' = rows1"
    using place src ex f(3) uniq del by (simp add: FilesMove_def clear_target_def)
  moreover have "\<not> active g" if "g \<in> set rows1" "fr_ID g = fr_ID f" for g
    unfolding row [OF that] by (simp add: active_def)
  ultimately show ?thesis using mem by blast
qed

lemma move_onto_itself_deletes_witness:
  "\<exists>v'. FilesMove (\<lambda>_ c. c) (\<lambda>_. True) 1 [''a''] ''r'' ''a'' (empty_svc\<lparr>sv_files := [sample_row ''a'' ''file'' 1 (Some ''r'')]\<rparr>) = Some (v', None) \<and>
     (\<forall>g \<in> set (sv_files v'). fr_ID g = ''a'' \<longrightarrow> \<not> active g)"
proof -
  let ?f = "sample_row ''a'' ''file'' 1 (Some ''r'')" and ?v = "empty_svc\<lparr>sv_files := [sample_row ''a'' ''file'' 1 (Some ''r'')]\<rparr>"
  have "table_ok (sv_files ?v)" by (simp add: table_ok_def)
  moreover have "tree_ok (sv_files ?v)"
    by (auto simp: tree_ok_def sample_row_def intro!: exI [of _ "\<lambda>i. if i = ''r'' then 0 else 1"])
  ultimately show ?thesis
    using move_onto_itself_deletes [of ?v ?f "''r''" "\<lambda>_. True" "\<lambda>_ c. c"] by (auto simp: sample_row_def active_def)
qed

text \<open>
  A move does not look at where the destination lies: a folder can be moved into a folder below it.
  From then on deleting it, like computing its path, never ends.
\<close>

lemma move_makes_cycle:
  defines "v \<equiv> empty_svc\<lparr>sv_files := [sample_row ''a'' ''folder'' 1 None, sample_row ''b'' ''folder'' 1 (Some ''a'')]\<rparr>"
  shows "\<exists>v'. FilesMove (\<lambda>_ c. c) (\<lambda>_. True) 1 [''a''] ''b'' [] v = Some (v', None) \<and> FilesDelete (\<lambda>_ c. c) 1 [''a''] v' = None"
proof -
  let ?rows = "[sample_row ''a'' ''folder'' 1 (Some ''b''), sample_row ''b'' ''folder'' 1 (Some ''a'')]"
  have "\<exists>v'. FilesMove (\<lambda>_ c. c) (\<lambda>_. True) 1 [''a''] ''b'' [] v = Some (v', None) \<and> sv_files v' = ?rows"
    by (simp add: v_def FilesMove_def moved_def sample_row_def active_def same_place_def Let_def)
  moreover have "target_folders ?rows [''a''] = None"
  proof (rule ccontr)
    assume "target_folders ?rows [''a''] \<noteq> None"
    then obtain T where "target_folders ?rows [''a''] = Some T" by blast
    from target_folders_cycle [OF this, of "{''a'', ''b''}"] show False by (auto simp: sample_row_def)
  qed
  ultimately show ?thesis
    by (auto simp: FilesDelete_def deleteFilesBulk_def sample_row_def)
qed

end
