(* ===== verification/Auth_Session.thy ===== *)
theory Auth_Session
  imports Cache Http_Range File_Store
begin

section \<open>Tokens and sessions (internal/auth/auth.go)\<close>

text \<open>
  A request carries a token, whose claims name a session by its hash; the session is looked up through the cache,
  where it stays without a time limit. Signing and parsing of tokens are parameters. What the security handler puts
  into the context of a request are the claims, or nothing.
\<close>

record session =
  ss_Hash :: string
  ss_UserId :: int
  ss_Session :: string
  ss_SessionDate :: int
  ss_CreatedAt :: int

definition GetSessionByHash ::
  "('s, session) cache_get \<Rightarrow> ('s, session) cache_set \<Rightarrow> int \<Rightarrow> go_error + session list \<Rightarrow> string \<Rightarrow> 's \<Rightarrow> 's \<times> (go_error + session)" where
  "GetSessionByHash get put now db hash c =
     (let key = ''sessions:'' @ hash in
      case get c now key of
        Inr s \<Rightarrow> (c, Inr s)
      | Inl _ \<Rightarrow>
          (case db of
             Inl e \<Rightarrow> (c, Inl e)
           | Inr rows \<Rightarrow>
               (case find (\<lambda>s. ss_Hash s = hash) rows of
                  None \<Rightarrow> (c, Inl ErrRecordNotFound)
                | Some s \<Rightarrow> (fst (put c now key s 0), Inr s))))"

record claims =
  cl_Subject :: string
  cl_Name :: string
  cl_UserName :: string
  cl_IsPremium :: bool
  cl_Hash :: string
  cl_TgSession :: string
  cl_IssuedAt :: int
  cl_ExpiresAt :: int

record jwt_lib =
  jw_Sign :: "string \<Rightarrow> claims \<Rightarrow> go_error + string"
  jw_Parse :: "string \<Rightarrow> string \<Rightarrow> go_error + (claims \<times> bool)"

definition Encode :: "jwt_lib \<Rightarrow> string \<Rightarrow> claims \<Rightarrow> go_error + string" where
  "Encode jw secret claims = jw_Sign jw secret claims"

definition Decode :: "jwt_lib \<Rightarrow> string \<Rightarrow> string \<Rightarrow> go_error + claims" where
  "Decode jw secret token =
     (case jw_Parse jw secret token of
        Inl e \<Rightarrow> Inl e
      | Inr (claims, valid) \<Rightarrow> if \<not> valid then Inl (ErrText ''invalid token'') else Inr claims)"

definition VerifyUser ::
  "('s, session) cache_get \<Rightarrow> ('s, session) cache_set \<Rightarrow> int \<Rightarrow> go_error + session list \<Rightarrow> (string \<Rightarrow> go_error + claims) \<Rightarrow> string \<Rightarrow> 's \<Rightarrow>
   's \<times> (go_error + claims)" where
  "VerifyUser get put now db decode authCookie c =
     (case decode authCookie of
        Inl e \<Rightarrow> (c, Inl e)
      | Inr cl \<Rightarrow>
          (case GetSessionByHash get put now db (cl_Hash cl) c of
             (c', Inl _) \<Rightarrow> (c', Inl (ErrText ''invalid session''))
           | (c', Inr s) \<Rightarrow> (c', Inr (cl\<lparr>cl_TgSession := ss_Session s\<rparr>))))"

text \<open>\<^verbatim>\<open>strconv.ParseInt\<close> with its error ignored: zero for a syntax error, the nearest bound when out of range.\<close>

definition subject_id :: "string \<Rightarrow> int" where
  "subject_id s =
     (case ParseInt s of
        Some n \<Rightarrow> n
      | None \<Rightarrow>
          (case s of
             CHR ''-'' # r \<Rightarrow> if parse_uint r = None then 0 else - (2 ^ 63)
           | CHR ''+'' # r \<Rightarrow> if parse_uint r = None then 0 else 2 ^ 63 - 1
           | _ \<Rightarrow> if parse_uint s = None then 0 else 2 ^ 63 - 1))"

definition GetUser :: "claims option \<Rightarrow> int" where
  "GetUser authUser = (case authUser of None \<Rightarrow> 0 | Some c \<Rightarrow> subject_id (cl_Subject c))"

text \<open>The security handler of the API: the claims for the context, or a refusal.\<close>

definition handleAuth ::
  "('s, session) cache_get \<Rightarrow> ('s, session) cache_set \<Rightarrow> int \<Rightarrow> go_error + session list \<Rightarrow> jwt_lib \<Rightarrow> string \<Rightarrow> string \<Rightarrow> 's \<Rightarrow>
   's \<times> (go_error + claims)" where
  "handleAuth get put now db jw secret token c = VerifyUser get put now db (Decode jw secret) token c"

end
