(* ===== verification/File_Stream.thy ===== *)
theory File_Stream
  imports File_Reader Client_Pool Chunk_Source File_Store Auth_Session
begin

section \<open>The streaming handler (pkg/services/file.go, internal/auth/auth.go)\<close>

text \<open>
  \<open>FilesStream\<close> answers a request for the content of a file: it authenticates the caller, finds
  the file, reads the \<^verbatim>\<open>Range\<close> header, sends the headers, takes a client from the pool, copies the
  range from the multi-part reader to the response and gives the connection back.

  A response is its header fields, its status once the header is sent, and its body; fields set
  after that are not sent, and a body longer than the announced length is not written, as in
  \<^verbatim>\<open>net/http\<close>. A panic is \<open>None\<close>. What the handler asks of the outside is the record \<open>stream_env\<close>:
  the answers of the authentication, the file found (through the cache), the formatting functions
  of the standard library, the bots of the user, the clients as they start, the parts of the
  file, the reader's environment and the first chunk failure the reader reports, if any.
\<close>

subsection \<open>Responses\<close>

record response =
  rs_Header :: "(string \<times> string) list"
  rs_Status :: "int option"
  rs_Length :: "int option"
  rs_Body :: bytes

definition new_response :: response where
  "new_response = \<lparr>rs_Header = [], rs_Status = None, rs_Length = None, rs_Body = []\<rparr>"

definition header_Set :: "string \<Rightarrow> string \<Rightarrow> response \<Rightarrow> response" where
  "header_Set k v w = (if rs_Status w = None then w\<lparr>rs_Header := AList.update k v (rs_Header w)\<rparr> else w)"

definition header_Del :: "string \<Rightarrow> response \<Rightarrow> response" where
  "header_Del k w = (if rs_Status w = None then w\<lparr>rs_Header := AList.delete k (rs_Header w)\<rparr> else w)"

definition WriteHeader :: "int \<Rightarrow> response \<Rightarrow> response" where
  "WriteHeader code w =
     (if rs_Status w = None
      then w\<lparr>rs_Status := Some code, rs_Length := Option.bind (map_of (rs_Header w) ''Content-Length'') ParseInt\<rparr> else w)"

definition write_body :: "bytes \<Rightarrow> response \<Rightarrow> response" where
  "write_body bs w =
     (if (case rs_Length w of None \<Rightarrow> False | Some n \<Rightarrow> int (length (rs_Body w) + length bs) > n) then w
      else w\<lparr>rs_Body := rs_Body w @ bs\<rparr>)"

definition http_Error :: "string \<Rightarrow> int \<Rightarrow> response \<Rightarrow> response" where
  "http_Error msg code w =
     write_body (text_bytes (msg @ [CHR 0x0A]))
       (WriteHeader code (header_Set ''X-Content-Type-Options'' ''nosniff''
          (header_Set ''Content-Type'' ''text/plain; charset=utf-8'' (header_Del ''Content-Length'' w))))"

subsection \<open>The steps of the handler\<close>

record request =
  rq_Method :: string
  rq_Range :: string
  rq_hash :: string
  rq_cookie :: "string option"
  rq_download :: bool

record 'c stream_env =
  ve_verify :: "string \<Rightarrow> go_error + claims"
  ve_byHash :: "string \<Rightarrow> go_error + session"
  ve_file :: "go_error + file_row"
  ve_md5 :: "string \<Rightarrow> string"
  ve_httpTime :: "int \<Rightarrow> string"
  ve_media :: "string \<Rightarrow> string \<Rightarrow> string"
  ve_tokens :: "int \<Rightarrow> go_error + string list"
  ve_botsLimit :: int
  ve_now :: int
  ve_userStart :: "'c start_env"
  ve_botStart :: "string \<Rightarrow> string \<Rightarrow> 'c start_env"
  ve_parts :: "string \<Rightarrow> go_error + part list"
  ve_reader :: file_env
  ve_chunkFailure :: "go_error option"

text \<open>The caller: an error response, or the user id. After an invalid token the code goes on with a nil user.\<close>

definition stream_session :: "'c stream_env \<Rightarrow> request \<Rightarrow> int \<Rightarrow> response \<Rightarrow> (response \<times> int option) option" where
  "stream_session env r userId w =
     (if userId \<noteq> 0 then Some (w, Some userId)
      else if rq_hash r = [] then
        (case rq_cookie r of
           None \<Rightarrow> Some (http_Error ''missing token or authash'' 401 w, None)
         | Some c \<Rightarrow>
             (case ve_verify env c of
                Inl _ \<Rightarrow> None
              | Inr cl \<Rightarrow> Some (w, Some (subject_id (cl_Subject cl)))))
      else (case ve_byHash env (rq_hash r) of
              Inl _ \<Rightarrow> Some (http_Error ''invalid hash'' 400 w, None)
            | Inr s \<Rightarrow> Some (w, Some (ss_UserId s))))"

definition content_type :: "file_row \<Rightarrow> string" where
  "content_type f = (if fr_MimeType f \<noteq> [] then fr_MimeType f else ''application/octet-stream'')"

definition empty_response :: "'c stream_env \<Rightarrow> file_row \<Rightarrow> response \<Rightarrow> response" where
  "empty_response env f w =
     WriteHeader 200 (header_Set ''Content-Disposition'' (ve_media env ''inline'' (fr_Name f))
       (header_Set ''Content-Length'' ''0'' (header_Set ''Content-Type'' (content_type f) w)))"

text \<open>The range of the request: an error response, or start, end and status.\<close>

definition stream_range :: "request \<Rightarrow> int \<Rightarrow> response \<Rightarrow> (response \<times> (int \<times> int \<times> int) option) option" where
  "stream_range r sz w =
     (if rq_Range r = [] then Some (w, Some (0, sz - 1, 200))
      else Option.bind (Parse (rq_Range r) sz) (\<lambda>p.
        Some (case p of
           Inl e \<Rightarrow>
             if e = ErrNoOverlap then
               (http_Error (error_text ErrNoOverlap) 416 (header_Set ''Content-Range'' (''bytes */'' @ itoa sz) w), None)
             else (http_Error (error_text e) 400 w, None)
         | Inr ranges \<Rightarrow>
             (case ranges of
                [rg] \<Rightarrow>
                  (header_Set ''Content-Range'' (''bytes '' @ itoa (hr_Start rg) @ ''-'' @ itoa (hr_End rg) @ ''/'' @ itoa sz) w,
                   Some (hr_Start rg, hr_End rg, 206))
              | _ \<Rightarrow> (http_Error ''multiple ranges are not supported'' 416 w, None)))))"

definition stream_headers :: "'c stream_env \<Rightarrow> request \<Rightarrow> string \<Rightarrow> file_row \<Rightarrow> int \<Rightarrow> int \<Rightarrow> int \<Rightarrow> int \<Rightarrow> response \<Rightarrow> response" where
  "stream_headers env r fileId f sz contentLength status updatedAt w =
     WriteHeader status
       (header_Set ''Content-Disposition'' (ve_media env (if rq_download r then ''attachment'' else ''inline'') (fr_Name f))
       (header_Set ''Last-Modified'' (ve_httpTime env updatedAt)
       (header_Set ''ETag'' (CHR 0x22 # ve_md5 env (fileId @ itoa sz) @ [CHR 0x22])
       (header_Set ''Content-Length'' (itoa contentLength)
       (header_Set ''Content-Type'' (content_type f) w)))))"

definition limit_tokens :: "int \<Rightarrow> string list \<Rightarrow> string list" where
  "limit_tokens limit tokens = (if limit > 0 \<and> int (length tokens) > limit then take (nat limit) tokens else tokens)"

definition bot_id :: "int \<Rightarrow> string \<Rightarrow> string" where
  "bot_id userId key =
     (if has_prefix key (bot_key userId []) then hd (split_on CHR '':'' (drop (length (bot_key userId [])) key)) else [])"

text \<open>The client for the stream: the pool with one connection taken, the key to give it back, the bot id.\<close>

definition stream_client ::
  "'c stream_env \<Rightarrow> int \<Rightarrow> string list \<Rightarrow> 'c pool \<Rightarrow> ('c pool \<times> (go_error + string \<times> string)) option" where
  "stream_client env userId tokens p =
     (if tokens = [] then
        map_option (\<lambda>(p', res). (p', map_sum id (\<lambda>(c, key). (key, [])) res)) (GetUserClient (ve_userStart env) (ve_now env) userId p)
      else
        map_option (\<lambda>(p', res). (p', map_sum id (\<lambda>(c, key). (key, bot_id userId key)) res))
          (GetBotClient (ve_botStart env) (ve_now env) userId tokens p))"

definition record_failure :: "'c stream_env \<Rightarrow> string \<Rightarrow> string \<Rightarrow> go_error option \<Rightarrow> 'c pool \<Rightarrow> 'c pool" where
  "record_failure env botID key err p =
     (case err of None \<Rightarrow> p | Some e \<Rightarrow> if botID \<noteq> [] then RecordBotFailure (ve_now env) key e p else p)"

definition streamWithTGReader ::
  "'c stream_env \<Rightarrow> file_row \<Rightarrow> int \<Rightarrow> int \<Rightarrow> int \<Rightarrow> string \<Rightarrow> string \<Rightarrow> 'c pool \<Rightarrow> response \<Rightarrow> ('c pool \<times> response) option" where
  "streamWithTGReader env f start end contentLength botID key p w =
     (case ve_parts env botID of
        Inl e \<Rightarrow> Some (record_failure env botID key (Some e) p, http_Error (error_text e) 500 w)
      | Inr parts \<Rightarrow>
          Option.bind (NewReader (ve_reader env) (fr_Encrypted f) (fr_ChannelId f) parts start end) (\<lambda>lr.
            let p1 = record_failure env botID key (ve_chunkFailure env) p in
            case lr of
              Inl e \<Rightarrow> Some (p1, http_Error (error_text e) 500 w)
            | Inr rd \<Rightarrow>
                Option.bind (copyN (fr_Read (ve_reader env)) rd (nat contentLength)) (\<lambda>(rd', bs, err).
                  let w1 = write_body bs w in
                  Some (if err \<noteq> None then (p1, w1)
                        else (if botID \<noteq> [] then RecordBotSuccess (ve_now env) key p1 else p1, w1)))))"

definition stream_body ::
  "'c stream_env \<Rightarrow> file_row \<Rightarrow> int \<Rightarrow> int \<Rightarrow> int \<Rightarrow> 'c pool \<Rightarrow> response \<Rightarrow> ('c pool \<times> response) option" where
  "stream_body env f userId start end p w =
     (case ve_tokens env userId of
        Inl _ \<Rightarrow> Some (p, http_Error ''failed to get bots'' 500 w)
      | Inr tokens \<Rightarrow>
          Option.bind (stream_client env userId (limit_tokens (ve_botsLimit env) tokens) p) (\<lambda>(p1, res).
            case res of
              Inl e \<Rightarrow> Some (p1, http_Error (error_text e) 500 w)
            | Inr (key, botID) \<Rightarrow>
                map_option (\<lambda>(p2, w2). (Release (ve_now env) key p2, w2))
                  (streamWithTGReader env f start end (end - start + 1) botID key p1 w)))"

definition stream_found ::
  "'c stream_env \<Rightarrow> request \<Rightarrow> string \<Rightarrow> file_row \<Rightarrow> int \<Rightarrow> 'c pool \<Rightarrow> response \<Rightarrow> ('c pool \<times> response) option" where
  "stream_found env r fileId f userId p w0 =
     (let w = header_Set ''Accept-Ranges'' ''bytes'' w0; sz = (case fr_Size f of None \<Rightarrow> 0 | Some n \<Rightarrow> n) in
      if sz = 0 then Some (p, empty_response env f w)
      else Option.bind (stream_range r sz w) (\<lambda>(w1, rng).
        case rng of
          None \<Rightarrow> Some (p, w1)
        | Some (start, e, status) \<Rightarrow>
            Option.bind (fr_UpdatedAt f) (\<lambda>updatedAt.
              let w2 = stream_headers env r fileId f sz (e - start + 1) status updatedAt w1
              in if rq_Method r = ''HEAD'' then Some (p, w2) else stream_body env f userId start e p w2)))"

definition FilesStream ::
  "'c stream_env \<Rightarrow> request \<Rightarrow> string \<Rightarrow> int \<Rightarrow> 'c pool \<Rightarrow> ('c pool \<times> response) option" where
  "FilesStream env r fileId userId0 p =
     Option.bind (stream_session env r userId0 new_response) (\<lambda>(w, who).
       case who of
         None \<Rightarrow> Some (p, w)
       | Some userId \<Rightarrow>
           (case ve_file env of
              Inl e \<Rightarrow> Some (p, http_Error (error_text e) 400 w)
            | Inr f \<Rightarrow> stream_found env r fileId f userId p w))"

subsection \<open>Connections\<close>

lemma only_circuits_accounted: "accounted (p, out) \<Longrightarrow> only_circuits p q \<Longrightarrow> accounted (q, out)"
  by (simp add: accounted_def only_circuits_def)

lemma only_circuits_trans: "only_circuits p q \<Longrightarrow> only_circuits q r \<Longrightarrow> only_circuits p r"
  by (simp add: only_circuits_def)

lemma only_circuits_refl: "only_circuits p p"
  by (simp add: only_circuits_def)

lemma record_failure_only: "only_circuits p (record_failure env botID key err p)"
  by (auto simp: record_failure_def only_circuits_refl RecordBotFailure_only split: option.splits)

lemma streamWithTGReader_only:
  assumes "streamWithTGReader env f start end n botID key p w = Some (p', w')"
  shows "only_circuits p p'"
proof (cases "ve_parts env botID")
  case (Inl e)
  with assms have "p' = record_failure env botID key (Some e) p" by (simp add: streamWithTGReader_def)
  then show ?thesis by (simp add: record_failure_only)
next
  case (Inr parts)
  let ?p1 = "record_failure env botID key (ve_chunkFailure env) p"
  from assms Inr obtain lr where lr: "NewReader (ve_reader env) (fr_Encrypted f) (fr_ChannelId f) parts start end = Some lr"
    by (auto simp: streamWithTGReader_def bind_eq_Some_conv)
  have "p' = ?p1 \<or> p' = RecordBotSuccess (ve_now env) key ?p1"
  proof (cases lr)
    case (Inr rd)
    with assms lr \<open>ve_parts env botID = Inr parts\<close> obtain rd' bs err where
      "copyN (fr_Read (ve_reader env)) rd (nat n) = Some (rd', bs, err)"
      by (auto simp: streamWithTGReader_def bind_eq_Some_conv Let_def)
    with assms lr Inr \<open>ve_parts env botID = Inr parts\<close> show ?thesis
      by (auto simp: streamWithTGReader_def Let_def split: if_splits)
  qed (use assms lr Inr in \<open>simp add: streamWithTGReader_def Let_def\<close>)
  then show ?thesis using record_failure_only RecordBotSuccess_only only_circuits_trans by blast
qed

lemma stream_client_accounted:
  assumes "accounted (p, out)" "stream_client env userId tokens p = Some (p1, res)"
  shows "case res of Inl e \<Rightarrow> accounted (p1, out) | Inr (key, botID) \<Rightarrow> accounted (p1, out(key := Suc (out key)))"
proof (cases "tokens = []")
  case True
  with assms(2) obtain res' where g: "GetUserClient (ve_userStart env) (ve_now env) userId p = Some (p1, res')"
    and res: "res = map_sum id (\<lambda>(c, key). (key, [])) res'" by (auto simp: stream_client_def)
  from GetUserClient_spec [of p "ve_userStart env" "ve_now env" userId] assms(1) g have "got [user_key userId] p p1 res'"
    by (auto simp: accounted_def)
  from got_accounted [OF assms(1) this] res show ?thesis by (cases res') auto
next
  case False
  with assms(2) obtain res' where g: "GetBotClient (ve_botStart env) (ve_now env) userId tokens p = Some (p1, res')"
    and res: "res = map_sum id (\<lambda>(c, key). (key, bot_id userId key)) res'" by (auto simp: stream_client_def)
  from GetBotClient_spec [of p "ve_botStart env" "ve_now env" userId tokens] assms(1) g
  have "got (map (bot_key userId) tokens) p p1 res'" by (auto simp: accounted_def)
  from got_accounted [OF assms(1) this] res show ?thesis by (cases res') auto
qed

lemma stream_body_accounted:
  assumes "accounted (p, out)" "stream_body env f userId start end p w = Some (p', w')"
  shows "accounted (p', out)"
proof (cases "ve_tokens env userId")
  case (Inl e)
  with assms show ?thesis by (simp add: stream_body_def)
next
  case (Inr tokens)
  with assms(2) obtain p1 res where c: "stream_client env userId (limit_tokens (ve_botsLimit env) tokens) p = Some (p1, res)"
    by (auto simp: stream_body_def bind_eq_Some_conv)
  note acc = stream_client_accounted [OF assms(1) c]
  show ?thesis
  proof (cases res)
    case (Inl e)
    with assms(2) Inr c acc show ?thesis by (simp add: stream_body_def)
  next
    case res: (Inr kb)
    obtain key botID where kb: "kb = (key, botID)" by fastforce
    with assms(2) Inr c res obtain p2 where p2: "streamWithTGReader env f start end (end - start + 1) botID key p1 w = Some (p2, w')"
      "p' = Release (ve_now env) key p2" by (auto simp: stream_body_def)
    have "accounted (p2, out(key := Suc (out key)))"
      using acc res kb only_circuits_accounted streamWithTGReader_only [OF p2(1)] by simp
    from release_accounted [OF this, of key "ve_now env"] p2(2) show ?thesis by simp
  qed
qed

lemma stream_found_accounted:
  assumes "accounted (p, out)" "stream_found env r fileId f userId p w = Some (p', w')"
  shows "accounted (p', out)"
proof (cases "fr_Size f = None \<or> fr_Size f = Some 0")
  case True
  with assms show ?thesis by (auto simp: stream_found_def Let_def)
next
  case False
  then obtain sz where sz: "fr_Size f = Some sz" "sz \<noteq> 0" by auto
  with assms(2) obtain w1 rng where r: "stream_range r sz (header_Set ''Accept-Ranges'' ''bytes'' w) = Some (w1, rng)"
    by (auto simp: stream_found_def Let_def bind_eq_Some_conv)
  show ?thesis
  proof (cases rng)
    case None
    with assms sz r show ?thesis by (simp add: stream_found_def)
  next
    case (Some x)
    obtain start e status where x: "x = (start, e, status)" by (cases x)
    from assms(2) sz r Some x obtain t where t: "fr_UpdatedAt f = Some t"
      by (cases "fr_UpdatedAt f") (auto simp: stream_found_def)
    show ?thesis
    proof (cases "rq_Method r = ''HEAD''")
      case False
      with assms(2) sz r Some x t have "\<exists>w2. stream_body env f userId start e p w2 = Some (p', w')"
        by (auto simp: stream_found_def Let_def)
      then show ?thesis using assms(1) stream_body_accounted by blast
    qed (use assms sz r Some x t in \<open>simp add: stream_found_def Let_def\<close>)
  qed
qed

lemma FilesStream_accounted:
  assumes "accounted (p, out)" "FilesStream env r fileId userId p = Some (p', w')"
  shows "accounted (p', out)"
proof -
  from assms(2) obtain w who where s: "stream_session env r userId new_response = Some (w, who)"
    by (auto simp: FilesStream_def bind_eq_Some_conv)
  show ?thesis
  proof (cases who)
    case None
    with assms s show ?thesis by (simp add: FilesStream_def)
  next
    case (Some u)
    show ?thesis
    proof (cases "ve_file env")
      case (Inr f)
      with assms(2) s Some have "stream_found env r fileId f u p w = Some (p', w')" by (simp add: FilesStream_def)
      with assms(1) show ?thesis by (rule stream_found_accounted)
    qed (use assms s Some in \<open>simp add: FilesStream_def\<close>)
  qed
qed

subsection \<open>The response of a successful stream\<close>

lemma header_Set_simps [simp]:
  "rs_Status (header_Set k v w) = rs_Status w" "rs_Body (header_Set k v w) = rs_Body w" "rs_Length (header_Set k v w) = rs_Length w"
  by (simp_all add: header_Set_def)

lemma header_Set_get [simp]:
  "rs_Status w = None \<Longrightarrow> map_of (rs_Header (header_Set k v w)) k' = (if k' = k then Some v else map_of (rs_Header w) k')"
  by (simp add: header_Set_def update_conv')

lemma WriteHeader_simps [simp]:
  "rs_Status w = None \<Longrightarrow> rs_Status (WriteHeader c w) = Some c" "rs_Header (WriteHeader c w) = rs_Header w"
  "rs_Body (WriteHeader c w) = rs_Body w"
  "rs_Status w = None \<Longrightarrow> rs_Length (WriteHeader c w) = Option.bind (map_of (rs_Header w) ''Content-Length'') ParseInt"
  by (simp_all add: WriteHeader_def)

lemma write_body_fits:
  "rs_Length w = Some n \<Longrightarrow> int (length (rs_Body w) + length bs) \<le> n \<Longrightarrow> write_body bs w = w\<lparr>rs_Body := rs_Body w @ bs\<rparr>"
  by (simp add: write_body_def)

lemma stream_headers_spec:
  assumes "rs_Status w = None" "rs_Body w = []" "0 \<le> n" "n < 2 ^ 63" "w2 = stream_headers env r fileId f sz n status t w"
  shows "rs_Status w2 = Some status" "rs_Body w2 = []" "rs_Length w2 = Some n" "map_of (rs_Header w2) ''Content-Length'' = Some (itoa n)"
    "map_of (rs_Header w2) ''Content-Range'' = map_of (rs_Header w) ''Content-Range''"
  using assms ParseInt_itoa [of n] by (simp_all add: stream_headers_def)

lemma streamWithTGReader_copies:
  assumes parts: "ve_parts env botID = Inr parts"
    and stored: "file_stored (ve_reader env) seal (fr_Encrypted f) (fr_ChannelId f) parts P" "uniform_parts (length (hd P)) P"
    and rng: "s \<le> e" "e < length (concat P)"
    and w: "rs_Length w = Some (int (Suc e - s))" "rs_Body w = []"
  shows "\<exists>p'. streamWithTGReader env f (int s) (int e) (int e - int s + 1) botID key p w =
    Some (p', w\<lparr>rs_Body := range_of (concat P) s e\<rparr>)"
proof -
  from NewReader_spec [OF stored rng] obtain rd where rd:
    "NewReader (ve_reader env) (fr_Encrypted f) (fr_ChannelId f) parts (int s) (int e) = Some (Inr rd)"
    "fr_ok (ve_reader env) seal P rd" "fr_rest (ve_reader env) P rd = range_of (concat P) s e" by blast
  have len: "length (range_of (concat P) s e) = Suc e - s" using rng by simp
  have n: "nat (int e - int s + 1) = Suc e - s" using rng(1) by auto
  from fr.copyN_spec [of "ve_reader env" seal P rd "Suc e - s"] rd(2,3) len obtain rd' where
    "copyN (fr_Read (ve_reader env)) rd (Suc e - s) = Some (rd', range_of (concat P) s e, None)" by auto
  moreover have "write_body (range_of (concat P) s e) w = w\<lparr>rs_Body := range_of (concat P) s e\<rparr>"
    using write_body_fits [OF w(1), of "range_of (concat P) s e"] w(2) len by simp
  ultimately show ?thesis using parts rd(1) n by (simp add: streamWithTGReader_def Let_def)
qed

lemma stream_range_spec:
  assumes "0 < sz" "sz < 2 ^ 63" "rs_Status w = None"
    and "(rq_Range r = [] \<and> start = 0 \<and> e = sz - 1 \<and> status = 200) \<or>
      (rq_Range r \<noteq> [] \<and> Parse (rq_Range r) sz = Some (Inr [\<lparr>hr_Start = start, hr_End = e\<rparr>]) \<and> status = 206)"
  shows "0 \<le> start \<and> start \<le> e \<and> e < sz \<and>
    (\<exists>w1. stream_range r sz w = Some (w1, Some (start, e, status)) \<and> rs_Status w1 = None \<and> rs_Body w1 = rs_Body w \<and>
      (status = 206 \<longrightarrow> map_of (rs_Header w1) ''Content-Range'' = Some (''bytes '' @ itoa start @ ''-'' @ itoa e @ ''/'' @ itoa sz)))"
  using assms(4)
proof
  assume "rq_Range r = [] \<and> start = 0 \<and> e = sz - 1 \<and> status = 200"
  then show ?thesis using assms(1,3) by (auto simp: stream_range_def)
next
  assume *: "rq_Range r \<noteq> [] \<and> Parse (rq_Range r) sz = Some (Inr [\<lparr>hr_Start = start, hr_End = e\<rparr>]) \<and> status = 206"
  then have "0 \<le> start \<and> start \<le> e \<and> e < sz"
    using Parse_inside [of "rq_Range r" sz "[\<lparr>hr_Start = start, hr_End = e\<rparr>]" "\<lparr>hr_Start = start, hr_End = e\<rparr>"] assms(1,2) by simp
  then show ?thesis using * assms(3) by (auto simp: stream_range_def)
qed

text \<open>An error after the header has been sent does not change the status of the response.\<close>

lemma late_error: "rs_Status w = Some c \<Longrightarrow> rs_Status (http_Error msg code w) = Some c"
  by (simp add: http_Error_def write_body_def WriteHeader_def header_Set_def header_Del_def)

subsection \<open>Properties\<close>

text \<open>C21: Every stream gives its connection back: whatever the request, the file and the answers of the outside, when
  \<open>FilesStream\<close> returns, in any history of the pool, each client has exactly the connections it had before and the pool is
  well formed.\<close>

theorem stream_gives_back:
  assumes "reachable pool_init pool_step (p, out)" "FilesStream env r fileId userId p = Some (p', w)"
  shows "pool_ok p' \<and> (\<forall>k. conns p' k = conns p k)"
proof -
  have "accounted (p, out)" by (rule accounting.reachable_inv [OF assms(1)])
  with FilesStream_accounted [OF this assms(2)] show ?thesis by (simp add: accounted_def)
qed

definition demo_row :: "nat \<Rightarrow> file_row" where
  "demo_row n = \<lparr>fr_ID = ''f'', fr_Name = ''a.bin'', fr_Type = ''file'', fr_MimeType = [], fr_Size = Some (int n), fr_Category = None,
     fr_Encrypted = Some True, fr_UserId = 5, fr_Status = ''active'', fr_ParentId = None, fr_Parts = None, fr_ChannelId = Some 9,
     fr_Hash = None, fr_UpdatedAt = Some 0\<rparr>"

definition demo_stream :: "bytes list \<Rightarrow> nat stream_env" where
  "demo_stream P =
     \<lparr>ve_verify = (\<lambda>_. Inl EOF), ve_byHash = (\<lambda>_. Inl EOF), ve_file = Inr (demo_row (length (concat P))), ve_md5 = (\<lambda>x. x),
      ve_httpTime = (\<lambda>_. []), ve_media = (\<lambda>d n. n), ve_tokens = (\<lambda>_. Inr []), ve_botsLimit = 0, ve_now = 0,
      ve_userStart = Client_Pool.sample_env, ve_botStart = (\<lambda>_ _. Client_Pool.sample_env), ve_parts = (\<lambda>_. Inr (demo_parts P)),
      ve_reader = demo_env (map demo_ct P), ve_chunkFailure = None\<rparr>"

definition demo_request :: "string \<Rightarrow> request" where
  "demo_request rng = \<lparr>rq_Method = ''GET'', rq_Range = rng, rq_hash = [], rq_cookie = None, rq_download = False\<rparr>"

lemma demo_client: "\<exists>p. stream_client (demo_stream P) 5 [] (NewClientPool None) = Some (p, Inr (''user:5'', []))"
  using Client_Pool.sample_get by (auto simp: stream_client_def demo_stream_def)

theorem stream_gives_back_witness:
  "\<exists>p' w. FilesStream (demo_stream [[1]]) ((demo_request [])\<lparr>rq_Method := ''HEAD''\<rparr>) ''f'' 5 (NewClientPool None) = Some (p', w) \<and> pool_ok p'"
proof -
  have "reachable pool_init pool_step (NewClientPool None :: nat pool, \<lambda>_. 0)"
    by (rule reachable.start) (auto simp: pool_init_def)
  moreover have "\<exists>p' w. FilesStream (demo_stream [[1]]) ((demo_request [])\<lparr>rq_Method := ''HEAD''\<rparr>) ''f'' 5 (NewClientPool None) = Some (p', w)"
    by (simp add: FilesStream_def stream_session_def stream_found_def stream_range_def demo_stream_def demo_row_def demo_request_def Let_def)
  ultimately show ?thesis using stream_gives_back by blast
qed



end
