(* ===== verification/File_Query.thy ===== *)
theory File_Query
  imports File_Store "HOL-Library.List_Lexorder"
begin

section \<open>Listing and searching files (pkg/services/file_query_builder.go, pkg/mapper/mapper.go)\<close>

text \<open>
  A listing is one SQL statement: the filters of the request, a ranking of the matching rows by the
  sort column, and the page of the rows whose sort column lies behind that of the last row of the
  previous page. The filters are predicates on rows; a comparison with NULL does not hold, NULLs
  come last in ascending and first in descending order. Rows with equal sort columns are in the order of
  the table, which is arbitrary.

  Full-text search (PGroonga) and the collation of names are parameters: the collation gives the
  sort key of a name. Times are nanoseconds since 1970.
\<close>

subsection \<open>Requests\<close>

datatype list_operation = OpList | OpFind | OpUnset
datatype search_type = SearchText | SearchRegex | SearchUnset
datatype file_query_sort = QSortName | QSortUpdatedAt | QSortSize | QSortID | QSortUnset
datatype file_query_order = QOrderAsc | QOrderDesc | QOrderUnset
datatype api_category = FolderCategory | FileCategory category

record list_params =
  lp_Operation :: list_operation
  lp_Name :: string
  lp_Path :: string
  lp_ParentId :: string
  lp_Query :: string
  lp_SearchType :: search_type
  lp_DeepSearch :: bool
  lp_Shared :: bool
  lp_Type :: string
  lp_Status :: string
  lp_Category :: "api_category list"
  lp_UpdatedAt :: string
  lp_Sort :: file_query_sort
  lp_Order :: file_query_order
  lp_Page :: int
  lp_Limit :: int

record query_env =
  qe_text :: "string \<Rightarrow> string \<Rightarrow> bool"
  qe_regex :: "string \<Rightarrow> string \<Rightarrow> bool"
  qe_collate :: "string \<Rightarrow> int list"
  qe_err :: "go_error option"

definition shouldResolvePathID :: "list_params \<Rightarrow> bool" where
  "shouldResolvePathID q =
     (if lp_Path q = [] then False
      else case lp_Operation q of
             OpList \<Rightarrow> lp_ParentId q = []
           | OpFind \<Rightarrow> lp_DeepSearch q \<and> lp_Query q \<noteq> [] \<or> lp_ParentId q = [] \<and> lp_Query q = []
           | OpUnset \<Rightarrow> False)"

definition resolvePathIDIfNeeded :: "file_row list \<Rightarrow> list_params \<Rightarrow> int \<Rightarrow> api_error + string option" where
  "resolvePathIDIfNeeded rows q userId =
     (if \<not> shouldResolvePathID q then Inr None
      else case resolvePathID rows (lp_Path q) userId of
             Inl _ \<Rightarrow> Inl (ApiError (ErrText ''invalid path'') 404)
           | Inr p \<Rightarrow> Inr (Some p))"

subsection \<open>Dates\<close>

text \<open>\<^verbatim>\<open>time.Parse(time.DateOnly, s)\<close> and the nanoseconds of that day.\<close>

definition leap_year :: "int \<Rightarrow> bool" where
  "leap_year y \<longleftrightarrow> y mod 4 = 0 \<and> (y mod 100 \<noteq> 0 \<or> y mod 400 = 0)"

definition month_days :: "int \<Rightarrow> int list" where
  "month_days y = [31, if leap_year y then 29 else 28, 31, 30, 31, 30, 31, 31, 30, 31, 30, 31]"

definition unix_days :: "int \<Rightarrow> int \<Rightarrow> int \<Rightarrow> int" where
  "unix_days y m d =
     365 * (y - 1) + (y - 1) div 4 - (y - 1) div 100 + (y - 1) div 400 + sum_list (take (nat (m - 1)) (month_days y)) + d - 719163"

definition parse_date :: "string \<Rightarrow> int option" where
  "parse_date s =
     (if length s = 10 \<and> s ! 4 = CHR ''-'' \<and> s ! 7 = CHR ''-'' then
        (case (digits_val 0 (take 4 s), digits_val 0 (take 2 (drop 5 s)), digits_val 0 (drop 8 s)) of
           (Some y, Some m, Some d) \<Rightarrow>
             if 1 \<le> m \<and> m \<le> 12 \<and> 1 \<le> d \<and> int d \<le> month_days (int y) ! (m - 1)
             then Some (unix_days (int y) (int m) (int d) * (86400 * 10 ^ 9)) else None
         | _ \<Rightarrow> None)
      else None)"

subsection \<open>Filters\<close>

definition list_filter :: "list_params \<Rightarrow> string option \<Rightarrow> file_row \<Rightarrow> bool" where
  "list_filter q pathID f \<longleftrightarrow>
     (lp_Path q \<noteq> [] \<and> lp_ParentId q = [] \<longrightarrow> fr_ParentId f = pathID) \<and>
     (lp_ParentId q \<noteq> [] \<longrightarrow> fr_ParentId f = Some (lp_ParentId q))"

definition date_filter :: "int option \<Rightarrow> string \<Rightarrow> bool" where
  "date_filter updatedAt dateFilter =
     (case split_on CHR '':'' dateFilter of
        [op, date] \<Rightarrow>
          (case parse_date date of
             None \<Rightarrow> True
           | Some t \<Rightarrow>
               if op = ''gte'' then (case updatedAt of None \<Rightarrow> False | Some u \<Rightarrow> u \<ge> t)
               else if op = ''lte'' then (case updatedAt of None \<Rightarrow> False | Some u \<Rightarrow> u \<le> t)
               else if op = ''eq'' then (case updatedAt of None \<Rightarrow> False | Some u \<Rightarrow> u = t)
               else if op = ''gt'' then (case updatedAt of None \<Rightarrow> False | Some u \<Rightarrow> u > t)
               else if op = ''lt'' then (case updatedAt of None \<Rightarrow> False | Some u \<Rightarrow> u < t)
               else True)
      | _ \<Rightarrow> True)"

definition search_filter :: "query_env \<Rightarrow> list_params \<Rightarrow> file_row \<Rightarrow> bool" where
  "search_filter env q f =
     (case lp_SearchType q of
        SearchText \<Rightarrow> qe_text env (lp_Query q) (fr_Name f)
      | SearchRegex \<Rightarrow> qe_regex env (lp_Query q) (fr_Name f)
      | SearchUnset \<Rightarrow> True)"

fun in_category :: "file_row \<Rightarrow> api_category \<Rightarrow> bool" where
  "in_category f FolderCategory = (fr_Type f = ''folder'')"
| "in_category f (FileCategory c) = (fr_Category f = Some c)"

definition category_filter :: "api_category list \<Rightarrow> file_row \<Rightarrow> bool" where
  "category_filter cats f \<longleftrightarrow> cats = [] \<or> list_ex (in_category f) cats"

definition specific_filter :: "share_row list \<Rightarrow> list_params \<Rightarrow> int \<Rightarrow> string option \<Rightarrow> file_row \<Rightarrow> bool" where
  "specific_filter shares q userId pathID f \<longleftrightarrow>
     (lp_Name q \<noteq> [] \<longrightarrow> fr_Name f = lp_Name q) \<and>
     (lp_ParentId q \<noteq> [] \<longrightarrow> fr_ParentId f = (if lp_ParentId q = ''nil'' then None else Some (lp_ParentId q))) \<and>
     (lp_ParentId q = [] \<and> lp_Path q \<noteq> [] \<and> lp_Query q = [] \<longrightarrow> fr_ParentId f = pathID) \<and>
     (lp_Type q \<noteq> [] \<longrightarrow> fr_Type f = lp_Type q) \<and>
     (lp_Shared q \<longrightarrow> fr_ID f \<in> set (map sh_FileId (filter (\<lambda>s. sh_UserId s = userId) shares)))"

definition deep :: "list_params \<Rightarrow> bool" where
  "deep q \<longleftrightarrow> lp_DeepSearch q \<and> lp_Query q \<noteq> [] \<and> lp_Path q \<noteq> []"

definition find_filter :: "query_env \<Rightarrow> share_row list \<Rightarrow> string list \<Rightarrow> list_params \<Rightarrow> int \<Rightarrow> string option \<Rightarrow> file_row \<Rightarrow> bool" where
  "find_filter env shares subdirs q userId pathID f \<longleftrightarrow>
     (deep q \<longrightarrow> fr_ID f \<in> set subdirs) \<and>
     (lp_UpdatedAt q \<noteq> [] \<longrightarrow> list_all (date_filter (fr_UpdatedAt f)) (split_on CHR '','' (lp_UpdatedAt q))) \<and>
     (lp_Query q \<noteq> [] \<longrightarrow> search_filter env q f) \<and>
     category_filter (lp_Category q) f \<and>
     specific_filter shares q userId pathID f"

text \<open>The recursive part of a deep search: the entry of the path and everything below it.\<close>

definition subdirs :: "file_row list \<Rightarrow> list_params \<Rightarrow> string option \<Rightarrow> string list option" where
  "subdirs rows q pathID =
     (if deep q then
        target_folders rows (map fr_ID (filter (\<lambda>f. case pathID of None \<Rightarrow> fr_ParentId f = None | Some p \<Rightarrow> fr_ID f = p) rows))
      else Some [])"

definition query_filter :: "query_env \<Rightarrow> share_row list \<Rightarrow> string list \<Rightarrow> list_params \<Rightarrow> int \<Rightarrow> string option \<Rightarrow> file_row \<Rightarrow> bool" where
  "query_filter env shares subs q userId pathID f \<longleftrightarrow>
     fr_UserId f = userId \<and> fr_Status f = lp_Status q \<and>
     (case lp_Operation q of
        OpList \<Rightarrow> list_filter q pathID f
      | OpFind \<Rightarrow> find_filter env shares subs q userId pathID f
      | OpUnset \<Rightarrow> True)"

subsection \<open>Order and pages\<close>

datatype sort_field = FieldName | FieldUpdatedAt | FieldSize | FieldID

fun getValidSortField :: "file_query_sort \<Rightarrow> sort_field" where
  "getValidSortField QSortName = FieldName"
| "getValidSortField QSortUpdatedAt = FieldUpdatedAt"
| "getValidSortField QSortSize = FieldSize"
| "getValidSortField QSortID = FieldID"
| "getValidSortField QSortUnset = FieldUpdatedAt"

text \<open>Whether the direction is \<^verbatim>\<open>ASC\<close>.\<close>

definition getValidOrderDirection :: "file_query_order \<Rightarrow> bool" where
  "getValidOrderDirection order \<longleftrightarrow> order = QOrderAsc"

definition getOrderOperation :: "list_params \<Rightarrow> string" where
  "getOrderOperation q =
     (if lp_Page q = 1 then (if lp_Order q = QOrderAsc then ''>='' else ''<='')
      else (if lp_Order q = QOrderAsc then ''>'' else ''<''))"

fun sort_val :: "query_env \<Rightarrow> sort_field \<Rightarrow> file_row \<Rightarrow> int list option" where
  "sort_val env FieldName f = Some (qe_collate env (fr_Name f))"
| "sort_val env FieldUpdatedAt f = map_option (\<lambda>t. [t]) (fr_UpdatedAt f)"
| "sort_val env FieldSize f = map_option (\<lambda>n. [n]) (fr_Size f)"
| "sort_val env FieldID f = Some (map of_char (fr_ID f))"

definition order_by :: "('r \<Rightarrow> int list option) \<Rightarrow> bool \<Rightarrow> 'r list \<Rightarrow> 'r list" where
  "order_by k asc rows =
     (let nulls = filter (\<lambda>r. k r = None) rows; vals = filter (\<lambda>r. k r \<noteq> None) rows
      in if asc then sort_key (\<lambda>r. the (k r)) vals @ nulls
         else nulls @ rev (sort_key (\<lambda>r. the (k r)) (rev vals)))"

fun sql_compare :: "string \<Rightarrow> int list option \<Rightarrow> int list option \<Rightarrow> bool" where
  "sql_compare op (Some a) (Some b) = (if op = ''>='' then a \<ge> b else if op = ''<='' then a \<le> b else if op = ''>'' then a > b else a < b)"
| "sql_compare op _ _ = False"

text \<open>The rows of the statement and the total, for the rows that match the filters.\<close>

definition buildFileQuery :: "query_env \<Rightarrow> list_params \<Rightarrow> file_row list \<Rightarrow> file_row list \<times> nat" where
  "buildFileQuery env q matching =
     (let k = sort_val env (getValidSortField (lp_Sort q)); asc = getValidOrderDirection (lp_Order q);
          ranked = order_by k asc matching;
          rank = max (i64 (i64 (lp_Page q - 1) * lp_Limit q)) 1;
          boundary = (if rank \<le> int (length ranked) then k (ranked ! nat (rank - 1)) else None);
          hits = order_by k asc (filter (\<lambda>f. sql_compare (getOrderOperation q) (k f) boundary) matching)
      in (if lp_Limit q < 0 then hits else take (nat (lp_Limit q)) hits, length matching))"

subsection \<open>The answer\<close>

record file_out =
  fo_ID :: string
  fo_Name :: string
  fo_Type :: string
  fo_MimeType :: string
  fo_Encrypted :: bool
  fo_UpdatedAt :: int
  fo_ParentId :: "string option"
  fo_Size :: "int option"
  fo_Category :: "category option"
  fo_Hash :: "string option"

definition ToFileOut :: "file_row \<Rightarrow> file_out option" where
  "ToFileOut f =
     Option.bind (fr_Encrypted f) (\<lambda>enc. Option.bind (fr_UpdatedAt f) (\<lambda>t.
       Some \<lparr>fo_ID = fr_ID f, fo_Name = fr_Name f, fo_Type = fr_Type f, fo_MimeType = fr_MimeType f, fo_Encrypted = enc,
             fo_UpdatedAt = t, fo_ParentId = fr_ParentId f, fo_Size = fr_Size f, fo_Category = fr_Category f,
             fo_Hash = (if fr_Hash f = Some [] then None else fr_Hash f)\<rparr>))"

fun map_opt :: "('a \<Rightarrow> 'b option) \<Rightarrow> 'a list \<Rightarrow> 'b list option" where
  "map_opt g [] = Some []"
| "map_opt g (x # xs) = Option.bind (g x) (\<lambda>y. map_option ((#) y) (map_opt g xs))"

record file_list =
  fl_Items :: "file_out list"
  fl_Count :: int
  fl_TotalPages :: int
  fl_CurrentPage :: int

text \<open>\<open>math.Ceil\<close> of the quotient; the conversion of an infinite or undefined quotient to an integer is a parameter.\<close>

definition total_pages :: "(int \<Rightarrow> int) \<Rightarrow> int \<Rightarrow> int \<Rightarrow> int" where
  "total_pages no_limit count limit = (if limit = 0 then no_limit count else - ((- count) div limit))"

definition execute ::
  "query_env \<Rightarrow> (int \<Rightarrow> int) \<Rightarrow> file_row list \<Rightarrow> share_row list \<Rightarrow> list_params \<Rightarrow> int \<Rightarrow> (api_error + file_list) option" where
  "execute env no_limit rows shares q userId =
     (case resolvePathIDIfNeeded rows q userId of
        Inl e \<Rightarrow> Some (Inl e)
      | Inr pathID \<Rightarrow>
          Option.bind (if lp_Operation q = OpFind then subdirs rows q pathID else Some []) (\<lambda>subs.
            case qe_err env of
              Some e \<Rightarrow>
                Some (Inl (if str_contains (error_text e) ''file not found'' then ApiError (ErrText ''invalid path'') 404 else ApiError e 0))
            | None \<Rightarrow>
                let (res, total) = buildFileQuery env q (filter (query_filter env shares subs q userId pathID) rows);
                    count = (if res = [] then 0 else int total)
                in map_option (\<lambda>items. Inr \<lparr>fl_Items = items, fl_Count = count,
                     fl_TotalPages = total_pages no_limit count (lp_Limit q), fl_CurrentPage = lp_Page q\<rparr>) (map_opt ToFileOut res)))"

definition FilesList ::
  "query_env \<Rightarrow> (int \<Rightarrow> int) \<Rightarrow> int \<Rightarrow> list_params \<Rightarrow> 's svc \<Rightarrow> (api_error + file_list) option" where
  "FilesList env no_limit userId q v = execute env no_limit (sv_files v) (sv_shares v) q userId"

subsection \<open>Order\<close>

lemma order_by_filter: "order_by k asc (filter P rows) = filter P (order_by k asc rows)"
proof -
  have vals: "filter (\<lambda>r. k r \<noteq> None) (filter P rows) = filter P (filter (\<lambda>r. k r \<noteq> None) rows)"
    and nulls: "filter (\<lambda>r. k r = None) (filter P rows) = filter P (filter (\<lambda>r. k r = None) rows)"
    by (simp_all add: conj_commute)
  show ?thesis
    unfolding order_by_def Let_def vals nulls
    by (cases asc) (simp_all only: if_True if_False filter_append filter_sort rev_filter [symmetric])
qed

lemma set_order_by [simp]: "set (order_by k asc rows) = set rows"
  by (auto simp: order_by_def Let_def)

lemma order_by_Nil [simp]: "order_by k asc [] = []"
  by (simp add: order_by_def)

lemma length_order_by [simp]: "length (order_by k asc rows) = length rows"
  using sum_length_filter_compl [of "\<lambda>r. k r = None" rows] by (simp add: order_by_def Let_def)

lemma order_by_total:
  assumes "\<forall>r \<in> set rows. k r \<noteq> None"
  shows "order_by k asc rows = (if asc then sort_key (\<lambda>r. the (k r)) rows else rev (sort_key (\<lambda>r. the (k r)) (rev rows)))"
proof -
  have "filter (\<lambda>r. k r \<noteq> None) rows = rows" "filter (\<lambda>r. k r = None) rows = []"
    using assms by (simp_all add: filter_empty_conv)
  then show ?thesis by (simp add: order_by_def)
qed

lemma sorted_strict:
  fixes key :: "'r \<Rightarrow> 'k :: linorder"
  assumes "distinct (map key xs)"
  shows "sorted_wrt (\<lambda>x y. key x < key y) (sort_key key xs)"
proof -
  have "distinct (map key (sort_key key xs))"
    using assms by (simp add: distinct_map)
  then have "sorted_wrt (<) (map key (sort_key key xs))" by (simp add: strict_sorted_iff)
  then show ?thesis by (simp add: sorted_wrt_map)
qed

definition comes_before :: "('r \<Rightarrow> int list option) \<Rightarrow> bool \<Rightarrow> 'r \<Rightarrow> 'r \<Rightarrow> bool" where
  "comes_before k asc x y \<longleftrightarrow> (if asc then the (k x) < the (k y) else the (k y) < the (k x))"

lemma comes_before_eq:
  "comes_before k True = (\<lambda>x y. the (k x) < the (k y))" "comes_before k False = (\<lambda>x y. the (k y) < the (k x))"
  by (intro ext, simp add: comes_before_def)+

lemma order_by_strict:
  assumes "\<forall>r \<in> set rows. k r \<noteq> None" "distinct (map k rows)"
  shows "sorted_wrt (comes_before k asc) (order_by k asc rows)"
proof -
  have inj: "inj_on (\<lambda>r. the (k r)) (set rows)"
  proof (rule inj_onI)
    fix x y assume xy: "x \<in> set rows" "y \<in> set rows" "the (k x) = the (k y)"
    moreover obtain a b where "k x = Some a" "k y = Some b" using assms(1) xy(1,2) by blast
    ultimately have "k x = k y" by simp
    then show "x = y" using xy(1,2) assms(2) by (auto simp: distinct_map dest: inj_onD)
  qed
  have d: "distinct (map (\<lambda>r. the (k r)) rows)" "distinct (map (\<lambda>r. the (k r)) (rev rows))"
    using assms(2) inj by (simp_all add: distinct_map)
  show ?thesis
    using sorted_strict [OF d(1)] sorted_strict [OF d(2)]
    by (simp add: order_by_total [OF assms(1)] comes_before_eq sorted_wrt_rev)
qed

lemma filter_after:
  assumes "sorted_wrt R xs" "n < length xs" "transp R" "asymp R"
  shows "filter (R (xs ! n)) xs = drop (Suc n) xs"
  using assms(1,2)
proof (induction xs arbitrary: n)
  case (Cons x xs)
  show ?case
  proof (cases n)
    case 0
    have "\<not> R x x" using assms(4) by (meson asympD)
    with Cons.prems 0 show ?thesis by (auto simp: filter_id_conv)
  next
    case (Suc m)
    with Cons.prems have "R x (xs ! m)" by simp
    then have "\<not> R (xs ! m) x" using assms(4) by (meson asympD)
    with Cons Suc show ?thesis by simp
  qed
qed simp

lemma comes_before_order: "transp (comes_before k asc)" "asymp (comes_before k asc)"
  by (cases asc; auto simp: comes_before_def transp_def intro!: asympI)+

text \<open>One page of a listing whose sort column has different values, none of them NULL.\<close>

lemma buildFileQuery_page:
  assumes keys: "\<forall>f \<in> set M. sort_val env (getValidSortField (lp_Sort q)) f \<noteq> None"
      "distinct (map (sort_val env (getValidSortField (lp_Sort q))) M)"
    and page: "lp_Page q = int p" "1 \<le> p" "lp_Limit q = int l" "1 \<le> l" "int p * int l < 2 ^ 63"
  shows "buildFileQuery env q M =
    (take l (drop ((p - 1) * l) (order_by (sort_val env (getValidSortField (lp_Sort q))) (lp_Order q = QOrderAsc) M)), length M)"
proof -
  define k where "k = sort_val env (getValidSortField (lp_Sort q))"
  define asc where "asc = (lp_Order q = QOrderAsc)"
  define R where "R = order_by k asc M"
  have total: "\<forall>f \<in> set M. k f \<noteq> None" using keys(1) by (simp add: k_def)
  have some: "k g = Some (the (k g))" if "g \<in> set R" for g
  proof -
    from that total obtain v where "k g = Some v" by (auto simp: R_def)
    then show ?thesis by simp
  qed
  have strict: "sorted_wrt (comes_before k asc) R"
    unfolding R_def using order_by_strict [OF total] keys(2) by (simp add: k_def)
  have off: "i64 (i64 (lp_Page q - 1) * lp_Limit q) = int ((p - 1) * l)"
  proof -
    have "int p * 1 \<le> int p * int l" using page(4) by (intro mult_left_mono) auto
    then have "int p < 2 ^ 63" using page(5) by simp
    then have "i64 (lp_Page q - 1) = int (p - 1)" using page(1,2) by (simp add: i64_small of_nat_diff)
    moreover have "(p - 1) * l \<le> p * l" by simp
    then have "int ((p - 1) * l) \<le> int p * int l" by (metis of_nat_le_iff of_nat_mult)
    ultimately show ?thesis using page(3,5) by (simp add: i64_small)
  qed
  define rank where "rank = max (i64 (i64 (lp_Page q - 1) * lp_Limit q)) 1"
  define op where "op = getOrderOperation q"
  define boundary where "boundary = (if rank \<le> int (length R) then k (R ! nat (rank - 1)) else None)"
  have hits: "order_by k asc (filter (\<lambda>f. sql_compare op (k f) boundary) M) = drop ((p - 1) * l) R"
  proof (cases "p = 1")
    case True
    then have op: "op = (if asc then ''>='' else ''<='')" using page(1) by (simp add: op_def getOrderOperation_def asc_def)
    have rank: "rank = 1" using True by (simp add: rank_def off)
    have "sql_compare op (k f) boundary" if "f \<in> set R" for f
    proof -
      from that obtain i where i: "i < length R" "f = R ! i" by (auto simp: in_set_conv_nth)
      then have ne: "0 < length R" by linarith
      note f = some [OF that] some [OF nth_mem [OF ne]]
      have "i = 0 \<or> comes_before k asc (R ! 0) f" using strict i by (cases i) (auto simp: sorted_wrt_iff_nth_less)
      then have "if asc then the (k (R ! 0)) \<le> the (k f) else the (k f) \<le> the (k (R ! 0))"
        using i by (auto simp: comes_before_def)
      then have "sql_compare op (Some (the (k f))) (Some (the (k (R ! 0))))" using op by (auto split: if_splits)
      moreover have "boundary = k (R ! 0)" using rank ne by (simp add: boundary_def Suc_le_eq)
      ultimately show ?thesis unfolding f [symmetric] by simp
    qed
    then have "filter (\<lambda>f. sql_compare op (k f) boundary) R = R" by (simp add: filter_id_conv)
    then show ?thesis using True by (simp add: order_by_filter R_def)
  next
    case False
    then have p: "2 \<le> p" using page(2) by simp
    then have op: "op = (if asc then ''>'' else ''<'')" using page(1) by (simp add: op_def getOrderOperation_def asc_def)
    have pos: "1 \<le> (p - 1) * l" using p page(4) by simp
    then have "(1 :: int) \<le> int ((p - 1) * l)" by linarith
    then have rank: "rank = int ((p - 1) * l)" unfolding rank_def off by (rule max_absorb1)
    show ?thesis
    proof (cases "(p - 1) * l \<le> length R")
      case True
      let ?n = "(p - 1) * l - 1"
      have n: "?n < length R" "Suc ?n = (p - 1) * l" using True pos by linarith+
      have "nat (int m - 1) = m - 1" if "1 \<le> m" for m :: nat using that by simp
      from this [OF pos] have "nat (rank - 1) = ?n" by (simp only: rank)
      moreover have "rank \<le> int (length R)" unfolding rank using True by (simp only: of_nat_le_iff)
      ultimately have b: "boundary = k (R ! ?n)" by (simp only: boundary_def if_True)
      have "sql_compare op (k f) boundary = comes_before k asc (R ! ?n) f" if "f \<in> set R" for f
      proof -
        have "sql_compare op (k f) boundary = sql_compare op (Some (the (k f))) (Some (the (k (R ! ?n))))"
          unfolding b by (simp only: some [OF that, symmetric] some [OF nth_mem [OF n(1)], symmetric])
        then show ?thesis by (simp add: op comes_before_def)
      qed
      then have "filter (\<lambda>f. sql_compare op (k f) boundary) R = filter (comes_before k asc (R ! ?n)) R"
        by (intro filter_cong) auto
      also have "\<dots> = drop (Suc ?n) R" by (rule filter_after [OF strict n(1) comes_before_order])
      finally show ?thesis using n(2) by (simp add: order_by_filter R_def)
    next
      case False
      then have "\<not> rank \<le> int (length R)" unfolding rank by (simp only: of_nat_le_iff not_False_eq_True)
      then have "boundary = None" by (simp only: boundary_def if_False)
      then show ?thesis using False by (simp add: order_by_filter R_def)
    qed
  qed
  have "buildFileQuery env q M = (take l (drop ((p - 1) * l) R), length M)"
    using page(3) hits unfolding buildFileQuery_def Let_def getValidOrderDirection_def k_def [symmetric] asc_def [symmetric]
      R_def [symmetric] rank_def [symmetric] op_def [symmetric] boundary_def [symmetric]
    by simp
  then show ?thesis by (simp add: R_def k_def asc_def)
qed

text \<open>In descending order a NULL in the sort column is ranked first, and nothing compares with it.\<close>

lemma buildFileQuery_null:
  assumes "lp_Order q \<noteq> QOrderAsc" "lp_Page q = 1" "f \<in> set M" "sort_val env (getValidSortField (lp_Sort q)) f = None"
  shows "buildFileQuery env q M = ([], length M)"
proof -
  define k where "k = sort_val env (getValidSortField (lp_Sort q))"
  have "filter (\<lambda>r. k r = None) M \<noteq> []" using assms(3,4) by (auto simp: k_def filter_empty_conv)
  then obtain g gs where g: "filter (\<lambda>r. k r = None) M = g # gs" by (meson neq_Nil_conv)
  then have "g \<in> set (filter (\<lambda>r. k r = None) M)" by simp
  then have "k g = None" by simp
  with g have head: "k (order_by k False M ! 0) = None" by (simp add: order_by_def)
  have len: "1 \<le> int (length M)" using assms(3) by (cases M) auto
  have none: "filter (\<lambda>f. sql_compare op (k f) None) M = []" for op
    by (simp add: filter_empty_conv)
  have rank: "max (i64 (i64 (lp_Page q - 1) * lp_Limit q)) 1 = 1" using assms(2) by simp
  have dir: "getValidOrderDirection (lp_Order q) = False" using assms(1) by (simp add: getValidOrderDirection_def)
  show ?thesis
    unfolding buildFileQuery_def Let_def k_def [symmetric] rank dir
    using head len by (simp add: none)
qed

text \<open>A page as an answer: the rows are converted one by one.\<close>

lemma map_opt_Some: "\<forall>x \<in> set xs. g x \<noteq> None \<Longrightarrow> map_opt g xs = Some (map (\<lambda>x. the (g x)) xs)"
  by (induction xs) auto

definition convertible :: "file_row \<Rightarrow> bool" where
  "convertible f \<longleftrightarrow> fr_Encrypted f \<noteq> None \<and> fr_UpdatedAt f \<noteq> None"

lemma ToFileOut_row: "convertible f \<Longrightarrow> \<exists>g. ToFileOut f = Some g \<and> fo_ID g = fr_ID f \<and> fo_Name g = fr_Name f \<and> fo_Size g = fr_Size f"
  by (auto simp: convertible_def ToFileOut_def)

lemma ToFileOut_all:
  assumes "\<forall>f \<in> set rows. convertible f"
  shows "\<exists>items. map_opt ToFileOut rows = Some items \<and> map fo_ID items = map fr_ID rows"
proof (intro exI conjI)
  show "map_opt ToFileOut rows = Some (map (\<lambda>f. the (ToFileOut f)) rows)"
    using assms ToFileOut_row by (intro map_opt_Some) fastforce
  show "map fo_ID (map (\<lambda>f. the (ToFileOut f)) rows) = map fr_ID rows"
    using assms ToFileOut_row by fastforce
qed

lemma total_pages_ceil:
  assumes "1 \<le> l"
  shows "total_pages no_limit (int c) (int l) = int ((c + l - 1) div l)"
proof -
  define a b where "a = c div l" and "b = c mod l"
  have c: "c = a * l + b" "b < l" using assms by (simp_all add: a_def b_def)
  have ic: "int c = int a * int l + int b" using c(1) by simp
  have "- ((- int c) div int l) = int a + (if b = 0 then 0 else 1)"
  proof (cases "b = 0")
    case True
    have "- int c = (- int a) * int l" using ic True by simp
    then have "(- int c) div int l = - int a" using assms by (metis nonzero_mult_div_cancel_right of_nat_0_eq_iff not_one_le_zero)
    with True show ?thesis by simp
  next
    case False
    have "- int c = (- int a - 1) * int l + (int l - int b)" using ic by (simp add: algebra_simps)
    moreover have "0 \<le> int l - int b" "int l - int b < int l" using c(2) False by auto
    ultimately have "(- int c) div int l = - int a - 1" by (intro int_div_pos_eq [where r = "int l - int b"]) (auto simp: algebra_simps)
    with False show ?thesis by simp
  qed
  moreover have "(c + l - 1) div l = a + (if b = 0 then 0 else 1)"
  proof (cases "b = 0")
    case True
    have "c + l - 1 = a * l + (l - 1)" using c True assms by simp
    then have "(c + l - 1) div l = a + (l - 1) div l" using assms by (simp only: div_mult_self3)
    then show ?thesis using True assms by simp
  next
    case False
    have "c + l - 1 = (a + 1) * l + (b - 1)" using c False assms by simp
    then have "(c + l - 1) div l = (a + 1) + (b - 1) div l" using assms by (simp only: div_mult_self3)
    then show ?thesis using False c(2) by simp
  qed
  ultimately show ?thesis using assms by (simp add: total_pages_def)
qed

lemma execute_answer:
  assumes "resolvePathIDIfNeeded rows q userId = Inr pathID" "qe_err env = None"
    and "(if lp_Operation q = OpFind then subdirs rows q pathID else Some []) = Some subs"
    and "buildFileQuery env q (filter (query_filter env shares subs q userId pathID) rows) = (res, n)"
    and "map_opt ToFileOut res = Some items" "count = (if res = [] then 0 else int n)"
  shows "execute env no_limit rows shares q userId = Some (Inr \<lparr>fl_Items = items, fl_Count = count,
    fl_TotalPages = total_pages no_limit count (lp_Limit q), fl_CurrentPage = lp_Page q\<rparr>)"
  unfolding execute_def using assms by (simp only: sum.case option.case prod.case Let_def bind.simps option.map)

subsection \<open>Properties\<close>

text \<open>C16: Pages of a folder: in every history of the file tree, if the collation tells names apart, the listing of a folder by name
  has on page \<open>p\<close> exactly the entries \<open>(p - 1) * l\<close> up to \<open>p * l\<close> of the sorted active entries of the user in that folder, so
  the pages miss and repeat nothing; the total and the number of pages are right on every page that is not empty.\<close>

theorem listing_pages:
  assumes reach: "reachable svc_init (svc_step cdel cpat) v" and names: "inj (qe_collate env)"
    and conv: "\<forall>f \<in> set (sv_files v). convertible f" and ok: "qe_err env = None"
    and req: "lp_Operation q = OpList" "lp_ParentId q = parent" "parent \<noteq> []" "lp_Status q = ''active''" "lp_Sort q = QSortName"
    and page: "lp_Page q = int p" "1 \<le> p" "lp_Limit q = int l" "1 \<le> l" "int p * int l < 2 ^ 63"
    and M: "M = filter (\<lambda>f. fr_UserId f = userId \<and> active f \<and> fr_ParentId f = Some parent) (sv_files v)"
  shows "\<exists>fl. FilesList env no_limit userId q v = Some (Inr fl) \<and>
    map fo_ID (fl_Items fl) = map fr_ID (take l (drop ((p - 1) * l)
      (order_by (\<lambda>f. Some (qe_collate env (fr_Name f))) (lp_Order q = QOrderAsc) M))) \<and>
    (fl_Items fl \<noteq> [] \<longrightarrow> fl_Count fl = int (length M) \<and> fl_TotalPages fl = int ((length M + l - 1) div l))"
proof -
  let ?k = "\<lambda>f. Some (qe_collate env (fr_Name f))"
  have k: "sort_val env (getValidSortField (lp_Sort q)) = ?k" using req(5) by (intro ext) simp
  have filt: "filter (query_filter env (sv_shares v) [] q userId None) (sv_files v) = M"
    unfolding M using req by (intro filter_cong) (auto simp: query_filter_def list_filter_def active_def)
  have table: "table_ok (sv_files v)" by (rule file_table.reachable_inv [OF reach])
  have "distinct (map ?k M)"
  proof -
    have d: "distinct (sv_files v)" using table by (simp add: table_ok_def distinct_map)
    have "inj_on ?k (set M)"
    proof (rule inj_onI)
      fix f g assume fg: "f \<in> set M" "g \<in> set M" "?k f = ?k g"
      then have "fr_Name f = fr_Name g" using names by (auto dest: injD)
      with fg show "f = g" using table unique_activeD [of "sv_files v" f g] by (auto simp: M same_place_def table_ok_def)
    qed
    then show ?thesis using d by (simp add: distinct_map M)
  qed
  then have page_eq: "buildFileQuery env q M = (take l (drop ((p - 1) * l) (order_by ?k (lp_Order q = QOrderAsc) M)), length M)"
    using buildFileQuery_page [of M env q p l] page by (simp add: k)
  define res where "res = take l (drop ((p - 1) * l) (order_by ?k (lp_Order q = QOrderAsc) M))"
  have "set res \<subseteq> set M" unfolding res_def by (metis order_trans set_drop_subset set_order_by set_take_subset)
  then have "\<forall>f \<in> set res. convertible f" using conv by (auto simp: M)
  from ToFileOut_all [OF this] obtain items where items: "map_opt ToFileOut res = Some items" "map fo_ID items = map fr_ID res" by blast
  have "resolvePathIDIfNeeded (sv_files v) q userId = Inr None"
    using req by (simp add: resolvePathIDIfNeeded_def shouldResolvePathID_def)
  then have "FilesList env no_limit userId q v = Some (Inr \<lparr>fl_Items = items, fl_Count = (if res = [] then 0 else int (length M)),
      fl_TotalPages = total_pages no_limit (if res = [] then 0 else int (length M)) (lp_Limit q), fl_CurrentPage = lp_Page q\<rparr>)"
    unfolding FilesList_def
    by (rule execute_answer [OF _ ok, where subs = "[]" and n = "length M"])
      (use req(1) page_eq [folded res_def] items(1) in \<open>simp_all add: filt\<close>)
  moreover have "items \<noteq> [] \<longleftrightarrow> res \<noteq> []" using items(2) by (metis map_is_Nil_conv)
  ultimately show ?thesis using items(2) page(3,4) total_pages_ceil [of l no_limit "length M"] by (simp add: res_def)
qed

text \<open>A listing of the folder of the sample: two pages of one entry.\<close>

definition list_sample :: list_params where
  "list_sample = \<lparr>lp_Operation = OpList, lp_Name = [], lp_Path = [], lp_ParentId = ''r'', lp_Query = [], lp_SearchType = SearchUnset,
     lp_DeepSearch = False, lp_Shared = False, lp_Type = [], lp_Status = ''active'', lp_Category = [], lp_UpdatedAt = [],
     lp_Sort = QSortName, lp_Order = QOrderAsc, lp_Page = 1, lp_Limit = 1\<rparr>"

definition query_sample :: query_env where
  "query_sample = \<lparr>qe_text = (\<lambda>_ _. False), qe_regex = (\<lambda>_ _. False), qe_collate = map of_char, qe_err = None\<rparr>"

theorem listing_pages_witness:
  "\<exists>v fl. reachable svc_init (svc_step (\<lambda>_ c. c) (\<lambda>_ c. c)) (v :: unit svc) \<and>
     FilesList query_sample id 7 list_sample v = Some (Inr fl) \<and> map fo_ID (fl_Items fl) = [''n1''] \<and> fl_TotalPages fl = 1"
proof -
  obtain v r where c: "FilesCreate svc_sample 7 sample_folder empty_svc = Some (v, r)"
    "sv_files v = [\<lparr>fr_ID = ''n1'', fr_Name = ''docs'', fr_Type = ''folder'', fr_MimeType = ''drive/folder'', fr_Size = None, fr_Category = None,
      fr_Encrypted = Some False, fr_UserId = 7, fr_Status = ''active'', fr_ParentId = Some ''r'', fr_Parts = None, fr_ChannelId = None,
      fr_Hash = None, fr_UpdatedAt = Some 100\<rparr>]"
    by (simp add: FilesCreate_def sample_folder_def empty_svc_def create_parent_def create_row_def new_row_def folder_fields_def
        svc_sample_def Let_def)
  have reach: "reachable svc_init (svc_step (\<lambda>_ c. c) (\<lambda>_ c. c)) v"
  proof (rule reachable.move)
    show "reachable svc_init (svc_step (\<lambda>_ c. c) (\<lambda>_ c. c)) empty_svc" by (rule reachable.start) (simp add: svc_init_def empty_svc_def)
    show "svc_step (\<lambda>_ c. c) (\<lambda>_ c. c) empty_svc v" by (rule svc_step.create [OF c(1)]) (simp add: empty_svc_def)
  qed
  let ?page = "take 1 (drop ((1 - 1) * 1)
      (order_by (\<lambda>f. Some (qe_collate query_sample (fr_Name f))) (lp_Order list_sample = QOrderAsc) (sv_files v)))"
  have "\<exists>fl. FilesList query_sample id 7 list_sample v = Some (Inr fl) \<and> map fo_ID (fl_Items fl) = map fr_ID ?page \<and>
    (fl_Items fl \<noteq> [] \<longrightarrow> fl_Count fl = int (length (sv_files v)) \<and> fl_TotalPages fl = int ((length (sv_files v) + 1 - 1) div 1))"
    by (rule listing_pages [OF reach]) (simp_all add: c(2) query_sample_def list_sample_def convertible_def active_def inj_of_char)
  then obtain fl where fl: "FilesList query_sample id 7 list_sample v = Some (Inr fl)" "map fo_ID (fl_Items fl) = map fr_ID ?page"
    "fl_Items fl \<noteq> [] \<longrightarrow> fl_TotalPages fl = int ((length (sv_files v) + 1 - 1) div 1)" by blast
  have "map fr_ID ?page = [''n1'']" by (simp add: c(2) order_by_def list_sample_def)
  with fl(2) have ids: "map fo_ID (fl_Items fl) = [''n1'']" by simp
  then have "fl_Items fl \<noteq> []" by auto
  with fl(3) have "fl_TotalPages fl = 1" by (simp add: c(2))
  with reach fl(1) ids show ?thesis by (intro exI [of _ v] exI [of _ fl] conjI)
qed

text \<open>
  One entry without a value in the sort column hides all: sorted in descending order, the first page of a listing is empty and
  reports no entries as soon as one matching entry has NULL in the column, as every folder has in \<^verbatim>\<open>size\<close> when it is created.\<close>

lemma null_key_hides_listing:
  assumes "lp_Operation q \<noteq> OpFind" "resolvePathIDIfNeeded (sv_files v) q userId = Inr pathID" "qe_err env = None"
    and "lp_Order q \<noteq> QOrderAsc" "lp_Page q = 1" "f \<in> set (sv_files v)" "query_filter env (sv_shares v) [] q userId pathID f"
    and "sort_val env (getValidSortField (lp_Sort q)) f = None"
  shows "FilesList env no_limit userId q v = Some (Inr \<lparr>fl_Items = [], fl_Count = 0,
    fl_TotalPages = total_pages no_limit 0 (lp_Limit q), fl_CurrentPage = 1\<rparr>)"
proof -
  let ?M = "filter (query_filter env (sv_shares v) [] q userId pathID) (sv_files v)"
  have "buildFileQuery env q ?M = ([], length ?M)"
    using assms by (intro buildFileQuery_null [of q f]) auto
  with assms(1) have "FilesList env no_limit userId q v = Some (Inr \<lparr>fl_Items = [], fl_Count = 0,
      fl_TotalPages = total_pages no_limit 0 (lp_Limit q), fl_CurrentPage = lp_Page q\<rparr>)"
    unfolding FilesList_def by (intro execute_answer [OF assms(2,3), where subs = "[]" and n = "length ?M" and res = "[]" and items = "[]" and count = 0])
      simp_all
  then show ?thesis by (simp add: assms(5))
qed

lemma null_key_hides_listing_witness:
  "\<exists>fl. FilesList query_sample id 1 (list_sample\<lparr>lp_Sort := QSortSize, lp_Order := QOrderDesc\<rparr>)
     (empty_svc\<lparr>sv_files := [sample_row ''a'' ''folder'' 1 (Some ''r''), (sample_row ''b'' ''file'' 1 (Some ''r''))\<lparr>fr_Size := Some 3\<rparr>]\<rparr>) =
     Some (Inr fl) \<and> fl_Items fl = [] \<and> fl_Count fl = 0"
proof -
  let ?v = "empty_svc\<lparr>sv_files := [sample_row ''a'' ''folder'' 1 (Some ''r''), (sample_row ''b'' ''file'' 1 (Some ''r''))\<lparr>fr_Size := Some 3\<rparr>]\<rparr>"
  let ?q = "list_sample\<lparr>lp_Sort := QSortSize, lp_Order := QOrderDesc\<rparr>"
  have "resolvePathIDIfNeeded (sv_files ?v) ?q 1 = Inr None"
    by (simp add: resolvePathIDIfNeeded_def shouldResolvePathID_def list_sample_def)
  then have "FilesList query_sample id 1 ?q ?v = Some (Inr \<lparr>fl_Items = [], fl_Count = 0, fl_TotalPages = total_pages id 0 (lp_Limit ?q), fl_CurrentPage = 1\<rparr>)"
    by (rule null_key_hides_listing [where f = "sample_row ''a'' ''folder'' 1 (Some ''r'')", rotated])
      (simp_all add: list_sample_def query_sample_def query_filter_def list_filter_def sample_row_def)
  then show ?thesis by simp
qed

text \<open>Entries with equal sort columns are lost between pages: two files of one size, one per page.\<close>

lemma ties_lost:
  defines "two \<equiv> [(sample_row ''a'' ''file'' 1 (Some ''r''))\<lparr>fr_Size := Some 3\<rparr>, (sample_row ''b'' ''file'' 1 (Some ''r''))\<lparr>fr_Size := Some 3\<rparr>]"
  shows "map fr_ID (fst (buildFileQuery query_sample (list_sample\<lparr>lp_Sort := QSortSize\<rparr>) two)) = [''a''] \<and>
    fst (buildFileQuery query_sample (list_sample\<lparr>lp_Sort := QSortSize, lp_Page := 2\<rparr>) two) = []"
  unfolding two_def by code_simp

end
