(* ===== verification/Base64.thy ===== *)
theory Base64
  imports Prelude
begin

section \<open>Base64 (the part of Go's encoding/base64 that the sources use)\<close>

text \<open>
  \<^verbatim>\<open>StdEncoding\<close> and \<^verbatim>\<open>URLEncoding\<close>, both with padding. The two alphabets differ in the last two
  characters, which are the argument \<open>(plus, slash)\<close>. The decoder skips line breaks and, as in Go outside the
  strict mode, ignores the unused bits of the last character.
\<close>

type_synonym b64_alphabet = "char \<times> char"

definition StdEncoding :: b64_alphabet where
  "StdEncoding = (CHR ''+'', CHR ''/'')"

definition URLEncoding :: b64_alphabet where
  "URLEncoding = (CHR ''-'', CHR ''_'')"

definition b64_letters :: string where
  "b64_letters = ''ABCDEFGHIJKLMNOPQRSTUVWXYZabcdefghijklmnopqrstuvwxyz0123456789''"

definition b64_char :: "b64_alphabet \<Rightarrow> nat \<Rightarrow> char" where
  "b64_char al n = (if n < 62 then b64_letters ! n else if n = 62 then fst al else snd al)"

fun index_of :: "char \<Rightarrow> string \<Rightarrow> nat option" where
  "index_of c [] = None"
| "index_of c (x # xs) = (if x = c then Some 0 else map_option Suc (index_of c xs))"

definition b64_val :: "b64_alphabet \<Rightarrow> char \<Rightarrow> nat option" where
  "b64_val al c = index_of c (b64_letters @ [fst al, snd al])"

fun b64_encode :: "b64_alphabet \<Rightarrow> bytes \<Rightarrow> string" where
  "b64_encode al [] = []"
| "b64_encode al [a] = [b64_char al (unat a div 4), b64_char al (unat a mod 4 * 16), CHR ''='', CHR ''='']"
| "b64_encode al [a, b] =
     [b64_char al (unat a div 4), b64_char al (unat a mod 4 * 16 + unat b div 16), b64_char al (unat b mod 16 * 4), CHR ''='']"
| "b64_encode al (a # b # c # bs) =
     [b64_char al (unat a div 4), b64_char al (unat a mod 4 * 16 + unat b div 16),
      b64_char al (unat b mod 16 * 4 + unat c div 64), b64_char al (unat c mod 64)] @ b64_encode al bs"

fun b64_groups :: "b64_alphabet \<Rightarrow> string \<Rightarrow> bytes option" where
  "b64_groups al [] = Some []"
| "b64_groups al (p # q # r # s # cs) =
     (case (b64_val al p, b64_val al q) of
        (Some x, Some y) \<Rightarrow>
          let b0 = word_of_nat (x * 4 + y div 16) in
          if r = CHR ''='' then (if s = CHR ''='' \<and> cs = [] then Some [b0] else None)
          else (case b64_val al r of
                  None \<Rightarrow> None
                | Some z \<Rightarrow>
                    let b1 = word_of_nat (y mod 16 * 16 + z div 4) in
                    if s = CHR ''='' then (if cs = [] then Some [b0, b1] else None)
                    else (case b64_val al s of
                            None \<Rightarrow> None
                          | Some w \<Rightarrow> map_option (\<lambda>bs. b0 # b1 # word_of_nat (z mod 4 * 64 + w) # bs) (b64_groups al cs)))
      | _ \<Rightarrow> None)"
| "b64_groups al cs = None"

definition b64_decode :: "b64_alphabet \<Rightarrow> string \<Rightarrow> bytes option" where
  "b64_decode al s = b64_groups al (filter (\<lambda>c. c \<noteq> CHR 0x0A \<and> c \<noteq> CHR 0x0D) s)"

subsection \<open>Round trip\<close>

definition b64_ok :: "b64_alphabet \<Rightarrow> bool" where
  "b64_ok al \<longleftrightarrow> (\<forall>n \<in> set [0..<64]. b64_val al (b64_char al n) = Some n \<and> b64_char al n \<noteq> CHR ''='' \<and>
     b64_char al n \<noteq> CHR 0x0A \<and> b64_char al n \<noteq> CHR 0x0D)"

lemma b64_ok_alphabets: "b64_ok StdEncoding" "b64_ok URLEncoding"
  by code_simp+

lemma b64_okD:
  assumes "b64_ok al" "n < 64"
  shows "b64_val al (b64_char al n) = Some n" "b64_char al n \<noteq> CHR ''=''" "b64_char al n \<noteq> CHR 0x0A" "b64_char al n \<noteq> CHR 0x0D"
  using assms by (simp_all add: b64_ok_def)

lemma unat_byte: "unat (a :: byte) < 256"
proof -
  have "unat a < 2 ^ LENGTH(8)" by (rule unsigned_less)
  then show ?thesis by simp
qed

lemma b64_parts:
  fixes a :: byte
  shows "unat a div 4 < 64" "unat a div 16 < 16" "unat a div 64 < 4"
  using unat_byte [of a] by (simp_all add: less_mult_imp_div_less)

lemma b64_digits:
  fixes a b c :: byte
  shows "unat a mod 4 * 16 < 64" "unat a mod 4 * 16 + unat b div 16 < 64" "unat b mod 16 * 4 < 64"
    "unat b mod 16 * 4 + unat c div 64 < 64" "unat c mod 64 < 64"
proof -
  have "unat a mod 4 < 4" "unat b mod 16 < 16" by simp_all
  then show "unat a mod 4 * 16 < 64" "unat a mod 4 * 16 + unat b div 16 < 64" "unat b mod 16 * 4 < 64"
    "unat b mod 16 * 4 + unat c div 64 < 64"
    using b64_parts(2) [of b] b64_parts(3) [of c] by linarith+
qed simp

lemma b64_bytes:
  fixes a b c :: byte
  shows "(unat a mod 4 * 16 + unat b div 16) div 16 = unat a mod 4" "(unat a mod 4 * 16 + unat b div 16) mod 16 = unat b div 16"
    "(unat b mod 16 * 4 + unat c div 64) div 4 = unat b mod 16" "(unat b mod 16 * 4 + unat c div 64) mod 4 = unat c div 64"
  using b64_parts [of b] b64_parts [of c] by simp_all

lemma byte_whole:
  fixes a :: byte
  shows "word_of_nat (unat a div 4 * 4 + unat a mod 4) = a" "word_of_nat (unat a div 16 * 16 + unat a mod 16) = a"
    "word_of_nat (unat a div 64 * 64 + unat a mod 64) = a"
  by (simp_all only: div_mult_mod_eq of_nat_unat ucast_id)

lemmas b64_step = b64_okD b64_parts b64_digits b64_bytes byte_whole Let_def

lemma b64_groups_encode: "b64_ok al \<Longrightarrow> b64_groups al (b64_encode al bs) = Some bs"
  by (induction al bs rule: b64_encode.induct) (simp_all add: b64_step del: of_nat_add of_nat_mult)

lemma b64_encode_plain: "b64_ok al \<Longrightarrow> filter (\<lambda>c. c \<noteq> CHR 0x0A \<and> c \<noteq> CHR 0x0D) (b64_encode al bs) = b64_encode al bs"
  by (induction al bs rule: b64_encode.induct) (simp_all add: b64_step)

lemma b64_roundtrip: "b64_ok al \<Longrightarrow> b64_decode al (b64_encode al bs) = Some bs"
  by (simp add: b64_decode_def b64_encode_plain b64_groups_encode)

end
