(* ===== verification/Shares.thy ===== *)
theory Shares
  imports File_Stream File_Query Base64
begin

section \<open>Shared links (pkg/services/share.go and the share handlers of pkg/services/file.go)\<close>

text \<open>
  A share gives anybody who has its id, and its password if it has one, access to a file or folder.
  Creation, change and deletion of shares work on the table; the handlers that serve a share look it up
  through the cache, where it stays without a time limit. Password hashing (bcrypt) is a parameter: the hash
  of a password, and whether a password matches a hash.
\<close>

record bcrypt =
  bc_hash :: "string \<Rightarrow> go_error + string"
  bc_match :: "string \<Rightarrow> string \<Rightarrow> bool"

record share_env =
  she_now :: int
  she_newID :: string
  she_dbErr :: "go_error option"

definition ErrShareNotFound :: go_error where
  "ErrShareNotFound = ErrText ''share not found''"

definition ErrInvalidPassword :: go_error where
  "ErrInvalidPassword = ErrText ''invalid password''"

definition ErrEmptyAuth :: go_error where
  "ErrEmptyAuth = ErrText ''empty auth''"

definition ErrShareExpired :: go_error where
  "ErrShareExpired = ErrText ''share expired''"

definition ErrForeignKey :: go_error where
  "ErrForeignKey = ErrText ''insert or update on table file_shares violates foreign key constraint fk_file''"

subsection \<open>The owner's side\<close>

definition share_password :: "bcrypt \<Rightarrow> string \<Rightarrow> api_error + string option" where
  "share_password bc pw =
     (if pw \<noteq> [] then (case bc_hash bc pw of Inl e \<Rightarrow> Inl (ApiError e 0) | Inr h \<Rightarrow> Inr (Some h)) else Inr None)"

definition FilesCreateShare ::
  "bcrypt \<Rightarrow> share_env \<Rightarrow> int \<Rightarrow> string \<Rightarrow> string \<Rightarrow> int option \<Rightarrow> 's svc \<Rightarrow> 's svc \<times> api_error option" where
  "FilesCreateShare bc env userId fileID pw expiresAt v =
     (case share_password bc pw of
        Inl e \<Rightarrow> (v, Some e)
      | Inr password \<Rightarrow>
          (case she_dbErr env of
             Some e \<Rightarrow> (v, Some (ApiError e 0))
           | None \<Rightarrow>
               if fileID \<notin> set (map fr_ID (sv_files v)) then (v, Some (ApiError ErrForeignKey 0))
               else (v\<lparr>sv_shares := sv_shares v @
                      [\<lparr>sh_ID = she_newID env, sh_FileId = fileID, sh_Password = password, sh_ExpiresAt = expiresAt,
                        sh_UserId = userId\<rparr>]\<rparr>, None)))"

text \<open>Only the fields that are set are written.\<close>

definition FilesEditShare ::
  "bcrypt \<Rightarrow> share_env \<Rightarrow> int \<Rightarrow> string \<Rightarrow> string \<Rightarrow> int option \<Rightarrow> 's svc \<Rightarrow> 's svc \<times> api_error option" where
  "FilesEditShare bc env userId fileID pw expiresAt v =
     (case share_password bc pw of
        Inl e \<Rightarrow> (v, Some e)
      | Inr password \<Rightarrow>
          (case she_dbErr env of
             Some e \<Rightarrow> (v, Some (ApiError e 0))
           | None \<Rightarrow>
               (v\<lparr>sv_shares := map (\<lambda>s. if sh_FileId s = fileID \<and> sh_UserId s = userId
                                     then s\<lparr>sh_Password := some_or password (sh_Password s),
                                            sh_ExpiresAt := some_or expiresAt (sh_ExpiresAt s)\<rparr> else s) (sv_shares v)\<rparr>, None)))"

text \<open>All shares of the file are deleted; \<^verbatim>\<open>RETURNING\<close> fills one struct, with the first of them.\<close>

definition FilesDeleteShare ::
  "(string list \<Rightarrow> 's \<Rightarrow> 's) \<Rightarrow> share_env \<Rightarrow> int \<Rightarrow> string \<Rightarrow> 's svc \<Rightarrow> 's svc \<times> api_error option" where
  "FilesDeleteShare cdel env userId fileID v =
     (case she_dbErr env of
        Some e \<Rightarrow> (v, Some (ApiError e 0))
      | None \<Rightarrow>
          (let P = (\<lambda>s. sh_FileId s = fileID \<and> sh_UserId s = userId)
           in (v\<lparr>sv_shares := filter (\<lambda>s. \<not> P s) (sv_shares v),
                  sv_cache := (case find P (sv_shares v) of
                                 None \<Rightarrow> sv_cache v
                               | Some s \<Rightarrow> if sh_ID s \<noteq> [] then cdel [KeyShare (sh_ID s)] (sv_cache v) else sv_cache v)\<rparr>, None)))"

record share_info =
  si_ID :: string
  si_Protected :: bool
  si_ExpiresAt :: "int option"

definition FilesShareByid :: "share_env \<Rightarrow> int \<Rightarrow> string \<Rightarrow> 's svc \<Rightarrow> api_error + share_info" where
  "FilesShareByid env userId fileID v =
     (case she_dbErr env of
        Some e \<Rightarrow> Inl (if e = ErrRecordNotFound then ApiError (ErrText ''invalid share'') 404 else ApiError e 0)
      | None \<Rightarrow>
          (case filter (\<lambda>s. sh_FileId s = fileID \<and> sh_UserId s = userId) (sv_shares v) of
             [] \<Rightarrow> Inl (ApiError (ErrText ''invalid share'') 404)
           | s # _ \<Rightarrow> Inr \<lparr>si_ID = sh_ID s, si_Protected = (sh_Password s \<noteq> None), si_ExpiresAt = sh_ExpiresAt s\<rparr>))"

subsection \<open>The visitor's side\<close>

record file_share =
  fs_Share :: share_row
  fs_Type :: string
  fs_Name :: string
  fs_Path :: string

definition shareGetById :: "share_env \<Rightarrow> string \<Rightarrow> 's svc \<Rightarrow> (api_error + file_share) option" where
  "shareGetById env i v =
     (case she_dbErr env of
        Some e \<Rightarrow> Some (Inl (ApiError e 0))
      | None \<Rightarrow>
          (case find (\<lambda>s. sh_ID s = i) (sv_shares v) of
             None \<Rightarrow> Some (Inl (ApiError ErrShareNotFound 404))
           | Some s \<Rightarrow>
               if (case sh_ExpiresAt s of None \<Rightarrow> False | Some t \<Rightarrow> t < she_now env) then Some (Inl (ApiError ErrShareExpired 404))
               else map_option (\<lambda>path.
                 let f = find (\<lambda>f. fr_ID f = sh_FileId s) (sv_files v)
                 in Inr \<lparr>fs_Share = s, fs_Type = (case f of None \<Rightarrow> [] | Some r \<Rightarrow> fr_Type r),
                         fs_Name = (case f of None \<Rightarrow> [] | Some r \<Rightarrow> fr_Name r), fs_Path = path\<rparr>)
                 (getFullPath (sv_files v) (sh_FileId s))))"

record share_details =
  sd_Protected :: bool
  sd_UserId :: int
  sd_Type :: string
  sd_Name :: string
  sd_ExpiresAt :: "int option"

definition SharesGetById :: "share_env \<Rightarrow> string \<Rightarrow> 's svc \<Rightarrow> (api_error + share_details) option" where
  "SharesGetById env i v =
     map_option (map_sum id (\<lambda>sh.
       \<lparr>sd_Protected = (sh_Password (fs_Share sh) \<noteq> None), sd_UserId = sh_UserId (fs_Share sh), sd_Type = fs_Type sh,
        sd_Name = fs_Name sh, sd_ExpiresAt = sh_ExpiresAt (fs_Share sh)\<rparr>)) (shareGetById env i v)"

text \<open>The password of a share without one is a nil pointer: the call panics (\<open>None\<close>).\<close>

definition SharesUnlock :: "bcrypt \<Rightarrow> share_env \<Rightarrow> string \<Rightarrow> string \<Rightarrow> 's svc \<Rightarrow> api_error option option" where
  "SharesUnlock bc env i pw v =
     (case she_dbErr env of
        Some e \<Rightarrow> Some (Some (ApiError e 0))
      | None \<Rightarrow>
          (case find (\<lambda>s. sh_ID s = i) (sv_shares v) of
             None \<Rightarrow> Some (Some (ApiError ErrShareNotFound 404))
           | Some s \<Rightarrow>
               map_option (\<lambda>h. if bc_match bc h pw then None else Some (ApiError ErrInvalidPassword 403)) (sh_Password s)))"

text \<open>The password of an \<^verbatim>\<open>Authorization\<close> header; \<open>None\<close> when there is no colon: the second piece is missing.\<close>

definition basic_password :: "string \<Rightarrow> (go_error + string) option" where
  "basic_password header =
     (case b64_decode StdEncoding (trim_prefix header ''Basic '') of
        None \<Rightarrow> Some (Inl (ErrText ''illegal base64 data''))
      | Some bs \<Rightarrow>
          (case split_on CHR '':'' (bytes_text bs) of
             _ # password # _ \<Rightarrow> Some (Inr password)
           | _ \<Rightarrow> None))"

definition check_share :: "bcrypt \<Rightarrow> string \<Rightarrow> file_share \<Rightarrow> (api_error + file_share) option" where
  "check_share bc authHeader share =
     (case sh_Password (fs_Share share) of
        None \<Rightarrow> Some (Inr share)
      | Some h \<Rightarrow>
          if authHeader = [] then Some (Inl (ApiError ErrEmptyAuth 401))
          else map_option (\<lambda>r. case r of
                 Inl e \<Rightarrow> Inl (ApiError e 0)
               | Inr password \<Rightarrow> if bc_match bc h password then Inr share else Inl (ApiError ErrInvalidPassword 401))
               (basic_password authHeader))"

text \<open>Whether a fetch runs its function, which may not return.\<close>

definition fetch_runs :: "('s, 'v) cache_get \<Rightarrow> 'v fetch_env \<Rightarrow> string \<Rightarrow> 's \<Rightarrow> bool" where
  "fetch_runs get fe key c =
     (case get c (fe_first fe) key of
        Inr _ \<Rightarrow> False
      | Inl err \<Rightarrow> isNotFound err \<and> fe_joined fe = None \<and> (case get c (fe_again fe) key of Inr _ \<Rightarrow> False | Inl _ \<Rightarrow> True))"

definition api_err :: "api_error \<Rightarrow> go_error" where
  "api_err e = (case e of ApiError g _ \<Rightarrow> g)"

definition share_fetch :: "share_env \<Rightarrow> 's svc \<Rightarrow> string \<Rightarrow> go_error + file_share" where
  "share_fetch env v i = (case shareGetById env i v of Some r \<Rightarrow> map_sum api_err id r | None \<Rightarrow> Inl EOF)"

definition validFileShare ::
  "('s, file_share) cache_get \<Rightarrow> ('s, file_share) cache_set \<Rightarrow> file_share fetch_env \<Rightarrow> bcrypt \<Rightarrow> share_env \<Rightarrow> string \<Rightarrow> string \<Rightarrow> 's svc \<Rightarrow>
   ('s svc \<times> (api_error + file_share)) option" where
  "validFileShare get put fe bc env authHeader i v =
     (if fetch_runs get fe (KeyShare i) (sv_cache v) \<and> shareGetById env i v = None then None
      else
        let (c, r) = FetchArg get put fe (KeyShare i) 0 (share_fetch env v) i (sv_cache v);
            v' = v\<lparr>sv_cache := c\<rparr>
        in case r of
             Inl e \<Rightarrow> Some (v', Inl (ApiError e 0))
           | Inr share \<Rightarrow> map_option (\<lambda>res. (v', res)) (check_share bc authHeader share))"

text \<open>The content of a share: the listing of a folder below the shared path, or the file.\<close>

definition SharesListFiles ::
  "('s, file_share) cache_get \<Rightarrow> ('s, file_share) cache_set \<Rightarrow> file_share fetch_env \<Rightarrow> bcrypt \<Rightarrow> share_env \<Rightarrow> query_env \<Rightarrow> (int \<Rightarrow> int) \<Rightarrow>
   string \<Rightarrow> string \<Rightarrow> string \<Rightarrow> int \<Rightarrow> int \<Rightarrow> file_query_sort \<Rightarrow> file_query_order \<Rightarrow> 's svc \<Rightarrow> ('s svc \<times> (api_error + file_list)) option" where
  "SharesListFiles get put fe bc env qenv no_limit authHeader i path page limit sortBy orderDir v =
     Option.bind (validFileShare get put fe bc env authHeader i v) (\<lambda>(v', r).
       case r of
         Inl e \<Rightarrow> Some (v', Inl e)
       | Inr share \<Rightarrow>
           if fs_Type share = ''folder'' then
             map_option (\<lambda>res. (v', res)) (execute qenv no_limit (sv_files v') (sv_shares v')
               \<lparr>lp_Operation = OpList, lp_Name = [], lp_Path = fs_Path share @ path, lp_ParentId = [], lp_Query = [],
                lp_SearchType = SearchUnset, lp_DeepSearch = False, lp_Shared = False, lp_Type = [], lp_Status = ''active'',
                lp_Category = [], lp_UpdatedAt = [], lp_Sort = sortBy, lp_Order = orderDir, lp_Page = page, lp_Limit = limit\<rparr>
               (sh_UserId (fs_Share share)))
           else (case find (\<lambda>f. fr_ID f = sh_FileId (fs_Share share)) (sv_files v') of
                   None \<Rightarrow> Some (v', Inl (ApiError ErrRecordNotFound 404))
                 | Some f \<Rightarrow>
                     map_option (\<lambda>item. (v', Inr \<lparr>fl_Items = [item], fl_Count = 1, fl_TotalPages = 1, fl_CurrentPage = 1\<rparr>)) (ToFileOut f)))"

definition SharesStream ::
  "('s, file_share) cache_get \<Rightarrow> ('s, file_share) cache_set \<Rightarrow> file_share fetch_env \<Rightarrow> bcrypt \<Rightarrow> share_env \<Rightarrow> 'c stream_env \<Rightarrow>
   request \<Rightarrow> string \<Rightarrow> string \<Rightarrow> string \<Rightarrow> 's svc \<Rightarrow> 'c pool \<Rightarrow> ('s svc \<times> 'c pool \<times> response) option" where
  "SharesStream get put fe bc env senv r authHeader shareId fileId v p =
     Option.bind (validFileShare get put fe bc env authHeader shareId v) (\<lambda>(v', res).
       case res of
         Inl err \<Rightarrow>
           Some (v', p, if errors_Is (api_err err) ErrEmptyAuth
             then http_Error ''Unauthorized'' 401 (header_Set ''WWW-Authenticate'' ''Basic realm=\"Restricted\"'' new_response)
             else http_Error (error_text (api_err err)) 401 new_response)
       | Inr share \<Rightarrow> map_option (\<lambda>(p', w). (v', p', w)) (FilesStream senv r fileId (sh_UserId (fs_Share share)) p))"

subsection \<open>Fetching a share\<close>

lemma find_share: "find P ss = Some s \<Longrightarrow> s \<in> set ss \<and> P s"
  by (induction ss) (auto split: if_splits)

lemma find_filter_single: "filter P xs = [x] \<Longrightarrow> find P xs = Some x"
  by (induction xs) (auto split: if_splits)

lemma KeyShare_eq: "KeyShare i = KeyShare j \<longleftrightarrow> i = j"
  by (simp add: KeyShare_def Key_def)

lemma shareGetById_row:
  assumes "shareGetById env i v = Some (Inr sh)"
  shows "fs_Share sh \<in> set (sv_shares v) \<and> sh_ID (fs_Share sh) = i"
  using assms by (auto simp: shareGetById_def Let_def split: option.splits if_splits dest!: find_share)

lemma FetchArg_cache:
  assumes "FetchArg get put fe key ttl fn a c = (c', r)"
  obtains "c' = c" | w where "fn a = Inr w" "c' = fst (put c (fe_store fe) key w ttl)"
  using assms
  by (auto simp: FetchArg_def Fetch_def do_flight_def cache_flight_def store_fresh_def split: sum.splits option.splits if_splits)

lemma FetchArg_result:
  assumes "FetchArg get put fe key ttl fn a c = (c', Inr w)" "fe_joined fe = None" "\<And>t w. get c t key \<noteq> Inr w"
  shows "fn a = Inr w"
  using assms
  by (auto simp: FetchArg_def Fetch_def do_flight_def cache_flight_def waitSingleflight_def split: sum.splits option.splits if_splits)

lemma validFileShare_cases:
  assumes "validFileShare get put fe bc env authHeader j v = Some (v', res)"
  obtains c r where "FetchArg get put fe (KeyShare j) 0 (share_fetch env v) j (sv_cache v) = (c, r)" "v' = v\<lparr>sv_cache := c\<rparr>"
    "case r of Inl e \<Rightarrow> res = Inl (ApiError e 0) | Inr share \<Rightarrow> check_share bc authHeader share = Some res"
proof -
  obtain c r where fetch: "FetchArg get put fe (KeyShare j) 0 (share_fetch env v) j (sv_cache v) = (c, r)" by fastforce
  show ?thesis using assms fetch by (intro that [OF fetch]) (cases r; auto simp: validFileShare_def Let_def split: if_splits)+
qed

lemma share_fetch_Inr: "share_fetch env v i = Inr sh \<longleftrightarrow> shareGetById env i v = Some (Inr sh)"
  by (auto simp: share_fetch_def map_sum_def split: option.splits sum.splits)

definition share_gone :: "('s, file_share) cache_get \<Rightarrow> string \<Rightarrow> 's svc \<Rightarrow> bool" where
  "share_gone get i v \<longleftrightarrow> i \<notin> set (map sh_ID (sv_shares v)) \<and> (\<forall>t w. get (sv_cache v) t (KeyShare i) \<noteq> Inr w)"

text \<open>What may happen after a share has been deleted; an id is not given to a second share.\<close>

inductive share_step ::
  "('s, file_share) cache_get \<Rightarrow> ('s, file_share) cache_set \<Rightarrow> (string list \<Rightarrow> 's \<Rightarrow> 's) \<Rightarrow> bcrypt \<Rightarrow> string \<Rightarrow> 's svc \<Rightarrow> 's svc \<Rightarrow> bool"
  for get put cdel bc i where
  create: "FilesCreateShare bc env userId fileID pw expiresAt v = (v', r) \<Longrightarrow> she_newID env \<noteq> i \<Longrightarrow> share_step get put cdel bc i v v'"
| edit: "FilesEditShare bc env userId fileID pw expiresAt v = (v', r) \<Longrightarrow> share_step get put cdel bc i v v'"
| remove_share: "FilesDeleteShare cdel env userId fileID v = (v', r) \<Longrightarrow> share_step get put cdel bc i v v'"
| remove_files: "FilesDelete cdel userId ids v = Some (v', e) \<Longrightarrow> share_step get put cdel bc i v v'"
| visit: "validFileShare get put fe bc env authHeader j v = Some (v', res) \<Longrightarrow> share_step get put cdel bc i v v'"

locale share_cache = cacher get put cdel
  for get :: "('s, file_share) cache_get" and put :: "('s, file_share) cache_set" and cdel :: "string list \<Rightarrow> 's \<Rightarrow> 's" +
  fixes i :: string and bc :: bcrypt
begin

lemma removed_stays: "\<forall>t w. get c t k \<noteq> Inr w \<Longrightarrow> \<forall>t w. get (cdel ks c) t k \<noteq> Inr w"
  using remove_other by blast

lemma visit_gone:
  assumes gone: "share_gone get i v" and visit: "validFileShare get put fe bc env authHeader j v = Some (v', res)"
  shows "share_gone get i v'"
proof -
  from visit obtain c r where fetch: "FetchArg get put fe (KeyShare j) 0 (share_fetch env v) j (sv_cache v) = (c, r)"
    and v': "v' = v\<lparr>sv_cache := c\<rparr>" by (rule validFileShare_cases)
  have "get c t (KeyShare i) \<noteq> Inr w" for t w
    using fetch
  proof (cases rule: FetchArg_cache)
    case 1
    then show ?thesis using gone by (simp add: share_gone_def)
  next
    case (2 sh)
    then have "shareGetById env j v = Some (Inr sh)" by (simp add: share_fetch_Inr)
    with gone have "j \<noteq> i" by (auto simp: share_gone_def dest: shareGetById_row)
    then have "KeyShare i \<noteq> KeyShare j" by (simp add: KeyShare_eq)
    then show ?thesis using 2(2) gone put_other [OF surjective_pairing] by (metis share_gone_def)
  qed
  with v' gone show ?thesis by (simp add: share_gone_def)
qed

lemma step_gone: "share_step get put cdel bc i v v' \<Longrightarrow> share_gone get i v \<Longrightarrow> share_gone get i v'"
proof (induction rule: share_step.induct)
  case (create env userId fileID pw expiresAt v v' r)
  then show ?case by (auto simp: FilesCreateShare_def share_gone_def split: sum.splits option.splits if_splits)
next
  case (edit env userId fileID pw expiresAt v v' r)
  then have "map sh_ID (sv_shares v') = map sh_ID (sv_shares v)" "sv_cache v' = sv_cache v"
    by (auto simp: FilesEditShare_def split: sum.splits option.splits)
  with edit(2) show ?case by (simp add: share_gone_def)
next
  case (remove_share env userId fileID v v' r)
  then show ?case
    by (auto simp: FilesDeleteShare_def share_gone_def Let_def removed_stays split: option.splits if_splits)
next
  case (remove_files userId ids v v' e)
  then show ?case
    by (auto simp: FilesDelete_def share_gone_def record_event_def cascade_shares_def removed_stays split: list.splits option.splits)
next
  case (visit fe env authHeader j v v' res)
  show ?case by (rule visit_gone [OF visit(2,1)])
qed

lemma delete_gone:
  assumes "FilesDeleteShare cdel env userId fileID v = (v', None)" "distinct (map sh_ID (sv_shares v))" "i \<noteq> []"
    and "filter (\<lambda>s. sh_FileId s = fileID \<and> sh_UserId s = userId) (sv_shares v) = [s]" "sh_ID s = i"
  shows "share_gone get i v'"
proof -
  let ?P = "\<lambda>s. sh_FileId s = fileID \<and> sh_UserId s = userId"
  have find: "find ?P (sv_shares v) = Some s" using assms(4) by (rule find_filter_single)
  have s: "s \<in> set (sv_shares v)" "?P s" using find_share [OF find] by simp_all
  have v': "v' = v\<lparr>sv_shares := filter (\<lambda>s. \<not> ?P s) (sv_shares v), sv_cache := cdel [KeyShare i] (sv_cache v)\<rparr>"
    using assms(1,3,5) by (simp add: FilesDeleteShare_def Let_def find split: option.splits)
  have "sh_ID s' \<noteq> i" if "s' \<in> set (sv_shares v)" "\<not> ?P s'" for s'
    using that s assms(2,5) by (auto simp: distinct_map dest: inj_onD)
  moreover have "get (cdel [KeyShare i] (sv_cache v)) t (KeyShare i) \<noteq> Inr w" for t w
    by (rule remove_gone [where k = "KeyShare i"]) simp_all
  ultimately show ?thesis by (auto simp: share_gone_def v')
qed

lemma gone_refused:
  assumes "share_gone get i v" "fe_joined fe = None" "validFileShare get put fe bc env authHeader i v = Some (v', res)"
  shows "\<exists>e. res = Inl e"
proof -
  from assms(3) obtain c r where fetch: "FetchArg get put fe (KeyShare i) 0 (share_fetch env v) i (sv_cache v) = (c, r)"
    and res: "case r of Inl e \<Rightarrow> res = Inl (ApiError e 0) | Inr share \<Rightarrow> check_share bc authHeader share = Some res"
    by (rule validFileShare_cases)
  show ?thesis
  proof (cases r)
    case (Inl e)
    with res show ?thesis by simp
  next
    case (Inr sh)
    have "share_fetch env v i = Inr sh" using fetch Inr assms(1,2) by (intro FetchArg_result) (auto simp: share_gone_def)
    then have "shareGetById env i v = Some (Inr sh)" by (simp add: share_fetch_Inr)
    with assms(1) show ?thesis by (auto simp: share_gone_def dest: shareGetById_row)
  qed
qed

end


sublocale share_cache \<subseteq> gone: step_invariant "share_gone get i" "share_step get put cdel bc i" "share_gone get i"
  by unfold_locales (auto intro: step_gone)

context share_cache
begin

lemma gone_forever: "reachable (share_gone get i) (share_step get put cdel bc i) v \<Longrightarrow> share_gone get i v"
  by (rule gone.reachable_inv)

end

subsection \<open>A share in the memory cache\<close>

definition demo_row :: share_row where
  "demo_row = \<lparr>sh_ID = ''s'', sh_FileId = ''a'', sh_Password = Some ''hash of old'', sh_ExpiresAt = None, sh_UserId = 1\<rparr>"

definition demo_share :: file_share where
  "demo_share = \<lparr>fs_Share = demo_row, fs_Type = ''file'', fs_Name = ''a'', fs_Path = ''/a''\<rparr>"

definition demo_codec :: "file_share codec" where
  "demo_codec = \<lparr>co_Marshal = (\<lambda>sh. if sh = demo_share then Inr [] else Inl EOF), co_Unmarshal = (\<lambda>_. Inr demo_share)\<rparr>"

definition demo_bcrypt :: bcrypt where
  "demo_bcrypt = \<lparr>bc_hash = (\<lambda>pw. Inr (''hash of '' @ pw)), bc_match = (\<lambda>h pw. h = ''hash of '' @ pw)\<rparr>"

interpretation demo_cache: memory_cache "map_store (10 ^ 9)" demo_codec
  by (intro memory_cache.intro memory_cache_axioms.intro map_store_ok) (auto simp: codec_ok_def demo_codec_def split: if_splits)

interpretation demo_shares: share_cache "memory_Get (map_store (10 ^ 9)) demo_codec" "memory_Set (map_store (10 ^ 9)) demo_codec"
    "memory_Delete (map_store (10 ^ 9))" "''s''" demo_bcrypt
  by (intro share_cache.intro demo_cache.mem.cacher_axioms)

subsection \<open>Properties\<close>


abbreviation "demo_Get \<equiv> memory_Get (map_store (10 ^ 9)) demo_codec"
abbreviation "demo_Set \<equiv> memory_Set (map_store (10 ^ 9)) demo_codec"
abbreviation "demo_Delete \<equiv> memory_Delete (map_store (10 ^ 9))"

definition demo_env :: share_env where
  "demo_env = \<lparr>she_now = 5, she_newID = ''n'', she_dbErr = None\<rparr>"

definition demo_fetch :: "file_share fetch_env" where
  "demo_fetch = \<lparr>fe_first = 1, fe_again = 2, fe_store = 3, fe_joined = None, fe_done = None\<rparr>"

definition demo_svc :: "(string \<times> bytes \<times> int option) list svc" where
  "demo_svc = \<lparr>sv_files = [sample_row ''a'' ''file'' 1 None], sv_uploads = [], sv_shares = [demo_row], sv_cache = [], sv_events = []\<rparr>"

definition demo_auth :: string where
  "demo_auth = ''Basic '' @ b64_encode StdEncoding (text_bytes ''me:old'')"

lemma demo_share_found: "shareGetById demo_env ''s'' demo_svc = Some (Inr demo_share)"
  by (simp add: shareGetById_def demo_env_def demo_svc_def demo_row_def demo_share_def getFullPath_def path_tree.simps sample_row_def
      trim_prefix_def has_prefix_def Let_def)

lemma demo_let_in: "check_share demo_bcrypt demo_auth demo_share = Some (Inr demo_share)"
  by code_simp

lemma demo_cache_empty: "sv_cache demo_svc = []"
  by (simp add: demo_svc_def)

lemma demo_visit:
  "validFileShare demo_Get demo_Set demo_fetch demo_bcrypt demo_env demo_auth ''s'' demo_svc =
     Some (demo_svc\<lparr>sv_cache := [(cache_prefix @ KeyShare ''s'', [], None)]\<rparr>, Inr demo_share)"
proof -
  have "share_fetch demo_env demo_svc ''s'' = Inr demo_share" by (simp add: share_fetch_Inr demo_share_found)
  then show ?thesis
    by (simp add: validFileShare_def demo_share_found FetchArg_def Fetch_def do_flight_def cache_flight_def waitSingleflight_def
        store_fresh_def demo_fetch_def memory_Get_def memory_Set_def map_store_def demo_codec_def isNotFound_def errors_Is.simps demo_let_in
        go_div_def demo_cache_empty Let_def)
qed


text \<open>
  A change of a share is not seen by its visitors. Once the share is in the cache, which keeps it without a time limit, a
  successful \<open>FilesEditShare\<close> leaves the decision of every visit as it was: the old password opens the share and a new one
  does not, whatever the share's new or old expiry.\<close>

lemma edit_share_ignored:
  assumes "FilesEditShare bc env userId fileID pw expiresAt v = (v', e)" "get (sv_cache v) (fe_first fe) (KeyShare i) = Inr share"
  shows "validFileShare get put fe bc env' authHeader i v' = map_option (\<lambda>res. (v', res)) (check_share bc authHeader share)"
proof -
  have "sv_cache v' = sv_cache v" using assms(1) by (auto simp: FilesEditShare_def split: sum.splits option.splits)
  with assms(2) have "get (sv_cache v') (fe_first fe) (KeyShare i) = Inr share" by simp
  then show ?thesis by (simp add: validFileShare_def fetch_runs_def FetchArg_def Fetch_def)
qed

lemma edit_share_ignored_witness:
  "\<exists>v1 v2. validFileShare demo_Get demo_Set demo_fetch demo_bcrypt demo_env demo_auth ''s'' demo_svc = Some (v1, Inr demo_share) \<and>
     FilesEditShare demo_bcrypt demo_env 1 ''a'' ''new'' None v1 = (v2, None) \<and>
     map sh_Password (sv_shares v2) = [Some ''hash of new''] \<and>
     validFileShare demo_Get demo_Set demo_fetch demo_bcrypt demo_env demo_auth ''s'' v2 = Some (v2, Inr demo_share)"
proof -
  let ?v1 = "demo_svc\<lparr>sv_cache := [(cache_prefix @ KeyShare ''s'', [], None)]\<rparr>"
  have visit: "validFileShare demo_Get demo_Set demo_fetch demo_bcrypt demo_env demo_auth ''s'' demo_svc = Some (?v1, Inr demo_share)"
    by (rule demo_visit)
  obtain v2 where edit: "FilesEditShare demo_bcrypt demo_env 1 ''a'' ''new'' None ?v1 = (v2, None)" "map sh_Password (sv_shares v2) = [Some ''hash of new'']"
    by (simp add: FilesEditShare_def demo_env_def share_password_def demo_bcrypt_def demo_svc_def demo_row_def some_or_def)
  have "demo_Get (sv_cache ?v1) (fe_first demo_fetch) (KeyShare ''s'') = Inr demo_share" by code_simp
  from edit_share_ignored [OF edit(1), where get = demo_Get, OF this] have
    "validFileShare demo_Get demo_Set demo_fetch demo_bcrypt demo_env demo_auth ''s'' v2 =
      map_option (\<lambda>res. (v2, res)) (check_share demo_bcrypt demo_auth demo_share)" by blast
  then show ?thesis using visit edit by (simp add: demo_let_in)
qed

lemma split_on_two: "c \<notin> set a \<Longrightarrow> \<exists>rest. split_on c (a @ [c] @ b) = a # takeWhile (\<lambda>x. x \<noteq> c) b # rest"
proof -
  assume a: "c \<notin> set a"
  have "\<exists>rest. split_on c b = takeWhile (\<lambda>x. x \<noteq> c) b # rest" for b
    by (induction b) auto
  then show ?thesis using split_on_append [OF a, of b] by fastforce
qed

text \<open>
  The password of a protected share travels in a header of basic authentication: for any user name without a colon, the
  share is opened exactly when the hash matches the part of the password before its first colon. A header without a colon
  makes the handler panic.\<close>

lemma share_basic_auth:
  assumes "sh_Password (fs_Share share) = Some h" "CHR '':'' \<notin> set user"
  shows "check_share bc (''Basic '' @ b64_encode StdEncoding (text_bytes (user @ '':'' @ pw))) share =
      Some (if bc_match bc h (takeWhile (\<lambda>c. c \<noteq> CHR '':'') pw) then Inr share else Inl (ApiError ErrInvalidPassword 401)) \<and>
    check_share bc (''Basic '' @ b64_encode StdEncoding (text_bytes user)) share = None"
proof -
  have dec: "b64_decode StdEncoding (b64_encode StdEncoding bs) = Some bs" for bs
    by (rule b64_roundtrip [OF b64_ok_alphabets(1)])
  obtain rest where "split_on CHR '':'' (user @ '':'' @ pw) = user # takeWhile (\<lambda>c. c \<noteq> CHR '':'') pw # rest"
    using split_on_two [OF assms(2), of pw] by auto
  moreover have "basic_password (''Basic '' @ b64_encode StdEncoding (text_bytes s)) =
      (case split_on CHR '':'' s of _ # password # _ \<Rightarrow> Some (Inr password) | _ \<Rightarrow> None)" for s
    unfolding basic_password_def trim_prefix_append dec by (simp add: bytes_text_bytes)
  ultimately show ?thesis using assms by (simp add: check_share_def split_on_id)
qed

lemma share_basic_auth_witness:
  "check_share demo_bcrypt demo_auth demo_share = Some (Inr demo_share) \<and>
   check_share demo_bcrypt (''Basic '' @ b64_encode StdEncoding (text_bytes ''me:old:tail'')) demo_share = Some (Inr demo_share)"
proof -
  have pw: "sh_Password (fs_Share demo_share) = Some ''hash of old''" by (simp add: demo_share_def demo_row_def)
  have "CHR '':'' \<notin> set ''me''" by simp
  note auth = share_basic_auth [OF pw this, of demo_bcrypt]
  have "demo_auth = ''Basic '' @ b64_encode StdEncoding (text_bytes (''me'' @ '':'' @ ''old''))" by (simp add: demo_auth_def)
  then show ?thesis using auth [of "''old''"] auth [of "''old:tail''"] by (simp add: demo_bcrypt_def)
qed

end
