(* ===== verification/Login.thy ===== *)
theory Login
  imports Auth_Session Base64 Transition
begin

section \<open>Login and logout (pkg/services/auth.go)\<close>

text \<open>
  A user logs in with a Telegram session that the browser got over the web socket; the service makes a signed
  token, the user's row and root folder if they are missing, and the row of the session. Logout deletes the row
  and its cached copy. The answers of Telegram, MD5 and the signing of tokens are arguments.
\<close>

record user_row =
  us_UserId :: int
  us_Name :: string
  us_UserName :: string
  us_IsPremium :: bool

record 's auth_svc = "'s svc" +
  as_users :: "user_row list"
  as_sessions :: "session list"

record session_create =
  sc_Session :: string
  sc_UserId :: int
  sc_UserName :: string
  sc_Name :: string
  sc_IsPremium :: bool

definition authCookieName :: string where
  "authCookieName = ''access_token''"

definition checkUserIsAllowed :: "string list \<Rightarrow> string \<Rightarrow> bool" where
  "checkUserIsAllowed allowedUsers userName =
     (if length allowedUsers > 0 then userName \<in> set allowedUsers else True)"

text \<open>\<^verbatim>\<open>http.Cookie.String\<close>: bytes that a cookie value may not have are dropped, spaces and commas need quotes.\<close>

definition cookie_value :: "string \<Rightarrow> string" where
  "cookie_value v =
     (let w = filter (\<lambda>c. let n = of_char c :: nat in 32 \<le> n \<and> n < 127 \<and> c \<noteq> CHR 0x22 \<and> c \<noteq> CHR '';'' \<and> c \<noteq> CHR 0x5C) v
      in if list_ex (\<lambda>c. c = CHR '' '' \<or> c = CHR '','') w then [CHR 0x22] @ w @ [CHR 0x22] else w)"

definition setCookie :: "string \<Rightarrow> string \<Rightarrow> int \<Rightarrow> string" where
  "setCookie name val maxAge =
     name @ ''='' @ cookie_value val @ ''; Path=/'' @
     (if maxAge > 0 then ''; Max-Age='' @ itoa maxAge else if maxAge < 0 then ''; Max-Age=0'' else []) @ ''; HttpOnly; SameSite=Lax''"

record login_env =
  li_allowed :: "string list"
  li_now :: int
  li_sessionTime :: int
  li_secret :: string
  li_jwt :: jwt_lib
  li_date :: "int \<Rightarrow> int"
  li_md5 :: "string \<Rightarrow> string"
  li_newID :: string
  li_userErr :: "go_error option"
  li_fileErr :: "go_error option"
  li_clientErr :: "go_error option"
  li_auths :: "go_error + (bool \<times> int) list"
  li_sessionErr :: "go_error option"

definition root_folder :: "login_env \<Rightarrow> int \<Rightarrow> file_row" where
  "root_folder env userId =
     \<lparr>fr_ID = li_newID env, fr_Name = ''root'', fr_Type = ''folder'', fr_MimeType = ''drive/folder'', fr_Size = None, fr_Category = None,
      fr_Encrypted = None, fr_UserId = userId, fr_Status = ''active'', fr_ParentId = None, fr_Parts = None, fr_ChannelId = None,
      fr_Hash = None, fr_UpdatedAt = Some (li_now env)\<rparr>"

text \<open>Both insertions have \<^verbatim>\<open>ON CONFLICT DO NOTHING\<close>; they do not use the transaction they stand in, so the first stays.\<close>

definition create_user :: "login_env \<Rightarrow> session_create \<Rightarrow> 's auth_svc \<Rightarrow> 's auth_svc \<times> go_error option" where
  "create_user env sc v =
     (case li_userErr env of
        Some e \<Rightarrow> (v, Some e)
      | None \<Rightarrow>
          let v1 = (if sc_UserId sc \<in> set (map us_UserId (as_users v)) then v
                    else v\<lparr>as_users := as_users v @ [\<lparr>us_UserId = sc_UserId sc, us_Name = sc_Name sc, us_UserName = sc_UserName sc,
                             us_IsPremium = sc_IsPremium sc\<rparr>]\<rparr>);
              root = root_folder env (sc_UserId sc)
          in case li_fileErr env of
               Some e \<Rightarrow> (v1, Some e)
             | None \<Rightarrow> (if list_ex (\<lambda>f. active f \<and> same_place root f) (sv_files v1) then v1
                        else v1\<lparr>sv_files := sv_files v1 @ [root]\<rparr>, None))"

definition login_claims :: "login_env \<Rightarrow> session_create \<Rightarrow> claims" where
  "login_claims env sc =
     \<lparr>cl_Subject = itoa (sc_UserId sc), cl_Name = sc_Name sc, cl_UserName = sc_UserName sc, cl_IsPremium = sc_IsPremium sc,
      cl_Hash = li_md5 env (sc_Session sc), cl_TgSession = [], cl_IssuedAt = li_date env (li_now env),
      cl_ExpiresAt = li_date env (li_now env + li_sessionTime env)\<rparr>"

text \<open>Without a current authorization in the list of Telegram the pointer is nil: the handler panics (\<open>None\<close>).\<close>

definition AuthLogin :: "login_env \<Rightarrow> session_create \<Rightarrow> 's auth_svc \<Rightarrow> ('s auth_svc \<times> (api_error + string)) option" where
  "AuthLogin env sc v =
     (if \<not> checkUserIsAllowed (li_allowed env) (sc_UserName sc) then Some (v, Inl (ApiError (ErrText ''user not allowed'') 403))
      else case Encode (li_jwt env) (li_secret env) (login_claims env sc) of
        Inl e \<Rightarrow> Some (v, Inl (ApiError e 0))
      | Inr jwtToken \<Rightarrow>
          (case create_user env sc v of
             (v1, Some e) \<Rightarrow> Some (v1, Inl (ApiError e 0))
           | (v1, None) \<Rightarrow>
               (case li_clientErr env of
                  Some e \<Rightarrow> Some (v1, Inl (ApiError e 0))
                | None \<Rightarrow>
                    (case li_auths env of
                       Inl e \<Rightarrow> Some (v1, Inl (ApiError e 0))
                     | Inr auths \<Rightarrow>
                         Option.bind (find fst auths) (\<lambda>(_, dateCreated).
                           let hash = li_md5 env (sc_Session sc);
                               dup = list_ex (\<lambda>s. ss_Session s = sc_Session sc \<and> ss_Hash s = hash) (as_sessions v1)
                           in case (if li_sessionErr env = None \<and> dup then Some ErrUnique else li_sessionErr env) of
                                Some e \<Rightarrow> Some (v1, Inl (ApiError e 0))
                              | None \<Rightarrow>
                                  Some (v1\<lparr>as_sessions := as_sessions v1 @
                                           [\<lparr>ss_Hash = hash, ss_UserId = sc_UserId sc, ss_Session = sc_Session sc,
                                             ss_SessionDate = dateCreated, ss_CreatedAt = li_now env\<rparr>]\<rparr>,
                                        Inr (setCookie authCookieName jwtToken (go_div (li_sessionTime env) (10 ^ 9)))))))))"

text \<open>The outcome of the Telegram logout is ignored, and so is an error of the deletion.\<close>

definition AuthLogout :: "(string list \<Rightarrow> 's \<Rightarrow> 's) \<Rightarrow> go_error option \<Rightarrow> claims \<Rightarrow> 's auth_svc \<Rightarrow> 's auth_svc \<times> string" where
  "AuthLogout cdel dbErr authUser v =
     (let v1 = (if dbErr = None then v\<lparr>as_sessions := filter (\<lambda>s. ss_Hash s \<noteq> cl_Hash authUser) (as_sessions v)\<rparr> else v)
      in (v1\<lparr>sv_cache := cdel [KeySessionHash (cl_Hash authUser), KeyUserSessions (subject_id (cl_Subject authUser))] (sv_cache v1)\<rparr>,
          setCookie authCookieName [] (-1)))"

record session_info =
  sn_Name :: string
  sn_UserName :: string
  sn_UserId :: int
  sn_Hash :: string
  sn_Expires :: int

text \<open>The session of a cookie, with a renewed token; no content (\<open>None\<close>) when it is not valid.\<close>

definition AuthSession ::
  "('s, session) cache_get \<Rightarrow> ('s, session) cache_set \<Rightarrow> int \<Rightarrow> go_error option \<Rightarrow> login_env \<Rightarrow> string \<Rightarrow> 's auth_svc \<Rightarrow>
   's auth_svc \<times> (session_info \<times> string) option" where
  "AuthSession get put now dbErr env accessToken v =
     (if accessToken = [] then (v, None)
      else
        let (c, r) = VerifyUser get put now (case dbErr of Some e \<Rightarrow> Inl e | None \<Rightarrow> Inr (as_sessions v))
                       (Decode (li_jwt env) (li_secret env)) accessToken (sv_cache v);
            v1 = v\<lparr>sv_cache := c\<rparr>
        in case r of
             Inl _ \<Rightarrow> (v1, None)
           | Inr cl \<Rightarrow>
               let newExpires = li_now env + li_sessionTime env;
                   cl' = cl\<lparr>cl_TgSession := [], cl_IssuedAt := li_date env (li_now env), cl_ExpiresAt := li_date env newExpires\<rparr>
               in case Encode (li_jwt env) (li_secret env) cl' of
                    Inl _ \<Rightarrow> (v1, None)
                  | Inr token \<Rightarrow>
                      (v1, Some (\<lparr>sn_Name = cl_Name cl, sn_UserName = cl_UserName cl, sn_UserId = subject_id (cl_Subject cl),
                                  sn_Hash = cl_Hash cl, sn_Expires = newExpires\<rparr>,
                                 setCookie authCookieName token (go_div (li_sessionTime env) (10 ^ 9)))))"

subsection \<open>The Telegram session string\<close>

text \<open>\<^verbatim>\<open>net.ParseIP(s).To4()\<close> on dotted decimals, nil otherwise.\<close>

definition ip_byte :: "string \<Rightarrow> byte option" where
  "ip_byte s =
     (if s = [] \<or> (length s > 1 \<and> hd s = CHR ''0'') \<or> length s > 3 then None
      else case digits_val 0 s of None \<Rightarrow> None | Some n \<Rightarrow> if n < 256 then Some (word_of_nat n) else None)"

definition parse_ip4 :: "string \<Rightarrow> bytes option" where
  "parse_ip4 s =
     (let bs = map ip_byte (split_on CHR ''.'' s) in if length bs = 4 \<and> None \<notin> set bs then Some (map the bs) else None)"

definition ip4toInt :: "bytes option \<Rightarrow> int" where
  "ip4toInt ip = (case ip of None \<Rightarrow> 0 | Some bs \<Rightarrow> foldl (\<lambda>acc b. acc * 256 + uint b) 0 bs)"

definition big_endian :: "nat \<Rightarrow> int \<Rightarrow> bytes" where
  "big_endian n i = map (\<lambda>k. word_of_int (i div 256 ^ k)) (rev [0..<n])"

definition pack32BinaryIP4 :: "string \<Rightarrow> bytes" where
  "pack32BinaryIP4 ip4Address = big_endian 4 (ip4toInt (parse_ip4 ip4Address))"

definition dcMaps :: "int \<Rightarrow> string" where
  "dcMaps dcId =
     (if dcId = 1 then ''149.154.175.53'' else if dcId = 2 then ''149.154.167.51'' else if dcId = 3 then ''149.154.175.100''
      else if dcId = 4 then ''149.154.167.91'' else if dcId = 5 then ''91.108.56.130'' else [])"

definition generateTgSession :: "int \<Rightarrow> bytes \<Rightarrow> int \<Rightarrow> string" where
  "generateTgSession dcId authKey port =
     ''1'' @ b64_encode URLEncoding ([word_of_int dcId] @ pack32BinaryIP4 (dcMaps dcId) @ big_endian 2 port @ authKey)"

record tg_user =
  tu_ID :: int
  tu_Username :: string
  tu_FirstName :: string
  tu_LastName :: string
  tu_Premium :: bool

record session_data =
  sd_DC :: int
  sd_AuthKey :: bytes

definition prepareSession :: "tg_user \<Rightarrow> session_data \<Rightarrow> session_create" where
  "prepareSession user data =
     \<lparr>sc_Session = generateTgSession (sd_DC data) (sd_AuthKey data) 443, sc_UserId = tu_ID user, sc_UserName = tu_Username user,
      sc_Name = tu_FirstName user @ '' '' @ tu_LastName user, sc_IsPremium = tu_Premium user\<rparr>"

subsection \<open>The web socket\<close>

text \<open>
  Each message of the browser starts a goroutine that asks Telegram and answers with messages; \<open>tgerr\<close> says whether
  an error is a Telegram error of a type. The flag of a handler says that the new Telegram session is logged out.
\<close>

datatype ws_message = WsToken string | WsCodeHash string | WsAuth string | WsError string | WsSession session_create

definition ErrPasswordAuthNeeded :: go_error where
  "ErrPasswordAuthNeeded = ErrText ''2FA required''"

definition finish_login :: "string list \<Rightarrow> tg_user option \<Rightarrow> session_data \<Rightarrow> ws_message list \<times> bool" where
  "finish_login allowed user data =
     (case user of
        None \<Rightarrow> ([WsError ''auth failed''], False)
      | Some u \<Rightarrow>
          if \<not> checkUserIsAllowed allowed (tu_Username u) then ([WsError ''user not allowed''], True)
          else ([WsSession (prepareSession u data)], False))"

definition handleQRAuth ::
  "(string \<Rightarrow> go_error \<Rightarrow> bool) \<Rightarrow> string list \<Rightarrow> string list \<Rightarrow> go_error + tg_user option \<Rightarrow> session_data \<Rightarrow> ws_message list \<times> bool" where
  "handleQRAuth tgerr allowed urls authorization data =
     (case (case authorization of
              Inl e \<Rightarrow>
                if errors_Is e CtxCanceled then ([], False)
                else if tgerr ''SESSION_PASSWORD_NEEDED'' e then ([WsAuth ''2FA required''], False)
                else ([WsError (error_text e)], False)
            | Inr user \<Rightarrow> finish_login allowed user data) of
        (ms, logout) \<Rightarrow> (map WsToken urls @ ms, logout))"

record socket_message =
  sm_AuthType :: string
  sm_Message :: string
  sm_Password :: string

text \<open>The answer to a code request is asserted to be of one type (\<open>None\<close>: it is another, and the handler panics).\<close>

definition handlePhoneAuth ::
  "(string \<Rightarrow> go_error \<Rightarrow> bool) \<Rightarrow> string list \<Rightarrow> socket_message \<Rightarrow> go_error + string option \<Rightarrow> go_error + tg_user option \<Rightarrow> session_data \<Rightarrow>
   (ws_message list \<times> bool) option" where
  "handlePhoneAuth tgerr allowed message sendCode signIn data =
     (if sm_Message message = ''sendcode'' then
        (case sendCode of
           Inl e \<Rightarrow> Some (if errors_Is e CtxCanceled then ([], False) else ([WsError (error_text e)], False))
         | Inr code \<Rightarrow> map_option (\<lambda>hash. ([WsCodeHash hash], False)) code)
      else if sm_Message message = ''signin'' then
        Some (case signIn of
           Inl e \<Rightarrow>
             if errors_Is e CtxCanceled then ([], False)
             else if errors_Is e ErrPasswordAuthNeeded then ([WsAuth (error_text ErrPasswordAuthNeeded)], False)
             else if tgerr ''PHONE_CODE_INVALID'' e then ([WsAuth ''PHONE_CODE_INVALID''], False)
             else ([WsError (error_text e)], False)
         | Inr user \<Rightarrow> finish_login allowed user data)
      else Some ([], False))"

definition handle2FAAuth :: "string list \<Rightarrow> go_error + tg_user option \<Rightarrow> session_data \<Rightarrow> ws_message list \<times> bool" where
  "handle2FAAuth allowed auth data =
     (case auth of
        Inl e \<Rightarrow> if errors_Is e CtxCanceled then ([], False) else ([WsError (error_text e)], False)
      | Inr user \<Rightarrow> finish_login allowed user data)"

text \<open>The loop of the socket: the goroutines it starts, in order, and the error it ends with.\<close>

datatype ws_read = ReadMessage socket_message | ReadClosed | ReadFailed go_error
datatype ws_call = CallQR | CallPhone socket_message | Call2FA string

definition ws_dispatch :: "socket_message \<Rightarrow> ws_call list" where
  "ws_dispatch m =
     (if sm_AuthType m = ''qr'' then [CallQR]
      else if sm_AuthType m = ''phone'' then [CallPhone m]
      else if sm_AuthType m = ''2fa'' then (if sm_Password m \<noteq> [] then [Call2FA (sm_Password m)] else [])
      else [])"

fun ws_loop :: "ws_read list \<Rightarrow> ws_call list \<times> go_error option" where
  "ws_loop [] = ([], None)"
| "ws_loop (ReadClosed # _) = ([], None)"
| "ws_loop (ReadFailed e # _) = ([], Some e)"
| "ws_loop (ReadMessage m # rs) = (case ws_loop rs of (calls, e) \<Rightarrow> (ws_dispatch m @ calls, e))"

subsection \<open>Sessions that are gone\<close>

definition session_gone :: "('s, session) cache_get \<Rightarrow> string \<Rightarrow> 's auth_svc \<Rightarrow> bool" where
  "session_gone get h v \<longleftrightarrow> h \<notin> set (map ss_Hash (as_sessions v)) \<and> (\<forall>t w. get (sv_cache v) t (KeySessionHash h) \<noteq> Inr w)"

text \<open>What may happen after a logout; a login makes a session with another hash.\<close>

inductive auth_step ::
  "('s, session) cache_get \<Rightarrow> ('s, session) cache_set \<Rightarrow> (string list \<Rightarrow> 's \<Rightarrow> 's) \<Rightarrow> string \<Rightarrow> 's auth_svc \<Rightarrow> 's auth_svc \<Rightarrow> bool"
  for get put cdel h where
  login: "AuthLogin env sc v = Some (v', r) \<Longrightarrow> li_md5 env (sc_Session sc) \<noteq> h \<Longrightarrow> auth_step get put cdel h v v'"
| logout: "AuthLogout cdel dbErr user v = (v', cookie) \<Longrightarrow> auth_step get put cdel h v v'"
| session: "AuthSession get put now dbErr env token v = (v', r) \<Longrightarrow> auth_step get put cdel h v v'"
| request: "handleAuth get put now (Inr (as_sessions v)) jw secret token (sv_cache v) = (c, r) \<Longrightarrow> auth_step get put cdel h v (v\<lparr>sv_cache := c\<rparr>)"

lemma KeySessionHash_eq: "KeySessionHash i = KeySessionHash j \<longleftrightarrow> i = j"
  by (simp add: KeySessionHash_def Key_def)

lemma KeySessionHash_text: "''sessions:'' @ h = KeySessionHash h"
  by (simp add: KeySessionHash_def Key_def)

lemma AuthLogin_tables:
  assumes "AuthLogin env sc v = Some (v', r)"
  shows "sv_cache v' = sv_cache v \<and> set (map ss_Hash (as_sessions v')) \<subseteq> insert (li_md5 env (sc_Session sc)) (set (map ss_Hash (as_sessions v)))"
proof -
  have user: "sv_cache v1 = sv_cache v \<and> as_sessions v1 = as_sessions v" if "create_user env sc v = (v1, e)" for v1 e
    using that by (auto simp: create_user_def Let_def split: option.splits if_splits)
  show ?thesis
    using assms user
    by (auto simp: AuthLogin_def Let_def split: if_splits sum.split_asm prod.split_asm option.split_asm Option.bind_split_asm)
qed

locale auth_cache = cacher get put cdel
  for get :: "('s, session) cache_get" and put :: "('s, session) cache_set" and cdel :: "string list \<Rightarrow> 's \<Rightarrow> 's" +
  fixes h :: string
begin

lemma lookup_gone:
  assumes "h \<notin> set (map ss_Hash rows)" "\<forall>t w. get c t (KeySessionHash h) \<noteq> Inr w"
    and "GetSessionByHash get put now db j c = (c', r)" "db = Inl e \<or> db = Inr rows"
  shows "(\<forall>t w. get c' t (KeySessionHash h) \<noteq> Inr w) \<and> (j = h \<longrightarrow> (\<exists>e. r = Inl e))"
proof -
  have found: "find (\<lambda>s. ss_Hash s = h) rows = None" using assms(1) by (auto simp: find_None_iff)
  show ?thesis
  proof (cases "j = h")
    case True
    then show ?thesis
      using assms found unfolding GetSessionByHash_def KeySessionHash_text Let_def by (auto split: sum.split_asm)
  next
    case False
    then have "KeySessionHash h \<noteq> KeySessionHash j" by (simp add: KeySessionHash_eq)
    then have kept: "get (fst (put c now (KeySessionHash j) s 0)) t (KeySessionHash h) \<noteq> Inr w" for s t w
      using put_other [OF surjective_pairing] assms(2) by metis
    have "c' = c \<or> (\<exists>s. c' = fst (put c now (KeySessionHash j) s 0))"
      using assms(3) unfolding GetSessionByHash_def KeySessionHash_text Let_def by (auto split: sum.split_asm option.split_asm)
    with kept assms(2) False show ?thesis by auto
  qed
qed

lemma verify_gone:
  assumes "session_gone get h v" "VerifyUser get put now db dec token (sv_cache v) = (c', r)" "db = Inl e \<or> db = Inr (as_sessions v)"
  shows "session_gone get h (v\<lparr>sv_cache := c'\<rparr>) \<and> (\<forall>cl. dec token = Inr cl \<longrightarrow> cl_Hash cl = h \<longrightarrow> (\<exists>e. r = Inl e))"
proof (cases "dec token")
  case (Inl e)
  with assms show ?thesis by (auto simp: VerifyUser_def session_gone_def)
next
  case (Inr cl)
  obtain c1 r1 where g: "GetSessionByHash get put now db (cl_Hash cl) (sv_cache v) = (c1, r1)" by fastforce
  from lookup_gone [OF _ _ g assms(3)] assms(1)
  have l: "(\<forall>t w. get c1 t (KeySessionHash h) \<noteq> Inr w) \<and> (cl_Hash cl = h \<longrightarrow> (\<exists>e. r1 = Inl e))" by (simp add: session_gone_def)
  have "c' = c1" "\<And>e. r1 = Inl e \<Longrightarrow> \<exists>e. r = Inl e" using assms(2) Inr g by (auto simp: VerifyUser_def split: sum.split_asm)
  with l assms(1) Inr show ?thesis by (auto simp: session_gone_def)
qed

lemma removed_stays: "\<forall>t w. get c t k \<noteq> Inr w \<Longrightarrow> \<forall>t w. get (cdel ks c) t k \<noteq> Inr w"
  using remove_other by blast

lemma step_gone: "auth_step get put cdel h v v' \<Longrightarrow> session_gone get h v \<Longrightarrow> session_gone get h v'"
proof (induction rule: auth_step.induct)
  case (login env sc v v' r)
  then show ?case using AuthLogin_tables [OF login(1)] by (auto simp: session_gone_def)
next
  case (logout dbErr user v v' cookie)
  then show ?case by (cases "dbErr = None") (auto simp: AuthLogout_def Let_def session_gone_def removed_stays)
next
  case (session now dbErr env token v v' r)
  show ?case
  proof (cases "token = []")
    case False
    let ?db = "case dbErr of Some e \<Rightarrow> Inl e | None \<Rightarrow> Inr (as_sessions v)"
    obtain c r1 where ver: "VerifyUser get put now ?db (Decode (li_jwt env) (li_secret env)) token (sv_cache v) = (c, r1)" by fastforce
    have "?db = Inl (the dbErr) \<or> ?db = Inr (as_sessions v)" by (cases dbErr) auto
    with verify_gone [OF session(2) ver] have "session_gone get h (v\<lparr>sv_cache := c\<rparr>)" by blast
    moreover have "v' = v\<lparr>sv_cache := c\<rparr>" using session(1) False ver by (auto simp: AuthSession_def Let_def split: sum.split_asm)
    ultimately show ?thesis by simp
  qed (use session in \<open>simp add: AuthSession_def\<close>)
next
  case (request now v jw secret token c r)
  from verify_gone [OF request(2) request(1) [unfolded handleAuth_def]] show ?case by blast
qed

end

sublocale auth_cache \<subseteq> gone: step_invariant "session_gone get h" "auth_step get put cdel h" "session_gone get h"
  by unfold_locales (auto intro: step_gone)

context auth_cache
begin

lemma gone_forever: "reachable (session_gone get h) (auth_step get put cdel h) v \<Longrightarrow> session_gone get h v"
  by (rule gone.reachable_inv)

end

subsection \<open>A sample\<close>

definition demo_session :: session where
  "demo_session = \<lparr>ss_Hash = ''h'', ss_UserId = 1, ss_Session = ''tg'', ss_SessionDate = 4, ss_CreatedAt = 1\<rparr>"

definition demo_session_codec :: "session codec" where
  "demo_session_codec = \<lparr>co_Marshal = (\<lambda>s. if s = demo_session then Inr [] else Inl EOF), co_Unmarshal = (\<lambda>_. Inr demo_session)\<rparr>"

interpretation session_cache_sample: memory_cache "map_store (10 ^ 9)" demo_session_codec
  by (intro memory_cache.intro memory_cache_axioms.intro map_store_ok) (auto simp: codec_ok_def demo_session_codec_def split: if_splits)

interpretation sessions_sample: auth_cache "memory_Get (map_store (10 ^ 9)) demo_session_codec" "memory_Set (map_store (10 ^ 9)) demo_session_codec"
    "memory_Delete (map_store (10 ^ 9))" "''h''"
  by (intro auth_cache.intro session_cache_sample.mem.cacher_axioms)

abbreviation "sess_Get \<equiv> memory_Get (map_store (10 ^ 9)) demo_session_codec"
abbreviation "sess_Set \<equiv> memory_Set (map_store (10 ^ 9)) demo_session_codec"
abbreviation "sess_Delete \<equiv> memory_Delete (map_store (10 ^ 9))"

definition demo_claims :: claims where
  "demo_claims = \<lparr>cl_Subject = ''1'', cl_Name = ''n'', cl_UserName = ''u'', cl_IsPremium = False, cl_Hash = ''h'', cl_TgSession = [],
     cl_IssuedAt = 0, cl_ExpiresAt = 9\<rparr>"

definition demo_jwt :: jwt_lib where
  "demo_jwt = \<lparr>jw_Sign = (\<lambda>_ c. Inr (''token.'' @ cl_Subject c)), jw_Parse = (\<lambda>_ _. Inr (demo_claims, True))\<rparr>"

definition demo_login :: login_env where
  "demo_login = \<lparr>li_allowed = [''u''], li_now = 5 * 10 ^ 9, li_sessionTime = 60 * 10 ^ 9, li_secret = ''s'', li_jwt = demo_jwt, li_date = id,
     li_md5 = id, li_newID = ''r'', li_userErr = None, li_fileErr = None, li_clientErr = None, li_auths = Inr [(False, 3), (True, 4)],
     li_sessionErr = None\<rparr>"

definition demo_accounts :: "(string \<times> bytes \<times> int option) list auth_svc" where
  "demo_accounts = \<lparr>sv_files = [], sv_uploads = [], sv_shares = [], sv_cache = [], sv_events = [], as_users = [], as_sessions = [demo_session]\<rparr>"

subsection \<open>Properties\<close>

text \<open>C7: A logged out session is refused. Once the logout has deleted its row, then after any logins with other sessions, logouts,
  session requests and API requests, with any evictions and failures of the memory cache, no token with the hash of the session is
  accepted.\<close>

theorem logout_revokes:
  assumes "memory_cache st co" "AuthLogout (memory_Delete st) None user v = (v1, cookie)"
    and "reachable (\<lambda>x. x = v1) (auth_step (memory_Get st co) (memory_Set st co) (memory_Delete st) (cl_Hash user)) v2"
    and "Decode jw secret token = Inr cl" "cl_Hash cl = cl_Hash user"
    and "handleAuth (memory_Get st co) (memory_Set st co) now (Inr (as_sessions v2)) jw secret token (sv_cache v2) = (c, r)"
  shows "\<exists>e. r = Inl e"
proof -
  have cache: "auth_cache (memory_Get st co) (memory_Set st co) (memory_Delete st)"
    by (rule auth_cache.intro [OF memory_cache.mem_cacher [OF assms(1)]])
  have "cacher (memory_Get st co) (memory_Set st co) (memory_Delete st)" by (rule memory_cache.mem_cacher [OF assms(1)])
  note gone = cacher.remove_gone [OF this, of "KeySessionHash (cl_Hash user)" "[KeySessionHash (cl_Hash user), KeyUserSessions (subject_id (cl_Subject user))]"]
  have "session_gone (memory_Get st co) (cl_Hash user) v1"
    using assms(2) gone by (auto simp: session_gone_def AuthLogout_def Let_def)
  with assms(3) have "reachable (session_gone (memory_Get st co) (cl_Hash user))
      (auth_step (memory_Get st co) (memory_Set st co) (memory_Delete st) (cl_Hash user)) v2"
    by (induction rule: reachable.induct) (auto intro: reachable.intros)
  then have "session_gone (memory_Get st co) (cl_Hash user) v2" by (rule auth_cache.gone_forever [OF cache])
  from auth_cache.verify_gone [OF cache this assms(6) [unfolded handleAuth_def]] assms(4,5) show ?thesis by blast
qed

theorem logout_revokes_witness:
  "\<exists>c1 v1 c2 r. handleAuth sess_Get sess_Set 1 (Inr (as_sessions demo_accounts)) demo_jwt ''s'' ''t'' (sv_cache demo_accounts) = (c1, Inr (demo_claims\<lparr>cl_TgSession := ''tg''\<rparr>)) \<and>
     AuthLogout sess_Delete None demo_claims (demo_accounts\<lparr>sv_cache := c1\<rparr>) = (v1, setCookie authCookieName [] (-1)) \<and>
     handleAuth sess_Get sess_Set 2 (Inr (as_sessions v1)) demo_jwt ''s'' ''t'' (sv_cache v1) = (c2, Inl r)"
proof -
  let ?c1 = "[(cache_prefix @ KeySessionHash ''h'', [], None)]"
  have first: "handleAuth sess_Get sess_Set 1 (Inr (as_sessions demo_accounts)) demo_jwt ''s'' ''t'' (sv_cache demo_accounts) = (?c1, Inr (demo_claims\<lparr>cl_TgSession := ''tg''\<rparr>))"
    by code_simp
  obtain v1 where out: "AuthLogout sess_Delete None demo_claims (demo_accounts\<lparr>sv_cache := ?c1\<rparr>) = (v1, setCookie authCookieName [] (-1))"
    by (simp add: AuthLogout_def Let_def)
  obtain c2 r where again: "handleAuth sess_Get sess_Set 2 (Inr (as_sessions v1)) demo_jwt ''s'' ''t'' (sv_cache v1) = (c2, r)" by fastforce
  have dec: "Decode demo_jwt ''s'' ''t'' = Inr demo_claims" by (simp add: Decode_def demo_jwt_def)
  from logout_revokes [OF session_cache_sample.memory_cache_axioms out reachable.start dec refl again]
  have "\<exists>e. r = Inl e" by simp
  with first out again show ?thesis by blast
qed

text \<open>C17: A login is for whom the request says: nothing connects the Telegram session of the request with the user it names. Whoever can log
  in with a session of his own gets a token for any user id, by naming it, together with an allowed user name.\<close>

theorem login_trusts_request:
  assumes "AuthLogin env sc v = Some (v', Inr cookie)" "checkUserIsAllowed (li_allowed env) name"
    and "Encode (li_jwt env) (li_secret env) (login_claims env (sc\<lparr>sc_UserId := victim, sc_UserName := name\<rparr>)) = Inr token"
  shows "\<exists>v''. AuthLogin env (sc\<lparr>sc_UserId := victim, sc_UserName := name\<rparr>) v =
      Some (v'', Inr (setCookie authCookieName token (go_div (li_sessionTime env) (10 ^ 9)))) \<and>
    cl_Subject (login_claims env (sc\<lparr>sc_UserId := victim, sc_UserName := name\<rparr>)) = itoa victim"
proof -
  let ?sc = "sc\<lparr>sc_UserId := victim, sc_UserName := name\<rparr>"
  have user: "\<exists>v1. create_user env sc' v = (v1, case li_userErr env of Some e \<Rightarrow> Some e | None \<Rightarrow> li_fileErr env) \<and> as_sessions v1 = as_sessions v" for sc'
    by (auto simp: create_user_def Let_def split: option.splits)
  from user [of sc] user [of ?sc] obtain v1 v2 where
    v1: "create_user env sc v = (v1, case li_userErr env of Some e \<Rightarrow> Some e | None \<Rightarrow> li_fileErr env)" "as_sessions v1 = as_sessions v" and
    v2: "create_user env ?sc v = (v2, case li_userErr env of Some e \<Rightarrow> Some e | None \<Rightarrow> li_fileErr env)" "as_sessions v2 = as_sessions v" by blast
  show ?thesis
    using assms v1 v2
    by (auto simp: AuthLogin_def Let_def login_claims_def split: if_splits sum.split_asm option.splits Option.bind_split_asm)
qed

theorem login_trusts_request_witness:
  "\<exists>v' v''. AuthLogin demo_login \<lparr>sc_Session = ''mine'', sc_UserId = 66, sc_UserName = ''u'', sc_Name = ''m'', sc_IsPremium = False\<rparr> demo_accounts =
      Some (v', Inr (setCookie authCookieName ''token.66'' 60)) \<and>
    AuthLogin demo_login \<lparr>sc_Session = ''mine'', sc_UserId = 1, sc_UserName = ''u'', sc_Name = ''m'', sc_IsPremium = False\<rparr> demo_accounts =
      Some (v'', Inr (setCookie authCookieName ''token.1'' 60))"
proof -
  let ?sc = "\<lparr>sc_Session = ''mine'', sc_UserId = 66, sc_UserName = ''u'', sc_Name = ''m'', sc_IsPremium = False\<rparr>"
  have digits: "itoa 66 = ''66''" "itoa 1 = ''1''" by code_simp+
  obtain v' where mine: "AuthLogin demo_login ?sc demo_accounts = Some (v', Inr (setCookie authCookieName ''token.66'' 60))"
    by (simp add: AuthLogin_def demo_login_def checkUserIsAllowed_def Encode_def demo_jwt_def login_claims_def create_user_def demo_accounts_def Let_def
        demo_session_def go_div_def digits)
  have "checkUserIsAllowed (li_allowed demo_login) ''u''" by (simp add: checkUserIsAllowed_def demo_login_def)
  from login_trusts_request [OF mine this, of 1 "''token.1''"] mine
  show ?thesis by (auto simp: Encode_def demo_login_def demo_jwt_def login_claims_def digits go_div_def)
qed

text \<open>
  The session string that the browser gets is the format of the Telegram clients: its base64 text decodes to the number of the data
  centre, the four bytes of its address, the port 443 and the key, for every key and all five data centres.\<close>

lemma tg_session_layout:
  assumes "sd_DC data \<in> {1, 2, 3, 4, 5}"
  shows "\<exists>ip. parse_ip4 (dcMaps (sd_DC data)) = Some ip \<and> length ip = 4 \<and>
    b64_decode URLEncoding (tl (sc_Session (prepareSession user data))) = Some ([word_of_int (sd_DC data)] @ ip @ [1, 187] @ sd_AuthKey data)"
proof -
  have "\<forall>dc \<in> set [1, 2, 3, 4, 5]. (case parse_ip4 (dcMaps dc) of None \<Rightarrow> False
      | Some ip \<Rightarrow> length ip = 4 \<and> pack32BinaryIP4 (dcMaps dc) = ip)" by code_simp
  then have "case parse_ip4 (dcMaps (sd_DC data)) of None \<Rightarrow> False
      | Some ip \<Rightarrow> length ip = 4 \<and> pack32BinaryIP4 (dcMaps (sd_DC data)) = ip" by (rule bspec) (use assms in simp)
  then obtain ip where ip: "parse_ip4 (dcMaps (sd_DC data)) = Some ip" "length ip = 4" "pack32BinaryIP4 (dcMaps (sd_DC data)) = ip"
    by (auto split: option.split_asm)
  have "big_endian 2 443 = [1, 187]" by code_simp
  with ip show ?thesis by (simp add: prepareSession_def generateTgSession_def b64_roundtrip [OF b64_ok_alphabets(2)])
qed

lemma tg_session_layout_witness:
  "b64_decode URLEncoding (tl (sc_Session (prepareSession \<lparr>tu_ID = 1, tu_Username = ''u'', tu_FirstName = ''a'', tu_LastName = ''b'', tu_Premium = False\<rparr>
     \<lparr>sd_DC = 2, sd_AuthKey = [9, 8]\<rparr>))) = Some [2, 149, 154, 167, 51, 1, 187, 9, 8]"
proof -
  have "parse_ip4 (dcMaps 2) = Some [149, 154, 167, 51]" by code_simp
  with tg_session_layout [of "\<lparr>sd_DC = 2, sd_AuthKey = [9, 8]\<rparr>"
      "\<lparr>tu_ID = 1, tu_Username = ''u'', tu_FirstName = ''a'', tu_LastName = ''b'', tu_Premium = False\<rparr>"]
  show ?thesis by auto
qed

lemma finish_login_allowed:
  assumes "finish_login allowed u data = (ms, logout)"
  shows "(\<forall>sc. WsSession sc \<in> set ms \<longrightarrow> checkUserIsAllowed allowed (sc_UserName sc)) \<and>
    (\<forall>tu. u = Some tu \<longrightarrow> \<not> checkUserIsAllowed allowed (tu_Username tu) \<longrightarrow> logout)"
  using assms by (auto simp: finish_login_def prepareSession_def split: option.split_asm if_split_asm)

text \<open>
  A browser gets a session only for an allowed user: over the web socket, whichever way of login and whatever Telegram answers, a
  message with a session names an allowed user; when the user who signed in is turned away, the new Telegram session is logged out.\<close>

lemma socket_sessions_allowed:
  assumes "handleQRAuth tgerr allowed urls auth data = (ms, logout) \<or> handle2FAAuth allowed auth data = (ms, logout) \<or>
    handlePhoneAuth tgerr allowed message sendCode auth data = Some (ms, logout)"
  shows "(\<forall>sc. WsSession sc \<in> set ms \<longrightarrow> checkUserIsAllowed allowed (sc_UserName sc)) \<and>
    (\<forall>u. auth = Inr (Some u) \<longrightarrow> \<not> checkUserIsAllowed allowed (tu_Username u) \<longrightarrow> sm_Message message = ''signin'' \<longrightarrow> logout)"
proof (cases auth)
  case (Inl e)
  with assms show ?thesis
    by (auto simp: handleQRAuth_def handle2FAAuth_def handlePhoneAuth_def split: if_split_asm sum.split_asm)
next
  case (Inr u)
  obtain ms1 logout1 where fin: "finish_login allowed u data = (ms1, logout1)" by fastforce
  with assms Inr finish_login_allowed [OF fin] show ?thesis
    by (auto simp: handleQRAuth_def handle2FAAuth_def handlePhoneAuth_def split: if_split_asm sum.split_asm)
qed

lemma socket_sessions_allowed_witness:
  "\<exists>ms. handleQRAuth (\<lambda>_ _. False) [''u''] [''tg://1''] (Inr (Some \<lparr>tu_ID = 1, tu_Username = ''x'', tu_FirstName = ''a'', tu_LastName = ''b'', tu_Premium = False\<rparr>))
     \<lparr>sd_DC = 2, sd_AuthKey = []\<rparr> = (ms, True) \<and> (\<forall>sc. WsSession sc \<in> set ms \<longrightarrow> checkUserIsAllowed [''u''] (sc_UserName sc))"
proof -
  let ?auth = "Inr (Some \<lparr>tu_ID = 1, tu_Username = ''x'', tu_FirstName = ''a'', tu_LastName = ''b'', tu_Premium = False\<rparr>) :: go_error + tg_user option"
  obtain ms logout where run: "handleQRAuth (\<lambda>_ _. False) [''u''] [''tg://1''] ?auth \<lparr>sd_DC = 2, sd_AuthKey = []\<rparr> = (ms, logout)" by fastforce
  have "\<not> checkUserIsAllowed [''u''] ''x''" by (simp add: checkUserIsAllowed_def)
  with socket_sessions_allowed [where message = "\<lparr>sm_AuthType = [], sm_Message = ''signin'', sm_Password = []\<rparr>" and sendCode = "Inl EOF", OF disjI1, OF run] run
  show ?thesis by auto
qed

end
