(* ===== verification/Tg_Storage.thy ===== *)
theory Tg_Storage
  imports Cache "HOL-Library.AList"
begin

section \<open>Storage of Telegram sessions and peers (internal/tgstorage)\<close>

text \<open>
  The table \<^verbatim>\<open>teldrive.kv\<close> keeps the sessions of the bots, in one backend, and the peers (users, chats,
  channels) that the clients have met. Its rows are a list, its key is unique. The Telegram library's encoding of
  peers and its choice of their keys are parameters; so are the failures of the database.
\<close>

record kv_row =
  kv_Key :: string
  kv_Value :: bytes
  kv_CreatedAt :: int

definition ErrKeyNotFound :: go_error where
  "ErrKeyNotFound = ErrText ''key not found''"

definition ErrSessionNotFound :: go_error where
  "ErrSessionNotFound = ErrText ''session storage: not found''"

definition ErrPeerNotFound :: go_error where
  "ErrPeerNotFound = ErrText ''peer not found''"

definition kv_lookup :: "string \<Rightarrow> kv_row list \<Rightarrow> bytes option" where
  "kv_lookup key rows = map_option kv_Value (find (\<lambda>r. kv_Key r = key) rows)"

text \<open>\<^verbatim>\<open>INSERT ... ON CONFLICT (key) DO UPDATE\<close>.\<close>

fun kv_upsert :: "string \<Rightarrow> bytes \<Rightarrow> int \<Rightarrow> kv_row list \<Rightarrow> kv_row list" where
  "kv_upsert key val now [] = [\<lparr>kv_Key = key, kv_Value = val, kv_CreatedAt = now\<rparr>]"
| "kv_upsert key val now (r # rows) =
     (if kv_Key r = key then r\<lparr>kv_Value := val, kv_CreatedAt := now\<rparr> # rows else r # kv_upsert key val now rows)"

definition kv_First :: "go_error option \<Rightarrow> string \<Rightarrow> go_error \<Rightarrow> string \<Rightarrow> kv_row list \<Rightarrow> go_error + bytes" where
  "kv_First dbErr msg notFound key rows =
     (case dbErr of
        Some e \<Rightarrow> Inl (ErrWrap msg e)
      | None \<Rightarrow> (case kv_lookup key rows of None \<Rightarrow> Inl notFound | Some v \<Rightarrow> Inr v))"

subsection \<open>The Postgres backend\<close>

text \<open>The state is the table and the cache; \<open>cached\<close> says whether the storage was given a cache.\<close>

type_synonym 's kv_db = "kv_row list \<times> 's"

record pg_env =
  pg_dbErr :: "go_error option"
  pg_now :: int

definition sessionTTL :: int where
  "sessionTTL = 30 * 60 * 10 ^ 9"

definition LoadSession ::
  "('s, bytes) cache_get \<Rightarrow> ('s, bytes) cache_set \<Rightarrow> bytes fetch_env \<Rightarrow> pg_env \<Rightarrow> bool \<Rightarrow> string \<Rightarrow> 's kv_db \<Rightarrow> 's kv_db \<times> (go_error + bytes)" where
  "LoadSession get put fe env cached key db =
     (let query = kv_First (pg_dbErr env) ''query session'' ErrSessionNotFound key (fst db) in
      if cached then
        (case Fetch get put fe (Key [KStr ''session'', KStr key]) sessionTTL query (snd db) of (c, r) \<Rightarrow> ((fst db, c), r))
      else (db, query))"

definition StoreSession :: "pg_env \<Rightarrow> string \<Rightarrow> bytes \<Rightarrow> 's kv_db \<Rightarrow> 's kv_db \<times> go_error option" where
  "StoreSession env key data db =
     (case pg_dbErr env of
        Some e \<Rightarrow> (db, Some (ErrWrap ''upsert session'' e))
      | None \<Rightarrow> ((kv_upsert key data (pg_now env) (fst db), snd db), None))"

subsection \<open>The key-value bucket of the library's session type\<close>

definition kv_Set :: "pg_env \<Rightarrow> string \<Rightarrow> string \<Rightarrow> 's kv_db \<Rightarrow> 's kv_db \<times> go_error option" where
  "kv_Set env k v db =
     (case pg_dbErr env of
        Some e \<Rightarrow> (db, Some (ErrWrap ''upsert value'' e))
      | None \<Rightarrow> ((kv_upsert k (text_bytes v) (pg_now env) (fst db), snd db), None))"

definition kv_Get ::
  "('s, string) cache_get \<Rightarrow> ('s, string) cache_set \<Rightarrow> string fetch_env \<Rightarrow> pg_env \<Rightarrow> bool \<Rightarrow> string \<Rightarrow> 's kv_db \<Rightarrow> 's kv_db \<times> (go_error + string)" where
  "kv_Get get put fe env cached key db =
     (let query = map_sum id bytes_text (kv_First (pg_dbErr env) ''query'' ErrKeyNotFound key (fst db)) in
      if \<not> cached then (db, query)
      else (case Fetch get put fe (Key [KStr key]) sessionTTL query (snd db) of (c, r) \<Rightarrow> ((fst db, c), r)))"

definition kv_Delete :: "(string list \<Rightarrow> 's \<Rightarrow> 's) \<Rightarrow> pg_env \<Rightarrow> string \<Rightarrow> 's kv_db \<Rightarrow> 's kv_db \<times> go_error option" where
  "kv_Delete cdel env k db =
     (case pg_dbErr env of
        Some e \<Rightarrow> (db, Some (ErrWrap ''delete key'' e))
      | None \<Rightarrow> ((filter (\<lambda>r. kv_Key r \<noteq> k) (fst db), cdel [k] (snd db)), None))"

subsection \<open>The Bolt backend\<close>

text \<open>The file is the bucket of sessions, if it exists; a transaction on a missing bucket panics in \<open>boltKV_Set\<close>.\<close>

type_synonym bolt = "(string \<times> bytes) list option"

record bolt_config =
  bo_Path :: string
  bo_Timeout :: int

record bolt_env =
  be_home :: "go_error + string"
  be_mkdirErr :: "go_error option"
  be_exeDir :: string
  be_join :: "string \<Rightarrow> string \<Rightarrow> string"
  be_open :: "string \<Rightarrow> int \<Rightarrow> go_error + bolt"
  be_bucketErr :: "go_error option"

definition bolt_path :: "bolt_env \<Rightarrow> bolt_config \<Rightarrow> string" where
  "bolt_path env cfg =
     (if bo_Path cfg \<noteq> [] then bo_Path cfg
      else be_join env
        (case be_home env of
           Inl _ \<Rightarrow> be_exeDir env
         | Inr home \<Rightarrow> if be_mkdirErr env \<noteq> None then be_exeDir env else be_join env home ''.teldrive'') ''session.db'')"

definition NewBoltStorage :: "bolt_env \<Rightarrow> bolt_config \<Rightarrow> go_error + bolt" where
  "NewBoltStorage env cfg =
     (case be_open env (bolt_path env cfg) (if bo_Timeout cfg = 0 then 1000 else bo_Timeout cfg) of
        Inl e \<Rightarrow> Inl (ErrWrap ''failed to open bolt db'' e)
      | Inr db \<Rightarrow>
          (case be_bucketErr env of
             Some e \<Rightarrow> Inl (ErrWrap ''failed to create session bucket'' e)
           | None \<Rightarrow> Inr (Some (case db of None \<Rightarrow> [] | Some b \<Rightarrow> b))))"

definition bolt_LoadSession :: "string \<Rightarrow> bolt \<Rightarrow> go_error + bytes" where
  "bolt_LoadSession key db =
     (case db of
        None \<Rightarrow> Inl ErrSessionNotFound
      | Some b \<Rightarrow> (case map_of b key of None \<Rightarrow> Inl ErrSessionNotFound | Some val \<Rightarrow> Inr val))"

definition bolt_StoreSession :: "string \<Rightarrow> bytes \<Rightarrow> bolt \<Rightarrow> bolt \<times> go_error option" where
  "bolt_StoreSession key data db =
     (case db of
        None \<Rightarrow> (db, Some (ErrText ''session bucket not found''))
      | Some b \<Rightarrow> (Some (AList.update key data b), None))"

definition boltKV_Set :: "string \<Rightarrow> string \<Rightarrow> bolt \<Rightarrow> bolt option" where
  "boltKV_Set k v db = map_option (\<lambda>b. Some (AList.update k (text_bytes v) b)) db"

definition boltKV_Get :: "string \<Rightarrow> bolt \<Rightarrow> go_error + string" where
  "boltKV_Get key db =
     (case db of
        None \<Rightarrow> Inl ErrKeyNotFound
      | Some b \<Rightarrow> (case map_of b key of None \<Rightarrow> Inl ErrKeyNotFound | Some val \<Rightarrow> Inr (bytes_text val)))"

subsection \<open>The choice of a backend\<close>

datatype session_storage = BoltStorage bolt | PostgresStorage bool | MemoryStorage

definition NewSessionStorage :: "bolt_env \<Rightarrow> string \<Rightarrow> bolt_config \<Rightarrow> bool \<Rightarrow> go_error + session_storage" where
  "NewSessionStorage env cfgType cfg cached =
     (if cfgType = ''bolt'' then map_sum id BoltStorage (NewBoltStorage env cfg)
      else if cfgType = ''postgres'' \<or> cfgType = ''postgresql'' \<or> cfgType = ''pg'' then Inr (PostgresStorage cached)
      else if cfgType = ''memory'' \<or> cfgType = [] then Inr MemoryStorage
      else Inl (ErrText (''unknown session storage type: '' @ cfgType)))"

subsection \<open>Peers\<close>

text \<open>\<^verbatim>\<open>LIKE\<close>: a percent sign stands for any string, an underscore for any character, a backslash quotes.\<close>

fun sql_like :: "string \<Rightarrow> string \<Rightarrow> bool" where
  "sql_like [] s = (s = [])"
| "sql_like (p # ps) [] = (p = CHR ''%'' \<and> sql_like ps [])"
| "sql_like (p # ps) (c # s) =
     (if p = CHR ''%'' then sql_like ps (c # s) \<or> sql_like (p # ps) s
      else if p = CHR ''_'' then sql_like ps s
      else if p = CHR 0x5C then (case ps of [] \<Rightarrow> False | q # qs \<Rightarrow> q = c \<and> sql_like qs s)
      else p = c \<and> sql_like ps s)"

datatype 'p decoded = Decoded 'p | MustInvalidate | BadPeer go_error

record 'p peer_lib =
  pl_Marshal :: "'p \<Rightarrow> go_error + bytes"
  pl_Unmarshal :: "bytes \<Rightarrow> 'p decoded"
  pl_Key :: "'p \<Rightarrow> string"
  pl_Keys :: "'p \<Rightarrow> string list"

text \<open>The peers that an iteration gives: it skips values of an older version and stops at a bad one.\<close>

fun peers_read :: "'p peer_lib \<Rightarrow> bytes list \<Rightarrow> 'p list" where
  "peers_read pl [] = []"
| "peers_read pl (val # vals) =
     (case pl_Unmarshal pl val of
        Decoded p \<Rightarrow> p # peers_read pl vals
      | MustInvalidate \<Rightarrow> peers_read pl vals
      | BadPeer e \<Rightarrow> [])"

definition peers_Iterate :: "'p peer_lib \<Rightarrow> go_error option \<Rightarrow> string \<Rightarrow> kv_row list \<Rightarrow> go_error + 'p list" where
  "peers_Iterate pl dbErr prefix rows =
     (case dbErr of
        Some e \<Rightarrow> Inl (ErrWrap ''query'' e)
      | None \<Rightarrow> Inr (peers_read pl (map kv_Value (filter (\<lambda>r. sql_like (prefix @ ''%'') (kv_Key r)) rows))))"

definition peers_Purge :: "go_error option \<Rightarrow> string \<Rightarrow> kv_row list \<Rightarrow> kv_row list \<times> go_error option" where
  "peers_Purge dbErr prefix rows =
     (case dbErr of
        Some e \<Rightarrow> (rows, Some e)
      | None \<Rightarrow> (filter (\<lambda>r. \<not> sql_like (prefix @ ''%'') (kv_Key r)) rows, None))"

definition peers_add :: "'p peer_lib \<Rightarrow> pg_env \<Rightarrow> string \<Rightarrow> string list \<Rightarrow> 'p \<Rightarrow> kv_row list \<Rightarrow> kv_row list \<times> go_error option" where
  "peers_add pl env prefix associated p rows =
     (case pl_Marshal pl p of
        Inl e \<Rightarrow> (rows, Some (ErrWrap ''marshal'' e))
      | Inr data \<Rightarrow>
          (case pg_dbErr env of
             Some e \<Rightarrow> (rows, Some (ErrWrap ''save peer'' e))
           | None \<Rightarrow> (fold (\<lambda>key. kv_upsert (Key [KStr prefix, KStr key]) data (pg_now env)) (pl_Key pl p # associated) rows, None)))"

definition peers_Add :: "'p peer_lib \<Rightarrow> pg_env \<Rightarrow> string \<Rightarrow> 'p \<Rightarrow> kv_row list \<Rightarrow> kv_row list \<times> go_error option" where
  "peers_Add pl env prefix p rows = peers_add pl env prefix (pl_Keys pl p) p rows"

definition peers_Assign :: "'p peer_lib \<Rightarrow> pg_env \<Rightarrow> string \<Rightarrow> string \<Rightarrow> 'p \<Rightarrow> kv_row list \<Rightarrow> kv_row list \<times> go_error option" where
  "peers_Assign pl env prefix key p rows = peers_add pl env prefix (pl_Keys pl p @ [key]) p rows"

definition peers_Resolve :: "'p peer_lib \<Rightarrow> go_error option \<Rightarrow> string \<Rightarrow> string \<Rightarrow> kv_row list \<Rightarrow> go_error + 'p" where
  "peers_Resolve pl dbErr prefix key rows =
     (case kv_First dbErr ''query'' ErrPeerNotFound (Key [KStr prefix, KStr key]) rows of
        Inl e \<Rightarrow> Inl e
      | Inr val \<Rightarrow>
          (case pl_Unmarshal pl val of
             Decoded p \<Rightarrow> Inr p
           | MustInvalidate \<Rightarrow> Inl ErrPeerNotFound
           | BadPeer e \<Rightarrow> Inl (ErrWrap ''unmarshal'' e)))"

definition peers_Find :: "'p peer_lib \<Rightarrow> go_error option \<Rightarrow> string \<Rightarrow> string \<Rightarrow> kv_row list \<Rightarrow> go_error + 'p" where
  "peers_Find pl dbErr prefix key rows = peers_Resolve pl dbErr prefix key rows"

definition peers_Delete :: "go_error option \<Rightarrow> string \<Rightarrow> string \<Rightarrow> kv_row list \<Rightarrow> kv_row list \<times> go_error option" where
  "peers_Delete dbErr prefix key rows =
     (case dbErr of
        Some e \<Rightarrow> (rows, Some (ErrWrap ''query'' e))
      | None \<Rightarrow> (filter (\<lambda>r. kv_Key r \<noteq> Key [KStr prefix, KStr key]) rows, None))"

subsection \<open>The table\<close>

lemma kv_lookup_upsert: "kv_lookup k (kv_upsert key val now rows) = (if k = key then Some val else kv_lookup k rows)"
  by (induction rows) (auto simp: kv_lookup_def)

lemma kv_lookup_filter: "kv_lookup k (filter (\<lambda>r. kv_Key r \<noteq> key) rows) = (if k = key then None else kv_lookup k rows)"
  by (induction rows) (auto simp: kv_lookup_def)

lemma kv_lookup_fold:
  "kv_lookup k (fold (\<lambda>key. kv_upsert (f key) val now) keys rows) = (if k \<in> f ` set keys then Some val else kv_lookup k rows)"
  by (induction keys arbitrary: rows) (auto simp: kv_lookup_upsert)

subsection \<open>The interface of a session storage\<close>

text \<open>What the Telegram client relies on: a load after a successful store gives back what was stored.\<close>

locale session_store =
  fixes load :: "'s \<Rightarrow> 's \<times> (go_error + bytes)" and store :: "bytes \<Rightarrow> 's \<Rightarrow> 's \<times> go_error option"
  assumes store_load: "store data s = (s', None) \<Longrightarrow> snd (load s') = Inr data"
    and load_load: "load s = (s', r) \<Longrightarrow> snd (load s') = r"
begin

lemma loads_same: "snd (load (((fst \<circ> load) ^^ n) s)) = snd (load s)"
proof (induction n)
  case (Suc n)
  let ?s = "((fst \<circ> load) ^^ n) s"
  have "snd (load (fst (load ?s))) = snd (load ?s)" by (rule load_load [OF surjective_pairing])
  moreover have "((fst \<circ> load) ^^ Suc n) s = fst (load ?s)" by simp
  ultimately show ?case using Suc by (simp only:)
qed simp

lemma last_store_loads: "store data s = (s', None) \<Longrightarrow> snd (load (((fst \<circ> load) ^^ n) s')) = Inr data"
  by (simp add: loads_same store_load)

end

interpretation bolt_store: session_store "\<lambda>db. (db, bolt_LoadSession key db)" "bolt_StoreSession key"
  by unfold_locales (auto simp: bolt_LoadSession_def bolt_StoreSession_def update_conv' split: option.splits)

interpretation pg_store: session_store "LoadSession get put fe \<lparr>pg_dbErr = None, pg_now = now\<rparr> False key" "StoreSession env key"
  by unfold_locales (auto simp: LoadSession_def StoreSession_def kv_First_def kv_lookup_upsert split: option.splits)

subsection \<open>The cached backend\<close>

text \<open>With a cache the interface fails: a session that has been loaded hides one stored later.\<close>

lemma cached_load_stale:
  assumes "memory_cache st co"
    and "memory_Set st co c (fe_store fe) (Key [KStr ''session'', KStr key]) old sessionTTL = (c', None)"
    and "fe_store fe \<le> fe_first fe'" "fe_first fe' < fe_store fe + sessionTTL"
  shows "LoadSession (memory_Get st co) (memory_Set st co) fe' env True key (rows, c') = ((rows, c'), Inr old)"
proof -
  have "memory_Get st co c' (fe_first fe') (Key [KStr ''session'', KStr key]) = Inr old"
    using memory_cache.memory_Set_Get(1) [OF assms(1,2,3) refl] assms(4) by (simp add: sessionTTL_def go_div_def)
  then show ?thesis by (simp add: LoadSession_def Fetch_def)
qed

subsection \<open>Patterns and peers\<close>

definition like_plain :: "string \<Rightarrow> bool" where
  "like_plain s \<longleftrightarrow> list_all (\<lambda>c. c \<noteq> CHR ''%'' \<and> c \<noteq> CHR ''_'' \<and> c \<noteq> CHR 0x5C) s"

lemma sql_like_any: "sql_like ''%'' s"
  by (induction s) auto

lemma sql_like_prefix: "like_plain a \<Longrightarrow> sql_like (a @ ''%'') s \<longleftrightarrow> (\<exists>t. s = a @ t)"
proof (induction a arbitrary: s)
  case (Cons x a)
  then show ?case by (cases s) (auto simp: like_plain_def)
qed (simp add: sql_like_any)

lemma like_plain_KeyPeer: "like_plain (KeyPeer u)"
proof -
  have "like_plain (itoa u)" using itoa_chars [of "CHR ''%''" u] itoa_chars [of "CHR ''_''" u] itoa_chars [of "CHR 0x5C" u]
    by (auto simp: like_plain_def list_all_iff digit_of_def)
  then show ?thesis by (simp add: KeyPeer_def Key_def like_plain_def)
qed

definition peer_lib_ok :: "'p peer_lib \<Rightarrow> bool" where
  "peer_lib_ok pl \<longleftrightarrow> (\<forall>p data. pl_Marshal pl p = Inr data \<longrightarrow> pl_Unmarshal pl data = Decoded p)"

text \<open>
  A stored peer is found again: after a successful \<open>Add\<close>, the peer is found under its own key and under each of its other
  keys (a phone number, a name), and what other keys give is as before.\<close>

lemma peer_roundtrip:
  assumes "peer_lib_ok pl" "peers_Add pl env prefix p rows = (rows', None)"
  shows "peers_Find pl None prefix (pl_Key pl p) rows' = Inr p \<and> list_all (\<lambda>k. peers_Resolve pl None prefix k rows' = Inr p) (pl_Keys pl p) \<and>
    peers_Resolve pl None prefix k rows' =
      (if k \<in> set (pl_Key pl p # pl_Keys pl p) then Inr p else peers_Resolve pl None prefix k rows)"
proof -
  from assms(2) obtain data where data: "pl_Marshal pl p = Inr data"
    and rows': "rows' = fold (\<lambda>key. kv_upsert (Key [KStr prefix, KStr key]) data (pg_now env)) (pl_Key pl p # pl_Keys pl p) rows"
    by (auto simp: peers_Add_def peers_add_def split: sum.splits option.splits)
  have inj: "Key [KStr prefix, KStr k] \<in> (\<lambda>k. Key [KStr prefix, KStr k]) ` S \<longleftrightarrow> k \<in> S" for k S by (auto simp: Key_def)
  have "peers_Resolve pl None prefix k rows' =
      (if k \<in> set (pl_Key pl p # pl_Keys pl p) then Inr p else peers_Resolve pl None prefix k rows)" for k
    using assms(1) data unfolding rows' peers_Resolve_def kv_First_def kv_lookup_fold inj by (simp add: peer_lib_ok_def)
  then show ?thesis by (simp add: peers_Find_def list_all_iff)
qed

definition demo_peers :: "string peer_lib" where
  "demo_peers = \<lparr>pl_Marshal = (\<lambda>p. Inr (text_bytes p)), pl_Unmarshal = (\<lambda>bs. Decoded (bytes_text bs)), pl_Key = (\<lambda>p. ''Channel_'' @ p),
     pl_Keys = (\<lambda>p. [''name_'' @ p])\<rparr>"

lemma peer_roundtrip_witness:
  "\<exists>rows'. peers_Add demo_peers \<lparr>pg_dbErr = None, pg_now = 1\<rparr> (KeyPeer 12) ''x'' [] = (rows', None) \<and>
     peers_Find demo_peers None (KeyPeer 12) ''Channel_x'' rows' = Inr ''x''"
proof -
  have ok: "peer_lib_ok demo_peers" by (simp add: peer_lib_ok_def demo_peers_def bytes_text_bytes)
  obtain rows' where "peers_Add demo_peers \<lparr>pg_dbErr = None, pg_now = 1\<rparr> (KeyPeer 12) ''x'' [] = (rows', None)"
    by (simp add: peers_Add_def peers_add_def demo_peers_def)
  with peer_roundtrip [OF ok this] show ?thesis by (auto simp: demo_peers_def)
qed

text \<open>
  The key of a user is a prefix of the keys of others: what a user iterates over, and what a purge of his peers deletes, includes
  every peer of each user whose id begins with the digits of his own, like 12 and 123.\<close>

lemma peers_of_longer_ids:
  assumes "itoa w = itoa u @ ds" "r \<in> set rows" "kv_Key r = Key [KStr (KeyPeer w), KStr k]"
  shows "r \<notin> set (fst (peers_Purge None (KeyPeer u) rows)) \<and>
    (pl_Unmarshal pl (kv_Value r) = Decoded p \<and> (\<forall>r \<in> set rows. \<exists>q. pl_Unmarshal pl (kv_Value r) = Decoded q) \<longrightarrow>
     (\<exists>ps. peers_Iterate pl None (KeyPeer u) rows = Inr ps \<and> p \<in> set ps))"
proof -
  have like: "sql_like (KeyPeer u @ ''%'') (kv_Key r)"
    using assms(1,3) by (simp add: sql_like_prefix [OF like_plain_KeyPeer]) (simp add: KeyPeer_def Key_def)
  have read: "p \<in> set (peers_read pl vals)"
    if "val \<in> set vals" "pl_Unmarshal pl val = Decoded p" "\<forall>val \<in> set vals. \<exists>q. pl_Unmarshal pl val = Decoded q" for val vals
    using that by (induction vals) auto
  show ?thesis using like assms(2) by (auto simp: peers_Purge_def peers_Iterate_def intro!: read [of "kv_Value r"])
qed

lemma peers_of_longer_ids_witness:
  "\<exists>r. kv_Key r = Key [KStr (KeyPeer 123), KStr ''Channel_7''] \<and> r \<notin> set (fst (peers_Purge None (KeyPeer 12) [r]))"
proof -
  let ?r = "\<lparr>kv_Key = Key [KStr (KeyPeer 123), KStr ''Channel_7''], kv_Value = [], kv_CreatedAt = 0\<rparr>"
  have "itoa 123 = itoa 12 @ ''3''" by code_simp
  from peers_of_longer_ids [OF this, of ?r "[?r]" "''Channel_7''" demo_peers "[]"]
  show ?thesis by (intro exI [of _ ?r]) simp
qed

end
