(* ===== verification/Channel_Manager.thy ===== *)
theory Channel_Manager
  imports Tg_Storage Chunk_Source File_Store Transition
begin

section \<open>Channels and bots of a user (internal/tgc/channel_manager.go)\<close>

text \<open>
  A user stores files in Telegram channels; one is selected. The manager finds the selected channel and the
  bots through the cache, decides when a channel is full, makes a new one under an advisory lock of the
  database, and gives the bots of the user the rights of an administrator, four at a time. What Telegram
  answers is an argument.
\<close>

record channel_row =
  ch_ChannelId :: int
  ch_ChannelName :: string
  ch_UserId :: int
  ch_Selected :: bool

record bot_row =
  bo_Token :: string
  bo_UserId :: int
  bo_BotId :: int

text \<open>
  The tables. \<open>cs_locks\<close> are the advisory locks with the database connection that holds each: locks belong to a
  session of the database, which may hold one lock more than once.
\<close>

record 's chan_svc = "'s svc" +
  cs_channels :: "channel_row list"
  cs_bots :: "bot_row list"
  cs_locks :: "(int \<times> nat) list"
  cs_kv :: "kv_row list"

definition ErrNoDefaultChannel :: go_error where
  "ErrNoDefaultChannel = ErrText ''no default channel found''"

subsection \<open>Full channels, the current channel, the tokens\<close>

definition loadChannelPartCount :: "go_error option \<Rightarrow> int \<Rightarrow> file_row list \<Rightarrow> go_error + int" where
  "loadChannelPartCount dbErr channelID rows =
     (case dbErr of
        Some e \<Rightarrow> Inl e
      | None \<Rightarrow> Inr (sum_list (map (\<lambda>f. case fr_Parts f of None \<Rightarrow> 0 | Some ps \<Rightarrow> int (length ps))
                     (filter (\<lambda>f. fr_ChannelId f = Some channelID) rows))))"

definition ChannelLimitReached :: "go_error option \<Rightarrow> int \<Rightarrow> int \<Rightarrow> file_row list \<Rightarrow> bool" where
  "ChannelLimitReached dbErr limit channelID rows =
     (case loadChannelPartCount dbErr channelID rows of Inl _ \<Rightarrow> False | Inr totalParts \<Rightarrow> totalParts \<ge> limit)"

definition selected_channel :: "go_error option \<Rightarrow> int \<Rightarrow> channel_row list \<Rightarrow> go_error + int" where
  "selected_channel dbErr userID channels =
     (case dbErr of
        Some e \<Rightarrow> Inl e
      | None \<Rightarrow>
          (case map ch_ChannelId (filter (\<lambda>c. ch_UserId c = userID \<and> ch_Selected c) channels) of
             [] \<Rightarrow> Inl ErrNoDefaultChannel
           | c # _ \<Rightarrow> Inr c))"

definition CurrentChannel ::
  "('s, int) cache_get \<Rightarrow> ('s, int) cache_set \<Rightarrow> int fetch_env \<Rightarrow> go_error option \<Rightarrow> int \<Rightarrow> 's chan_svc \<Rightarrow> 's chan_svc \<times> (go_error + int)" where
  "CurrentChannel get put fe dbErr userID v =
     (case Fetch get put fe (KeyUserChannel userID) 0 (selected_channel dbErr userID (cs_channels v)) (sv_cache v) of
        (c, r) \<Rightarrow> (v\<lparr>sv_cache := c\<rparr>, r))"

definition GetChannel ::
  "('s, int) cache_get \<Rightarrow> ('s, int) cache_set \<Rightarrow> int fetch_env \<Rightarrow> go_error option \<Rightarrow> int \<Rightarrow> 's chan_svc \<Rightarrow> 's chan_svc \<times> (go_error + int)" where
  "GetChannel get put fe dbErr userID v = CurrentChannel get put fe dbErr userID v"

definition user_tokens :: "go_error option \<Rightarrow> int \<Rightarrow> bot_row list \<Rightarrow> go_error + string list" where
  "user_tokens dbErr userID bots =
     (case dbErr of Some e \<Rightarrow> Inl e | None \<Rightarrow> Inr (map bo_Token (filter (\<lambda>b. bo_UserId b = userID) bots)))"

definition BotTokens ::
  "('s, string list) cache_get \<Rightarrow> ('s, string list) cache_set \<Rightarrow> string list fetch_env \<Rightarrow> go_error option \<Rightarrow> int \<Rightarrow>
   's chan_svc \<Rightarrow> 's chan_svc \<times> (go_error + string list)" where
  "BotTokens get put fe dbErr userID v =
     (case Fetch get put fe (KeyUserBots userID) 0 (user_tokens dbErr userID (cs_bots v)) (sv_cache v) of
        (c, r) \<Rightarrow> (v\<lparr>sv_cache := c\<rparr>, r))"

subsection \<open>Making bots administrators\<close>

record bot_info =
  bi_Id :: int
  bi_UserName :: string
  bi_Token :: string
  bi_AccessHash :: int

text \<open>
  One attempt for one bot: the bot's user, the peer of its name (which must be a user) and the request. An
  operation is tried at most four times (\<^verbatim>\<open>backoff.WithMaxRetries(..., 3)\<close>).
\<close>

datatype input_peer = PeerUser int | OtherPeer

definition promote_attempt :: "go_error + bot_info \<Rightarrow> (string \<Rightarrow> go_error + input_peer) \<Rightarrow> (bot_info \<Rightarrow> go_error option) \<Rightarrow> go_error + bot_info" where
  "promote_attempt getBotInfo resolve editAdmin =
     (case getBotInfo of
        Inl e \<Rightarrow> Inl e
      | Inr info \<Rightarrow>
          (case resolve (bi_UserName info) of
             Inl e \<Rightarrow> Inl e
           | Inr OtherPeer \<Rightarrow> Inl (ErrText (''invalid peer type for bot '' @ bi_UserName info))
           | Inr (PeerUser accessHash) \<Rightarrow>
               (let info = info\<lparr>bi_AccessHash := accessHash\<rparr>
                in case editAdmin info of Some e \<Rightarrow> Inl e | None \<Rightarrow> Inr info)))"

fun retry_op :: "nat \<Rightarrow> (nat \<Rightarrow> go_error + 'a) \<Rightarrow> go_error + 'a" where
  "retry_op 0 attempt = attempt 0"
| "retry_op (Suc n) attempt = (case attempt 0 of Inl _ \<Rightarrow> retry_op n (\<lambda>k. attempt (Suc k)) | Inr a \<Rightarrow> Inr a)"

text \<open>
  The workers send into two channels with room for all results. When all have finished, \<^verbatim>\<open>g.Wait\<close> cancels the
  group's context, then the channels are closed, then \<^verbatim>\<open>done\<close>; the collecting loop selects among all four, and the
  context it watches is the group's.
\<close>

record collect =
  co_parent :: "go_error option"
  co_pending :: "(go_error + bot_info) list"
  co_infos :: "bot_info list"
  co_errs :: "go_error list"
  co_phase :: nat
  co_botInfos :: "bot_info list"
  co_botErrors :: "go_error list"
  co_result :: "(go_error + bot_info list) option"

datatype bot_event = Finish nat | Advance | RecvInfo | RecvErr | SeeDone | SeeCtx "go_error"

definition new_collect :: "go_error option \<Rightarrow> (go_error + bot_info) list \<Rightarrow> collect" where
  "new_collect parent results = \<lparr>co_parent = parent, co_pending = results, co_infos = [], co_errs = [], co_phase = 0, co_botInfos = [], co_botErrors = [],
     co_result = None\<rparr>"

text \<open>\<open>co_parent\<close> is the error of the caller's context, if that ends. Phases: 0 the workers run, 1 the context is cancelled, 2 and 3 the channels are closed, 4 \<^verbatim>\<open>done\<close> is closed.\<close>

definition collect_event :: "nat \<Rightarrow> bot_event \<Rightarrow> collect \<Rightarrow> collect option" where
  "collect_event tokens ev c =
     (if co_result c \<noteq> None then None
      else case ev of
        Finish i \<Rightarrow>
          if i < length (co_pending c) then
            (let rest = take i (co_pending c) @ drop (Suc i) (co_pending c)
             in case co_pending c ! i of
                  Inl e \<Rightarrow> Some (c\<lparr>co_pending := rest, co_errs := co_errs c @ [e]\<rparr>)
                | Inr info \<Rightarrow> Some (c\<lparr>co_pending := rest, co_infos := co_infos c @ [info]\<rparr>))
          else None
      | Advance \<Rightarrow> if co_pending c = [] \<and> co_phase c < 4 then Some (c\<lparr>co_phase := Suc (co_phase c)\<rparr>) else None
      | RecvInfo \<Rightarrow>
          (case co_infos c of
             info # rest \<Rightarrow> Some (c\<lparr>co_infos := rest, co_botInfos := co_botInfos c @ [info]\<rparr>)
           | [] \<Rightarrow> if 2 \<le> co_phase c then Some c else None)
      | RecvErr \<Rightarrow>
          (case co_errs c of
             e # rest \<Rightarrow> Some (c\<lparr>co_errs := rest, co_botErrors := co_botErrors c @ [e]\<rparr>)
           | [] \<Rightarrow> if 3 \<le> co_phase c then Some c else None)
      | SeeDone \<Rightarrow>
          if co_phase c = 4 then
            Some (c\<lparr>co_result := Some (if length (co_botErrors c) > 2
               then Inl (ErrText (''failed to process '' @ itoa (int (length (co_botErrors c))) @ '' out of '' @ itoa (int tokens) @ '' bots''))
               else Inr (co_botInfos c))\<rparr>)
          else None
      | SeeCtx e \<Rightarrow>
          if (1 \<le> co_phase c \<and> e = CtxCanceled) \<or> co_parent c = Some e then Some (c\<lparr>co_result := Some (Inl e)\<rparr>) else None)"

fun run_collect :: "nat \<Rightarrow> bot_event list \<Rightarrow> collect \<Rightarrow> collect option" where
  "run_collect tokens [] c = Some c"
| "run_collect tokens (ev # evs) c = Option.bind (collect_event tokens ev c) (run_collect tokens evs)"

definition collect_step :: "nat \<Rightarrow> collect \<Rightarrow> collect \<Rightarrow> bool" where
  "collect_step tokens c c' \<longleftrightarrow> (\<exists>ev. collect_event tokens ev c = Some c')"

text \<open>\<^verbatim>\<open>ON CONFLICT DO NOTHING\<close> on the key (user, token).\<close>

fun insert_bots :: "bot_row list \<Rightarrow> bot_row list \<Rightarrow> bot_row list" where
  "insert_bots [] bots = bots"
| "insert_bots (b # bs) bots =
     insert_bots bs (if list_ex (\<lambda>b'. bo_UserId b' = bo_UserId b \<and> bo_Token b' = bo_Token b) bots then bots else bots @ [b])"

record 'ch add_env =
  ae_client :: "go_error option"
  ae_runErr :: "go_error option"
  ae_channels :: "go_error + 'ch tg_chat list"
  ae_attempt :: "string \<Rightarrow> nat \<Rightarrow> go_error + bot_info"
  ae_ctxErr :: "go_error option"
  ae_schedule :: "bot_event list"
  ae_saveErr :: "go_error option"

text \<open>\<open>None\<close>: the call panics, or the schedule is not one of a run that returns.\<close>

definition AddBotsToChannel ::
  "(string list \<Rightarrow> 's \<Rightarrow> 's) \<Rightarrow> 'ch add_env \<Rightarrow> int \<Rightarrow> string list \<Rightarrow> bool \<Rightarrow> 's chan_svc \<Rightarrow> ('s chan_svc \<times> go_error option) option" where
  "AddBotsToChannel cdel env userId tokens save v =
     (case ae_client env of
        Some e \<Rightarrow> Some (v, Some e)
      | None \<Rightarrow>
     (case ae_runErr env of
        Some e \<Rightarrow> Some (v, Some e)
      | None \<Rightarrow>
          Option.bind (GetChannelById id (ae_channels env)) (\<lambda>ch. case ch of
            Inl e \<Rightarrow> Some (v, Some e)
          | Inr channel \<Rightarrow>
              Option.bind (run_collect (length tokens) (ae_schedule env)
                  (new_collect (ae_ctxErr env) (map (\<lambda>token. retry_op 3 (ae_attempt env token)) tokens)))
                (\<lambda>c. case co_result c of
                   None \<Rightarrow> None
                 | Some (Inl e) \<Rightarrow> Some (v, Some e)
                 | Some (Inr botInfos) \<Rightarrow>
                     if save \<and> botInfos \<noteq> [] then
                       (case ae_saveErr env of
                          Some e \<Rightarrow> Some (v, Some (ErrWrap ''failed to save bots'' e))
                        | None \<Rightarrow>
                            Some (v\<lparr>cs_bots := insert_bots (map (\<lambda>i. \<lparr>bo_Token = bi_Token i, bo_UserId = userId, bo_BotId = bi_Id i\<rparr>) botInfos)
                                       (cs_bots v),
                                    sv_cache := cdel [KeyUserBots userId] (sv_cache v)\<rparr>, None))
                     else Some (v, None)))))"

subsection \<open>Making a channel\<close>

text \<open>The columns of the table \<^verbatim>\<open>teldrive.channels\<close> that the migrations make.\<close>

definition channels_columns :: "string list" where
  "channels_columns = [''channel_id'', ''channel_name'', ''user_id'', ''selected'']"

definition ErrUndefinedColumn :: go_error where
  "ErrUndefinedColumn = ErrText ''column created_at does not exist''"

definition generateLockID :: "int \<Rightarrow> string \<Rightarrow> int" where
  "generateLockID userID op = i64 (userID * 1000000 + int (length op))"

definition acquireAdvisoryLock :: "go_error option \<Rightarrow> nat \<Rightarrow> int \<Rightarrow> 's chan_svc \<Rightarrow> 's chan_svc \<times> go_error option" where
  "acquireAdvisoryLock dbErr conn lockID v =
     (case dbErr of
        Some e \<Rightarrow> (v, Some e)
      | None \<Rightarrow>
          if list_ex (\<lambda>(l, holder). l = lockID \<and> holder \<noteq> conn) (cs_locks v)
          then (v, Some (ErrText ''lock already held by another instance''))
          else (v\<lparr>cs_locks := (lockID, conn) # cs_locks v\<rparr>, None))"

text \<open>An unlock on a connection that does not hold the lock does nothing.\<close>

definition releaseAdvisoryLock :: "nat \<Rightarrow> int \<Rightarrow> 's chan_svc \<Rightarrow> 's chan_svc" where
  "releaseAdvisoryLock conn lockID v = v\<lparr>cs_locks := remove1 (lockID, conn) (cs_locks v)\<rparr>"

text \<open>\<open>created\<close> gives the times in a database that has the column; the columns are an argument.\<close>

definition getChannelCreatedAfter ::
  "go_error option \<Rightarrow> string list \<Rightarrow> (channel_row \<Rightarrow> int) \<Rightarrow> int \<Rightarrow> int \<Rightarrow> channel_row list \<Rightarrow> go_error + channel_row option" where
  "getChannelCreatedAfter dbErr columns created userID after channels =
     (case dbErr of
        Some e \<Rightarrow> Inl e
      | None \<Rightarrow>
          if ''created_at'' \<notin> set columns then Inl ErrUndefinedColumn
          else (case sort_key (\<lambda>c. - created c) (filter (\<lambda>c. ch_UserId c = userID \<and> created c > after) channels) of
                  [] \<Rightarrow> Inr None
                | c # _ \<Rightarrow> Inr (Some c)))"

record tg_channel =
  tc_ID :: int
  tc_Title :: string
  tc_AddAdmins :: bool

datatype tg_updates = Updates "tg_channel tg_chat list" | OtherUpdates

fun first_channel :: "tg_channel tg_chat list \<Rightarrow> tg_channel option" where
  "first_channel [] = None"
| "first_channel (Channel ch # _) = Some ch"
| "first_channel (OtherChat # chats) = first_channel chats"

record create_env =
  ce_lockConn :: nat
  ce_unlockConn :: nat
  ce_lockErr :: "go_error option"
  ce_columns :: "string list"
  ce_created :: "channel_row \<Rightarrow> int"
  ce_recentErr :: "go_error option"
  ce_now :: int
  ce_jwt :: bool
  ce_client :: "go_error option"
  ce_answer :: "go_error + tg_updates"
  ce_peers :: "tg_channel peer_lib"
  ce_pg :: pg_env
  ce_tokensErr :: "go_error option"
  ce_add :: "tg_channel add_env"
  ce_createErr :: "go_error option"

text \<open>What follows the answer of Telegram: the channel's peer is stored, the bots are added, the row is inserted.\<close>

definition insert_channel ::
  "(string list \<Rightarrow> 's \<Rightarrow> 's) \<Rightarrow> go_error option \<Rightarrow> int \<Rightarrow> int \<Rightarrow> bool \<Rightarrow> 's chan_svc \<Rightarrow> 's chan_svc \<times> (go_error + int)" where
  "insert_channel cdel createErr userID newID setDefault v =
     (let createErr = (if createErr = None \<and> newID \<in> set (map ch_ChannelId (cs_channels v)) then Some ErrUnique else createErr);
          row = \<lparr>ch_ChannelId = newID, ch_ChannelName = [], ch_UserId = userID, ch_Selected = setDefault\<rparr>
      in if setDefault then
           (case createErr of
              Some e \<Rightarrow> (v, Inl (ErrWrap ''failed to update channel database'' e))
            | None \<Rightarrow> (v\<lparr>cs_channels := map (\<lambda>c. if ch_UserId c = userID then c\<lparr>ch_Selected := False\<rparr> else c) (cs_channels v) @ [row],
                        sv_cache := cdel [KeyUserChannel userID] (sv_cache v)\<rparr>, Inr newID))
         else
           (case createErr of
              Some e \<Rightarrow> (v, Inl (ErrWrap ''failed to create channel record'' e))
            | None \<Rightarrow> (v\<lparr>cs_channels := cs_channels v @ [row]\<rparr>, Inr newID)))"

definition register_channel ::
  "('s, string list) cache_get \<Rightarrow> ('s, string list) cache_set \<Rightarrow> string list fetch_env \<Rightarrow> (string list \<Rightarrow> 's \<Rightarrow> 's) \<Rightarrow> create_env \<Rightarrow>
   tg_channel \<Rightarrow> int \<Rightarrow> bool \<Rightarrow> 's chan_svc \<Rightarrow> ('s chan_svc \<times> (go_error + int)) option" where
  "register_channel get put fe cdel env channel userID setDefault v =
     (let v1 = v\<lparr>cs_kv := fst (peers_Add (ce_peers env) (ce_pg env) (KeyPeer userID) channel (cs_kv v))\<rparr>;
          (v2, r) = BotTokens get put fe (ce_tokensErr env) userID v1
      in case r of
           Inl e \<Rightarrow> Some (v2, Inl e)
         | Inr [] \<Rightarrow> Some (v2, Inl (ErrText ''add bot tokens before continuing''))
         | Inr tokens \<Rightarrow>
             Option.bind (AddBotsToChannel cdel (ce_add env) userID tokens False v2) (\<lambda>(v3, e).
               case e of
                 Some e \<Rightarrow> Some (v3, Inl e)
               | None \<Rightarrow> Some (insert_channel cdel (ce_createErr env) userID (tc_ID channel) setDefault v3)))"

definition create_channel ::
  "('s, string list) cache_get \<Rightarrow> ('s, string list) cache_set \<Rightarrow> string list fetch_env \<Rightarrow> (string list \<Rightarrow> 's \<Rightarrow> 's) \<Rightarrow> create_env \<Rightarrow>
   int \<Rightarrow> bool \<Rightarrow> 's chan_svc \<Rightarrow> ('s chan_svc \<times> (go_error + int)) option" where
  "create_channel get put fe cdel env userID setDefault v =
     (case getChannelCreatedAfter (ce_recentErr env) (ce_columns env) (ce_created env) userID (ce_now env - 10 * 10 ^ 9) (cs_channels v) of
        Inl e \<Rightarrow> Some (v, Inl e)
      | Inr (Some recent) \<Rightarrow> Some (v, Inr (ch_ChannelId recent))
      | Inr None \<Rightarrow>
          if \<not> ce_jwt env then Some (v, Inl (ErrText ''no JWT user found in context''))
          else (case ce_client env of
             Some e \<Rightarrow> Some (v, Inl (ErrWrap ''failed to create Telegram client'' e))
           | None \<Rightarrow>
               (case ce_answer env of
                  Inl e \<Rightarrow> Some (v, Inl (ErrWrap ''failed to create Telegram channel'' e))
                | Inr OtherUpdates \<Rightarrow> None
                | Inr (Updates chats) \<Rightarrow>
                    (case first_channel chats of
                       None \<Rightarrow> Some (v, Inl (ErrWrap ''failed to create Telegram channel''
                                  (ErrText ''failed to extract channel from creation response'')))
                     | Some channel \<Rightarrow> register_channel get put fe cdel env channel userID setDefault v))))"

definition CreateNewChannel ::
  "('s, string list) cache_get \<Rightarrow> ('s, string list) cache_set \<Rightarrow> string list fetch_env \<Rightarrow> (string list \<Rightarrow> 's \<Rightarrow> 's) \<Rightarrow> create_env \<Rightarrow>
   int \<Rightarrow> bool \<Rightarrow> 's chan_svc \<Rightarrow> ('s chan_svc \<times> (go_error + int)) option" where
  "CreateNewChannel get put fe cdel env userID setDefault v =
     (let lockID = generateLockID userID ''channel_rollover'';
          (v1, e) = acquireAdvisoryLock (ce_lockErr env) (ce_lockConn env) lockID v
      in case e of
           Some e \<Rightarrow> Some (v1, Inl (ErrWrap ''failed to acquire channel creation lock'' e))
         | None \<Rightarrow> map_option (\<lambda>(v2, r). (releaseAdvisoryLock (ce_unlockConn env) lockID v2, r))
                     (create_channel get put fe cdel env userID setDefault v1))"

subsection \<open>The collecting loop\<close>

definition good :: "(go_error + 'a) list \<Rightarrow> 'a list" where
  "good rs = List.map_filter (case_sum (\<lambda>_. None) Some) rs"

definition bad :: "(go_error + 'a) list \<Rightarrow> go_error list" where
  "bad rs = List.map_filter (case_sum Some (\<lambda>_. None)) rs"

lemma good_simps [simp]: "good [] = []" "good (Inl e # rs) = good rs" "good (Inr a # rs) = a # good rs"
  "bad [] = []" "bad (Inl e # rs) = e # bad rs" "bad (Inr a # rs) = bad rs"
  "good (rs @ rs') = good rs @ good rs'" "bad (rs @ rs') = bad rs @ bad rs'"
  by (simp_all add: good_def bad_def List.map_filter_def)

lemma run_collect_append: "run_collect n (es @ es') c = Option.bind (run_collect n es c) (run_collect n es')"
proof (induction es arbitrary: c)
  case (Cons e es)
  then show ?case by (cases "collect_event n e c") simp_all
qed simp

lemma finish_all:
  assumes "co_result c = None"
  shows "run_collect n (replicate (length rs) (Finish 0)) (c\<lparr>co_pending := rs\<rparr>) =
    Some (c\<lparr>co_pending := [], co_infos := co_infos c @ good rs, co_errs := co_errs c @ bad rs\<rparr>)"
  using assms
proof (induction rs arbitrary: c)
  case (Cons r rs)
  show ?case
  proof (cases r)
    case (Inl e)
    have "c\<lparr>co_errs := co_errs c @ [e], co_pending := rs\<rparr> = c\<lparr>co_pending := rs, co_errs := co_errs c @ [e]\<rparr>" by simp
    with Inl Cons.IH [of "c\<lparr>co_errs := co_errs c @ [e]\<rparr>"] Cons.prems show ?thesis by (simp add: collect_event_def)
  next
    case (Inr a)
    have "c\<lparr>co_infos := co_infos c @ [a], co_pending := rs\<rparr> = c\<lparr>co_pending := rs, co_infos := co_infos c @ [a]\<rparr>" by simp
    with Inr Cons.IH [of "c\<lparr>co_infos := co_infos c @ [a]\<rparr>"] Cons.prems show ?thesis by (simp add: collect_event_def)
  qed
qed simp

text \<open>The collected results are results of the bots; the errors of a run that succeeds were at most two among those read.\<close>

definition collect_inv :: "(go_error + bot_info) list \<Rightarrow> collect \<Rightarrow> bool" where
  "collect_inv rs c \<longleftrightarrow>
     set (good (co_pending c)) \<union> set (co_infos c) \<union> set (co_botInfos c) \<subseteq> set (good rs) \<and>
     length (bad (co_pending c)) + length (co_errs c) + length (co_botErrors c) = length (bad rs) \<and>
     length (good (co_pending c)) + length (co_infos c) + length (co_botInfos c) = length (good rs) \<and>
     (co_phase c > 0 \<longrightarrow> co_pending c = []) \<and>
     (\<forall>infos. co_result c = Some (Inr infos) \<longrightarrow> infos = co_botInfos c \<and> length (co_botErrors c) \<le> 2 \<and> co_pending c = [] )"

lemma drop_nth:
  assumes "i < length rs"
  obtains us vs where "rs = us @ rs ! i # vs" "take i rs @ drop (Suc i) rs = us @ vs"
  using that [of "take i rs" "drop (Suc i) rs"] id_take_nth_drop [OF assms] by simp

lemma collect_kept:
  assumes "collect_inv rs c" "collect_event n ev c = Some c'"
  shows "collect_inv rs c'"
proof (cases ev)
  case (Finish i)
  with assms(2) have i: "i < length (co_pending c)" by (auto simp: collect_event_def split: if_splits)
  then obtain us vs where uv: "co_pending c = us @ co_pending c ! i # vs"
    "take i (co_pending c) @ drop (Suc i) (co_pending c) = us @ vs" by (rule drop_nth)
  have none: "co_result c = None" using assms(2) by (auto simp: collect_event_def split: if_splits)
  show ?thesis
  proof (cases "co_pending c ! i")
    case (Inl e)
    then have c': "c' = c\<lparr>co_pending := us @ vs, co_errs := co_errs c @ [e]\<rparr>"
      using assms(2) Finish i none uv(2) by (simp add: collect_event_def)
    have "co_pending c = us @ Inl e # vs" using uv(1) Inl by simp
    then show ?thesis using assms(1) none by (simp add: collect_inv_def c')
  next
    case (Inr a)
    then have c': "c' = c\<lparr>co_pending := us @ vs, co_infos := co_infos c @ [a]\<rparr>"
      using assms(2) Finish i none uv(2) by (simp add: collect_event_def)
    have "co_pending c = us @ Inr a # vs" using uv(1) Inr by simp
    then show ?thesis using assms(1) none by (simp add: collect_inv_def c')
  qed
qed (use assms in \<open>auto simp: collect_inv_def collect_event_def split: if_splits list.splits\<close>)

interpretation collecting: step_invariant "\<lambda>c. c = new_collect parent rs" "collect_step n" "collect_inv rs"
  by unfold_locales (auto simp: collect_step_def collect_kept, auto simp: collect_inv_def new_collect_def)

lemma run_collect_reachable: "reachable init (collect_step n) c \<Longrightarrow> run_collect n evs c = Some c' \<Longrightarrow> reachable init (collect_step n) c'"
proof (induction evs arbitrary: c)
  case (Cons ev evs)
  then obtain d where d: "collect_event n ev c = Some d" "run_collect n evs d = Some c'" by (auto simp: bind_eq_Some_conv)
  then have "collect_step n c d" by (auto simp: collect_step_def)
  with Cons d show ?case by (blast intro: reachable.move)
qed simp

text \<open>Runs: all results are there; then some are read, and the loop looks at \<^verbatim>\<open>done\<close> or at the context.\<close>

lemma read_infos:
  "co_result c = None \<Longrightarrow> run_collect n (replicate (length is) RecvInfo) (c\<lparr>co_infos := is\<rparr>) =
     Some (c\<lparr>co_infos := [], co_botInfos := co_botInfos c @ is\<rparr>)"
proof (induction "is" arbitrary: c)
  case (Cons i "is")
  have "c\<lparr>co_botInfos := co_botInfos c @ [i], co_infos := is\<rparr> = c\<lparr>co_infos := is, co_botInfos := co_botInfos c @ [i]\<rparr>" by simp
  with Cons.IH [of "c\<lparr>co_botInfos := co_botInfos c @ [i]\<rparr>"] Cons.prems show ?case by (simp add: collect_event_def)
qed simp

lemma read_errs:
  "co_result c = None \<Longrightarrow> run_collect n (replicate (length es) RecvErr) (c\<lparr>co_errs := es\<rparr>) =
     Some (c\<lparr>co_errs := [], co_botErrors := co_botErrors c @ es\<rparr>)"
proof (induction es arbitrary: c)
  case (Cons e es)
  have "c\<lparr>co_botErrors := co_botErrors c @ [e], co_errs := es\<rparr> = c\<lparr>co_errs := es, co_botErrors := co_botErrors c @ [e]\<rparr>" by simp
  with Cons.IH [of "c\<lparr>co_botErrors := co_botErrors c @ [e]\<rparr>"] Cons.prems show ?case by (simp add: collect_event_def)
qed simp

definition all_there :: "go_error option \<Rightarrow> (go_error + bot_info) list \<Rightarrow> collect" where
  "all_there parent rs = (new_collect parent [])\<lparr>co_infos := good rs, co_errs := bad rs\<rparr>"

lemma run_all_there: "run_collect n (replicate (length rs) (Finish 0) @ es) (new_collect parent rs) = run_collect n es (all_there parent rs)"
proof -
  have "run_collect n (replicate (length rs) (Finish 0)) (new_collect parent rs) = Some (all_there parent rs)"
    using finish_all [of "new_collect parent []" n rs] by (simp add: new_collect_def all_there_def)
  then show ?thesis by (simp add: run_collect_append)
qed

lemma run_read_all:
  "run_collect n (replicate (length (good rs)) RecvInfo @ replicate (length (bad rs)) RecvErr @ es) (all_there parent rs) =
   run_collect n es ((new_collect parent [])\<lparr>co_botInfos := good rs, co_botErrors := bad rs\<rparr>)"
proof -
  have "run_collect n (replicate (length (good rs)) RecvInfo) (all_there parent rs) =
      Some ((new_collect parent [])\<lparr>co_botInfos := good rs, co_errs := bad rs\<rparr>)"
    using read_infos [of "(new_collect parent [])\<lparr>co_errs := bad rs\<rparr>" n "good rs"] by (simp add: new_collect_def all_there_def)
  moreover have "run_collect n (replicate (length (bad rs)) RecvErr) ((new_collect parent [])\<lparr>co_botInfos := good rs, co_errs := bad rs\<rparr>) =
      Some ((new_collect parent [])\<lparr>co_botInfos := good rs, co_botErrors := bad rs\<rparr>)"
    using read_errs [of "(new_collect parent [])\<lparr>co_botInfos := good rs\<rparr>" n "bad rs"] by (simp add: new_collect_def)
  ultimately show ?thesis by (simp add: run_collect_append)
qed

text \<open>C20: Whatever the bots' results, the scheduler decides what \<open>AddBotsToChannel\<close> reports: the group's context, which \<^verbatim>\<open>g.Wait\<close> cancels,
  may win over the results, so that it fails with "context canceled" though all bots have been added; \<^verbatim>\<open>done\<close> may win
  over the buffered results, so that it succeeds with no bots at all, and with any number of failed ones; or all are
  read, and it fails exactly when more than two bots have failed. The bots it takes for added have always been added.\<close>

theorem bots_race:
  "(\<exists>evs c. run_collect n evs (new_collect None rs) = Some c \<and> co_result c = Some (Inl CtxCanceled)) \<and>
   (\<exists>evs c. run_collect n evs (new_collect None rs) = Some c \<and> co_result c = Some (Inr [])) \<and>
   (\<exists>evs c r. run_collect n evs (new_collect None rs) = Some c \<and> co_result c = Some r \<and>
      (if length (bad rs) > 2 then \<exists>m. r = Inl (ErrText m) else r = Inr (good rs))) \<and>
   (\<nexists>evs c infos. run_collect n evs (new_collect None rs) = Some c \<and> co_result c = Some (Inr infos) \<and> \<not> set infos \<subseteq> set (good rs))"
  (is "?canceled \<and> ?early \<and> ?full \<and> ?sound")
proof (intro conjI)
  let ?c = "all_there None rs" and ?d = "(new_collect None [])\<lparr>co_botInfos := good rs, co_botErrors := bad rs\<rparr>"
  have "\<exists>c. run_collect n [Advance, SeeCtx CtxCanceled] ?c = Some c \<and> co_result c = Some (Inl CtxCanceled)"
    by (simp add: collect_event_def all_there_def new_collect_def)
  then show ?canceled using run_all_there by metis
  have "\<exists>c. run_collect n [Advance, Advance, Advance, Advance, SeeDone] ?c = Some c \<and> co_result c = Some (Inr [])"
    by (simp add: collect_event_def all_there_def new_collect_def)
  then show ?early using run_all_there by metis
  obtain c r where "run_collect n [Advance, Advance, Advance, Advance, SeeDone] ?d = Some c" "co_result c = Some r"
    "if length (bad rs) > 2 then \<exists>m. r = Inl (ErrText m) else r = Inr (good rs)"
    by (simp add: collect_event_def new_collect_def)
  then show ?full using run_all_there run_read_all by metis
  have "set infos \<subseteq> set (good rs)"
    if "run_collect n evs (new_collect None rs) = Some c" "co_result c = Some (Inr infos)" for evs c infos
  proof -
    have "reachable (\<lambda>c. c = new_collect None rs) (collect_step n) c"
      using run_collect_reachable [OF reachable.start that(1)] by simp
    from collecting.reachable_inv [OF this] that(2) show ?thesis by (auto simp: collect_inv_def)
  qed
  then show ?sound by blast
qed

subsection \<open>Making a channel\<close>

lemma AddBots_tables:
  assumes "AddBotsToChannel cdel env userId tokens save v = Some (v', e)"
  shows "cs_channels v' = cs_channels v \<and> cs_locks v' = cs_locks v \<and> (\<not> save \<longrightarrow> v' = v)"
  using assms by (auto simp: AddBotsToChannel_def split: option.split_asm sum.split_asm if_split_asm Option.bind_split_asm)

lemma BotTokens_tables: "BotTokens get put fe dbErr userID v = (v', r) \<Longrightarrow> cs_channels v' = cs_channels v \<and> cs_locks v' = cs_locks v"
  by (auto simp: BotTokens_def split: prod.splits)

lemma register_cases:
  assumes "register_channel get put fe cdel env channel userID setDefault v = Some (v', r)"
  obtains e where "r = Inl e" "cs_channels v' = cs_channels v" "cs_locks v' = cs_locks v"
  | v3 where "cs_channels v3 = cs_channels v" "cs_locks v3 = cs_locks v"
      "insert_channel cdel (ce_createErr env) userID (tc_ID channel) setDefault v3 = (v', r)"
proof -
  let ?v1 = "v\<lparr>cs_kv := fst (peers_Add (ce_peers env) (ce_pg env) (KeyPeer userID) channel (cs_kv v))\<rparr>"
  obtain v2 b where tokens: "BotTokens get put fe (ce_tokensErr env) userID ?v1 = (v2, b)" by fastforce
  note v2 = BotTokens_tables [OF tokens]
  show ?thesis
  proof (cases b)
    case (Inl e)
    with assms tokens v2 show ?thesis by (intro that(1) [of e]) (auto simp: register_channel_def Let_def)
  next
    case (Inr ts)
    show ?thesis
    proof (cases ts)
      case Nil
      with assms tokens v2 Inr show ?thesis by (intro that(1)) (auto simp: register_channel_def Let_def)
    next
      case (Cons a as)
      with assms tokens Inr obtain v3 e where add: "AddBotsToChannel cdel (ce_add env) userID ts False v2 = Some (v3, e)"
        and rest: "(case e of Some e \<Rightarrow> Some (v3, Inl e) | None \<Rightarrow> Some (insert_channel cdel (ce_createErr env) userID (tc_ID channel) setDefault v3)) = Some (v', r)"
        by (auto simp: register_channel_def Let_def bind_eq_Some_conv)
      note v3 = AddBots_tables [OF add]
      show ?thesis
      proof (cases e)
        case (Some e)
        with rest v2 v3 show ?thesis by (intro that(1) [of e]) auto
      next
        case None
        with rest v2 v3 show ?thesis by (intro that(2) [of v3]) auto
      qed
    qed
  qed
qed

text \<open>
  With the table that the migrations make, no channel is ever created: the check for a recent channel asks for a column that does
  not exist, so \<open>CreateNewChannel\<close> always fails, before Telegram is asked, and leaves the tables as they were.\<close>

lemma channel_creation_fails:
  assumes "ce_columns env = channels_columns"
  shows "\<exists>v' e. CreateNewChannel get put fe cdel env userID setDefault v = Some (v', Inl e) \<and> cs_channels v' = cs_channels v \<and>
    cs_bots v' = cs_bots v \<and> cs_kv v' = cs_kv v \<and> (ce_lockConn env = ce_unlockConn env \<longrightarrow> v' = v)"
proof -
  have "create_channel get put fe cdel env userID setDefault v1 =
      Some (v1, Inl (case ce_recentErr env of None \<Rightarrow> ErrUndefinedColumn | Some e \<Rightarrow> e))" for v1 :: "'a chan_svc"
    using assms by (simp add: create_channel_def getChannelCreatedAfter_def channels_columns_def split: option.splits)
  then show ?thesis
    by (simp add: CreateNewChannel_def acquireAdvisoryLock_def releaseAdvisoryLock_def Let_def split: option.splits)
qed

text \<open>A lock that is released on another connection of the pool stays, and keeps all other connections out.\<close>

lemma lock_leaks:
  assumes "ce_lockConn env \<noteq> ce_unlockConn env" "CreateNewChannel get put fe cdel env userID setDefault v = Some (v', r)"
    and "acquireAdvisoryLock (ce_lockErr env) (ce_lockConn env) (generateLockID userID ''channel_rollover'') v = (v1, None)"
    and "ce_lockConn env' \<noteq> ce_lockConn env"
  shows "\<exists>e. CreateNewChannel get' put' fe' cdel' env' userID setDefault' v' = Some (v', Inl e)"
proof -
  let ?l = "generateLockID userID ''channel_rollover''"
  from assms(2,3) obtain v2 where create: "create_channel get put fe cdel env userID setDefault v1 = Some (v2, r)"
    and v': "v' = releaseAdvisoryLock (ce_unlockConn env) ?l v2" by (auto simp: CreateNewChannel_def)
  have "(?l, ce_lockConn env) \<in> set (cs_locks v1)"
    using assms(3) by (auto simp: acquireAdvisoryLock_def split: option.splits if_splits)
  moreover have "cs_locks v2 = cs_locks v1"
    using create
    by (auto simp: create_channel_def insert_channel_def Let_def elim!: register_cases
        split: option.split_asm sum.split_asm if_split_asm tg_updates.split_asm)
  ultimately have "(?l, ce_lockConn env) \<in> set (cs_locks v')"
    using assms(1) by (simp add: v' releaseAdvisoryLock_def in_set_remove1)
  with assms(4) show ?thesis
    by (auto simp: CreateNewChannel_def acquireAdvisoryLock_def list_ex_iff Let_def split: option.splits)
qed

lemma insert_channel_default:
  assumes "insert_channel cdel e userID newID True v = (v', Inr c)"
  shows "c = newID \<and> filter (\<lambda>r. ch_UserId r = userID \<and> ch_Selected r) (cs_channels v') =
      [\<lparr>ch_ChannelId = c, ch_ChannelName = [], ch_UserId = userID, ch_Selected = True\<rparr>] \<and>
    filter (\<lambda>r. ch_UserId r \<noteq> userID) (cs_channels v') = filter (\<lambda>r. ch_UserId r \<noteq> userID) (cs_channels v) \<and>
    sv_cache v' = cdel [KeyUserChannel userID] (sv_cache v)"
proof -
  have sel: "filter (\<lambda>r. ch_UserId r = userID \<and> ch_Selected r)
      (map (\<lambda>c. if ch_UserId c = userID then c\<lparr>ch_Selected := False\<rparr> else c) rows) = []" for rows
    by (induction rows) auto
  have others: "filter (\<lambda>r. ch_UserId r \<noteq> userID)
      (map (\<lambda>c. if ch_UserId c = userID then c\<lparr>ch_Selected := False\<rparr> else c) rows) = filter (\<lambda>r. ch_UserId r \<noteq> userID) rows" for rows
    by (induction rows) auto
  show ?thesis using assms sel others by (auto simp: insert_channel_def Let_def split: option.splits if_splits)
qed

lemma CurrentChannel_result: "snd (CurrentChannel get put fe dbErr userID v) =
    snd (Fetch get put fe (KeyUserChannel userID) 0 (selected_channel dbErr userID (cs_channels v)) (sv_cache v))"
  by (simp add: CurrentChannel_def split: prod.splits)


definition int_codec :: "int codec" where
  "int_codec = \<lparr>co_Marshal = (\<lambda>i. if 0 \<le> i then Inr (text_bytes (itoa i)) else Inl EOF), co_Unmarshal = (\<lambda>bs. Inr (case digits_val 0 (bytes_text bs) of None \<Rightarrow> 0 | Some n \<Rightarrow> int n))\<rparr>"

text \<open>A user with one bot.\<close>

definition demo_chan :: "(string \<times> bytes \<times> int option) list chan_svc" where
  "demo_chan = \<lparr>sv_files = [], sv_uploads = [], sv_shares = [], sv_cache = [], sv_events = [],
     cs_channels = [\<lparr>ch_ChannelId = 5, ch_ChannelName = ''old'', ch_UserId = 1, ch_Selected = True\<rparr>],
     cs_bots = [\<lparr>bo_Token = ''9:t'', bo_UserId = 1, bo_BotId = 9\<rparr>], cs_locks = [], cs_kv = []\<rparr>"

definition demo_bot :: bot_info where
  "demo_bot = \<lparr>bi_Id = 9, bi_UserName = ''bot'', bi_Token = ''9:t'', bi_AccessHash = 3\<rparr>"

definition demo_create :: create_env where
  "demo_create = \<lparr>ce_lockConn = 0, ce_unlockConn = 0, ce_lockErr = None, ce_columns = ''created_at'' # channels_columns, ce_created = (\<lambda>_. 0),
     ce_recentErr = None, ce_now = 10 ^ 12, ce_jwt = True, ce_client = None,
     ce_answer = Inr (Updates [OtherChat, Channel \<lparr>tc_ID = 7, tc_Title = ''storage'', tc_AddAdmins = True\<rparr>]),
     ce_peers = \<lparr>pl_Marshal = (\<lambda>p. Inr []), pl_Unmarshal = (\<lambda>_. MustInvalidate), pl_Key = tc_Title, pl_Keys = (\<lambda>_. [])\<rparr>,
     ce_pg = \<lparr>pg_dbErr = None, pg_now = 1\<rparr>, ce_tokensErr = None,
     ce_add = \<lparr>ae_client = None, ae_runErr = None, ae_channels = Inr [Channel \<lparr>tc_ID = 7, tc_Title = ''storage'', tc_AddAdmins = True\<rparr>],
       ae_attempt = (\<lambda>_ _. Inr demo_bot), ae_ctxErr = None, ae_schedule = [Finish 0, RecvInfo, Advance, Advance, Advance, Advance, SeeDone],
       ae_saveErr = None\<rparr>,
     ce_createErr = None\<rparr>"

definition no_tokens_cached :: "(string \<times> bytes \<times> int option) list \<Rightarrow> int \<Rightarrow> string \<Rightarrow> go_error + string list" where
  "no_tokens_cached s t k = Inl CacheNotFound"

definition demo_created :: "(string \<times> bytes \<times> int option) list chan_svc" where
  "demo_created = demo_chan\<lparr>cs_channels := [\<lparr>ch_ChannelId = 5, ch_ChannelName = ''old'', ch_UserId = 1, ch_Selected = False\<rparr>,
     \<lparr>ch_ChannelId = 7, ch_ChannelName = [], ch_UserId = 1, ch_Selected = True\<rparr>],
     cs_kv := [\<lparr>kv_Key = Key [KStr (KeyPeer 1), KStr ''storage''], kv_Value = [], kv_CreatedAt = 1\<rparr>]\<rparr>"

interpretation channel_cache: memory_cache "map_store (10 ^ 9)" int_codec
  by (intro memory_cache.intro memory_cache_axioms.intro map_store_ok)
    (auto simp: codec_ok_def int_codec_def bytes_text_bytes itoa_def digits_val_nat_digits split: if_splits)

lemma demo_creation:
  "CreateNewChannel no_tokens_cached (\<lambda>s t k w ttl. (s, None)) \<lparr>fe_first = 0, fe_again = 0, fe_store = 0, fe_joined = None, fe_done = None\<rparr>
     (memory_Delete (map_store (10 ^ 9))) demo_create 1 True demo_chan = Some (demo_created, Inr 7)"
  by code_simp


lemma channel_creation_fails_witness:
  "\<exists>v' e. CreateNewChannel no_tokens_cached (\<lambda>s t k w ttl. (s, None)) \<lparr>fe_first = 0, fe_again = 0, fe_store = 0, fe_joined = None, fe_done = None\<rparr>
     (memory_Delete (map_store (10 ^ 9))) (demo_create\<lparr>ce_columns := channels_columns\<rparr>) 1 True demo_chan = Some (v', Inl e) \<and>
     v' = demo_chan"
proof -
  have "ce_columns (demo_create\<lparr>ce_columns := channels_columns\<rparr>) = channels_columns" by simp
  from channel_creation_fails [OF this] show ?thesis by (fastforce simp: demo_create_def)
qed

end
