(* ===== verification/Users.thy ===== *)
theory Users
  imports Channel_Manager Login Tg_Helpers "HOL-Library.Char_ord" "HOL-Library.List_Lexorder"
begin

section \<open>The account of a user (pkg/services/user.go)\<close>

text \<open>
  Handlers of the signed-in user: bots, channels, sessions, the profile picture. Where a handler ignores the
  error of making a Telegram client and then uses the client, a failure is a nil pointer (\<open>None\<close>).
\<close>

subsection \<open>Bots\<close>

fun add_to_channels ::
  "(string list \<Rightarrow> 's \<Rightarrow> 's) \<Rightarrow> (int \<Rightarrow> 'ch add_env) \<Rightarrow> int \<Rightarrow> string list \<Rightarrow> int list \<Rightarrow> 's chan_svc \<Rightarrow> 's chan_svc option" where
  "add_to_channels cdel env userID tokens [] v = Some v"
| "add_to_channels cdel env userID tokens (c # cs) v =
     Option.bind (AddBotsToChannel cdel (env c) userID tokens False v) (\<lambda>(v', _). add_to_channels cdel env userID tokens cs v')"

definition UsersAddBots ::
  "(string list \<Rightarrow> 's \<Rightarrow> 's) \<Rightarrow> (int \<Rightarrow> 'ch add_env) \<Rightarrow> go_error option \<Rightarrow> go_error option \<Rightarrow> int \<Rightarrow> string list \<Rightarrow> 's chan_svc \<Rightarrow>
   ('s chan_svc \<times> go_error option) option" where
  "UsersAddBots cdel env createErr listErr userID bots v =
     (if bots = [] then Some (v, None)
      else case createErr of
        Some e \<Rightarrow> Some (v, Some e)
      | None \<Rightarrow>
          let v1 = v\<lparr>cs_bots := insert_bots (map (\<lambda>token. \<lparr>bo_Token = token, bo_UserId = userID, bo_BotId = 0\<rparr>) bots) (cs_bots v)\<rparr>
          in case listErr of
               Some e \<Rightarrow> Some (v1, Some e)
             | None \<Rightarrow>
                 map_option (\<lambda>v2. (v2\<lparr>sv_cache := cdel [KeyUserBots userID] (sv_cache v2)\<rparr>, None))
                   (add_to_channels cdel env userID bots
                     (map ch_ChannelId (filter (\<lambda>c. ch_UserId c = userID) (cs_channels v1))) v1))"

definition UsersRemoveBots :: "(string list \<Rightarrow> 's \<Rightarrow> 's) \<Rightarrow> go_error option \<Rightarrow> int \<Rightarrow> 's chan_svc \<Rightarrow> 's chan_svc \<times> api_error option" where
  "UsersRemoveBots cdel dbErr userId v =
     (case dbErr of
        Some e \<Rightarrow> (v, Some (ApiError e 0))
      | None \<Rightarrow> (v\<lparr>cs_bots := filter (\<lambda>b. bo_UserId b \<noteq> userId) (cs_bots v), sv_cache := cdel [KeyUserBots userId] (sv_cache v)\<rparr>, None))"

subsection \<open>Channels\<close>

text \<open>The channels among the stored peers, the first of each id; the order of channels with one name is that of a Go map.\<close>

record channel_out =
  co_ChannelId :: int
  co_ChannelName :: string

fun own_channels :: "tg_channel option list \<Rightarrow> channel_out list \<Rightarrow> channel_out list" where
  "own_channels [] acc = acc"
| "own_channels (p # ps) acc =
     (case p of
        None \<Rightarrow> own_channels ps acc
      | Some ch \<Rightarrow>
          if tc_AddAdmins ch \<and> tc_ID ch \<notin> set (map co_ChannelId acc)
          then own_channels ps (acc @ [\<lparr>co_ChannelId = tc_ID ch, co_ChannelName = tc_Title ch\<rparr>])
          else own_channels ps acc)"

definition UsersListChannels :: "tg_channel option peer_lib \<Rightarrow> go_error option \<Rightarrow> int \<Rightarrow> 's chan_svc \<Rightarrow> channel_out list" where
  "UsersListChannels pl dbErr userId v =
     (case peers_Iterate pl dbErr (KeyPeer userId) (cs_kv v) of
        Inl _ \<Rightarrow> []
      | Inr ps \<Rightarrow> sort_key co_ChannelName (own_channels ps []))"

definition UsersCreateChannel ::
  "('s, string list) cache_get \<Rightarrow> ('s, string list) cache_set \<Rightarrow> string list fetch_env \<Rightarrow> (string list \<Rightarrow> 's \<Rightarrow> 's) \<Rightarrow> create_env \<Rightarrow>
   int \<Rightarrow> 's chan_svc \<Rightarrow> ('s chan_svc \<times> api_error option) option" where
  "UsersCreateChannel get put fe cdel env userID v =
     map_option (\<lambda>(v', r). (v', case r of Inl e \<Rightarrow> Some (ApiError e 0) | Inr _ \<Rightarrow> None))
       (CreateNewChannel get put fe cdel env userID False v)"

record delete_channel_env =
  de_clientErr :: "go_error option"
  de_runErr :: "go_error option"
  de_channels :: "int \<Rightarrow> go_error + tg_channel tg_chat list"
  de_deleteErr :: "go_error option"
  de_dbErr :: "go_error option"
  de_peerKey :: "tg_channel \<Rightarrow> string"

definition UsersDeleteChannel :: "delete_channel_env \<Rightarrow> int \<Rightarrow> string \<Rightarrow> 's chan_svc \<Rightarrow> ('s chan_svc \<times> api_error option) option" where
  "UsersDeleteChannel env userId channelParam v =
     (if de_clientErr env \<noteq> None then None
      else
        let channelId = subject_id channelParam
        in case de_runErr env of
             Some e \<Rightarrow> Some (v, Some (ApiError e 0))
           | None \<Rightarrow>
               Option.bind (GetChannelFull (de_channels env channelId)) (\<lambda>ch.
                 case ch of
                   Inl e \<Rightarrow> Some (v, Some (ApiError e 0))
                 | Inr channel \<Rightarrow>
                     (case de_deleteErr env of
                        Some e \<Rightarrow> Some (v, Some (ApiError e 0))
                      | None \<Rightarrow>
                          Some (v\<lparr>cs_channels := (if de_dbErr env = None then filter (\<lambda>c. ch_ChannelId c \<noteq> channelId) (cs_channels v)
                                                 else cs_channels v),
                                  cs_kv := fst (peers_Delete (de_dbErr env) (KeyPeer userId) (de_peerKey env channel) (cs_kv v))\<rparr>, None))))"

text \<open>\<open>dialogs\<close>: the peers that the collector stores, and how its run ends.\<close>

definition UsersSyncChannels ::
  "'p peer_lib \<Rightarrow> pg_env \<Rightarrow> go_error option \<Rightarrow> go_error option \<Rightarrow> 'p list \<times> go_error option \<Rightarrow> int \<Rightarrow> 's chan_svc \<Rightarrow> 's chan_svc \<times> api_error option" where
  "UsersSyncChannels pl pg purgeErr clientErr dialogs userId v =
     (let prefix = KeyPeer userId in
      case peers_Purge purgeErr prefix (cs_kv v) of
        (kv, Some e) \<Rightarrow> (v\<lparr>cs_kv := kv\<rparr>, Some (ApiError e 0))
      | (kv, None) \<Rightarrow>
          (case clientErr of
             Some e \<Rightarrow> (v\<lparr>cs_kv := kv\<rparr>, Some (ApiError e 0))
           | None \<Rightarrow>
               (v\<lparr>cs_kv := fold (\<lambda>p rows. fst (peers_Add pl pg prefix p rows)) (fst dialogs) kv\<rparr>,
                map_option (\<lambda>e. ApiError e 0) (snd dialogs))))"

fun upsert_channel :: "channel_row \<Rightarrow> channel_row list \<Rightarrow> channel_row list" where
  "upsert_channel c [] = [c]"
| "upsert_channel c (d # ds) = (if ch_ChannelId d = ch_ChannelId c then d\<lparr>ch_Selected := True\<rparr> # ds else d # upsert_channel c ds)"

text \<open>The error of the second statement, that of the other channels, is ignored.\<close>

definition UsersUpdateChannel ::
  "('s, int) cache_set \<Rightarrow> int \<Rightarrow> go_error option \<Rightarrow> go_error option \<Rightarrow> int \<Rightarrow> int \<Rightarrow> string \<Rightarrow> 's chan_svc \<Rightarrow> 's chan_svc \<times> api_error option" where
  "UsersUpdateChannel put now createErr othersErr userId channelId channelName v =
     (case createErr of
        Some e \<Rightarrow> (v, Some (ApiError (ErrText ''failed to update channel'') 0))
      | None \<Rightarrow>
          let rows = upsert_channel \<lparr>ch_ChannelId = channelId, ch_ChannelName = channelName, ch_UserId = userId, ch_Selected = True\<rparr> (cs_channels v);
              rows = (if othersErr = None
                      then map (\<lambda>c. if ch_ChannelId c \<noteq> channelId \<and> ch_UserId c = userId then c\<lparr>ch_Selected := False\<rparr> else c) rows
                      else rows)
          in (v\<lparr>cs_channels := rows, sv_cache := fst (put (sv_cache v) now (KeyUserChannel userId) channelId 0)\<rparr>, None))"

definition UsersStats ::
  "('s, int) cache_get \<Rightarrow> ('s, int) cache_set \<Rightarrow> int fetch_env \<Rightarrow> ('s, string list) cache_get \<Rightarrow> ('s, string list) cache_set \<Rightarrow>
   string list fetch_env \<Rightarrow> go_error option \<Rightarrow> int \<Rightarrow> 's chan_svc \<Rightarrow> 's chan_svc \<times> (string list \<times> int)" where
  "UsersStats geti puti fei gett putt fet dbErr userId v =
     (let (v1, ch) = CurrentChannel geti puti fei dbErr userId v;
          (v2, ts) = BotTokens gett putt fet dbErr userId v1
      in (v2, (case ts of Inl _ \<Rightarrow> [] | Inr tokens \<Rightarrow> tokens), (case ch of Inl _ \<Rightarrow> 0 | Inr c \<Rightarrow> c)))"

subsection \<open>Sessions\<close>

fun replace_all :: "string \<Rightarrow> string \<Rightarrow> string" where
  "replace_all old [] = []"
| "replace_all old (c # s) =
     (if old \<noteq> [] \<and> take (length old) (c # s) = old then replace_all old (drop (length old) (c # s)) else c # replace_all old s)"

record tg_authorization =
  au_DateCreated :: int
  au_AppName :: string
  au_Country :: string
  au_OfficialApp :: bool

record user_session =
  uo_Hash :: string
  uo_CreatedAt :: int
  uo_Current :: bool
  uo_AppName :: "string option"
  uo_Location :: "string option"
  uo_OfficialApp :: "bool option"
  uo_Valid :: bool

definition session_out :: "tg_authorization list \<Rightarrow> string \<Rightarrow> session \<Rightarrow> user_session" where
  "session_out auths userSession s =
     (let out = \<lparr>uo_Hash = ss_Hash s, uo_CreatedAt = ss_CreatedAt s, uo_Current = (ss_Session s = userSession),
                 uo_AppName = None, uo_Location = None, uo_OfficialApp = None, uo_Valid = False\<rparr>
      in case find (\<lambda>a. ss_SessionDate s = au_DateCreated a) auths of
           None \<Rightarrow> out
         | Some a \<Rightarrow> out\<lparr>uo_AppName := Some (trim_chars CHR '' '' (replace_all ''Telegram'' (au_AppName a))), uo_Location := Some (au_Country a),
                         uo_OfficialApp := Some (au_OfficialApp a), uo_Valid := True\<rparr>)"

definition list_sessions ::
  "(string \<Rightarrow> go_error \<Rightarrow> bool) \<Rightarrow> go_error + tg_authorization list \<Rightarrow> go_error option \<Rightarrow> int \<Rightarrow> string \<Rightarrow> session list \<Rightarrow> go_error + user_session list" where
  "list_sessions tgerr auths dbErr userId userSession rows =
     (case auths of
        Inl e \<Rightarrow>
          if \<not> tgerr ''AUTH_KEY_UNREGISTERED'' e then Inl e
          else (case dbErr of
             Some e \<Rightarrow> Inl e
           | None \<Rightarrow> Inr (map (session_out [] userSession) (sort_key (\<lambda>s. - ss_CreatedAt s) (filter (\<lambda>s. ss_UserId s = userId) rows))))
      | Inr as \<Rightarrow>
          (case dbErr of
             Some e \<Rightarrow> Inl e
           | None \<Rightarrow> Inr (map (session_out as userSession) (sort_key (\<lambda>s. - ss_CreatedAt s) (filter (\<lambda>s. ss_UserId s = userId) rows)))))"

definition UsersListSessions ::
  "('s, user_session list) cache_get \<Rightarrow> ('s, user_session list) cache_set \<Rightarrow> user_session list fetch_env \<Rightarrow> (string \<Rightarrow> go_error \<Rightarrow> bool) \<Rightarrow>
   go_error + tg_authorization list \<Rightarrow> go_error option \<Rightarrow> int \<Rightarrow> string \<Rightarrow> 's auth_svc \<Rightarrow> 's auth_svc \<times> (go_error + user_session list)" where
  "UsersListSessions get put fe tgerr auths dbErr userId userSession v =
     (case Fetch get put fe (KeyUserSessions userId) 0 (list_sessions tgerr auths dbErr userId userSession (as_sessions v)) (sv_cache v) of
        (c, r) \<Rightarrow> (v\<lparr>sv_cache := c\<rparr>, r))"

text \<open>The errors of the logout at Telegram and of the deletion are ignored.\<close>

definition UsersRemoveSession ::
  "(string list \<Rightarrow> 's \<Rightarrow> 's) \<Rightarrow> go_error option \<Rightarrow> go_error option \<Rightarrow> go_error option \<Rightarrow> int \<Rightarrow> string \<Rightarrow> 's auth_svc \<Rightarrow>
   ('s auth_svc \<times> api_error option) option" where
  "UsersRemoveSession cdel findErr clientErr deleteErr userId hash v =
     (case (case findErr of
              Some e \<Rightarrow> Inl e
            | None \<Rightarrow> (case find (\<lambda>s. ss_UserId s = userId \<and> ss_Hash s = hash) (as_sessions v) of
                        None \<Rightarrow> Inl ErrRecordNotFound | Some s \<Rightarrow> Inr s)) of
        Inl e \<Rightarrow> Some (v, Some (ApiError e 0))
      | Inr s \<Rightarrow>
          if clientErr \<noteq> None then None
          else Some (v\<lparr>as_sessions := (if deleteErr = None
                           then filter (\<lambda>t. \<not> (ss_UserId t = userId \<and> ss_Hash t = ss_Hash s)) (as_sessions v) else as_sessions v),
                       sv_cache := cdel [KeyUserSessions userId] (sv_cache v)\<rparr>, None))"

subsection \<open>The profile picture\<close>

datatype tg_photo = NoPhoto | EmptyPhoto | Photo int

record image =
  im_CacheControl :: string
  im_ContentLength :: int
  im_Etag :: string
  im_ContentDisposition :: string
  im_Data :: bytes

definition UsersProfileImage ::
  "go_error option \<Rightarrow> go_error option \<Rightarrow> go_error + tg_photo \<Rightarrow> (int \<Rightarrow> int \<Rightarrow> int \<Rightarrow> go_error + bytes) \<Rightarrow> (api_error + image option) option" where
  "UsersProfileImage clientErr runErr self chunk =
     (case clientErr of
        Some e \<Rightarrow> Some (Inl (ApiError e 0))
      | None \<Rightarrow>
     (case runErr of
        Some e \<Rightarrow> Some (Inl (ApiError e 0))
      | None \<Rightarrow>
     (case self of
        Inl e \<Rightarrow> Some (Inl (ApiError e 0))
      | Inr NoPhoto \<Rightarrow> Some (Inr None)
      | Inr EmptyPhoto \<Rightarrow> Some (Inl (ApiError (ErrText ''profile not found'') 0))
      | Inr (Photo photoID) \<Rightarrow>
          map_option (\<lambda>(content, e).
            case e of
              Some e \<Rightarrow> Inl (ApiError e 0)
            | None \<Rightarrow> Inr (Some \<lparr>im_CacheControl = ''public, max-age=86400, must-revalidate'', im_ContentLength = int (length content),
                im_Etag = [CHR 0x22] @ itoa photoID @ [CHR 0x22],
                im_ContentDisposition = ''inline; filename='' @ [CHR 0x22] @ ''profile.jpeg'' @ [CHR 0x22], im_Data = content\<rparr>))
            (GetMediaContent (chunk photoID)))))"

subsection \<open>One current channel\<close>

definition one_selected :: "channel_row list \<Rightarrow> bool" where
  "one_selected rows \<longleftrightarrow> distinct (map ch_ChannelId rows) \<and>
     (\<forall>c \<in> set rows. \<forall>d \<in> set rows. ch_Selected c \<and> ch_Selected d \<and> ch_UserId c = ch_UserId d \<longrightarrow> c = d)"

text \<open>The handlers that touch the channels, where nobody selects a channel of somebody else.\<close>

inductive channel_step :: "(string list \<Rightarrow> 's \<Rightarrow> 's) \<Rightarrow> 's chan_svc \<Rightarrow> 's chan_svc \<Rightarrow> bool" for cdel where
  create: "CreateNewChannel get put fe cdel env userID setDefault v = Some (v', r) \<Longrightarrow> channel_step cdel v v'"
| create_by_user: "UsersCreateChannel get put fe cdel env userID v = Some (v', e) \<Longrightarrow> channel_step cdel v v'"
| select: "UsersUpdateChannel puti now createErr None userId channelId channelName v = (v', e) \<Longrightarrow>
    \<forall>c \<in> set (cs_channels v). ch_ChannelId c = channelId \<longrightarrow> ch_UserId c = userId \<Longrightarrow> channel_step cdel v v'"
| remove: "UsersDeleteChannel denv userId param v = Some (v', e) \<Longrightarrow> channel_step cdel v v'"
| add_bots: "UsersAddBots cdel (aenv :: int \<Rightarrow> tg_channel add_env) createErr listErr userID bots v = Some (v', e') \<Longrightarrow> channel_step cdel v v'"
| remove_bots: "UsersRemoveBots cdel dbErr userId v = (v', e) \<Longrightarrow> channel_step cdel v v'"

lemma upsert_channel_ids: "set (map ch_ChannelId (upsert_channel c rows)) = insert (ch_ChannelId c) (set (map ch_ChannelId rows))"
  by (induction rows) auto

lemma upsert_channel_distinct: "distinct (map ch_ChannelId rows) \<Longrightarrow> distinct (map ch_ChannelId (upsert_channel c rows))"
proof (induction rows)
  case (Cons d ds)
  then show ?case using upsert_channel_ids [of c ds] by auto
qed simp

lemma upsert_channel_mem:
  "distinct (map ch_ChannelId rows) \<Longrightarrow> d \<in> set (upsert_channel c rows) \<Longrightarrow>
     (ch_ChannelId d \<noteq> ch_ChannelId c \<and> d \<in> set rows) \<or>
     (ch_ChannelId d = ch_ChannelId c \<and>
       (ch_UserId d = ch_UserId c \<or> (\<exists>d0 \<in> set rows. ch_ChannelId d0 = ch_ChannelId c \<and> ch_UserId d0 = ch_UserId d)))"
  by (induction rows) (auto simp: image_iff split: if_splits)

lemma one_selectedI:
  assumes "distinct (map ch_ChannelId rows)"
    and "\<And>c d. c \<in> set rows \<Longrightarrow> d \<in> set rows \<Longrightarrow> ch_Selected c \<Longrightarrow> ch_Selected d \<Longrightarrow> ch_UserId c = ch_UserId d \<Longrightarrow> ch_ChannelId c = ch_ChannelId d"
  shows "one_selected rows"
  using assms unfolding one_selected_def distinct_map inj_on_def by blast

lemma one_selectedD: "one_selected rows \<Longrightarrow> c \<in> set rows \<Longrightarrow> d \<in> set rows \<Longrightarrow> ch_Selected c \<Longrightarrow> ch_Selected d \<Longrightarrow>
    ch_UserId c = ch_UserId d \<Longrightarrow> c = d"
  unfolding one_selected_def by blast

lemma select_one:
  assumes "one_selected rows" "\<forall>c \<in> set rows. ch_ChannelId c = channelId \<longrightarrow> ch_UserId c = userId"
  shows "one_selected (map (\<lambda>c. if ch_ChannelId c \<noteq> channelId \<and> ch_UserId c = userId then c\<lparr>ch_Selected := False\<rparr> else c)
    (upsert_channel \<lparr>ch_ChannelId = channelId, ch_ChannelName = name, ch_UserId = userId, ch_Selected = True\<rparr> rows))"
    (is "one_selected (map ?f ?rows)")
proof -
  have d: "distinct (map ch_ChannelId ?rows)" using assms(1) by (intro upsert_channel_distinct) (simp add: one_selected_def)
  have ids: "map ch_ChannelId (map ?f ?rows) = map ch_ChannelId ?rows" by simp
  have sel: "(ch_ChannelId c = channelId \<and> ch_UserId c = userId) \<or> (ch_UserId c \<noteq> userId \<and> ch_ChannelId c \<noteq> channelId \<and> c \<in> set rows)"
    if "c \<in> set (map ?f ?rows)" "ch_Selected c" for c
  proof -
    from that(1) obtain c0 where c0: "c0 \<in> set ?rows" "c = ?f c0" by auto
    with that(2) have "c = c0" "ch_ChannelId c0 = channelId \<or> ch_UserId c0 \<noteq> userId" by (auto split: if_splits)
    moreover have "(ch_ChannelId c0 \<noteq> channelId \<and> c0 \<in> set rows) \<or> (ch_ChannelId c0 = channelId \<and> ch_UserId c0 = userId)"
      using upsert_channel_mem [OF _ c0(1)] assms by (fastforce simp: one_selected_def)
    ultimately show ?thesis using assms(2) by auto
  qed
  show ?thesis
  proof (rule one_selectedI)
    show "distinct (map ch_ChannelId (map ?f ?rows))" unfolding ids by (rule d)
    fix c c' assume c: "c \<in> set (map ?f ?rows)" "ch_Selected c" and c': "c' \<in> set (map ?f ?rows)" "ch_Selected c'"
      and user: "ch_UserId c = ch_UserId c'"
    from sel [OF c] sel [OF c'] user one_selectedD [OF assms(1) _ _ c(2) c'(2)] show "ch_ChannelId c = ch_ChannelId c'" by auto
  qed
qed

lemma insert_channel_one:
  assumes "insert_channel cdel createErr userID newID setDefault v = (v', r)" "one_selected (cs_channels v)"
  shows "one_selected (cs_channels v')"
proof -
  let ?row = "\<lparr>ch_ChannelId = newID, ch_ChannelName = [], ch_UserId = userID, ch_Selected = setDefault\<rparr>"
  let ?f = "\<lambda>c. if ch_UserId c = userID then c\<lparr>ch_Selected := False\<rparr> else c"
  have ids: "map ch_ChannelId (map ?f rows) = map ch_ChannelId rows" for rows by simp
  have "cs_channels v' = cs_channels v \<or> (newID \<notin> set (map ch_ChannelId (cs_channels v)) \<and>
      cs_channels v' = (if setDefault then map ?f (cs_channels v) @ [?row] else cs_channels v @ [?row]))"
    using assms(1) by (auto simp: insert_channel_def Let_def split: if_splits option.splits)
  moreover have "one_selected (map ?f (cs_channels v) @ [?row])" if new: "newID \<notin> set (map ch_ChannelId (cs_channels v))" "setDefault"
  proof -
    have sel: "c = ?row \<or> (ch_UserId c \<noteq> userID \<and> c \<in> set (cs_channels v))"
      if "c \<in> set (map ?f (cs_channels v) @ [?row])" "ch_Selected c" for c
      using that by (auto split: if_splits)
    show ?thesis
    proof (rule one_selectedI)
      show "distinct (map ch_ChannelId (map ?f (cs_channels v) @ [?row]))"
        unfolding map_append ids using assms(2) new by (simp add: one_selected_def)
      fix c d assume c: "c \<in> set (map ?f (cs_channels v) @ [?row])" "ch_Selected c"
        and d: "d \<in> set (map ?f (cs_channels v) @ [?row])" "ch_Selected d" and user: "ch_UserId c = ch_UserId d"
      from sel [OF c] sel [OF d] user one_selectedD [OF assms(2) _ _ c(2) d(2)] show "ch_ChannelId c = ch_ChannelId d" by auto
    qed
  qed
  moreover have "one_selected (cs_channels v @ [?row])" if "newID \<notin> set (map ch_ChannelId (cs_channels v))" "\<not> setDefault"
    using assms(2) that by (auto simp: one_selected_def)
  ultimately show ?thesis using assms(2) by (cases setDefault) auto
qed

lemma creation_one:
  assumes "CreateNewChannel get put fe cdel env userID setDefault v = Some (v', r)" "one_selected (cs_channels v)"
  shows "one_selected (cs_channels v')"
proof -
  have "one_selected (cs_channels w')"
    if "register_channel get put fe cdel env channel userID setDefault w = Some (w', r)" "one_selected (cs_channels w)" for w w' channel
    using that(1)
  proof (cases rule: register_cases)
    case (2 v3)
    with that(2) show ?thesis by (auto intro: insert_channel_one)
  qed (use that in auto)
  then have "one_selected (cs_channels w')"
    if "create_channel get put fe cdel env userID setDefault w = Some (w', r)" "one_selected (cs_channels w)" for w w'
    using that by (auto simp: create_channel_def split: option.split_asm sum.split_asm if_split_asm tg_updates.split_asm)
  then show ?thesis
    using assms
    by (auto simp: CreateNewChannel_def acquireAdvisoryLock_def releaseAdvisoryLock_def Let_def split: option.split_asm if_split_asm)
qed

lemma add_to_channels_tables: "add_to_channels cdel env userID tokens cs v = Some v' \<Longrightarrow> cs_channels v' = cs_channels v"
  by (induction cs arbitrary: v) (auto simp: bind_eq_Some_conv dest: AddBots_tables)

lemma one_selected_filter: "one_selected rows \<Longrightarrow> one_selected (filter P rows)"
  by (auto simp: one_selected_def distinct_map inj_on_def)

interpretation channels: step_invariant "\<lambda>v. cs_channels v = []" "channel_step cdel" "\<lambda>v. one_selected (cs_channels v)"
proof (unfold_locales, goal_cases)
  case (1 v)
  then show ?case by (simp add: one_selected_def)
next
  case (2 v v')
  from 2(2,1) show ?case
  proof (induction rule: channel_step.induct)
    case (create get put fe env userID setDefault v v' r)
    then show ?case by (rule creation_one)
  next
    case (create_by_user get put fe env userID v v' e)
    then obtain r where "CreateNewChannel get put fe cdel env userID False v = Some (v', r)" by (auto simp: UsersCreateChannel_def)
    then show ?case using create_by_user(2) by (rule creation_one)
  next
    case (select puti now createErr userId channelId channelName v v' e)
    then show ?case using select_one [OF select(3,2)] by (auto simp: UsersUpdateChannel_def Let_def split: option.split_asm)
  next
    case (remove denv userId param v v' e)
    then show ?case
      by (auto simp: UsersDeleteChannel_def Let_def one_selected_filter split: option.split_asm sum.split_asm if_split_asm Option.bind_split_asm)
  next
    case (add_bots aenv createErr listErr userID bots v v' e')
    then show ?case by (auto simp: UsersAddBots_def Let_def dest!: add_to_channels_tables split: if_split_asm option.split_asm)
  next
    case (remove_bots dbErr userId v v' e)
    then show ?case by (auto simp: UsersRemoveBots_def split: option.split_asm)
  qed
qed

subsection \<open>Properties\<close>


definition demo_empty :: "(string \<times> bytes \<times> int option) list chan_svc" where
  "demo_empty = demo_chan\<lparr>cs_channels := []\<rparr>"

abbreviation "chan_Set \<equiv> memory_Set (map_store (10 ^ 9)) int_codec"
abbreviation "chan_Get \<equiv> memory_Get (map_store (10 ^ 9)) int_codec"


text \<open>Selecting a channel of somebody else changes it for its owner, who then has two, and for nobody else.\<close>

lemma foreign_selection:
  "cs_channels (fst (UsersUpdateChannel put now None None 2 5 name
     (v\<lparr>cs_channels := [\<lparr>ch_ChannelId = 5, ch_ChannelName = ''a'', ch_UserId = 1, ch_Selected = False\<rparr>,
        \<lparr>ch_ChannelId = 6, ch_ChannelName = ''b'', ch_UserId = 1, ch_Selected = True\<rparr>]\<rparr>))) =
   [\<lparr>ch_ChannelId = 5, ch_ChannelName = ''a'', ch_UserId = 1, ch_Selected = True\<rparr>,
    \<lparr>ch_ChannelId = 6, ch_ChannelName = ''b'', ch_UserId = 1, ch_Selected = True\<rparr>]"
  by (simp add: UsersUpdateChannel_def Let_def)

text \<open>
  A deleted channel stays the current one: deleting the current channel, at Telegram and in the table, does not touch the cache,
  where the channel is kept without a time limit, so that uploads go on asking for it.\<close>

lemma deleted_channel_current:
  assumes "UsersDeleteChannel env userId param v = Some (v', None)" "de_dbErr env = None"
    and "get (sv_cache v) (fe_first fe) (KeyUserChannel userId) = Inr (subject_id param)"
  shows "subject_id param \<notin> set (map ch_ChannelId (cs_channels v')) \<and> CurrentChannel get put fe dbErr userId v' = (v', Inr (subject_id param))"
proof -
  from assms(1,2) have v': "sv_cache v' = sv_cache v" "cs_channels v' = filter (\<lambda>c. ch_ChannelId c \<noteq> subject_id param) (cs_channels v)"
    by (auto simp: UsersDeleteChannel_def Let_def split: option.split_asm sum.split_asm if_split_asm Option.bind_split_asm)
  then have "get (sv_cache v') (fe_first fe) (KeyUserChannel userId) = Inr (subject_id param)" using assms(3) by simp
  with v'(2) show ?thesis by (auto simp: CurrentChannel_def Fetch_def)
qed

lemma deleted_channel_current_witness:
  "\<exists>v1 v2. UsersUpdateChannel chan_Set 1 None None 1 5 ''a'' demo_empty = (v1, None) \<and>
     UsersDeleteChannel \<lparr>de_clientErr = None, de_runErr = None, de_channels = (\<lambda>i. Inr [Channel \<lparr>tc_ID = i, tc_Title = ''a'', tc_AddAdmins = True\<rparr>]),
       de_deleteErr = None, de_dbErr = None, de_peerKey = tc_Title\<rparr> 1 ''5'' v1 = Some (v2, None) \<and>
     snd (CurrentChannel chan_Get chan_Set \<lparr>fe_first = 2, fe_again = 2, fe_store = 2, fe_joined = None, fe_done = None\<rparr> None 1 v2) = Inr 5"
proof -
  let ?denv = "\<lparr>de_clientErr = None, de_runErr = None, de_channels = (\<lambda>i. Inr [Channel \<lparr>tc_ID = i, tc_Title = ''a'', tc_AddAdmins = True\<rparr>]),
       de_deleteErr = None, de_dbErr = None, de_peerKey = tc_Title\<rparr>"
  let ?v1 = "fst (UsersUpdateChannel chan_Set 1 None None 1 5 ''a'' demo_empty)"
  have five: "subject_id ''5'' = 5" by code_simp
  have v1: "UsersUpdateChannel chan_Set 1 None None 1 5 ''a'' demo_empty = (?v1, None)"
    by (simp add: UsersUpdateChannel_def Let_def)
  obtain v2 where v2: "UsersDeleteChannel ?denv 1 ''5'' ?v1 = Some (v2, None)"
    by (simp add: UsersDeleteChannel_def GetChannelFull_def Let_def)
  have "chan_Get (sv_cache ?v1) 2 (KeyUserChannel 1) = Inr 5" by code_simp
  with deleted_channel_current [where get = chan_Get and put = chan_Set and dbErr = None, OF v2, of "\<lparr>fe_first = 2, fe_again = 2, fe_store = 2, fe_joined = None, fe_done = None\<rparr>"]
  have "snd (CurrentChannel chan_Get chan_Set \<lparr>fe_first = 2, fe_again = 2, fe_store = 2, fe_joined = None, fe_done = None\<rparr> None 1 v2) = Inr 5"
    by (simp add: five)
  with v1 v2 show ?thesis by blast
qed



end
