(* ===== verification/Uploads.thy ===== *)
theory Uploads
  imports Channel_Manager Base64 File_Reader Block_Hasher Tg_Helpers
begin

section \<open>Uploading a part (pkg/services/upload.go, getParts in pkg/services/common.go)\<close>

text \<open>
  A client uploads a file in parts. A part goes, encrypted or not, to a channel as a document; its row says where
  it is, with the salt of its key and the hashes of its blocks. The uploader of the Telegram library reads the
  stream to its end. For a download the messages of the parts are fetched and turned into the parts of the reader.
\<close>

definition saltLength :: nat where "saltLength = 32"

definition ErrUploadFailed :: go_error where
  "ErrUploadFailed = ErrText ''upload failed''"

subsection \<open>Rows of uploads\<close>

definition UploadsDelete :: "go_error option \<Rightarrow> string \<Rightarrow> ('s, 'z) svc_scheme \<Rightarrow> ('s, 'z) svc_scheme \<times> api_error option" where
  "UploadsDelete dbErr uploadID v =
     (case dbErr of
        Some e \<Rightarrow> (v, Some (ApiError e 500))
      | None \<Rightarrow> (v\<lparr>sv_uploads := filter (\<lambda>u. up_UploadId u \<noteq> uploadID) (sv_uploads v)\<rparr>, None))"

record upload_part =
  ou_Name :: string
  ou_PartId :: int
  ou_ChannelId :: int
  ou_PartNo :: int
  ou_Size :: int
  ou_Encrypted :: bool
  ou_Salt :: string

definition ToUploadOut :: "upload_row list \<Rightarrow> upload_part list" where
  "ToUploadOut parts = map (\<lambda>u. \<lparr>ou_Name = up_Name u, ou_PartId = up_PartId u, ou_ChannelId = up_ChannelId u, ou_PartNo = up_PartNo u,
     ou_Size = up_Size u, ou_Encrypted = up_Encrypted u, ou_Salt = up_Salt u\<rparr>) parts"

definition UploadsPartsById :: "go_error option \<Rightarrow> int \<Rightarrow> int \<Rightarrow> string \<Rightarrow> ('s, 'z) svc_scheme \<Rightarrow> api_error + upload_part list" where
  "UploadsPartsById dbErr now retention uploadID v =
     (case dbErr of
        Some e \<Rightarrow> Inl (ApiError e 0)
      | None \<Rightarrow> Inr (ToUploadOut (sort_key up_PartNo
          (filter (\<lambda>u. up_UploadId u = uploadID \<and> up_CreatedAt u > now - retention \<and> up_BlockHashes u \<noteq> []) (sv_uploads v)))))"

subsection \<open>Encryption\<close>

record upload_params =
  pa_ID :: string
  pa_PartName :: string
  pa_PartNo :: int
  pa_ChannelId :: int
  pa_ContentLength :: int
  pa_Encrypted :: bool
  pa_Hashing :: bool

datatype upload_stream = PlainStream bytes | EncStream "bytes encrypter"

datatype tg_up_media = UpNoMedia | UpOtherMedia | UpNilDocument | UpEmptyDocument | UpDocument int
datatype tg_up_message = UpEmptyMessage | UpMessage int tg_up_media | UpServiceMessage
datatype tg_up_update = NewChannelMessage "tg_up_message option" | OtherUpdate
datatype tg_up_updates = UpUpdates "tg_up_update list" | UpOtherUpdates

text \<open>What an upload needs: settings, randomness, the cipher's functions, the bots, and Telegram.\<close>

record ('q, 'ch, 'f) upload_env =
  ue_key :: string
  ue_autoCreate :: bool
  ue_limit :: int
  ue_countErr :: "go_error option"
  ue_chanErr :: "go_error option"
  ue_rand :: "go_error + bytes"
  ue_scrypt :: "bytes \<Rightarrow> bytes \<Rightarrow> nat \<Rightarrow> nat \<Rightarrow> nat \<Rightarrow> nat \<Rightarrow> go_error + bytes"
  ue_aes :: "bytes \<Rightarrow> go_error option"
  ue_seal :: "bytes \<Rightarrow> bytes \<Rightarrow> bytes \<Rightarrow> bytes"
  ue_nonce_rd :: "'q rd"
  ue_nonce :: 'q
  ue_sum256 :: "bytes \<Rightarrow> bytes"
  ue_tokensErr :: "go_error option"
  ue_userClient :: "go_error option"
  ue_next :: "string list \<Rightarrow> (go_error + string \<times> int) option"
  ue_botClient :: "string \<Rightarrow> go_error option"
  ue_runErr :: "go_error option"
  ue_channels :: "int \<Rightarrow> go_error + 'ch tg_chat list"
  ue_bufsize :: nat
  ue_upload :: "string \<Rightarrow> bytes \<Rightarrow> int \<Rightarrow> go_error + 'f"
  ue_media :: "'ch \<Rightarrow> 'f \<Rightarrow> go_error + tg_up_updates"
  ue_createErr :: "go_error option"
  ue_now :: int

definition generateRandomSalt :: "go_error + bytes \<Rightarrow> go_error + string" where
  "generateRandomSalt random = map_sum id (\<lambda>bs. b64_encode URLEncoding (take saltLength bs)) random"

definition prepareEncryption :: "('q, 'ch, 'f) upload_env \<Rightarrow> bool \<Rightarrow> bytes \<Rightarrow> int \<Rightarrow> (go_error + upload_stream \<times> int \<times> string) option" where
  "prepareEncryption env encrypted data fileSize =
     (if \<not> encrypted then Some (Inr (PlainStream data, fileSize, []))
      else case generateRandomSalt (ue_rand env) of
        Inl e \<Rightarrow> Some (Inl e)
      | Inr salt \<Rightarrow>
          Option.bind (NewCipher (ue_scrypt env) (ue_aes env) (text_bytes (ue_key env)) (text_bytes salt)) (\<lambda>c.
            case c of
              Inl e \<Rightarrow> Some (Inl e)
            | Inr cipher \<Rightarrow>
                map_option (\<lambda>(_, r). case r of Inl e \<Rightarrow> Inl e | Inr fh \<Rightarrow> Inr (EncStream fh, EncryptedSize fileSize, salt))
                  (EncryptData (ue_nonce_rd env) (ue_nonce env) cipher data)))"

text \<open>What the uploader reads from the stream.\<close>

definition stream_content :: "('q, 'ch, 'f) upload_env \<Rightarrow> upload_stream \<Rightarrow> bytes option" where
  "stream_content env s =
     (case s of
        PlainStream data \<Rightarrow> Some data
      | EncStream fh \<Rightarrow> map_option (\<lambda>(_, out, _). out) (readAll (enc_Read (ue_seal env) bytes_Read) (ue_bufsize env) fh))"

subsection \<open>Telegram\<close>

fun find_message :: "tg_up_update list \<Rightarrow> (int \<times> tg_up_media) option" where
  "find_message [] = None"
| "find_message (NewChannelMessage (Some (UpMessage i m)) # _) = Some (i, m)"
| "find_message (_ # us) = find_message us"

definition uploadToTelegram ::
  "('q, 'ch, 'f) upload_env \<Rightarrow> int \<Rightarrow> upload_params \<Rightarrow> bytes \<Rightarrow> int \<Rightarrow> (go_error + int \<times> tg_up_media) option" where
  "uploadToTelegram env channelId params content fileSize =
     Option.bind (GetChannelById id (ue_channels env channelId)) (\<lambda>ch.
       case ch of
         Inl e \<Rightarrow> Some (Inl e)
       | Inr channel \<Rightarrow>
           (case ue_upload env (pa_PartName params) content fileSize of
              Inl e \<Rightarrow> Some (Inl e)
            | Inr upload \<Rightarrow>
                (case ue_media env channel upload of
                   Inl e \<Rightarrow> Some (Inl e)
                 | Inr UpOtherUpdates \<Rightarrow> None
                 | Inr (UpUpdates us) \<Rightarrow>
                     Some (case find_message us of
                        None \<Rightarrow> Inl (ErrText ''upload failed: invalid message ID 0 from telegram'')
                      | Some (i, m) \<Rightarrow>
                          if i = 0 then Inl (ErrText ''upload failed: invalid message ID 0 from telegram'') else Inr (i, m)))))"

definition msgDocument :: "(int \<times> tg_up_media) option \<Rightarrow> int option" where
  "msgDocument m = (case m of Some (_, UpDocument sz) \<Rightarrow> Some sz | _ \<Rightarrow> None)"

text \<open>The client of an upload: the user's own, or that of the next bot; with the bot's token.\<close>

definition getUploadClient ::
  "('s, string list) cache_get \<Rightarrow> ('s, string list) cache_set \<Rightarrow> string list fetch_env \<Rightarrow> ('q, 'ch, 'f) upload_env \<Rightarrow> int \<Rightarrow>
   's chan_svc \<Rightarrow> 's chan_svc \<times> (go_error + string \<times> int \<times> string) option" where
  "getUploadClient get put fe env userId v =
     (case BotTokens get put fe (ue_tokensErr env) userId v of
        (v', Inl e) \<Rightarrow> (v', Some (Inl e))
      | (v', Inr tokens) \<Rightarrow>
          (v', if tokens = [] then
                 Some (case ue_userClient env of Some e \<Rightarrow> Inl e | None \<Rightarrow> Inr ([], 0, itoa userId))
               else map_option (\<lambda>r. case r of
                   Inl e \<Rightarrow> Inl e
                 | Inr (token, index) \<Rightarrow>
                     (case ue_botClient env token of Some e \<Rightarrow> Inl e | None \<Rightarrow> Inr (token, index, hd (split_on CHR '':'' token))))
                 (ue_next env tokens)))"

text \<open>The channel: the one named, or the current one, or, when there is none or it is full, a new one.\<close>

definition upload_channel ::
  "('s, int) cache_get \<Rightarrow> ('s, int) cache_set \<Rightarrow> int fetch_env \<Rightarrow> ('s, string list) cache_get \<Rightarrow> ('s, string list) cache_set \<Rightarrow>
   string list fetch_env \<Rightarrow> (string list \<Rightarrow> 's \<Rightarrow> 's) \<Rightarrow> create_env \<Rightarrow> ('q, 'ch, 'f) upload_env \<Rightarrow> int \<Rightarrow> int \<Rightarrow> 's chan_svc \<Rightarrow>
   ('s chan_svc \<times> (go_error + int)) option" where
  "upload_channel geti puti fei gett putt fet cdel cenv env userId channelId v =
     (if channelId \<noteq> 0 then Some (v, Inr channelId)
      else
        let (v1, r) = CurrentChannel geti puti fei (ue_chanErr env) userId v in
        case r of
          Inl e \<Rightarrow> if e \<noteq> ErrNoDefaultChannel then Some (v1, Inl e) else CreateNewChannel gett putt fet cdel cenv userId True v1
        | Inr c \<Rightarrow>
            if ue_autoCreate env \<and> ChannelLimitReached (ue_countErr env) (ue_limit env) c (sv_files v1)
            then CreateNewChannel gett putt fet cdel cenv userId True v1
            else Some (v1, Inr c))"

definition store_part ::
  "('q, 'ch, 'f) upload_env \<Rightarrow> upload_params \<Rightarrow> bytes \<Rightarrow> int \<Rightarrow> int \<Rightarrow> 's chan_svc \<Rightarrow> ('s chan_svc \<times> (go_error + upload_part)) option" where
  "store_part env params data userId channelId v =
     Option.bind (prepareEncryption env (pa_Encrypted params) data (pa_ContentLength params)) (\<lambda>r.
       case r of
         Inl e \<Rightarrow> Some (v, Inl e)
       | Inr (fileStream, fileSize, salt) \<Rightarrow>
           Option.bind (stream_content env fileStream) (\<lambda>content.
           Option.bind (uploadToTelegram env channelId params content fileSize) (\<lambda>m.
             let message = (case m of Inl _ \<Rightarrow> None | Inr x \<Rightarrow> Some x) in
             case msgDocument message of
               None \<Rightarrow> Some (v, Inl ErrUploadFailed)
             | Some docSize \<Rightarrow>
                 if docSize = 0 \<and> docSize \<noteq> fileSize then Some (v, Inl ErrUploadFailed)
                 else case ue_createErr env of
                   Some e \<Rightarrow> Some (v, Inl e)
                 | None \<Rightarrow>
                     let row = \<lparr>up_UploadId = pa_ID params, up_UserId = userId, up_Name = pa_PartName params, up_PartNo = pa_PartNo params,
                           up_PartId = fst (the message), up_Encrypted = pa_Encrypted params, up_Salt = salt,
                           up_BlockHashes = (if pa_Hashing params then block_sums BlockSize (ue_sum256 env) data else []),
                           up_ChannelId = channelId, up_Size = fileSize, up_CreatedAt = ue_now env\<rparr>
                     in Some (v\<lparr>sv_uploads := sv_uploads v @ [row]\<rparr>, Inr (hd (ToUploadOut [row]))))))"

definition UploadsUpload ::
  "('s, int) cache_get \<Rightarrow> ('s, int) cache_set \<Rightarrow> int fetch_env \<Rightarrow> ('s, string list) cache_get \<Rightarrow> ('s, string list) cache_set \<Rightarrow>
   string list fetch_env \<Rightarrow> (string list \<Rightarrow> 's \<Rightarrow> 's) \<Rightarrow> create_env \<Rightarrow> ('q, 'ch, 'f) upload_env \<Rightarrow> upload_params \<Rightarrow> bytes \<Rightarrow> int \<Rightarrow>
   's chan_svc \<Rightarrow> ('s chan_svc \<times> (api_error + upload_part)) option" where
  "UploadsUpload geti puti fei gett putt fet cdel cenv env params data userId v =
     (if pa_Encrypted params \<and> ue_key env = [] then Some (v, Inl (ApiError (ErrText ''encryption is not enabled'') 400))
      else
        Option.bind (upload_channel geti puti fei gett putt fet cdel cenv env userId (pa_ChannelId params) v) (\<lambda>(v1, r).
          case r of
            Inl e \<Rightarrow> Some (v1, Inl (ApiError e 0))
          | Inr channelId \<Rightarrow>
              let (v2, c) = getUploadClient gett putt fet env userId v1 in
              Option.bind c (\<lambda>c. case c of
                Inl e \<Rightarrow> Some (v2, Inl (ApiError e 0))
              | Inr _ \<Rightarrow>
                  (case ue_runErr env of
                     Some e \<Rightarrow> Some (v2, Inl (ApiError e 0))
                   | None \<Rightarrow>
                       map_option (\<lambda>(v3, r). (v3, map_sum (\<lambda>e. ApiError e 0) id r)) (store_part env params data userId channelId v2)))))"

subsection \<open>The parts of a file\<close>

record 'loc tg_file =
  tf_Size :: int
  tf_Location :: 'loc

fun build_parts :: "bool option \<Rightarrow> api_part list \<Rightarrow> 'loc tg_file tg_message list \<Rightarrow> (part \<times> 'loc) list option" where
  "build_parts enc fileParts [] = Some []"
| "build_parts enc fileParts (m # ms) =
     (case m of
        Message (MediaDocument (TgDocument d)) \<Rightarrow>
          (case fileParts of
             [] \<Rightarrow> None
           | fp # fps \<Rightarrow>
               Option.bind enc (\<lambda>encrypted.
                 map_option ((#) (\<lparr>p_ID = pt_ID fp, p_Size = tf_Size d,
                     p_DecryptedSize = (if encrypted then fst (DecryptedSize (tf_Size d)) else 0), p_Salt = text_bytes (pt_Salt fp)\<rparr>, tf_Location d))
                   (build_parts enc fps ms)))
      | _ \<Rightarrow> build_parts enc (drop 1 fileParts) ms)"

text \<open>
  A fetch whose function works on the state; here it primes the cache of locations. It is \<open>Fetch\<close> when the
  function leaves the state alone.
\<close>

definition Fetch_with ::
  "('s, 'v) cache_get \<Rightarrow> ('s, 'v) cache_set \<Rightarrow> 'v fetch_env \<Rightarrow> string \<Rightarrow> int \<Rightarrow> ('s \<Rightarrow> ('s \<times> (go_error + 'v)) option) \<Rightarrow> 's \<Rightarrow>
   ('s \<times> (go_error + 'v)) option" where
  "Fetch_with get put env key expiration fn s =
     (case get s (fe_first env) key of
        Inr v \<Rightarrow> Some (s, Inr v)
      | Inl err \<Rightarrow>
          if \<not> isNotFound err then Some (s, Inl err)
          else (case fe_joined env of
            Some r \<Rightarrow> Some (s, waitSingleflight env key r)
          | None \<Rightarrow>
              (case get s (fe_again env) key of
                 Inr v \<Rightarrow> Some (s, waitSingleflight env key (Inr (Some v)))
               | Inl _ \<Rightarrow>
                   map_option (\<lambda>(s1, r). (case r of Inl _ \<Rightarrow> s1 | Inr v \<Rightarrow> store_fresh put (fe_store env) key expiration s1 v,
                       waitSingleflight env key (map_sum id Some r))) (fn s))))"

lemma Fetch_with_pure: "Fetch_with get put env key ttl (\<lambda>s. Some (s, r)) s = Some (Fetch get put env key ttl r s)"
  by (auto simp: Fetch_with_def Fetch_def do_flight_def cache_flight_def split: sum.splits option.splits)

definition getParts ::
  "('s, part list) cache_get \<Rightarrow> ('s, part list) cache_set \<Rightarrow> ('s, 'loc) cache_set \<Rightarrow> part list fetch_env \<Rightarrow>
   (int list \<Rightarrow> int \<Rightarrow> go_error + 'loc tg_file tg_message list) \<Rightarrow> file_row \<Rightarrow> string \<Rightarrow> string \<Rightarrow> 's \<Rightarrow> ('s \<times> (go_error + part list)) option" where
  "getParts get put putl fe messages f inst botID c =
     Fetch_with get put fe (KeyFileMessages (fr_ID f)) (60 * 60 * 10 ^ 9) (\<lambda>c.
       Option.bind (fr_Parts f) (\<lambda>fileParts.
       Option.bind (fr_ChannelId f) (\<lambda>channelId.
         case messages (map pt_ID fileParts) channelId of
           Inl e \<Rightarrow> Some (c, Inl e)
         | Inr ms \<Rightarrow>
             map_option (\<lambda>ps.
               (fold (\<lambda>(p, loc) c. fst (putl c (fe_store fe) (KeyFileLocation inst botID (fr_ID f) (KInt (p_ID p))) loc (30 * 60 * 10 ^ 9))) ps c,
                if length ps \<noteq> length fileParts then Inl (ErrText ''file parts mismatch'') else Inr (map fst ps)))
               (build_parts (fr_Encrypted f) fileParts ms)))) c"

subsection \<open>What a successful upload has stored\<close>

definition upload_content :: "('q, 'ch, 'f) upload_env \<Rightarrow> upload_params \<Rightarrow> bytes \<Rightarrow> bytes option" where
  "upload_content env params data =
     Option.bind (prepareEncryption env (pa_Encrypted params) data (pa_ContentLength params)) (\<lambda>r.
       case r of Inl _ \<Rightarrow> None | Inr (fileStream, _, _) \<Rightarrow> stream_content env fileStream)"

lemma store_part_Inr:
  assumes "store_part env params data userId channelId v = Some (v', Inr out)"
  obtains stream content where
    "prepareEncryption env (pa_Encrypted params) data (pa_ContentLength params) = Some (Inr (stream, ou_Size out, ou_Salt out))"
    "stream_content env stream = Some content" "upload_content env params data = Some content" "ou_ChannelId out = channelId"
proof -
  from assms obtain r where prep: "prepareEncryption env (pa_Encrypted params) data (pa_ContentLength params) = Some r"
    by (auto simp: store_part_def bind_eq_Some_conv)
  show ?thesis
  proof (cases r)
    case (Inl e)
    with assms prep show ?thesis by (simp add: store_part_def)
  next
    case (Inr x)
    obtain stream sz salt where x: "x = (stream, sz, salt)" by (cases x)
    with assms prep Inr obtain content m where content: "stream_content env stream = Some content"
      and m: "uploadToTelegram env channelId params content sz = Some m"
      by (auto simp: store_part_def bind_eq_Some_conv)
    have "ou_Size out = sz \<and> ou_Salt out = salt \<and> ou_ChannelId out = channelId"
      using assms prep Inr x content m
      by (auto simp: store_part_def ToUploadOut_def Let_def split: option.split_asm if_split_asm)
    with that [of stream content] prep Inr x content show ?thesis by (simp add: upload_content_def)
  qed
qed

lemma map_sum_Inr: "map_sum f g x = Inr y \<longleftrightarrow> (\<exists>z. x = Inr z \<and> y = g z)"
  by (cases x) auto

lemma upload_channel_parts:
  assumes "UploadsUpload geti puti fei gett putt fet cdel cenv env params data userId v = Some (v', Inr out)"
  obtains channelId w where "store_part env params data userId channelId w = Some (v', Inr out)"
proof -
  from assms obtain v1 channelId v2 c where "store_part env params data userId channelId v2 = Some (v', Inr out)"
    by (auto simp: UploadsUpload_def Let_def map_sum_Inr split: if_split_asm sum.split_asm option.split_asm prod.split_asm Option.bind_split_asm)
  then show ?thesis by (rule that)
qed

lemma encrypted_content:
  assumes rnd: "io_reader (ue_nonce_rd env) rrest rok rrank" "rok (ue_nonce env)" "fileNonceSize \<le> length (rrest (ue_nonce env))"
    and box: "secretbox_ok (ue_seal env) opn" and k: "0 < ue_bufsize env" and len: "int (length data) < max_plain"
    and prep: "prepareEncryption env True data (int (length data)) = Some (Inr (stream, sz, salt))"
  obtains c n where "NewCipher (ue_scrypt env) (ue_aes env) (text_bytes (ue_key env)) (text_bytes salt) = Some (Inr c)" "length n = fileNonceSize"
    "stream_content env stream = Some (enc_file (ue_seal env) (dataKey c) n data)"
    "sz = int (length (enc_file (ue_seal env) (dataKey c) n data))"
proof -
  from prep obtain s where s: "generateRandomSalt (ue_rand env) = Inr s" by (auto simp: prepareEncryption_def split: sum.split_asm)
  with prep obtain x where x: "NewCipher (ue_scrypt env) (ue_aes env) (text_bytes (ue_key env)) (text_bytes s) = Some x"
    by (auto simp: prepareEncryption_def bind_eq_Some_conv)
  with prep s obtain c where c: "x = Inr c" by (cases x) (auto simp: prepareEncryption_def)
  with prep s x obtain rnd' y where y: "EncryptData (ue_nonce_rd env) (ue_nonce env) c data = Some (rnd', y)"
    by (auto simp: prepareEncryption_def)
  with prep s x c obtain fh where fh: "EncryptData (ue_nonce_rd env) (ue_nonce env) c data = Some (rnd', Inr fh)" "stream = EncStream fh"
    "sz = EncryptedSize (int (length data))" and salt: "s = salt" by (cases y) (auto simp: prepareEncryption_def)
  have c: "NewCipher (ue_scrypt env) (ue_aes env) (text_bytes (ue_key env)) (text_bytes salt) = Some (Inr c)" using x c salt by simp
  let ?n = "take fileNonceSize (rrest (ue_nonce env))"
  from EncryptData_spec [OF mem.io_reader_axioms TrueI rnd box k, of c data] fh obtain fh' where
    "readAll (enc_Read (ue_seal env) bytes_Read) (ue_bufsize env) fh = Some (fh', enc_file (ue_seal env) (dataKey c) ?n data, Some EOF)"
    by (auto simp: enc_file_def)
  then have content: "stream_content env stream = Some (enc_file (ue_seal env) (dataKey c) ?n data)"
    using fh(2) by (simp add: stream_content_def)
  have n: "length ?n = fileNonceSize" using rnd(3) by simp
  have "EncryptedSize (int (length data)) = int (fileHeaderSize + length (enc_blocks (ue_seal env) (dataKey c) ?n data))"
    using box len by (intro EncryptedSize_length) (simp_all add: secretbox_ok_def)
  also have "\<dots> = int (length (enc_file (ue_seal env) (dataKey c) ?n data))" using n by (simp add: enc_file_def)
  finally show ?thesis using that [OF c n content] fh(3) by simp
qed

text \<open>The part that a download makes of the message of an upload holds the uploaded data.\<close>

lemma upload_part_stored:
  assumes up: "UploadsUpload geti puti fei gett putt fet cdel cenv env params data userId v = Some (v', Inr out)"
    and env: "text_bytes (ue_key env) = fe_key renv" "ue_scrypt env = fe_scrypt renv" "ue_aes env = fe_aes renv" "0 < ue_bufsize env"
      "secretbox_ok (ue_seal env) (fe_opn renv)"
    and rnd: "io_reader (ue_nonce_rd env) rrest rok rrank" "rok (ue_nonce env)" "fileNonceSize \<le> length (rrest (ue_nonce env))"
    and params: "pa_ContentLength params = int (length data)" "int (length data) < max_plain"
    and kept: "upload_content env params data = Some content" "serves (fe_chunks renv ch (ou_PartId out)) content"
  shows "part_stored renv (ue_seal env) (pa_Encrypted params) ch
    \<lparr>p_ID = ou_PartId out, p_Size = int (length content),
     p_DecryptedSize = (if pa_Encrypted params then fst (DecryptedSize (int (length content))) else 0), p_Salt = text_bytes (ou_Salt out)\<rparr> data"
proof -
  from up obtain channelId w where "store_part env params data userId channelId w = Some (v', Inr out)" by (rule upload_channel_parts)
  then obtain stream where prep: "prepareEncryption env (pa_Encrypted params) data (int (length data)) = Some (Inr (stream, ou_Size out, ou_Salt out))"
    and content: "stream_content env stream = Some content" using kept(1) params(1) by (elim store_part_Inr) auto
  show ?thesis
  proof (cases "pa_Encrypted params")
    case False
    with prep content have "content = data" by (auto simp: prepareEncryption_def stream_content_def)
    with False kept show ?thesis by (simp add: part_stored_def)
  next
    case True
    with prep have "prepareEncryption env True data (int (length data)) = Some (Inr (stream, ou_Size out, ou_Salt out))" by simp
    then obtain c n where cn: "NewCipher (ue_scrypt env) (ue_aes env) (text_bytes (ue_key env)) (text_bytes (ou_Salt out)) = Some (Inr c)"
      "length n = fileNonceSize" "content = enc_file (ue_seal env) (dataKey c) n data"
      by (rule encrypted_content [OF rnd env(5,4) params(2)]) (use content in auto)
    have "int (length content) = EncryptedSize (int (length data))"
      using EncryptedSize_length [of "ue_seal env" data "dataKey c" n] env(5) params(2) cn(2,3) by (simp add: enc_file_def secretbox_ok_def)
    then have "DecryptedSize (int (length content)) = (int (length data), None)" using params(2) by (simp add: DecryptedSize_EncryptedSize)
    with True cn env kept params(2) show ?thesis unfolding part_stored_def by auto
  qed
qed

lemma build_parts_all:
  assumes "length fileParts = length ms" "\<And>i. i < length ms \<Longrightarrow> ms ! i = Message (MediaDocument (TgDocument (d i)))"
  shows "build_parts (Some enc) fileParts ms = Some (map (\<lambda>i. (\<lparr>p_ID = pt_ID (fileParts ! i), p_Size = tf_Size (d i),
      p_DecryptedSize = (if enc then fst (DecryptedSize (tf_Size (d i))) else 0), p_Salt = text_bytes (pt_Salt (fileParts ! i))\<rparr>, tf_Location (d i)))
      [0..<length ms])"
  using assms
proof (induction ms arbitrary: fileParts d)
  case (Cons m ms)
  then obtain fp fps where fp: "fileParts = fp # fps" by (cases fileParts) auto
  have "m = Message (MediaDocument (TgDocument (d 0)))" using Cons.prems(2) [of 0] by simp
  moreover have "build_parts (Some enc) fps ms = Some (map (\<lambda>i. (\<lparr>p_ID = pt_ID (fps ! i), p_Size = tf_Size (d (Suc i)),
      p_DecryptedSize = (if enc then fst (DecryptedSize (tf_Size (d (Suc i)))) else 0), p_Salt = text_bytes (pt_Salt (fps ! i))\<rparr>, tf_Location (d (Suc i))))
      [0..<length ms])"
    using Cons.prems fp by (intro Cons.IH) fastforce+
  ultimately show ?case by (simp add: fp upt_conv_Cons map_Suc_upt [symmetric] comp_def del: upt_Suc)
qed simp

subsection \<open>Properties\<close>


definition demo_upload :: "(bytes, unit, unit) upload_env" where
  "demo_upload = \<lparr>ue_key = ''k'', ue_autoCreate = False, ue_limit = 10, ue_countErr = None, ue_chanErr = None,
     ue_rand = Inr (replicate 32 0), ue_scrypt = (\<lambda>_ _ _ _ _ n. Inr (replicate n 0)), ue_aes = (\<lambda>_. None), ue_seal = toy_seal,
     ue_nonce_rd = bytes_Read, ue_nonce = replicate 24 7, ue_sum256 = id, ue_tokensErr = None, ue_userClient = None,
     ue_next = (\<lambda>_. None), ue_botClient = (\<lambda>_. None), ue_runErr = None, ue_channels = (\<lambda>_. Inr [Channel ()]), ue_bufsize = 5,
     ue_upload = (\<lambda>_ _ _. Inr ()), ue_media = (\<lambda>_ _. Inr (UpUpdates [OtherUpdate, NewChannelMessage (Some (UpMessage 1 (UpDocument 51)))])),
     ue_createErr = None, ue_now = 5\<rparr>"

definition demo_params :: upload_params where
  "demo_params = \<lparr>pa_ID = ''u'', pa_PartName = ''p'', pa_PartNo = 1, pa_ChannelId = 9, pa_ContentLength = 3, pa_Encrypted = True, pa_Hashing = False\<rparr>"

definition demo_quiet :: "'v fetch_env" where
  "demo_quiet = \<lparr>fe_first = 0, fe_again = 0, fe_store = 0, fe_joined = None, fe_done = None\<rparr>"

definition demo_renv :: file_env where
  "demo_renv = (demo_env [[], demo_ct [1, 2, 3]])\<lparr>fe_key := text_bytes ''k''\<rparr>"

lemma demo_prepared:
  "\<exists>fh. prepareEncryption demo_upload True [1, 2, 3] 3 = Some (Inr (EncStream fh, EncryptedSize 3, b64_encode URLEncoding (replicate 32 0))) \<and>
    stream_content demo_upload (EncStream fh) = Some (demo_ct [1, 2, 3])"
proof -
  have "NewCipher (ue_scrypt demo_upload) (ue_aes demo_upload) key salt = Some (Inr demo_cipher)" for key salt
    using demo_NewCipher [of "[]" key salt] by (simp add: demo_upload_def demo_env_def)
  moreover obtain rnd' fh fh' where "EncryptData bytes_Read (replicate 24 7) demo_cipher [1, 2, 3] = Some (rnd', Inr fh)"
    "readAll (enc_Read toy_seal bytes_Read) 5 fh = Some (fh', demo_ct [1, 2, 3], Some EOF)"
    using EncryptData_spec [OF mem.io_reader_axioms TrueI mem.io_reader_axioms TrueI _ toy_box, of "replicate 24 7" 5 demo_cipher "[1, 2, 3]"]
    by (auto simp: demo_ct_def enc_file_def)
  ultimately show ?thesis
    by (auto simp: prepareEncryption_def stream_content_def generateRandomSalt_def saltLength_def demo_upload_def)
qed

lemma demo_uploaded:
  "\<exists>v' out. UploadsUpload geti puti fei (\<lambda>s t k. Inr []) putt fet cdel cenv demo_upload demo_params [1, 2, 3] 1 demo_chan = Some (v', Inr out) \<and>
    ou_PartId out = 1"
proof -
  obtain fh where fh: "prepareEncryption demo_upload True [1, 2, 3] 3 = Some (Inr (EncStream fh, EncryptedSize 3, b64_encode URLEncoding (replicate 32 0)))"
    "stream_content demo_upload (EncStream fh) = Some (demo_ct [1, 2, 3])" using demo_prepared by blast
  have "uploadToTelegram demo_upload 9 demo_params c n = Some (Inr (1, UpDocument 51))" for c n
    by (simp add: uploadToTelegram_def demo_upload_def GetChannelById_def GetChannelFull_def)
  moreover have field: "ue_createErr demo_upload = None" by (simp add: demo_upload_def)
  ultimately have "\<exists>v' out. store_part demo_upload demo_params [1, 2, 3] 1 9 v = Some (v', Inr out) \<and> ou_PartId out = 1" for v :: "'a chan_svc"
    using fh
    by (simp add: store_part_def demo_params_def msgDocument_def ToUploadOut_def Let_def field)
  then show ?thesis
    by (fastforce simp: UploadsUpload_def upload_channel_def getUploadClient_def BotTokens_def Fetch_def demo_params_def demo_upload_def)
qed


end
