(* ===== verification/Cron.thy ===== *)
theory Cron
  imports Login Tg_Helpers Events
begin

section \<open>Cron jobs (pkg/cron/cron.go)\<close>

text \<open>
  Three jobs clean up: files marked for deletion and abandoned uploads, whose messages are deleted first, with the newest
  session of their user, and then their rows; and old events. A fourth one stores the sizes of the folders.
  The queries group the rows by channel, user and session; the database gives the groups in any order
  (\<open>cn_fileOrder\<close>, \<open>cn_uploadOrder\<close>). A user without a session has the empty one, the scanned \<^verbatim>\<open>NULL\<close>. The result of a job is
  the new state and the deletions sent to Telegram; \<open>None\<close> is the panic of a client that could not be made.
\<close>

subsection \<open>The queries\<close>

definition newest_sessions :: "session list \<Rightarrow> int \<Rightarrow> string list" where
  "newest_sessions sessions u =
     map ss_Session (filter (\<lambda>s. ss_UserId s = u \<and> (\<forall>t \<in> set sessions. ss_UserId t = u \<longrightarrow> ss_CreatedAt t \<le> ss_CreatedAt s)) sessions)"

definition session_join :: "user_row list \<Rightarrow> session list \<Rightarrow> int \<Rightarrow> string list" where
  "session_join users sessions u =
     (if u \<in> set (map us_UserId users) then (case newest_sessions sessions u of [] \<Rightarrow> [[]] | ss \<Rightarrow> ss) else [[]])"

definition group_rows :: "('r \<Rightarrow> 'k) \<Rightarrow> 'r list \<Rightarrow> ('k \<times> 'r list) list" where
  "group_rows key rows = map (\<lambda>k. (k, filter (\<lambda>r. key r = k) rows)) (remdups (map key rows))"

definition joined :: "('r \<Rightarrow> int) \<Rightarrow> 's auth_svc \<Rightarrow> 'r list \<Rightarrow> ('r \<times> string) list" where
  "joined user v rows = concat (map (\<lambda>r. map (Pair r) (session_join (as_users v) (as_sessions v) (user r))) rows)"

definition pending_files :: "'s auth_svc \<Rightarrow> ((int option \<times> int \<times> string) \<times> (file_row \<times> string) list) list" where
  "pending_files v = group_rows (\<lambda>(f, s). (fr_ChannelId f, fr_UserId f, s))
     (joined fr_UserId v (filter (\<lambda>f. fr_Type f = ''file'' \<and> fr_Status f = ''pending_deletion'') (sv_files v)))"

definition old_uploads :: "int \<Rightarrow> 's auth_svc \<Rightarrow> ((int \<times> int \<times> string) \<times> (upload_row \<times> string) list) list" where
  "old_uploads before v = group_rows (\<lambda>(u, s). (up_ChannelId u, up_UserId u, s))
     (joined up_UserId v (filter (\<lambda>u. up_CreatedAt u < before) (sv_uploads v)))"

subsection \<open>Cleaning\<close>

record 'c clean_env =
  cn_queryErr :: "go_error option"
  cn_fileOrder :: "((int option \<times> int \<times> string) \<times> (file_row \<times> string) list) list \<Rightarrow> ((int option \<times> int \<times> string) \<times> (file_row \<times> string) list) list"
  cn_uploadOrder :: "((int \<times> int \<times> string) \<times> (upload_row \<times> string) list) list \<Rightarrow> ((int \<times> int \<times> string) \<times> (upload_row \<times> string) list) list"
  cn_client :: "string \<Rightarrow> go_error option"
  cn_channel :: "string \<Rightarrow> int \<Rightarrow> go_error + 'c"
  cn_api :: "'c \<Rightarrow> int list \<Rightarrow> go_error option"
  cn_seen :: "nat \<Rightarrow> nat"
  cn_first :: "go_error list \<Rightarrow> go_error"
  cn_deleteErr :: "go_error option"
  cn_now :: int
  cn_retention :: int

definition row_parts :: "file_row \<Rightarrow> int list" where
  "row_parts f = (case fr_Parts f of None \<Rightarrow> [] | Some ps \<Rightarrow> map pt_ID ps)"

definition row_channel :: "int option \<Rightarrow> int" where
  "row_channel c = (case c of None \<Rightarrow> 0 | Some i \<Rightarrow> i)"

definition delete_request :: "'c clean_env \<Rightarrow> string \<Rightarrow> int \<Rightarrow> int list \<Rightarrow> (int list list \<times> go_error option) option" where
  "delete_request env session channelId ids =
     (if cn_client env session \<noteq> None then None
      else Some (DeleteMessages (cn_channel env session channelId) (cn_api env) (cn_seen env) (cn_first env) ids))"

definition remove_files :: "go_error option \<Rightarrow> string list \<Rightarrow> 's auth_svc \<Rightarrow> 's auth_svc" where
  "remove_files dbErr fileIds v =
     (case dbErr of
        Some e \<Rightarrow> v
      | None \<Rightarrow> (let rows = filter (\<lambda>f. fr_ID f \<notin> set fileIds) (sv_files v)
                 in v\<lparr>sv_files := rows, sv_shares := cascade_shares rows (sv_shares v)\<rparr>))"

fun clean_file_groups ::
  "'c clean_env \<Rightarrow> ((int option \<times> int \<times> string) \<times> (file_row \<times> string) list) list \<Rightarrow> 's auth_svc \<Rightarrow> ('s auth_svc \<times> (int \<times> int list list) list) option" where
  "clean_file_groups env [] v = Some (v, [])"
| "clean_file_groups env (((channel, _, session), files) # gs) v =
     (if session = [] then Some (v, [])
      else Option.bind (delete_request env session (row_channel channel) (concat (map (row_parts \<circ> fst) files))) (\<lambda>(batches, err).
        case err of
          Some e \<Rightarrow> Some (v, [(row_channel channel, batches)])
        | None \<Rightarrow>
            map_option (\<lambda>(v', log). (v', (row_channel channel, batches) # log))
              (clean_file_groups env gs (remove_files (cn_deleteErr env) (map (fr_ID \<circ> fst) files) v))))"

definition cleanFiles :: "'c clean_env \<Rightarrow> 's auth_svc \<Rightarrow> ('s auth_svc \<times> (int \<times> int list list) list) option" where
  "cleanFiles env v =
     (case cn_queryErr env of Some e \<Rightarrow> Some (v, []) | None \<Rightarrow> clean_file_groups env (cn_fileOrder env (pending_files v)) v)"

definition remove_uploads :: "go_error option \<Rightarrow> int list \<Rightarrow> int \<Rightarrow> int \<Rightarrow> 's auth_svc \<Rightarrow> 's auth_svc" where
  "remove_uploads dbErr parts channelId userId v =
     (case dbErr of
        Some e \<Rightarrow> v
      | None \<Rightarrow> v\<lparr>sv_uploads := filter (\<lambda>u. \<not> (up_PartId u \<in> set parts \<and> up_ChannelId u = channelId \<and> up_UserId u = userId)) (sv_uploads v)\<rparr>)"

fun clean_upload_groups ::
  "'c clean_env \<Rightarrow> ((int \<times> int \<times> string) \<times> (upload_row \<times> string) list) list \<Rightarrow> 's auth_svc \<Rightarrow> ('s auth_svc \<times> (int \<times> int list list) list) option" where
  "clean_upload_groups env [] v = Some (v, [])"
| "clean_upload_groups env (((channel, user, session), ups) # gs) v =
     (let parts = map (up_PartId \<circ> fst) ups in
      Option.bind (if session \<noteq> [] \<and> parts \<noteq> [] then delete_request env session channel parts else Some ([], None)) (\<lambda>(batches, err).
        case err of
          Some e \<Rightarrow> Some (v, [(channel, batches)])
        | None \<Rightarrow>
            map_option (\<lambda>(v', log). (v', (channel, batches) # log))
              (clean_upload_groups env gs (remove_uploads (cn_deleteErr env) parts channel user v))))"

definition cleanUploads :: "'c clean_env \<Rightarrow> 's auth_svc \<Rightarrow> ('s auth_svc \<times> (int \<times> int list list) list) option" where
  "cleanUploads env v =
     (case cn_queryErr env of
        Some e \<Rightarrow> Some (v, [])
      | None \<Rightarrow> clean_upload_groups env (cn_uploadOrder env (old_uploads (cn_now env - cn_retention env) v)) v)"

definition cleanOldEvents :: "go_error option \<Rightarrow> int \<Rightarrow> 'src event list \<Rightarrow> 'src event list" where
  "cleanOldEvents dbErr now evs =
     (case dbErr of Some e \<Rightarrow> evs | None \<Rightarrow> filter (\<lambda>e. \<not> ev_CreatedAt e < now - 5 * 24 * 3600 * 10 ^ 9) evs)"

subsection \<open>Sizes of folders\<close>

text \<open>
  The recursive query pairs every folder with the entries below it, level by level as in \<open>target_folders\<close>; a folder
  with no active file below it has no row in \<open>folder_sizes\<close> and keeps its size.\<close>

definition counted :: "file_row \<Rightarrow> bool" where
  "counted f \<longleftrightarrow> fr_Type f = ''file'' \<and> active f"

definition size_or_0 :: "file_row \<Rightarrow> int" where
  "size_or_0 f = (case fr_Size f of None \<Rightarrow> 0 | Some n \<Rightarrow> n)"

definition folder_sizes :: "file_row list \<Rightarrow> string \<Rightarrow> int option option" where
  "folder_sizes rows root =
     map_option (\<lambda>hierarchy.
       let hits = concat (map (\<lambda>i. filter (\<lambda>f. fr_ID f = i \<and> counted f) rows) hierarchy)
       in if hits = [] then None else Some (sum_list (map size_or_0 hits)))
     (target_folders rows [root])"

definition updateFolderSize :: "file_row list \<Rightarrow> file_row list option" where
  "updateFolderSize rows =
     those (map (\<lambda>f. if fr_Type f \<noteq> ''folder'' then Some f
                     else map_option (\<lambda>s. case s of None \<Rightarrow> f | Some n \<Rightarrow> f\<lparr>fr_Size := Some n\<rparr>) (folder_sizes rows (fr_ID f))) rows)"

subsection \<open>Each entry of a tree is met once\<close>

lemma below_trans: "below rows i j \<Longrightarrow> below rows j k \<Longrightarrow> below rows i k"
  by (induction rule: below.induct) (auto intro: below.intros)

lemma below_last: "below rows i j \<Longrightarrow> j = i \<or> (\<exists>f \<in> set rows. fr_ID f = j \<and> (\<exists>p. fr_ParentId f = Some p \<and> below rows i p))"
proof (induction rule: below.induct)
  case (child f i j)
  from child.IH show ?case
  proof
    assume "j = fr_ID f"
    then show ?thesis using child.hyps(1,2) below.self [of rows i] by blast
  next
    assume "\<exists>g \<in> set rows. fr_ID g = j \<and> (\<exists>p. fr_ParentId g = Some p \<and> below rows (fr_ID f) p)"
    then show ?thesis using below.child [OF child.hyps(1,2)] by blast
  qed
qed simp

lemma below_rank:
  assumes "\<forall>f \<in> set rows. \<forall>p. fr_ParentId f = Some p \<longrightarrow> rank p < (rank (fr_ID f) :: nat)"
  shows "below rows i j \<Longrightarrow> i = j \<or> rank i < rank j"
proof (induction rule: below.induct)
  case (child f i j)
  then have "rank i < rank (fr_ID f)" using assms by blast
  with child.IH show ?case by auto
qed simp

lemma same_id: "distinct (map fr_ID rows) \<Longrightarrow> f \<in> set rows \<Longrightarrow> g \<in> set rows \<Longrightarrow> fr_ID f = fr_ID g \<Longrightarrow> f = g"
  by (auto simp: distinct_map dest: inj_onD)

definition antichain :: "file_row list \<Rightarrow> string list \<Rightarrow> bool" where
  "antichain rows level \<longleftrightarrow> (\<forall>i \<in> set level. \<forall>j \<in> set level. below rows i j \<longrightarrow> i = j)"

lemma antichain_children:
  assumes rank: "\<forall>f \<in> set rows. \<forall>p. fr_ParentId f = Some p \<longrightarrow> rank p < (rank (fr_ID f) :: nat)"
    and ids: "distinct (map fr_ID rows)" and anti: "antichain rows level"
  shows "antichain rows (children rows level)"
proof -
  have "fr_ID c = fr_ID d" if c: "c \<in> set rows" "fr_ParentId c = Some p" "p \<in> set level"
    and d: "d \<in> set rows" "fr_ParentId d = Some q" "q \<in> set level" and cd: "below rows (fr_ID c) (fr_ID d)" for c d p q
  proof (rule ccontr)
    assume "fr_ID c \<noteq> fr_ID d"
    then obtain g r where g: "g \<in> set rows" "fr_ID g = fr_ID d" "fr_ParentId g = Some r" "below rows (fr_ID c) r" using below_last [OF cd] by auto
    then have r: "r = q" using same_id [OF ids g(1) d(1) g(2)] d(2) by simp
    have "below rows p q" using below.child [OF c(1,2) g(4)] r by simp
    then have "p = q" using anti c(3) d(3) unfolding antichain_def by blast
    then have "below rows (fr_ID c) p" using g(4) r by simp
    moreover have "rank p < rank (fr_ID c)" using rank c by blast
    ultimately show False using below_rank [OF rank] by fastforce
  qed
  then show ?thesis unfolding antichain_def children_def by auto
qed

lemma target_folders_distinct:
  "target_folders rows level = Some T \<Longrightarrow> \<forall>f \<in> set rows. \<forall>p. fr_ParentId f = Some p \<longrightarrow> rank p < (rank (fr_ID f) :: nat) \<Longrightarrow>
   distinct (map fr_ID rows) \<Longrightarrow> distinct level \<Longrightarrow> antichain rows level \<Longrightarrow> distinct T \<and> (\<forall>j \<in> set T. \<exists>i \<in> set level. below rows i j)"
proof (induction rule: target_folders.raw_induct [rotated, consumes 1, case_names 1])
  case (1 tf rows level T)
  note rank = 1(3) and ids = 1(4) and anti = 1(6)
  show ?case
  proof (cases "level = []")
    case False
    with 1(2) obtain rest where rest: "tf rows (children rows level) = Some rest" "T = level @ rest" by (auto simp: bind_eq_Some_conv)
    have "distinct (children rows level)" using ids by (simp add: children_def distinct_map_filter)
    from 1(1) [OF rest(1) rank ids this antichain_children [OF rank ids anti]]
    have IH: "distinct rest" "\<And>j. j \<in> set rest \<Longrightarrow> \<exists>i \<in> set (children rows level). below rows i j" by blast+
    have child: "\<exists>p \<in> set level. rank p < rank i \<and> (\<forall>k. below rows i k \<longrightarrow> below rows p k)" if "i \<in> set (children rows level)" for i
      using that rank by (fastforce simp: children_def intro: below.child)
    have "set level \<inter> set rest = {}"
    proof (rule ccontr)
      assume "set level \<inter> set rest \<noteq> {}"
      then obtain j i where j: "j \<in> set level" "i \<in> set (children rows level)" "below rows i j" using IH(2) by blast
      with child obtain p where p: "p \<in> set level" "rank p < rank i" "below rows p j" by blast
      then have "p = j" using anti j(1) unfolding antichain_def by blast
      then show False using below_rank [OF rank j(3)] p(2) by auto
    qed
    moreover have "\<forall>j \<in> set T. \<exists>i \<in> set level. below rows i j" using rest(2) IH(2) child by (fastforce intro: below.self)
    ultimately show ?thesis using rest(2) IH(1) 1(5) by simp
  qed (use 1(2) in simp)
qed

lemma sum_by_id:
  assumes "distinct T"
  shows "sum_list (map h (concat (map (\<lambda>i. filter (\<lambda>f. fr_ID f = i \<and> P f) rows) T))) = (sum_list (map h (filter (\<lambda>f. fr_ID f \<in> set T \<and> P f) rows)) :: int)"
  using assms
proof (induction T)
  case (Cons i T)
  have "sum_list (map h (filter (\<lambda>f. fr_ID f \<in> set (i # T) \<and> P f) rows)) =
      sum_list (map h (filter (\<lambda>f. fr_ID f = i \<and> P f) rows)) + sum_list (map h (filter (\<lambda>f. fr_ID f \<in> set T \<and> P f) rows))"
    using Cons.prems by (induction rows) auto
  with Cons show ?case by simp
qed simp

text \<open>The size of a folder is the sum of the sizes of the active files below it; a folder without any keeps its old size.\<close>

lemma folder_sizes_eq:
  assumes "tree_ok rows" "distinct (map fr_ID rows)" "root \<in> fr_ID ` set rows"
  shows "folder_sizes rows root = Some (let hits = filter (\<lambda>g. counted g \<and> below rows root (fr_ID g)) rows in
    if hits = [] then None else Some (sum_list (map size_or_0 hits)))"
proof -
  obtain rank :: "string \<Rightarrow> nat" where rank: "\<forall>f \<in> set rows. \<forall>p. fr_ParentId f = Some p \<longrightarrow> rank p < rank (fr_ID f)"
    using assms(1) unfolding tree_ok_def by blast
  obtain T where T: "target_folders rows [root] = Some T" using target_folders_total [OF assms(1), of "[root]"] assms(3) by auto
  have dist: "distinct T" using target_folders_distinct [OF T rank assms(2)] by (simp add: antichain_def)
  have mem: "i \<in> set T \<longleftrightarrow> below rows root i" for i using target_folders_set [OF T] by simp
  have "sum_list (map size_or_0 (concat (map (\<lambda>i. filter (\<lambda>f. fr_ID f = i \<and> counted f) rows) T))) =
      sum_list (map size_or_0 (filter (\<lambda>g. counted g \<and> below rows root (fr_ID g)) rows))"
    unfolding sum_by_id [OF dist] mem by (simp only: conj_commute)
  moreover have "concat (map (\<lambda>i. filter (\<lambda>f. fr_ID f = i \<and> counted f) rows) T) = [] \<longleftrightarrow>
      filter (\<lambda>g. counted g \<and> below rows root (fr_ID g)) rows = []"
    using mem by (auto simp: filter_empty_conv)
  ultimately show ?thesis by (simp add: folder_sizes_def T Let_def)
qed

subsection \<open>What cleaning removes\<close>

lemma group_rows_mem: "(k, rs) \<in> set (group_rows key rows) \<Longrightarrow> r \<in> set rs \<Longrightarrow> r \<in> set rows \<and> key r = k"
  by (auto simp: group_rows_def)

lemma joined_mem: "(r, s) \<in> set (joined user v rows) \<longleftrightarrow> r \<in> set rows \<and> s \<in> set (session_join (as_users v) (as_sessions v) (user r))"
  by (auto simp: joined_def)

lemma session_of_user:
  assumes "s \<in> set (session_join users sessions u)" "s \<noteq> []"
  shows "\<exists>t \<in> set sessions. ss_UserId t = u \<and> ss_Session t = s"
proof -
  have "s \<in> set (newest_sessions sessions u)" using assms by (auto simp: session_join_def split: if_splits list.splits)
  then show ?thesis by (auto simp: newest_sessions_def)
qed

lemma clean_file_groups_gone:
  "clean_file_groups env gs v = Some (v', log) \<Longrightarrow> f \<in> set (sv_files v) \<Longrightarrow> f \<notin> set (sv_files v') \<Longrightarrow>
   \<exists>c u s files batches. ((c, u, s), files) \<in> set gs \<and> s \<noteq> [] \<and> fr_ID f \<in> set (map (fr_ID \<circ> fst) files) \<and>
     delete_request env s (row_channel c) (concat (map (row_parts \<circ> fst) files)) = Some (batches, None)"
proof (induction env gs v arbitrary: log rule: clean_file_groups.induct)
  case (2 env c u s files gs v)
  show ?case
  proof (cases "s = []")
    case False
    with 2(2) obtain batches err where req: "delete_request env s (row_channel c) (concat (map (row_parts \<circ> fst) files)) = Some (batches, err)"
      by (auto simp: bind_eq_Some_conv)
    show ?thesis
    proof (cases err)
      case (Some e)
      with 2(2-4) req False show ?thesis by simp
    next
      case None
      let ?v = "remove_files (cn_deleteErr env) (map (fr_ID \<circ> fst) files) v"
      from 2(2) None req False obtain log' where rest: "clean_file_groups env gs ?v = Some (v', log')" by auto
      show ?thesis
      proof (cases "f \<in> set (sv_files ?v)")
        case True
        from 2(1) [OF False req refl None rest True 2(4)] show ?thesis by (meson list.set_intros(2))
      next
        case removed: False
        with 2(3) have "fr_ID f \<in> set (map (fr_ID \<circ> fst) files)" by (auto simp: remove_files_def Let_def split: option.splits)
        with False req None show ?thesis by (meson list.set_intros(1))
      qed
    qed
  qed (use 2 in simp)
qed simp

subsection \<open>What cleaning uploads deletes\<close>

lemma created_parts:
  assumes "FilesCreate env userId fileIn v = Some (v', Inr f)" "fi_Type fileIn = ''file''" "fi_Parts fileIn \<noteq> []"
  shows "f \<in> set (sv_files v') \<and> active f \<and> fr_Parts f = Some (map_parts (fi_Parts fileIn)) \<and> sv_uploads v' = sv_uploads v"
proof (cases rule: FilesCreate_cases [of env userId fileIn v])
  case (2 q row uploadId rows fileDB)
  note fields = create_row_fields [OF 2(2)]
  have parts: "fr_Parts row = Some (map_parts (fi_Parts fileIn))" "uploadId = []"
    using 2(2) assms(2,3) by (auto simp: create_row_def create_parts_def map_parts_def Let_def split: sum.splits if_splits)
  have "fileDB \<in> set rows \<and> active fileDB \<and> fr_Parts fileDB = fr_Parts row"
  proof (cases rule: upsert_cases [of row "sv_files v"])
    case 1
    then show ?thesis using 2(3) fields by auto
  next
    case (2 us g vs)
    then show ?thesis using \<open>upsert row (sv_files v) = (rows, fileDB)\<close> fields by (auto simp: upserted_def active_def)
  qed
  then show ?thesis using 2(5) assms(1) parts by (simp add: record_event_def)
qed (use assms in simp)

text \<open>A Telegram that answers: every client can be made, every channel is found, every deletion accepted.\<close>

definition telegram_works :: "'c clean_env \<Rightarrow> bool" where
  "telegram_works env \<longleftrightarrow> cn_client env = (\<lambda>_. None) \<and> (\<forall>s c. \<exists>ch. cn_channel env s c = Inr ch) \<and> cn_api env = (\<lambda>_ _. None) \<and> cn_queryErr env = None"

lemma delete_request_works:
  assumes "telegram_works env"
  shows "\<exists>batches. delete_request env s c ids = Some (batches, None) \<and> concat batches = ids"
proof -
  obtain ch where ch: "cn_channel env s c = Inr ch" using assms by (auto simp: telegram_works_def)
  obtain batches err where d: "DeleteMessages (cn_channel env s c) (cn_api env) (cn_seen env) (cn_first env) ids = (batches, err)" by fastforce
  from DeleteMessages_batches [OF d] assms ch have "concat batches = ids \<and> err = None" by (simp add: telegram_works_def)
  then show ?thesis using d assms by (simp add: delete_request_def telegram_works_def)
qed

lemma clean_upload_groups_works:
  "telegram_works env \<Longrightarrow> \<exists>v' log. clean_upload_groups env gs v = Some (v', log) \<and> sv_files v' = sv_files v \<and>
    (\<forall>c u s ups. ((c, u, s), ups) \<in> set gs \<and> s \<noteq> [] \<and> ups \<noteq> [] \<longrightarrow> (\<exists>batches. (c, batches) \<in> set log \<and> concat batches = map (up_PartId \<circ> fst) ups))"
proof (induction gs arbitrary: v)
  case (Cons g gs)
  obtain c u s ups where g: "g = ((c, u, s), ups)" by (metis prod.exhaust)
  let ?parts = "map (up_PartId \<circ> fst) ups"
  let ?req = "if s \<noteq> [] \<and> ?parts \<noteq> [] then delete_request env s c ?parts else Some ([], None)"
  obtain batches where req: "?req = Some (batches, None)" "s \<noteq> [] \<and> ups \<noteq> [] \<longrightarrow> concat batches = ?parts"
    using delete_request_works [OF Cons.prems, of s c ?parts] by (cases "s \<noteq> [] \<and> ups \<noteq> []") auto
  obtain v' log where IH: "clean_upload_groups env gs (remove_uploads (cn_deleteErr env) ?parts c u v) = Some (v', log)"
    "sv_files v' = sv_files (remove_uploads (cn_deleteErr env) ?parts c u v)"
    "\<forall>c u s ups. ((c, u, s), ups) \<in> set gs \<and> s \<noteq> [] \<and> ups \<noteq> [] \<longrightarrow> (\<exists>batches. (c, batches) \<in> set log \<and> concat batches = map (up_PartId \<circ> fst) ups)"
    using Cons.IH [OF Cons.prems] by blast
  have "clean_upload_groups env (g # gs) v = Some (v', (c, batches) # log)"
    using req(1) IH(1) by (simp add: g Let_def del: map_map)
  moreover have "sv_files v' = sv_files v" using IH(2) by (simp add: remove_uploads_def split: option.splits)
  ultimately show ?case using req(2) IH(3) by (fastforce simp: g)
qed simp

subsection \<open>Properties\<close>

text \<open>C18: \<open>cleanFiles\<close> removes a row only after the messages of its parts. In every order of the groups, a row that is gone was a
  file marked for deletion, and every one of its parts was in a deletion that Telegram accepted, for the channel of the file
  and with a session of its own user; this is when the goroutines of \<open>DeleteMessages\<close> each return their own result.\<close>

theorem clean_files_safe:
  assumes clean: "cleanFiles env v = Some (v', log)" and ids: "distinct (map fr_ID (sv_files v))"
    and order: "\<And>gs. set (cn_fileOrder env gs) \<subseteq> set gs" and seen: "cn_seen env = (\<lambda>i. i)"
    and gone: "f \<in> set (sv_files v)" "f \<notin> set (sv_files v')"
  shows "fr_Type f = ''file'' \<and> fr_Status f = ''pending_deletion'' \<and>
    (\<exists>s \<in> set (as_sessions v). \<exists>ch. ss_UserId s = fr_UserId f \<and> cn_channel env (ss_Session s) (row_channel (fr_ChannelId f)) = Inr ch \<and>
       (\<forall>p \<in> set (row_parts f). \<exists>b. p \<in> set b \<and> cn_api env ch b = None))"
proof -
  have "clean_file_groups env (cn_fileOrder env (pending_files v)) v = Some (v', log)"
    using clean gone by (auto simp: cleanFiles_def split: option.splits)
  from clean_file_groups_gone [OF this gone] obtain c u s files batches where
    grp: "((c, u, s), files) \<in> set (cn_fileOrder env (pending_files v))" and s: "s \<noteq> []" and mem: "fr_ID f \<in> set (map (fr_ID \<circ> fst) files)" and
    req: "delete_request env s (row_channel c) (concat (map (row_parts \<circ> fst) files)) = Some (batches, None)" by blast
  from mem obtain g r where g: "(g, r) \<in> set files" "fr_ID f = fr_ID g" by auto
  have "((c, u, s), files) \<in> set (pending_files v)" using grp order by blast
  from group_rows_mem [OF this [unfolded pending_files_def] g(1)] have
    "(g, r) \<in> set (joined fr_UserId v (filter (\<lambda>f. fr_Type f = ''file'' \<and> fr_Status f = ''pending_deletion'') (sv_files v)))"
    and key: "c = fr_ChannelId g" "s = r" by auto
  then have row: "g \<in> set (sv_files v)" "fr_Type g = ''file''" "fr_Status g = ''pending_deletion''"
    and "s \<in> set (session_join (as_users v) (as_sessions v) (fr_UserId g))" by (auto simp: joined_mem)
  then obtain t where t: "t \<in> set (as_sessions v)" "ss_UserId t = fr_UserId g" "ss_Session t = s" using session_of_user s by blast
  have "f = g" using same_id [OF ids gone(1) row(1) g(2)] .
  from req have "DeleteMessages (cn_channel env s (row_channel c)) (cn_api env) (\<lambda>i. i) (cn_first env) (concat (map (row_parts \<circ> fst) files)) = (batches, None)"
    by (simp add: delete_request_def seen split: if_splits)
  from DeleteMessages_all [OF this] obtain ch where ch: "cn_channel env s (row_channel c) = Inr ch"
    "concat batches = concat (map (row_parts \<circ> fst) files)" "\<forall>b \<in> set batches. cn_api env ch b = None" by blast
  have "set (row_parts g) \<subseteq> set (concat batches)" using g(1) unfolding ch(2) by force
  then have "\<forall>p \<in> set (row_parts f). \<exists>b. p \<in> set b \<and> cn_api env ch b = None" using ch(3) \<open>f = g\<close> by fastforce
  then show ?thesis using row t ch(1) key \<open>f = g\<close> by blast
qed

text \<open>C30: The sizes of folders. In a tree without cycles the job always ends, and it sets the size of every folder to the sum of the
  sizes of the active files anywhere below it, each counted once. Only a folder with no active file below it is left out: it
  keeps the size it had, also when its last file is gone. No other row changes.\<close>

theorem folder_sizes_exact:
  assumes "tree_ok rows" "distinct (map fr_ID rows)"
  shows "updateFolderSize rows = Some (map (\<lambda>f.
    let hits = filter (\<lambda>g. fr_Type g = ''file'' \<and> active g \<and> below rows (fr_ID f) (fr_ID g)) rows
    in if fr_Type f = ''folder'' \<and> hits \<noteq> [] then f\<lparr>fr_Size := Some (sum_list (map size_or_0 hits))\<rparr> else f) rows)"
  unfolding updateFolderSize_def
  by (rule those_map_Some) (auto simp: folder_sizes_eq [OF assms] counted_def Let_def)

theorem folder_sizes_exact_witness:
  "updateFolderSize [sample_row ''r'' ''folder'' 1 None, (sample_row ''a'' ''file'' 1 (Some ''r''))\<lparr>fr_Size := Some 5\<rparr>,
      (sample_row ''e'' ''folder'' 1 (Some ''r''))\<lparr>fr_Size := Some 9\<rparr>] =
    Some [(sample_row ''r'' ''folder'' 1 None)\<lparr>fr_Size := Some 5\<rparr>, (sample_row ''a'' ''file'' 1 (Some ''r''))\<lparr>fr_Size := Some 5\<rparr>,
      (sample_row ''e'' ''folder'' 1 (Some ''r''))\<lparr>fr_Size := Some 9\<rparr>]"
proof -
  let ?rows = "[sample_row ''r'' ''folder'' 1 None, (sample_row ''a'' ''file'' 1 (Some ''r''))\<lparr>fr_Size := Some 5\<rparr>,
      (sample_row ''e'' ''folder'' 1 (Some ''r''))\<lparr>fr_Size := Some 9\<rparr>]"
  have tree: "tree_ok ?rows" unfolding tree_ok_def by (rule exI [of _ "\<lambda>i. if i = ''r'' then 0 else 1"]) (auto simp: sample_row_def)
  have e: "below ?rows ''e'' ''a'' \<longleftrightarrow> False" by (subst below_iff) (simp add: sample_row_def)
  have a: "below ?rows ''r'' ''a''" by (rule below.child [OF _ _ below.self, of "?rows ! 1", unfolded sample_row_def, simplified, folded sample_row_def]) (simp_all add: sample_row_def)
  have "distinct (map fr_ID ?rows)" by (simp add: sample_row_def)
  from folder_sizes_exact [OF tree this] e a show ?thesis by (simp add: sample_row_def active_def size_or_0_def)
qed

text \<open>
  \<open>cleanUploads\<close> does not look at the files. When a file is created from parts named in the request, the rows of its upload
  stay; once they are older than the retention, the job deletes the message of such a part although the active file
  still has it, and its content is lost.\<close>

lemma old_upload_deletes_live_part:
  assumes created: "FilesCreate senv userId fileIn w = Some (w', Inr f)" "fi_Type fileIn = ''file''"
    and row: "u \<in> set (sv_uploads w)" "up_PartId u \<in> set (map pt_ID (fi_Parts fileIn))"
    and later: "sv_files v = sv_files w'" "sv_uploads v = sv_uploads w'" "up_CreatedAt u < cn_now env - cn_retention env"
    and session: "s \<in> set (session_join (as_users v) (as_sessions v) (up_UserId u))" "s \<noteq> []"
    and tg: "telegram_works env" "\<And>gs. set gs \<subseteq> set (cn_uploadOrder env gs)"
  shows "\<exists>v' log batches. cleanUploads env v = Some (v', log) \<and> f \<in> set (sv_files v') \<and> active f \<and>
    up_PartId u \<in> set (row_parts f) \<and> (up_ChannelId u, batches) \<in> set log \<and> up_PartId u \<in> set (concat batches)"
proof -
  have "fi_Parts fileIn \<noteq> []" using row(2) by auto
  from created_parts [OF created this] have f: "f \<in> set (sv_files w')" "active f" "row_parts f = map pt_ID (fi_Parts fileIn)"
    "sv_uploads w' = sv_uploads w" by (auto simp: row_parts_def map_parts_def)
  let ?before = "cn_now env - cn_retention env"
  let ?rows = "joined up_UserId v (filter (\<lambda>u. up_CreatedAt u < ?before) (sv_uploads v))"
  let ?key = "(up_ChannelId u, up_UserId u, s)"
  have u: "(u, s) \<in> set ?rows" using row(1) later session f(4) by (simp add: joined_mem)
  define ups where "ups = filter (\<lambda>r. (case r of (u, s) \<Rightarrow> (up_ChannelId u, up_UserId u, s)) = ?key) ?rows"
  have ups: "(u, s) \<in> set ups" using u by (simp add: ups_def)
  have "(?key, ups) \<in> set (old_uploads ?before v)" using u unfolding old_uploads_def group_rows_def ups_def by force
  then have grp: "(?key, ups) \<in> set (cn_uploadOrder env (old_uploads ?before v))" using tg(2) by blast
  obtain v' log where v': "clean_upload_groups env (cn_uploadOrder env (old_uploads ?before v)) v = Some (v', log)" "sv_files v' = sv_files v"
    "\<And>c u s ups. ((c, u, s), ups) \<in> set (cn_uploadOrder env (old_uploads ?before v)) \<Longrightarrow> s \<noteq> [] \<Longrightarrow> ups \<noteq> [] \<Longrightarrow>
       \<exists>batches. (c, batches) \<in> set log \<and> concat batches = map (up_PartId \<circ> fst) ups"
    using clean_upload_groups_works [OF tg(1), of "cn_uploadOrder env (old_uploads ?before v)" v] by blast
  from v'(3) [OF grp session(2)] ups obtain batches where "(up_ChannelId u, batches) \<in> set log" "concat batches = map (up_PartId \<circ> fst) ups" by fastforce
  moreover have "up_PartId u \<in> set (map (up_PartId \<circ> fst) ups)" using ups by force
  moreover have "cleanUploads env v = Some (v', log)" using v'(1) tg(1) by (simp add: cleanUploads_def telegram_works_def)
  moreover have "f \<in> set (sv_files v')" "up_PartId u \<in> set (row_parts f)" using f(1,3) row(2) v'(2) later(1) by simp_all
  ultimately show ?thesis using f(2) by metis
qed

definition demo_clean :: "unit clean_env" where
  "demo_clean = \<lparr>cn_queryErr = None, cn_fileOrder = (\<lambda>gs. gs), cn_uploadOrder = (\<lambda>gs. gs), cn_client = (\<lambda>_. None), cn_channel = (\<lambda>_ _. Inr ()),
     cn_api = (\<lambda>_ _. None), cn_seen = (\<lambda>i. i), cn_first = hd, cn_deleteErr = None, cn_now = 1000, cn_retention = 100\<rparr>"

definition demo_cron :: "unit auth_svc" where
  "demo_cron = \<lparr>sv_files = [], sv_uploads = [], sv_shares = [], sv_cache = (), sv_events = [],
     as_users = [\<lparr>us_UserId = 7, us_Name = [], us_UserName = ''u'', us_IsPremium = False\<rparr>],
     as_sessions = [\<lparr>ss_Hash = ''h'', ss_UserId = 7, ss_Session = ''s'', ss_SessionDate = 0, ss_CreatedAt = 3\<rparr>]\<rparr>"

definition demo_pending :: file_row where
  "demo_pending = (sample_row ''f'' ''file'' 7 None)\<lparr>fr_Status := ''pending_deletion'', fr_Parts := Some [\<lparr>pt_ID = 5, pt_Salt = []\<rparr>], fr_ChannelId := Some 9\<rparr>"

lemma demo_session: "''s'' \<in> set (session_join (as_users demo_cron) (as_sessions demo_cron) 7)"
  by (simp add: demo_cron_def session_join_def newest_sessions_def)

theorem clean_files_safe_witness:
  "\<exists>v' log. cleanFiles demo_clean (demo_cron\<lparr>sv_files := [demo_pending]\<rparr>) = Some (v', log) \<and> sv_files v' = [] \<and>
    (\<exists>s \<in> set (as_sessions demo_cron). ss_UserId s = 7 \<and> (\<forall>p \<in> {5 :: int}. \<exists>b. p \<in> set b \<and> cn_api demo_clean () b = None))"
proof -
  let ?v = "demo_cron\<lparr>sv_files := [demo_pending]\<rparr>"
  have "\<exists>v' log. cleanFiles demo_clean ?v = Some (v', log) \<and> sv_files v' = []"
    by (simp add: cleanFiles_def pending_files_def group_rows_def joined_def session_join_def newest_sessions_def demo_clean_def demo_cron_def
        demo_pending_def sample_row_def delete_request_def DeleteMessages_def batchCount_def remove_files_def row_parts_def row_channel_def)
  then obtain v' log where v': "cleanFiles demo_clean ?v = Some (v', log)" "sv_files v' = []" by blast
  have "fr_Type demo_pending = ''file'' \<and> fr_Status demo_pending = ''pending_deletion'' \<and>
    (\<exists>s \<in> set (as_sessions ?v). \<exists>ch. ss_UserId s = fr_UserId demo_pending \<and>
       cn_channel demo_clean (ss_Session s) (row_channel (fr_ChannelId demo_pending)) = Inr ch \<and>
       (\<forall>p \<in> set (row_parts demo_pending). \<exists>b. p \<in> set b \<and> cn_api demo_clean ch b = None))"
    by (rule clean_files_safe [OF v'(1)]) (simp_all add: v'(2) demo_clean_def)
  then show ?thesis using v' by (auto simp: demo_pending_def sample_row_def row_parts_def)
qed

lemma old_upload_deletes_live_part_witness:
  "\<exists>w' f v' log batches. FilesCreate svc_sample 7 (sample_folder\<lparr>fi_Type := ''file'', fi_Parts := [\<lparr>pt_ID = 5, pt_Salt = []\<rparr>]\<rparr>)
      (empty_svc\<lparr>sv_uploads := [sample_upload]\<rparr>) = Some (w', Inr f) \<and>
    cleanUploads demo_clean (demo_cron\<lparr>sv_files := sv_files w', sv_uploads := sv_uploads w'\<rparr>) = Some (v', log) \<and>
    f \<in> set (sv_files v') \<and> active f \<and> (9, batches) \<in> set log \<and> 5 \<in> set (concat batches)"
proof -
  let ?in = "sample_folder\<lparr>fi_Type := ''file'', fi_Parts := [\<lparr>pt_ID = 5, pt_Salt = []\<rparr>]\<rparr>" and ?w = "empty_svc\<lparr>sv_uploads := [sample_upload]\<rparr>"
  obtain w' f where c: "FilesCreate svc_sample 7 ?in ?w = Some (w', Inr f)"
    by (simp add: FilesCreate_def sample_folder_def empty_svc_def sample_upload_def create_parent_def create_row_def create_parts_def
        new_row_def svc_sample_def Let_def)
  have works: "telegram_works demo_clean" by (simp add: telegram_works_def demo_clean_def)
  let ?v = "demo_cron\<lparr>sv_files := sv_files w', sv_uploads := sv_uploads w'\<rparr>"
  have u: "up_ChannelId sample_upload = 9" "up_PartId sample_upload = 5" "up_UserId sample_upload = 7" by (simp_all add: sample_upload_def)
  have s: "''s'' \<in> set (session_join (as_users ?v) (as_sessions ?v) (up_UserId sample_upload))" using demo_session by (simp add: u(3))
  have "\<exists>v' log batches. cleanUploads demo_clean ?v = Some (v', log) \<and> f \<in> set (sv_files v') \<and> active f \<and>
    up_PartId sample_upload \<in> set (row_parts f) \<and> (up_ChannelId sample_upload, batches) \<in> set log \<and> up_PartId sample_upload \<in> set (concat batches)"
    by (rule old_upload_deletes_live_part [OF c _ _ _ _ _ _ s _ works]) (simp_all add: sample_folder_def empty_svc_def sample_upload_def demo_clean_def)
  with c show ?thesis unfolding u by blast
qed

text \<open>A group whose user has no session ends the job: the groups behind it stay for the next run, which meets it again.\<close>

lemma cleaning_stuck:
  "cn_queryErr env = None \<Longrightarrow> cn_fileOrder env (pending_files v) = ((c, u, []), files) # gs \<Longrightarrow> cleanFiles env v = Some (v, [])"
  by (simp add: cleanFiles_def)

end
