(* ===== verification/Check.thy ===== *)
theory Check
  imports Cron Cipher "HOL-Library.Char_ord" "HOL-Library.List_Lexorder"
begin

section \<open>The check command (cmd/check.go)\<close>

text \<open>
  The command compares, channel by channel, the files of a user with the messages of the channel. A file with a missing part
  or a wrong size is marked for deletion and exported, a message that belongs to no file is deleted. The requests of other
  clients go on meanwhile: the argument \<open>meanwhile\<close> is what they do to the tables while the messages are loaded. \<open>kc_order\<close> is
  the iteration order of a map; \<open>kc_history\<close> is what the iterator over the messages gives before it ends or fails, its
  error being ignored. A result \<open>None\<close> is a query or a loop that does not end. Output to the terminal is left out.
\<close>

record check_file =
  kf_ID :: string
  kf_Name :: string
  kf_Size :: int
  kf_Encrypted :: bool
  kf_Parts :: "api_part list"

record 'c check_env =
  kc_userId :: int
  kc_id :: int
  kc_cleanPending :: bool
  kc_cleanUploads :: bool
  kc_dryRun :: bool
  kc_delUploadsErr :: "go_error option"
  kc_countErr :: "go_error option"
  kc_loadErr :: "go_error option"
  kc_client :: "go_error option"
  kc_runErr :: "go_error option"
  kc_auth :: auth_env
  kc_session :: string
  kc_channel :: "go_error + 'c"
  kc_total :: "'c \<Rightarrow> go_error + int"
  kc_history :: "'c \<Rightarrow> (int \<times> int option) list"
  kc_uploadsErr :: "go_error option"
  kc_pendingErr :: "go_error option"
  kc_deleteErr :: "go_error option"
  kc_order :: "int list \<Rightarrow> int list"
  kc_api :: "'c \<Rightarrow> int list \<Rightarrow> go_error option"
  kc_seen :: "nat \<Rightarrow> nat"
  kc_first :: "go_error list \<Rightarrow> go_error"

record check_report =
  kr_files :: "check_file list"
  kr_missing :: "check_file list"
  kr_orphans :: "int list"
  kr_totalPartsDB :: nat
  kr_totalMessagesTG :: nat
  kr_export :: "(string \<times> string) list option"
  kr_deleted :: "int list list"

subsection \<open>Loading\<close>

definition scan_file :: "file_row \<Rightarrow> check_file" where
  "scan_file f = \<lparr>kf_ID = fr_ID f, kf_Name = fr_Name f, kf_Size = size_or_0 f, kf_Encrypted = (fr_Encrypted f = Some True),
     kf_Parts = (case fr_Parts f of None \<Rightarrow> [] | Some ps \<Rightarrow> ps)\<rparr>"

definition checked :: "'c check_env \<Rightarrow> file_row \<Rightarrow> bool" where
  "checked env f \<longleftrightarrow> fr_UserId f = kc_userId env \<and> fr_ChannelId f = Some (kc_id env) \<and> fr_Type f = ''file'' \<and>
     (if kc_cleanPending env \<and> kc_dryRun env then fr_Status f = ''active'' \<or> fr_Status f = ''pending_deletion'' else fr_Status f = ''active'')"

definition next_batch :: "'c check_env \<Rightarrow> file_row list \<Rightarrow> string \<Rightarrow> file_row list" where
  "next_batch env rows lastID = take 1000 (sort_key fr_ID (filter (\<lambda>f. checked env f \<and> (lastID \<noteq> [] \<longrightarrow> lastID < fr_ID f)) rows))"

partial_function (option) load_loop :: "'c check_env \<Rightarrow> file_row list \<Rightarrow> string \<Rightarrow> file_row list option" where
  "load_loop env rows lastID =
     (let batch = next_batch env rows lastID in
      if length batch < 1000 then Some batch
      else Option.bind (load_loop env rows (fr_ID (last batch))) (\<lambda>rest. Some (batch @ rest)))"

definition loadFiles :: "'c check_env \<Rightarrow> file_row list \<Rightarrow> (go_error + check_file list) option" where
  "loadFiles env rows =
     (case kc_countErr env of
        Some e \<Rightarrow> Some (Inl e)
      | None \<Rightarrow>
          if filter (checked env) rows = [] then Some (Inr [])
          else (case kc_loadErr env of
             Some e \<Rightarrow> Some (Inl e)
           | None \<Rightarrow> map_option (\<lambda>fs. Inr (map scan_file fs)) (load_loop env rows [])))"

definition loadChannelMessages :: "'c check_env \<Rightarrow> go_error + (int \<times> int option) list \<times> int" where
  "loadChannelMessages env =
     (case kc_client env of
        Some e \<Rightarrow> Inl (ErrWrap ''failed to create client'' e)
      | None \<Rightarrow> RunWithAuth (kc_runErr env) (kc_auth env) (kc_session env)
          (case kc_channel env of
             Inl e \<Rightarrow> Inl e
           | Inr channel \<Rightarrow>
               (case kc_total env channel of
                  Inl e \<Rightarrow> Inl e
                | Inr n \<Rightarrow> if n = 0 then Inr ([], 0) else Inr (kc_history env channel, n))))"

subsection \<open>Comparing\<close>

definition upload_ids :: "'c check_env \<Rightarrow> upload_row list \<Rightarrow> int list" where
  "upload_ids env ups =
     (if \<not> kc_dryRun env \<and> \<not> kc_cleanUploads env
      then map up_PartId (filter (\<lambda>u. up_UserId u = kc_userId env \<and> up_ChannelId u = kc_id env) ups) else [])"

definition msg_map :: "int list \<Rightarrow> (int \<times> int option) list \<Rightarrow> (int \<times> int) list" where
  "msg_map uploads msgs =
     fold (\<lambda>(i, doc) m. if 0 < i \<and> i \<notin> set uploads then AList.update i (case doc of None \<Rightarrow> 0 | Some n \<Rightarrow> n) m else m) msgs []"

text \<open>The parts of one file: the ids met, the sum of the sizes, and whether a part is missing, which ends the loop.\<close>

fun check_parts :: "bool \<Rightarrow> (int \<times> int) list \<Rightarrow> api_part list \<Rightarrow> int list \<Rightarrow> int \<Rightarrow> int list \<times> int \<times> bool" where
  "check_parts enc msgMap [] allPartIDs sz = (allPartIDs, sz, False)"
| "check_parts enc msgMap (p # ps) allPartIDs sz =
     (let allPartIDs = (if pt_ID p \<noteq> 0 then List.insert (pt_ID p) allPartIDs else allPartIDs) in
      case map_of msgMap (pt_ID p) of
        None \<Rightarrow> (allPartIDs, sz, True)
      | Some n \<Rightarrow> check_parts enc msgMap ps allPartIDs (i64 (sz + (if enc then fst (DecryptedSize n) else n))))"

fun check_files :: "(int \<times> int) list \<Rightarrow> check_file list \<Rightarrow> int list \<Rightarrow> check_file list \<Rightarrow> int list \<times> check_file list" where
  "check_files msgMap [] allPartIDs missing = (allPartIDs, missing)"
| "check_files msgMap (f # fs) allPartIDs missing =
     (case check_parts (kf_Encrypted f) msgMap (kf_Parts f) allPartIDs 0 of
        (allPartIDs, sz, miss) \<Rightarrow>
          check_files msgMap fs allPartIDs (missing @ (if miss then [f] else []) @ (if sz \<noteq> kf_Size f then [f] else [])))"

definition compare_files :: "'c check_env \<Rightarrow> check_file list \<Rightarrow> (int \<times> int) list \<Rightarrow> check_report" where
  "compare_files env files msgMap =
     (let (allPartIDs, missing) = check_files msgMap files [] [] in
      \<lparr>kr_files = files, kr_missing = missing,
       kr_orphans = kc_order env (filter (\<lambda>i. i \<noteq> 1 \<and> i \<notin> set allPartIDs) (map fst msgMap)),
       kr_totalPartsDB = length allPartIDs,
       kr_totalMessagesTG = (if 1 \<in> set (map fst msgMap) then length msgMap - 1 else length msgMap),
       kr_export = (if missing \<noteq> [] then Some (map (\<lambda>f. (kf_ID f, kf_Name f)) missing) else None), kr_deleted = []\<rparr>)"

subsection \<open>Cleaning\<close>

definition remove_rows :: "(file_row \<Rightarrow> bool) \<Rightarrow> 's svc \<Rightarrow> 's svc" where
  "remove_rows P v = (let rows = filter (\<lambda>f. \<not> P f) (sv_files v) in v\<lparr>sv_files := rows, sv_shares := cascade_shares rows (sv_shares v)\<rparr>)"

definition deleteOrphanMessages :: "'c check_env \<Rightarrow> int list \<Rightarrow> int list list \<times> go_error option" where
  "deleteOrphanMessages env orphans =
     (case kc_client env of
        Some e \<Rightarrow> ([], Some (ErrWrap ''failed to create client'' e))
      | None \<Rightarrow> DeleteMessages (RunWithAuth (kc_runErr env) (kc_auth env) (kc_session env)
                                (RunWithAuth (kc_runErr env) (kc_auth env) [] (kc_channel env))) (kc_api env) (kc_seen env) (kc_first env) orphans)"

definition clean_orphans :: "'c check_env \<Rightarrow> check_report \<Rightarrow> 's svc \<Rightarrow> 's svc \<times> check_report \<times> go_error option" where
  "clean_orphans env rp v =
     (if kr_orphans rp = [] \<or> kc_dryRun env then (v, rp, None)
      else case deleteOrphanMessages env (kr_orphans rp) of (batches, err) \<Rightarrow> (v, rp\<lparr>kr_deleted := batches\<rparr>, err))"

definition check_deleteFilesBulk :: "'c check_env \<Rightarrow> string list \<Rightarrow> 's svc \<Rightarrow> ('s svc \<times> go_error option) option" where
  "check_deleteFilesBulk env ids v =
     (case kc_deleteErr env of
        Some e \<Rightarrow> Some (v, Some e)
      | None \<Rightarrow> map_option (\<lambda>rows. (v\<lparr>sv_files := rows, sv_shares := cascade_shares rows (sv_shares v)\<rparr>, None))
                  (deleteFilesBulk (sv_files v) ids (kc_userId env)))"

definition clean_missing :: "'c check_env \<Rightarrow> check_report \<Rightarrow> 's svc \<Rightarrow> ('s svc \<times> check_report \<times> go_error option) option" where
  "clean_missing env rp v =
     (if kr_missing rp = [] \<or> kc_dryRun env then Some (clean_orphans env rp v)
      else map_option (\<lambda>(v1, err). case err of
             Some e \<Rightarrow> (v1, rp, Some (ErrWrap ''failed to clean files for channel'' e))
           | None \<Rightarrow> clean_orphans env rp v1)
           (check_deleteFilesBulk env (map kf_ID (kr_missing rp)) v))"

definition clean_pending :: "'c check_env \<Rightarrow> check_report \<Rightarrow> 's svc \<Rightarrow> ('s svc \<times> check_report \<times> go_error option) option" where
  "clean_pending env rp v =
     (if \<not> kc_cleanPending env \<or> kc_dryRun env then clean_missing env rp v
      else case kc_pendingErr env of
        Some e \<Rightarrow> Some (v, rp\<lparr>kr_export := None\<rparr>, Some (ErrWrap ''failed to delete pending files'' e))
      | None \<Rightarrow> clean_missing env rp
          (remove_rows (\<lambda>f. fr_UserId f = kc_userId env \<and> fr_ChannelId f = Some (kc_id env) \<and> fr_Status f = ''pending_deletion'') v))"

definition no_report :: check_report where
  "no_report = \<lparr>kr_files = [], kr_missing = [], kr_orphans = [], kr_totalPartsDB = 0, kr_totalMessagesTG = 0, kr_export = None, kr_deleted = []\<rparr>"

definition check_channel :: "'c check_env \<Rightarrow> check_file list \<Rightarrow> 's svc \<Rightarrow> ('s svc \<times> check_report \<times> go_error option) option" where
  "check_channel env files v =
     (case loadChannelMessages env of
        Inl e \<Rightarrow> Some (v, no_report\<lparr>kr_files := files\<rparr>, Some (ErrWrap ''failed to load messages'' e))
      | Inr (msgs, n) \<Rightarrow>
          if n = 0 \<and> msgs = [] then Some (v, no_report\<lparr>kr_files := files\<rparr>, None)
          else if int (length msgs) < n then Some (v, no_report\<lparr>kr_files := files\<rparr>, Some (ErrText ''found fewer messages than the total''))
          else if \<not> kc_dryRun env \<and> \<not> kc_cleanUploads env \<and> kc_uploadsErr env \<noteq> None
            then Some (v, no_report\<lparr>kr_files := files\<rparr>, Some (ErrWrap ''failed to query uploads'' (the (kc_uploadsErr env))))
          else clean_pending env (compare_files env files (msg_map (upload_ids env (sv_uploads v)) msgs)) v)"

definition process :: "'c check_env \<Rightarrow> ('s svc \<Rightarrow> 's svc) \<Rightarrow> 's svc \<Rightarrow> ('s svc \<times> check_report \<times> go_error option) option" where
  "process env meanwhile v =
     (let clean = kc_cleanUploads env \<and> \<not> kc_dryRun env in
      if clean \<and> kc_delUploadsErr env \<noteq> None
      then Some (v, no_report, Some (ErrWrap ''failed to delete uploads'' (the (kc_delUploadsErr env))))
      else let v1 = (if clean then v\<lparr>sv_uploads := filter (\<lambda>u. \<not> (up_UserId u = kc_userId env \<and> up_ChannelId u = kc_id env)) (sv_uploads v)\<rparr> else v) in
        Option.bind (loadFiles env (sv_files v1)) (\<lambda>r. case r of
            Inl e \<Rightarrow> Some (v1, no_report, Some (ErrWrap ''failed to load files'' e))
          | Inr files \<Rightarrow> check_channel env files (meanwhile v1)))"

subsection \<open>The command\<close>

definition checkRequiredCheckFlags :: "string \<Rightarrow> go_error option" where
  "checkRequiredCheckFlags dataSource =
     (if dataSource = [] then Some (ErrText ''required configuration values not set: db-data-source'') else None)"

text \<open>A user by name, or by the number that is typed in.\<close>

definition selectUser :: "string \<Rightarrow> user_row list \<Rightarrow> go_error + int \<Rightarrow> go_error + user_row" where
  "selectUser user users typed =
     (if user \<noteq> [] then
        (case filter (\<lambda>u. us_UserName u = user) users of
           [] \<Rightarrow> Inl (ErrText (''invalid user name: '' @ user))
         | u # _ \<Rightarrow> Inr u)
      else case typed of
        Inl e \<Rightarrow> Inl (ErrText ''invalid selection'')
      | Inr n \<Rightarrow> if n < 1 \<or> int (length users) < n then Inl (ErrText ''invalid selection'') else Inr (users ! nat (n - 1)))"

record check_summary =
  su_exports :: "(int \<times> (string \<times> string) list) list"
  su_files :: nat
  su_missing :: nat
  su_orphans :: nat
  su_cleanedFiles :: nat
  su_cleanedOrphans :: nat
  su_partsDB :: nat
  su_messagesTG :: nat

definition add_report :: "bool \<Rightarrow> int \<Rightarrow> check_report \<Rightarrow> check_summary \<Rightarrow> check_summary" where
  "add_report dryRun i rp s =
     \<lparr>su_exports = (case kr_export rp of None \<Rightarrow> su_exports s | Some fs \<Rightarrow> su_exports s @ [(i, fs)]),
      su_files = su_files s + length (kr_files rp), su_missing = su_missing s + length (kr_missing rp),
      su_orphans = su_orphans s + length (kr_orphans rp),
      su_cleanedFiles = (if dryRun then su_cleanedFiles s else su_cleanedFiles s + length (kr_missing rp)),
      su_cleanedOrphans = (if dryRun then su_cleanedOrphans s else su_cleanedOrphans s + length (kr_orphans rp)),
      su_partsDB = su_partsDB s + kr_totalPartsDB rp, su_messagesTG = su_messagesTG s + kr_totalMessagesTG rp\<rparr>"

text \<open>
  The channels, in the order in which their goroutines finish; what the other goroutines do to the tables meanwhile is
  part of \<open>meanwhile\<close>. The group reports the first error, and waits for the others.
\<close>

fun check_channels ::
  "(int \<Rightarrow> 'c check_env) \<Rightarrow> (int \<Rightarrow> 's svc \<Rightarrow> 's svc) \<Rightarrow> bool \<Rightarrow> int list \<Rightarrow> 's svc \<Rightarrow> check_summary \<Rightarrow> ('s svc \<times> check_summary \<times> go_error option) option" where
  "check_channels env meanwhile dryRun [] v s = Some (v, s, None)"
| "check_channels env meanwhile dryRun (i # is) v s =
     Option.bind (process (env i) (meanwhile i) v) (\<lambda>(v', rp, err).
       case err of
         Some e \<Rightarrow> map_option (\<lambda>(v2, s2, _). (v2, s2, Some e)) (check_channels env meanwhile dryRun is v' s)
       | None \<Rightarrow> check_channels env meanwhile dryRun is v' (add_report dryRun i rp s))"

definition runCheckCmd ::
  "go_error option \<Rightarrow> go_error + user_row list \<Rightarrow> string \<Rightarrow> go_error + int \<Rightarrow> (user_row \<Rightarrow> go_error + session list) \<Rightarrow> (user_row \<Rightarrow> go_error + int list) \<Rightarrow>
   (user_row \<Rightarrow> session \<Rightarrow> int \<Rightarrow> 'c check_env) \<Rightarrow> (int \<Rightarrow> 's svc \<Rightarrow> 's svc) \<Rightarrow> bool \<Rightarrow> (int list \<Rightarrow> int list) \<Rightarrow> 's svc \<Rightarrow>
   (go_error + 's svc \<times> check_summary \<times> (int \<times> (string \<times> string) list) list option) option" where
  "runCheckCmd dbErr users name typed sessions channels env meanwhile dryRun schedule v =
     (case dbErr of
        Some e \<Rightarrow> Some (Inl (ErrWrap ''Failed to connect to database'' e))
      | None \<Rightarrow> (case users of
        Inl e \<Rightarrow> Some (Inl (ErrWrap ''Failed to retrieve users from database'' e))
      | Inr us \<Rightarrow> (case selectUser name us typed of
        Inl e \<Rightarrow> Some (Inl (ErrWrap ''Failed to select user'' e))
      | Inr user \<Rightarrow> (case sessions user of
        Inl e \<Rightarrow> Some (Inl (ErrWrap ''Failed to get user session'' e))
      | Inr ss \<Rightarrow> (case sort_key (\<lambda>s. - ss_CreatedAt s) (filter (\<lambda>s. ss_UserId s = us_UserId user) ss) of
        [] \<Rightarrow> Some (Inl (ErrWrap ''Failed to get user session'' ErrRecordNotFound))
      | session # _ \<Rightarrow> (case channels user of
        Inl e \<Rightarrow> Some (Inl (ErrWrap ''Failed to get user channels'' e))
      | Inr [] \<Rightarrow> Some (Inl (ErrText ''No channels found for user''))
      | Inr ids \<Rightarrow>
          map_option (\<lambda>(v', s, err). case err of
              Some e \<Rightarrow> Inl (ErrWrap ''One or more channels failed to process'' e)
            | None \<Rightarrow> Inr (v', s, if \<not> dryRun \<and> su_exports s \<noteq> [] then Some (su_exports s) else None))
            (check_channels (env user session) meanwhile dryRun (schedule ids) v
               \<lparr>su_exports = [], su_files = 0, su_missing = 0, su_orphans = 0, su_cleanedFiles = 0, su_cleanedOrphans = 0, su_partsDB = 0, su_messagesTG = 0\<rparr>)))))))"

subsection \<open>The whole of the files is loaded\<close>

lemma next_batch_next:
  assumes ids: "distinct (map fr_ID rows)" "\<forall>f \<in> set rows. fr_ID f \<noteq> []" and full: "length (next_batch env rows lastID) = 1000"
  defines "Q \<equiv> \<lambda>i f. checked env f \<and> (i \<noteq> [] \<longrightarrow> i < fr_ID f)"
  shows "fr_ID (last (next_batch env rows lastID)) \<noteq> []"
    and "{f \<in> set rows. Q lastID f} = set (next_batch env rows lastID) \<union> {f \<in> set rows. Q (fr_ID (last (next_batch env rows lastID))) f}"
    and "card {f \<in> set rows. Q (fr_ID (last (next_batch env rows lastID))) f} < card {f \<in> set rows. Q lastID f}"
proof -
  define S where "S = sort_key fr_ID (filter (Q lastID) rows)"
  have batch: "next_batch env rows lastID = take 1000 S" by (simp add: next_batch_def S_def Q_def)
  have len: "1000 \<le> length S" using full unfolding batch by simp
  have setS: "set S = {f \<in> set rows. Q lastID f}" by (auto simp: S_def)
  have dist: "distinct (map fr_ID S)" using ids(1) by (auto simp: S_def distinct_map intro: inj_on_subset)
  have sorted: "sorted (map fr_ID S)" by (simp add: S_def)
  have last: "last (take 1000 S) = S ! 999" using len by (subst last_conv_nth) auto
  have lastS: "S ! 999 \<in> set S" using len by (intro nth_mem) simp
  then have lastQ: "S ! 999 \<in> set rows" "Q lastID (S ! 999)" unfolding setS by auto
  show ne: "fr_ID (last (next_batch env rows lastID)) \<noteq> []" using ids(2) lastQ(1) unfolding batch last by blast
  have up: "Q lastID f" if "Q (fr_ID (S ! 999)) f" for f
    using that lastQ ids(2) unfolding Q_def by (cases "lastID = []") (auto dest: order.strict_trans)
  have down: "Q (fr_ID (S ! 999)) f \<or> f \<in> set (take 1000 S)" if f: "f \<in> set S" for f
  proof -
    obtain i where i: "i < length S" "S ! i = f" using f by (auto simp: in_set_conv_nth)
    show ?thesis
    proof (cases "i < 1000")
      case True
      then show ?thesis using i len by (auto simp: in_set_conv_nth)
    next
      case False
      have "fr_ID (S ! 999) \<le> fr_ID f" using sorted_nth_mono [OF sorted, of 999 i] i False by simp
      moreover have "fr_ID (S ! 999) \<noteq> fr_ID f" using dist i False len nth_eq_iff_index_eq [OF dist, of 999 i] by simp
      ultimately show ?thesis using f unfolding setS Q_def by auto
    qed
  qed
  have "f \<in> set S \<longleftrightarrow> f \<in> set (take 1000 S) \<or> f \<in> set rows \<and> Q (fr_ID (S ! 999)) f" for f
    using down [of f] up [of f] in_set_takeD [of f 1000 S] setS by auto
  then have "set S = set (take 1000 S) \<union> {f \<in> set rows. Q (fr_ID (S ! 999)) f}" by blast
  then show "{f \<in> set rows. Q lastID f} = set (next_batch env rows lastID) \<union> {f \<in> set rows. Q (fr_ID (last (next_batch env rows lastID))) f}"
    by (simp only: last batch setS)
  have "S ! 999 \<notin> {f \<in> set rows. Q (fr_ID (S ! 999)) f}" using lastQ(1) ids(2) by (auto simp: Q_def)
  then show "card {f \<in> set rows. Q (fr_ID (last (next_batch env rows lastID))) f} < card {f \<in> set rows. Q lastID f}"
    unfolding batch last using up lastQ by (intro psubset_card_mono) auto
qed

lemma load_loop_all:
  assumes "distinct (map fr_ID rows)" "\<forall>f \<in> set rows. fr_ID f \<noteq> []"
  shows "\<exists>fs. load_loop env rows lastID = Some fs \<and> set fs = {f \<in> set rows. checked env f \<and> (lastID \<noteq> [] \<longrightarrow> lastID < fr_ID f)}"
proof (induction "card {f \<in> set rows. checked env f \<and> (lastID \<noteq> [] \<longrightarrow> lastID < fr_ID f)}" arbitrary: lastID rule: less_induct)
  case less
  show ?case
  proof (cases "length (next_batch env rows lastID) < 1000")
    case True
    then have "set (next_batch env rows lastID) = {f \<in> set rows. checked env f \<and> (lastID \<noteq> [] \<longrightarrow> lastID < fr_ID f)}"
      by (auto simp: next_batch_def)
    with True show ?thesis by (subst load_loop.simps) (simp add: Let_def)
  next
    case False
    then have full: "length (next_batch env rows lastID) = 1000" by (simp add: next_batch_def min_def split: if_splits)
    note nb = next_batch_next [OF assms full]
    from less [OF nb(3)] obtain fs where fs: "load_loop env rows (fr_ID (last (next_batch env rows lastID))) = Some fs"
      "set fs = {f \<in> set rows. checked env f \<and> (fr_ID (last (next_batch env rows lastID)) \<noteq> [] \<longrightarrow> fr_ID (last (next_batch env rows lastID)) < fr_ID f)}"
      by blast
    have "load_loop env rows lastID = Some (next_batch env rows lastID @ fs)" using False fs(1) by (subst load_loop.simps) (simp add: Let_def)
    then show ?thesis using nb(2) fs(2) by auto
  qed
qed

lemma loadFiles_all:
  assumes "distinct (map fr_ID rows)" "\<forall>f \<in> set rows. fr_ID f \<noteq> []" "loadFiles env rows = Some (Inr files)"
  shows "set files = scan_file ` {f \<in> set rows. checked env f}"
proof -
  obtain fs where fs: "load_loop env rows [] = Some fs" "set fs = {f \<in> set rows. checked env f}"
    using load_loop_all [OF assms(1,2), of env "[]"] by auto
  with assms(3) show ?thesis by (auto simp: loadFiles_def filter_empty_conv split: option.splits if_splits)
qed

subsection \<open>What is found\<close>

lemma map_of_msg_fold:
  "distinct (map fst msgs) \<Longrightarrow>
   map_of (fold (\<lambda>(i, doc) m. if 0 < i \<and> i \<notin> set uploads then AList.update i (case doc of None \<Rightarrow> 0 | Some n \<Rightarrow> n) m else m) msgs m0) j =
    (if 0 < j \<and> j \<notin> set uploads \<and> j \<in> fst ` set msgs then map_option (\<lambda>doc. case doc of None \<Rightarrow> 0 | Some n \<Rightarrow> n) (map_of msgs j) else map_of m0 j)"
  by (induction msgs arbitrary: m0) (auto simp: update_conv' split: if_splits)

lemma map_of_msg_map:
  "distinct (map fst msgs) \<Longrightarrow> map_of (msg_map uploads msgs) j =
    (if 0 < j \<and> j \<notin> set uploads then map_option (\<lambda>doc. case doc of None \<Rightarrow> 0 | Some n \<Rightarrow> n) (map_of msgs j) else None)"
  by (auto simp: msg_map_def map_of_msg_fold map_of_eq_None_iff)

text \<open>The size of the parts of a file as the messages have them.\<close>

definition found_size :: "bool \<Rightarrow> (int \<times> int) list \<Rightarrow> int \<Rightarrow> api_part list \<Rightarrow> int" where
  "found_size enc m = foldl (\<lambda>s p. i64 (s + (let n = (case map_of m (pt_ID p) of None \<Rightarrow> 0 | Some n \<Rightarrow> n) in if enc then fst (DecryptedSize n) else n)))"

definition intact :: "(int \<times> int) list \<Rightarrow> check_file \<Rightarrow> bool" where
  "intact m f \<longleftrightarrow> (\<forall>p \<in> set (kf_Parts f). map_of m (pt_ID p) \<noteq> None) \<and> found_size (kf_Encrypted f) m 0 (kf_Parts f) = kf_Size f"

lemma check_parts_found:
  "check_parts enc m ps allp sz = (allp', sz', miss) \<Longrightarrow>
     set allp \<subseteq> set allp' \<and> set allp' \<subseteq> set allp \<union> pt_ID ` set ps \<and> (miss \<longleftrightarrow> (\<exists>p \<in> set ps. map_of m (pt_ID p) = None)) \<and>
     (\<not> miss \<longrightarrow> sz' = found_size enc m sz ps \<and> (\<forall>p \<in> set ps. pt_ID p \<noteq> 0 \<longrightarrow> pt_ID p \<in> set allp'))"
proof (induction enc m ps allp sz rule: check_parts.induct)
  case (2 enc m p ps allp sz)
  let ?allp = "if pt_ID p \<noteq> 0 then List.insert (pt_ID p) allp else allp"
  show ?case
  proof (cases "map_of m (pt_ID p)")
    case None
    with 2(2) show ?thesis by (auto simp: Let_def split: if_splits)
  next
    case (Some n)
    with 2(2) have "check_parts enc m ps ?allp (i64 (sz + (if enc then fst (DecryptedSize n) else n))) = (allp', sz', miss)" by (simp add: Let_def)
    from 2(1) [OF refl Some this] Some show ?thesis by (auto simp: found_size_def split: if_splits)
  qed
qed (simp add: found_size_def)

lemma check_files_found:
  "check_files m fs allp missing = (allp', missing') \<Longrightarrow>
     set allp \<subseteq> set allp' \<and> set allp' \<subseteq> set allp \<union> (\<Union>f \<in> set fs. pt_ID ` set (kf_Parts f)) \<and>
     set missing' = set missing \<union> {f \<in> set fs. \<not> intact m f} \<and>
     (\<forall>f \<in> set fs. intact m f \<longrightarrow> (\<forall>p \<in> set (kf_Parts f). pt_ID p \<noteq> 0 \<longrightarrow> pt_ID p \<in> set allp'))"
proof (induction m fs allp missing rule: check_files.induct)
  case (2 m f fs allp missing)
  obtain allp1 sz miss where parts: "check_parts (kf_Encrypted f) m (kf_Parts f) allp 0 = (allp1, sz, miss)" by (metis prod_cases3)
  note found = check_parts_found [OF parts]
  have rest: "check_files m fs allp1 (missing @ (if miss then [f] else []) @ (if sz \<noteq> kf_Size f then [f] else [])) = (allp', missing')"
    using 2(2) parts by simp
  have "\<not> intact m f \<longleftrightarrow> miss \<or> sz \<noteq> kf_Size f" if "\<not> miss \<longrightarrow> sz = found_size (kf_Encrypted f) m 0 (kf_Parts f)"
    using found that unfolding intact_def by auto
  with found have bad: "\<not> intact m f \<longleftrightarrow> miss \<or> sz \<noteq> kf_Size f" by blast
  note IH = 2(1) [OF parts [symmetric] refl rest]
  show ?case using IH found bad by (auto split: if_splits)
qed simp

subsection \<open>What a check leaves\<close>

lemma bulk_active:
  assumes "deleteFilesBulk rows ids userId = Some rows'" "f \<in> set rows'" "fr_Status f = ''active''" "fr_Type f = ''file''"
  shows "f \<in> set rows \<and> fr_ID f \<notin> set ids"
proof -
  from assms(1,2) obtain T g where "g \<in> set rows" "f = marked_deleted T ids g" by (auto simp: deleteFilesBulk_def)
  with assms(3,4) show ?thesis by (auto simp: marked_deleted_def split: if_splits)
qed

lemma clean_orphans_None:
  assumes "clean_orphans env rp v = (v', rp', None)" "kr_deleted rp = []" "\<not> kc_dryRun env"
  shows "v' = v \<and> concat (kr_deleted rp') = kr_orphans rp \<and> kr_missing rp' = kr_missing rp"
proof (cases "kr_orphans rp = []")
  case False
  with assms obtain batches where b: "deleteOrphanMessages env (kr_orphans rp) = (batches, None)" "v' = v" "rp' = rp\<lparr>kr_deleted := batches\<rparr>"
    by (auto simp: clean_orphans_def split: prod.splits)
  from b(1) have "DeleteMessages (RunWithAuth (kc_runErr env) (kc_auth env) (kc_session env)
      (RunWithAuth (kc_runErr env) (kc_auth env) [] (kc_channel env))) (kc_api env) (kc_seen env) (kc_first env) (kr_orphans rp) = (batches, None)"
    by (auto simp: deleteOrphanMessages_def split: option.splits)
  from DeleteMessages_batches [OF this] b show ?thesis by (auto split: sum.splits)
qed (use assms in \<open>simp add: clean_orphans_def\<close>)

definition kept_rows :: "'c check_env \<Rightarrow> file_row list \<Rightarrow> file_row list" where
  "kept_rows env rows =
     (if kc_cleanPending env
      then filter (\<lambda>f. \<not> (fr_UserId f = kc_userId env \<and> fr_ChannelId f = Some (kc_id env) \<and> fr_Status f = ''pending_deletion'')) rows else rows)"

lemma clean_missing_None:
  assumes "clean_missing env rp v = Some (v', rp', None)" "kr_deleted rp = []" "\<not> kc_dryRun env"
  shows "concat (kr_deleted rp') = kr_orphans rp \<and> kr_missing rp' = kr_missing rp \<and>
    (if kr_missing rp = [] then sv_files v' = sv_files v
     else deleteFilesBulk (sv_files v) (map kf_ID (kr_missing rp)) (kc_userId env) = Some (sv_files v'))"
proof (cases "kr_missing rp = []")
  case True
  with assms(1) have "clean_orphans env rp v = (v', rp', None)" by (simp add: clean_missing_def)
  from clean_orphans_None [OF this assms(2,3)] True show ?thesis by simp
next
  case False
  with assms obtain v1 where v1: "check_deleteFilesBulk env (map kf_ID (kr_missing rp)) v = Some (v1, None)" "clean_orphans env rp v1 = (v', rp', None)"
    by (auto simp: clean_missing_def split: option.splits)
  from v1(1) have "deleteFilesBulk (sv_files v) (map kf_ID (kr_missing rp)) (kc_userId env) = Some (sv_files v1)"
    by (auto simp: check_deleteFilesBulk_def split: option.splits)
  with clean_orphans_None [OF v1(2) assms(2,3)] False show ?thesis by simp
qed

lemma clean_pending_None:
  assumes "clean_pending env rp v = Some (v', rp', None)" "kr_deleted rp = []" "\<not> kc_dryRun env"
  shows "concat (kr_deleted rp') = kr_orphans rp \<and> kr_missing rp' = kr_missing rp \<and>
    (if kr_missing rp = [] then sv_files v' = kept_rows env (sv_files v)
     else deleteFilesBulk (kept_rows env (sv_files v)) (map kf_ID (kr_missing rp)) (kc_userId env) = Some (sv_files v'))"
proof (cases "kc_cleanPending env")
  case True
  with assms obtain w where w: "clean_missing env rp w = Some (v', rp', None)" "sv_files w = kept_rows env (sv_files v)"
    by (auto simp: clean_pending_def remove_rows_def kept_rows_def Let_def split: option.splits)
  from clean_missing_None [OF w(1) assms(2,3)] show ?thesis unfolding w(2) .
next
  case False
  with assms have "clean_missing env rp v = Some (v', rp', None)" by (simp add: clean_pending_def)
  from clean_missing_None [OF this assms(2,3)] False show ?thesis by (simp add: kept_rows_def)
qed

lemma process_None:
  assumes "process env meanwhile v = Some (v', rp, None)" "loadChannelMessages env = Inr (msgs, n)" "0 < n"
  obtains v1 files where "sv_files v1 = sv_files v" "loadFiles env (sv_files v) = Some (Inr files)"
    "clean_pending env (compare_files env files (msg_map (upload_ids env (sv_uploads (meanwhile v1))) msgs)) (meanwhile v1) = Some (v', rp, None)"
proof -
  let ?v1 = "if kc_cleanUploads env \<and> \<not> kc_dryRun env
    then v\<lparr>sv_uploads := filter (\<lambda>u. \<not> (up_UserId u = kc_userId env \<and> up_ChannelId u = kc_id env)) (sv_uploads v)\<rparr> else v"
  have files: "sv_files ?v1 = sv_files v" by simp
  have "Option.bind (loadFiles env (sv_files ?v1)) (\<lambda>r. case r of
      Inl e \<Rightarrow> Some (?v1, no_report, Some (ErrWrap ''failed to load files'' e)) | Inr files \<Rightarrow> check_channel env files (meanwhile ?v1)) = Some (v', rp, None)"
    using assms(1) unfolding process_def Let_def by (auto split: if_splits)
  then obtain r where r: "loadFiles env (sv_files v) = Some r" "(case r of Inl e \<Rightarrow> Some (?v1, no_report, Some (ErrWrap ''failed to load files'' e))
      | Inr files \<Rightarrow> check_channel env files (meanwhile ?v1)) = Some (v', rp, None)"
    unfolding files bind_eq_Some_conv by blast
  then obtain fs where fs: "loadFiles env (sv_files v) = Some (Inr fs)" "check_channel env fs (meanwhile ?v1) = Some (v', rp, None)"
    by (cases r) auto
  show ?thesis by (rule that [of ?v1 fs]) (use files fs assms(2,3) in \<open>auto simp: check_channel_def split: if_splits\<close>)
qed

text \<open>The report of the comparison, in terms of the messages.\<close>

definition doc_size :: "int option \<Rightarrow> int" where
  "doc_size doc = (case doc of None \<Rightarrow> 0 | Some s \<Rightarrow> s)"

lemma intact_messages:
  assumes "intact (msg_map ups msgs) f" "distinct (map fst msgs)" "p \<in> set (kf_Parts f)"
  shows "0 < pt_ID p \<and> pt_ID p \<in> set (map fst msgs)"
proof -
  have "map_of (msg_map ups msgs) (pt_ID p) \<noteq> None" using assms(1,3) by (auto simp: intact_def)
  then show ?thesis by (force simp: map_of_msg_map [OF assms(2)] dest: map_of_SomeD split: if_splits)
qed

lemma found_size_messages:
  assumes "distinct (map fst msgs)" "\<forall>p \<in> set ps. map_of (msg_map ups msgs) (pt_ID p) \<noteq> None"
  shows "found_size enc (msg_map ups msgs) s ps = found_size enc (map (\<lambda>(i, doc). (i, doc_size doc)) msgs) s ps"
  using assms(2)
proof (induction ps arbitrary: s)
  case (Cons p ps)
  then have "map_of (msg_map ups msgs) (pt_ID p) = map_of (map (\<lambda>(i, doc). (i, doc_size doc)) msgs) (pt_ID p)"
    by (auto simp: map_of_msg_map [OF assms(1)] map_of_map doc_size_def split: if_splits)
  then show ?case using Cons by (simp add: found_size_def)
qed (simp add: found_size_def)

lemma compare_files_report:
  assumes "\<And>is. set (kc_order env is) = set is"
  shows "set (kr_missing (compare_files env files m)) = {f \<in> set files. \<not> intact m f}"
    and "i \<in> set (kr_orphans (compare_files env files m)) \<Longrightarrow> f \<in> set files \<Longrightarrow> intact m f \<Longrightarrow> p \<in> set (kf_Parts f) \<Longrightarrow> pt_ID p \<noteq> 0 \<Longrightarrow> pt_ID p \<noteq> i"
    and "map_of m i \<noteq> None \<Longrightarrow> i \<noteq> 1 \<Longrightarrow> \<forall>f \<in> set files. i \<notin> pt_ID ` set (kf_Parts f) \<Longrightarrow> i \<in> set (kr_orphans (compare_files env files m))"
    and "kr_deleted (compare_files env files m) = []"
proof -
  obtain allp missing where c: "check_files m files [] [] = (allp, missing)" by fastforce
  note found = check_files_found [OF c]
  show "set (kr_missing (compare_files env files m)) = {f \<in> set files. \<not> intact m f}" using found by (simp add: compare_files_def c)
  show "kr_deleted (compare_files env files m) = []" by (simp add: compare_files_def c)
  show "pt_ID p \<noteq> i" if "i \<in> set (kr_orphans (compare_files env files m))" "f \<in> set files" "intact m f" "p \<in> set (kf_Parts f)" "pt_ID p \<noteq> 0"
    using that found assms by (auto simp: compare_files_def c)
  show "i \<in> set (kr_orphans (compare_files env files m))" if "map_of m i \<noteq> None" "i \<noteq> 1" "\<forall>f \<in> set files. i \<notin> pt_ID ` set (kf_Parts f)"
  proof -
    have "set allp \<subseteq> (\<Union>f \<in> set files. pt_ID ` set (kf_Parts f))" using found by simp
    then have "i \<notin> set allp" using that(3) by blast
    then show ?thesis using that(1,2) assms by (force simp: compare_files_def c dest: map_of_SomeD)
  qed
qed

subsection \<open>Properties\<close>


text \<open>A history that broke off is refused: nothing is deleted.\<close>

lemma check_refuses_partial:
  assumes "loadChannelMessages env = Inr (msgs, n)" "int (length msgs) < n" "loadFiles env (sv_files v) = Some (Inr files)" "\<not> kc_cleanUploads env"
  shows "process env meanwhile v = Some (meanwhile v, no_report\<lparr>kr_files := files\<rparr>, Some (ErrText ''found fewer messages than the total''))"
  using assms by (simp add: process_def check_channel_def Let_def)

text \<open>A dry run changes nothing.\<close>

lemma check_dry_run:
  assumes "process env (\<lambda>w. w) v = Some (v', rp, r)" "kc_dryRun env"
  shows "v' = v \<and> kr_deleted rp = []"
  using assms by (auto simp: process_def check_channel_def clean_pending_def clean_missing_def clean_orphans_def compare_files_def no_report_def Let_def
      split: option.split_asm Option.bind_split_asm sum.split_asm if_split_asm prod.split_asm)

lemma check_channels_dry:
  "(\<And>i. kc_dryRun (env i)) \<Longrightarrow> check_channels env (\<lambda>_ w. w) dry is v s = Some (v', s', r) \<Longrightarrow> v' = v"
proof (induction "is" arbitrary: v s r)
  case (Cons i "is")
  then obtain v1 rp err where p: "process (env i) (\<lambda>w. w) v = Some (v1, rp, err)" by (auto simp: bind_eq_Some_conv)
  have "v1 = v" using check_dry_run [OF p Cons.prems(1)] by simp
  with Cons.prems(2) p Cons.IH [OF Cons.prems(1)] show ?case by (auto split: option.splits)
qed simp

text \<open>The whole command changes nothing in a dry run, and writes no export.\<close>

lemma run_dry_unchanged:
  assumes "runCheckCmd dbErr users name typed sessions channels env (\<lambda>_ w. w) True schedule v = Some (Inr (v', s, export))"
    and "\<And>u t i. kc_dryRun (env u t i)"
  shows "v' = v \<and> export = None"
  using assms(1) check_channels_dry [OF assms(2)]
  by (auto simp: runCheckCmd_def split: option.split_asm sum.split_asm list.split_asm)

text \<open>The messages are loaded while uploads go on: a check in which every call succeeds.\<close>

definition check_works :: "'c check_env \<Rightarrow> bool" where
  "check_works env \<longleftrightarrow> \<not> kc_dryRun env \<and> \<not> kc_cleanUploads env \<and> \<not> kc_cleanPending env \<and> kc_countErr env = None \<and> kc_loadErr env = None \<and>
     kc_client env = None \<and> kc_runErr env = None \<and> au_status (kc_auth env) = Inr True \<and> (\<exists>ch. kc_channel env = Inr ch) \<and>
     kc_api env = (\<lambda>_ _. None) \<and> kc_uploadsErr env = None \<and> kc_deleteErr env = None \<and> (\<forall>is. set (kc_order env is) = set is)"

lemma check_works_loads:
  assumes "check_works env" "distinct (map fr_ID rows)" "\<forall>f \<in> set rows. fr_ID f \<noteq> []"
  shows "\<exists>files. loadFiles env rows = Some (Inr files)"
  using load_loop_all [OF assms(2,3), of env "[]"] assms(1) by (auto simp: loadFiles_def check_works_def)

lemma check_works_orphans:
  assumes "check_works env" "kr_deleted rp = []"
  shows "\<exists>rp'. clean_orphans env rp v = (v, rp', None) \<and> concat (kr_deleted rp') = kr_orphans rp"
proof -
  obtain ch where ch: "kc_channel env = Inr ch" using assms(1) by (auto simp: check_works_def)
  have auth: "RunWithAuth (kc_runErr env) (kc_auth env) t f = f" for t f
    using assms(1) by (simp add: RunWithAuth_def Auth_def check_works_def)
  obtain batches err where d: "DeleteMessages (Inr ch) (kc_api env) (kc_seen env) (kc_first env) (kr_orphans rp) = (batches, err)" by fastforce
  from DeleteMessages_batches [OF d] assms(1) have b: "concat batches = kr_orphans rp" "err = None" by (simp_all add: check_works_def)
  have client: "kc_client env = None" "\<not> kc_dryRun env" using assms(1) by (simp_all add: check_works_def)
  have "deleteOrphanMessages env (kr_orphans rp) = (batches, err)" using d by (simp add: deleteOrphanMessages_def client(1) auth ch)
  then show ?thesis using assms(2) b by (cases "kr_orphans rp = []") (simp_all add: clean_orphans_def client)
qed

definition files_are_leaves :: "file_row list \<Rightarrow> bool" where
  "files_are_leaves rows \<longleftrightarrow> (\<forall>g \<in> set rows. fr_Type g = ''file'' \<longrightarrow> (\<forall>h \<in> set rows. fr_ParentId h \<noteq> Some (fr_ID g)))"

lemma bulk_keeps:
  assumes "tree_ok rows" "files_are_leaves rows" "\<forall>g \<in> set rows. fr_ID g \<in> set ids \<longrightarrow> fr_Type g = ''file''"
    and "f \<in> set rows" "fr_ID f \<notin> set ids" "fr_Type f = ''file''"
  shows "\<exists>rows'. deleteFilesBulk rows ids userId = Some rows' \<and> f \<in> set rows'"
proof -
  have "\<not> in_trees rows ids userId p" if "fr_ParentId f = Some p" for p
  proof
    assume "in_trees rows ids userId p"
    then obtain g where g: "g \<in> set rows" "fr_ID g \<in> set ids" "below rows (fr_ID g) p" by (auto simp: in_trees_def)
    have leaf: "\<forall>h \<in> set rows. fr_ParentId h \<noteq> Some (fr_ID g)" using assms(2,3) g(1,2) unfolding files_are_leaves_def by blast
    then have "p = fr_ID g" using g(3) by (subst (asm) below_iff) auto
    with leaf assms(4) that show False by blast
  qed
  then have "f \<in> set (map (\<lambda>f. if ((\<exists>p. fr_ParentId f = Some p \<and> in_trees rows ids userId p) \<or> fr_ID f \<in> set ids) \<and> fr_Type f = ''file''
                    then f\<lparr>fr_Status := ''pending_deletion''\<rparr> else f)
           (filter (\<lambda>f. \<not> (in_trees rows ids userId (fr_ID f) \<and> fr_Type f = ''folder'')) rows))"
    using assms(4-6) by (auto simp: image_iff intro!: bexI [of _ f])
  then show ?thesis unfolding deleteFilesBulk_eq [OF assms(1)] by blast
qed

lemma created_from_upload:
  assumes "FilesCreate senv userId fileIn v = Some (w, Inr f)" "fi_Type fileIn = ''file''" "fi_Parts fileIn = []" "fi_UploadId fileIn \<noteq> []"
    and "u \<in> set (upload_parts senv (fi_UploadId fileIn) (sv_uploads v))" "fr_ID f \<notin> fr_ID ` set (sv_files v)"
  shows "sv_files w = sv_files v @ [f] \<and> active f \<and> fr_Type f = ''file'' \<and> up_PartId u \<in> set (row_parts f) \<and>
    sv_uploads w = filter (\<lambda>u. up_UploadId u \<noteq> fi_UploadId fileIn) (sv_uploads v)"
proof (cases rule: FilesCreate_cases [of senv userId fileIn v])
  case (2 q row uploadId rows fileDB)
  note fields = create_row_fields [OF 2(2)]
  let ?us = "upload_parts senv (fi_UploadId fileIn) (sv_uploads v)"
  have row: "fr_Parts row = Some (map_parts (map part_of_upload ?us))" "uploadId = fi_UploadId fileIn"
    using 2(2) assms(2-5) by (auto simp: create_row_def create_parts_def Let_def split: sum.splits if_splits option.splits)
  have f: "f = fileDB" using 2(5) assms(1) by simp
  have "rows = sv_files v @ [row] \<and> fileDB = row"
  proof (cases rule: upsert_cases [of row "sv_files v"])
    case 1
    then show ?thesis using 2(3) by simp
  next
    case (2 us g vs)
    then have "fr_ID f = fr_ID g" using f \<open>upsert row (sv_files v) = (rows, fileDB)\<close> by (auto simp: upserted_def)
    with 2 assms(6) show ?thesis by simp
  qed
  moreover have "sv_files w = rows \<and> sv_uploads w = filter (\<lambda>u. up_UploadId u \<noteq> fi_UploadId fileIn) (sv_uploads v)"
    using 2(5) assms(1,4) row(2) by (simp add: record_event_def)
  moreover have "up_PartId u \<in> set (row_parts row)" using assms(5) row(1) by (auto simp: row_parts_def map_parts_def part_of_upload_def)
  ultimately show ?thesis using fields f assms(2) by simp
qed (use assms in simp)

text \<open>C28: A check deletes files that are created while it runs. The uploads of the channel are read after its messages: when a file is
  created in between, its parts are no longer uploads and not yet among the loaded files, and the check deletes their messages
  as orphans. The run succeeds, and the new file is active without its content.\<close>

theorem check_deletes_new_file:
  assumes created: "FilesCreate senv userId fileIn v = Some (w, Inr f)" "fi_Type fileIn = ''file''" "fi_Parts fileIn = []" "fi_UploadId fileIn \<noteq> []"
    and u: "u \<in> set (upload_parts senv (fi_UploadId fileIn) (sv_uploads v))" "distinct (map up_PartId (sv_uploads v))"
    and fresh: "fr_ID f \<notin> fr_ID ` set (sv_files v)" "\<And>g. g \<in> set (sv_files v) \<Longrightarrow> up_PartId u \<notin> set (row_parts g)"
    and rows: "tree_ok (sv_files w)" "files_are_leaves (sv_files w)" "distinct (map fr_ID (sv_files v))" "\<And>g. g \<in> set (sv_files v) \<Longrightarrow> fr_ID g \<noteq> []"
    and env: "check_works env" "loadChannelMessages env = Inr (msgs, n)" "0 < n" "n \<le> int (length msgs)" "distinct (map fst msgs)"
    and msg: "up_PartId u \<in> set (map fst msgs)" "1 < up_PartId u"
  shows "\<exists>v' rp. process env (\<lambda>_. w) v = Some (v', rp, None) \<and> f \<in> set (sv_files v') \<and> active f \<and> up_PartId u \<in> set (row_parts f) \<and>
    up_PartId u \<in> set (concat (kr_deleted rp))"
proof -
  note f = created_from_upload [OF created u(1) fresh(1)]
  obtain files where files: "loadFiles env (sv_files v) = Some (Inr files)" using check_works_loads [OF env(1) rows(3)] rows(4) by blast
  from loadFiles_all [OF rows(3) _ files] rows(4) have fset: "set files = scan_file ` {f \<in> set (sv_files v). checked env f}" by blast
  define m where "m = msg_map (upload_ids env (sv_uploads w)) msgs"
  have "u' = u" if "u' \<in> set (sv_uploads v)" "up_PartId u' = up_PartId u" for u'
    using that u by (auto simp: upload_parts_def distinct_map dest: inj_onD)
  then have "up_PartId u \<notin> set (upload_ids env (sv_uploads w))" using f u(1) by (auto simp: upload_ids_def upload_parts_def)
  moreover have "map_of msgs (up_PartId u) \<noteq> None" using msg(1) by (simp add: map_of_eq_None_iff)
  ultimately have here: "map_of m (up_PartId u) \<noteq> None" using msg(2) by (simp add: m_def map_of_msg_map [OF env(5)])
  let ?rp = "compare_files env files m"
  have order: "\<And>is. set (kc_order env is) = set is" using env(1) by (simp add: check_works_def)
  note report = compare_files_report [where env = env and files = files and m = m, OF order]
  have "up_PartId u \<notin> pt_ID ` set (kf_Parts g)" if "g \<in> set files" for g
  proof -
    obtain h where h: "h \<in> set (sv_files v)" "g = scan_file h" using \<open>g \<in> set files\<close> unfolding fset by blast
    have "pt_ID ` set (kf_Parts (scan_file h)) = set (row_parts h)" by (cases "fr_Parts h") (simp_all add: scan_file_def row_parts_def)
    then show ?thesis using fresh(2) h by simp
  qed
  then have orphan: "up_PartId u \<in> set (kr_orphans ?rp)" using report(3) [OF here] msg(2) by auto
  let ?ids = "map kf_ID (kr_missing ?rp)"
  have ids: "\<exists>g \<in> set (sv_files v). fr_Type g = ''file'' \<and> fr_ID g = i" if "i \<in> set ?ids" for i
    using that report(1) fset by (auto simp: checked_def scan_file_def)
  have "\<forall>g \<in> set (sv_files w). fr_ID g \<in> set ?ids \<longrightarrow> fr_Type g = ''file''"
    using ids same_id [OF rows(3)] f by (metis Un_iff list.set(1) list.simps(15) set_append singletonD)
  moreover have "fr_ID f \<notin> set ?ids" using ids fresh(1) by (metis image_eqI)
  ultimately obtain rows' where rows': "deleteFilesBulk (sv_files w) ?ids (kc_userId env) = Some rows'" "f \<in> set rows'"
    using bulk_keeps [OF rows(1,2), of ?ids f "kc_userId env"] f by auto
  define w1 where "w1 = (if kr_missing ?rp = [] then w else w\<lparr>sv_files := rows', sv_shares := cascade_shares rows' (sv_shares w)\<rparr>)"
  obtain rp' where rp': "clean_orphans env ?rp w1 = (w1, rp', None)" "concat (kr_deleted rp') = kr_orphans ?rp"
    using check_works_orphans [OF env(1) report(4)] by blast
  have "clean_pending env ?rp w = Some (w1, rp', None)"
    using env(1) rows'(1) rp'(1)
    by (cases "kr_missing ?rp = []") (simp_all add: clean_pending_def clean_missing_def check_deleteFilesBulk_def check_works_def w1_def)
  then have "process env (\<lambda>_. w) v = Some (w1, rp', None)"
    using env files unfolding m_def by (simp add: process_def check_channel_def check_works_def Let_def)
  moreover have "f \<in> set (sv_files w1)" using rows'(2) f by (simp add: w1_def)
  moreover have "up_PartId u \<in> set (concat (kr_deleted rp'))" using orphan unfolding rp'(2) .
  ultimately show ?thesis using f by blast
qed

definition demo_check :: "unit check_env" where
  "demo_check = \<lparr>kc_userId = 7, kc_id = 9, kc_cleanPending = False, kc_cleanUploads = False, kc_dryRun = False, kc_delUploadsErr = None,
     kc_countErr = None, kc_loadErr = None, kc_client = None, kc_runErr = None, kc_auth = \<lparr>au_status = Inr True, au_bot = (\<lambda>_. None), au_again = None\<rparr>,
     kc_session = ''s'', kc_channel = Inr (), kc_total = (\<lambda>_. Inr 3), kc_history = (\<lambda>_. [(5, Some 3), (8, None), (1, None)]), kc_uploadsErr = None,
     kc_pendingErr = None, kc_deleteErr = None, kc_order = (\<lambda>is. is), kc_api = (\<lambda>_ _. None), kc_seen = (\<lambda>i. i), kc_first = hd\<rparr>"

lemma demo_check_works: "check_works demo_check"
  by (simp add: check_works_def demo_check_def)

lemma demo_check_messages: "loadChannelMessages demo_check = Inr ([(5, Some 3), (8, None), (1, None)], 3)"
  by (simp add: loadChannelMessages_def RunWithAuth_def Auth_def demo_check_def)

definition demo_kept :: file_row where
  "demo_kept = (sample_row ''f'' ''file'' 7 None)\<lparr>fr_Parts := Some [\<lparr>pt_ID = 5, pt_Salt = []\<rparr>], fr_ChannelId := Some 9, fr_Size := Some 3\<rparr>"

lemma demo_checked:
  "\<exists>rp. process demo_check (\<lambda>w. w) (empty_svc\<lparr>sv_files := [demo_kept]\<rparr>) = Some (empty_svc\<lparr>sv_files := [demo_kept]\<rparr>, rp, None) \<and>
    concat (kr_deleted rp) = [8]"
proof -
  let ?v = "empty_svc\<lparr>sv_files := [demo_kept]\<rparr>"
  have c: "checked demo_check demo_kept" by (simp add: checked_def demo_check_def demo_kept_def sample_row_def)
  have "load_loop demo_check [demo_kept] [] = Some [demo_kept]" by (subst load_loop.simps) (simp add: next_batch_def c)
  then have files: "loadFiles demo_check [demo_kept] = Some (Inr [scan_file demo_kept])" using c by (simp add: loadFiles_def demo_check_def)
  have "check_files (msg_map [] [(5, Some 3), (8, None), (1, None)]) [scan_file demo_kept] [] [] = ([5], [])"
    by (simp add: scan_file_def demo_kept_def sample_row_def msg_map_def size_or_0_def)
  then have rp: "kr_missing (compare_files demo_check [scan_file demo_kept] (msg_map [] [(5, Some 3), (8, None), (1, None)])) = []"
    "kr_orphans (compare_files demo_check [scan_file demo_kept] (msg_map [] [(5, Some 3), (8, None), (1, None)])) = [8]"
    "kr_deleted (compare_files demo_check [scan_file demo_kept] (msg_map [] [(5, Some 3), (8, None), (1, None)])) = []"
    by (simp_all add: compare_files_def demo_check_def msg_map_def)
  from check_works_orphans [OF demo_check_works rp(3), of ?v] obtain rp' where
    "clean_orphans demo_check (compare_files demo_check [scan_file demo_kept] (msg_map [] [(5, Some 3), (8, None), (1, None)])) ?v = (?v, rp', None)"
    "concat (kr_deleted rp') = [8]" unfolding rp(2) by blast
  moreover have "upload_ids demo_check [] = []" by (simp add: upload_ids_def)
  ultimately show ?thesis
    using files demo_check_works rp(1)
    by (simp add: process_def check_channel_def demo_check_messages clean_pending_def clean_missing_def empty_svc_def check_works_def)
qed


theorem check_deletes_new_file_witness:
  "\<exists>w f v' rp. FilesCreate svc_sample 7 (sample_folder\<lparr>fi_Type := ''file'', fi_UploadId := ''u''\<rparr>) (empty_svc\<lparr>sv_uploads := [sample_upload]\<rparr>) = Some (w, Inr f) \<and>
    process demo_check (\<lambda>_. w) (empty_svc\<lparr>sv_uploads := [sample_upload]\<rparr>) = Some (v', rp, None) \<and> f \<in> set (sv_files v') \<and> active f \<and>
    5 \<in> set (row_parts f) \<and> 5 \<in> set (concat (kr_deleted rp))"
proof -
  let ?in = "sample_folder\<lparr>fi_Type := ''file'', fi_UploadId := ''u''\<rparr>" and ?v = "empty_svc\<lparr>sv_uploads := [sample_upload]\<rparr>"
  obtain w f where c: "FilesCreate svc_sample 7 ?in ?v = Some (w, Inr f)" and f: "sv_files w = [f]" "fr_ID f = ''n1''" "fr_ParentId f = Some ''r''"
    by (simp add: FilesCreate_def sample_folder_def empty_svc_def sample_upload_def create_parent_def create_row_def create_parts_def
        upload_parts_def new_row_def svc_sample_def record_event_def Let_def)
  have tree: "tree_ok (sv_files w)" unfolding tree_ok_def f(1) by (rule exI [of _ "\<lambda>i. if i = ''r'' then 0 else 1"]) (simp add: f)
  have leaves: "files_are_leaves (sv_files w)" by (simp add: files_are_leaves_def f)
  have u: "up_PartId sample_upload = 5" by (simp add: sample_upload_def)
  have "\<exists>v' rp. process demo_check (\<lambda>_. w) ?v = Some (v', rp, None) \<and> f \<in> set (sv_files v') \<and> active f \<and>
    up_PartId sample_upload \<in> set (row_parts f) \<and> up_PartId sample_upload \<in> set (concat (kr_deleted rp))"
    by (rule check_deletes_new_file [OF c _ _ _ _ _ _ _ tree leaves _ _ demo_check_works demo_check_messages])
      (simp_all add: sample_folder_def empty_svc_def sample_upload_def upload_parts_def svc_sample_def)
  with c show ?thesis unfolding u by blast
qed

end
