(* ===== verification/File_Handlers.thy ===== *)
theory File_Handlers
  imports Uploads File_Query Cron "HOL-Library.Char_ord" "HOL-Library.List_Lexorder"
begin

section \<open>Copies, directories and single files (pkg/services/file.go)\<close>

text \<open>
  The remaining handlers of files: statistics by category, one file by its id, the making of directories, which is a
  function of the database (internal/database/migrations/20240915100057_modify.sql), and the copy of a file, which
  sends its documents again to the current channel. \<open>fresh rows\<close> is the id of the next row. A result \<open>None\<close> is a panic or a
  query that does not end.
\<close>

subsection \<open>Statistics\<close>

record category_stats =
  ct_Category :: "category option"
  ct_TotalFiles :: nat
  ct_TotalSize :: int

fun category_name :: "category \<Rightarrow> string" where
  "category_name Archive = ''archive''"
| "category_name Audio = ''audio''"
| "category_name Document = ''document''"
| "category_name Image = ''image''"
| "category_name Other = ''other''"
| "category_name Video = ''video''"

definition category_rows :: "int \<Rightarrow> file_row list \<Rightarrow> file_row list" where
  "category_rows userId rows = filter (\<lambda>f. fr_UserId f = userId \<and> fr_Type f = ''file'' \<and> fr_Status f = ''active'') rows"

definition stats_of :: "category option \<times> file_row list \<Rightarrow> category_stats" where
  "stats_of g = (case g of (c, fs) \<Rightarrow> \<lparr>ct_Category = c, ct_TotalFiles = length fs, ct_TotalSize = sum_list (map size_or_0 fs)\<rparr>)"

text \<open>In the order of the names, \<^verbatim>\<open>NULL\<close> behind them.\<close>

definition FilesCategoryStats :: "go_error option \<Rightarrow> int \<Rightarrow> file_row list \<Rightarrow> api_error + category_stats list" where
  "FilesCategoryStats dbErr userId rows =
     (case dbErr of
        Some e \<Rightarrow> Inl (ApiError e 0)
      | None \<Rightarrow>
          let groups = group_rows fr_Category (category_rows userId rows) in
          Inr (map stats_of (sort_key (\<lambda>g. category_name (the (fst g))) (filter (\<lambda>g. fst g \<noteq> None) groups) @ filter (\<lambda>g. fst g = None) groups)))"

subsection \<open>Directories\<close>

definition path_parts :: "string \<Rightarrow> string list" where
  "path_parts path = (let p = trim_left CHR ''/'' path in if p = [] then [] else split_on CHR ''/'' p)"

definition new_folder :: "string \<Rightarrow> int \<Rightarrow> string \<Rightarrow> string option \<Rightarrow> int \<Rightarrow> file_row" where
  "new_folder i userId name parent now =
     \<lparr>fr_ID = i, fr_Name = name, fr_Type = ''folder'', fr_MimeType = ''drive/folder'', fr_Size = None, fr_Category = None, fr_Encrypted = Some False,
      fr_UserId = userId, fr_Status = ''active'', fr_ParentId = parent, fr_Parts = None, fr_ChannelId = None, fr_Hash = None, fr_UpdatedAt = Some now\<rparr>"

definition entry_at :: "int \<Rightarrow> string option \<Rightarrow> string \<Rightarrow> file_row \<Rightarrow> bool" where
  "entry_at userId parent name f \<longleftrightarrow> parent \<noteq> None \<and> fr_ParentId f = parent \<and> fr_Name f = name \<and> fr_UserId f = userId"

fun make_dirs :: "(file_row list \<Rightarrow> string) \<Rightarrow> int \<Rightarrow> int \<Rightarrow> string list \<Rightarrow> string option \<Rightarrow> file_row list \<Rightarrow> go_error + file_row list \<times> string option" where
  "make_dirs fresh now userId [] current rows = Inr (rows, current)"
| "make_dirs fresh now userId (name # names) current rows =
     (case find (entry_at userId current name) rows of
        Some f \<Rightarrow> make_dirs fresh now userId names (Some (fr_ID f)) rows
      | None \<Rightarrow>
          let f = new_folder (fresh rows) userId name current now in
          if list_ex (\<lambda>g. active g \<and> same_place f g) rows then Inl ErrUnique
          else make_dirs fresh now userId names (Some (fr_ID f)) (rows @ [f]))"

definition root_id :: "int \<Rightarrow> file_row list \<Rightarrow> string option" where
  "root_id userId rows = map_option fr_ID (find (\<lambda>f. fr_ParentId f = None \<and> fr_UserId f = userId \<and> fr_Type f = ''folder'') rows)"

definition create_directories :: "(file_row list \<Rightarrow> string) \<Rightarrow> int \<Rightarrow> int \<Rightarrow> string \<Rightarrow> file_row list \<Rightarrow> go_error + file_row list \<times> file_row list" where
  "create_directories fresh now userId path rows =
     map_sum id (\<lambda>(rows', current). (rows', filter (\<lambda>f. Some (fr_ID f) = current) rows')) (make_dirs fresh now userId (path_parts path) (root_id userId rows) rows)"

definition FilesMkdir :: "(file_row list \<Rightarrow> string) \<Rightarrow> int \<Rightarrow> go_error option \<Rightarrow> int \<Rightarrow> string \<Rightarrow> ('s, 'z) svc_scheme \<Rightarrow> ('s, 'z) svc_scheme \<times> api_error option" where
  "FilesMkdir fresh now dbErr userId path v =
     (case (case dbErr of Some e \<Rightarrow> Inl e | None \<Rightarrow> create_directories fresh now userId path (sv_files v)) of
        Inl e \<Rightarrow> (v, Some (ApiError e 0))
      | Inr (rows, _) \<Rightarrow> (v\<lparr>sv_files := rows\<rparr>, None))"

subsection \<open>One file\<close>

text \<open>Whether a fetch with a stale copy evaluates its function in the foreground.\<close>

definition stale_runs :: "('s, 'v) cache_get \<Rightarrow> 'v fetch_env \<Rightarrow> string \<Rightarrow> 's \<Rightarrow> bool" where
  "stale_runs get fe key c =
     (case get c (fe_first fe) key of
        Inr _ \<Rightarrow> False
      | Inl err \<Rightarrow> isNotFound err \<and> (case get c (fe_first fe) (staleKey key) of Inr _ \<Rightarrow> False | Inl _ \<Rightarrow>
          fe_joined fe = None \<and> (case get c (fe_again fe) key of Inr _ \<Rightarrow> False | Inl _ \<Rightarrow> True)))"

definition fileMetadataCacheTTL :: int where "fileMetadataCacheTTL = 30 * 10 ^ 9"
definition fileMetadataStaleTTL :: int where "fileMetadataStaleTTL = 5 * 60 * 10 ^ 9"

definition file_by_id :: "go_error option \<Rightarrow> file_row list \<Rightarrow> string \<Rightarrow> go_error + file_row" where
  "file_by_id dbErr rows i =
     (case dbErr of
        Some e \<Rightarrow> Inl e
      | None \<Rightarrow> (case find (\<lambda>f. fr_ID f = i) rows of None \<Rightarrow> Inl (ErrText ''file not found'') | Some f \<Rightarrow> Inr f))"

record file_info =
  in_File :: file_out
  in_Path :: string
  in_ChannelId :: "int option"

definition FilesGetById ::
  "('s, file_row) cache_get \<Rightarrow> ('s, file_row) cache_set \<Rightarrow> file_row fetch_env \<Rightarrow> ('s, string) cache_get \<Rightarrow> ('s, string) cache_set \<Rightarrow> string fetch_env \<Rightarrow>
   go_error option \<Rightarrow> string \<Rightarrow> ('s, 'z) svc_scheme \<Rightarrow> (('s, 'z) svc_scheme \<times> (go_error + file_info)) option" where
  "FilesGetById getf putf fef getp putp fep dbErr i v =
     (case FetchWithStale getf putf fef (KeyFile i) fileMetadataCacheTTL fileMetadataStaleTTL (file_by_id dbErr (sv_files v) i) (sv_cache v) of
        (c1, Inl e, _) \<Rightarrow> Some (v\<lparr>sv_cache := c1\<rparr>, Inl e)
      | (c1, Inr file, _) \<Rightarrow>
          let path = getFullPath (sv_files v) i in
          if path = None \<and> stale_runs getp fep (KeyFilePath i) c1 then None
          else case FetchWithStale getp putp fep (KeyFilePath i) fileMetadataCacheTTL fileMetadataStaleTTL
              (case dbErr of Some e \<Rightarrow> Inl e | None \<Rightarrow> Inr (str_opt path)) c1 of
            (c2, Inl e, _) \<Rightarrow> Some (v\<lparr>sv_cache := c2\<rparr>, Inl e)
          | (c2, Inr p, _) \<Rightarrow>
              map_option (\<lambda>out. (v\<lparr>sv_cache := c2\<rparr>, Inr \<lparr>in_File = out, in_Path = p, in_ChannelId = fr_ChannelId file\<rparr>)) (ToFileOut file))"

subsection \<open>Copying\<close>

fun sent_message :: "tg_up_update list \<Rightarrow> int option" where
  "sent_message [] = None"
| "sent_message (NewChannelMessage m # us) = (case m of Some (UpMessage i _) \<Rightarrow> Some i | _ \<Rightarrow> None)"
| "sent_message (OtherUpdate # us) = sent_message us"

text \<open>The copy of one part: its document is sent to the channel, the id of the new message is the part. The error names the index.\<close>

definition copy_part :: "(nat \<Rightarrow> 'loc \<Rightarrow> go_error + tg_up_updates) \<Rightarrow> api_part list \<Rightarrow> nat \<Rightarrow> 'loc tg_file tg_message \<Rightarrow> (go_error + api_part) option" where
  "copy_part send parts i message =
     (case message of
        Message (MediaDocument (TgDocument d)) \<Rightarrow>
          (case send i (tf_Location d) of
             Inl e \<Rightarrow> Some (Inl e)
           | Inr UpOtherUpdates \<Rightarrow> Some (Inl (ErrText ''unexpected response type from SendMedia''))
           | Inr (UpUpdates us) \<Rightarrow>
               (case sent_message us of
                  None \<Rightarrow> Some (Inl (ErrText ''no channel message in send response''))
                | Some m \<Rightarrow>
                    if i < length parts
                    then Some (Inr \<lparr>pt_ID = m, pt_Salt = (if pt_Salt (parts ! i) \<noteq> [] then pt_Salt (parts ! i) else [])\<rparr>)
                    else None))
      | Message (MediaDocument OtherDocument) \<Rightarrow> Some (Inl (ErrText ''unexpected document type''))
      | Message OtherMedia \<Rightarrow> Some (Inl (ErrText ''unexpected media type''))
      | _ \<Rightarrow> Some (Inl (ErrText ''unexpected message type'')))"

record 'loc copy_env =
  cy_client :: "go_error option"
  cy_dbErr :: "go_error option"
  cy_chanErr :: "go_error option"
  cy_runErr :: "go_error option"
  cy_messages :: "int list \<Rightarrow> int \<Rightarrow> go_error + 'loc tg_file tg_message list"
  cy_channel :: "int \<Rightarrow> go_error option"
  cy_send :: "int \<Rightarrow> nat \<Rightarrow> 'loc \<Rightarrow> go_error + tg_up_updates"
  cy_first :: "go_error list \<Rightarrow> go_error"
  cy_isUUID :: "string \<Rightarrow> bool"
  cy_dirErr :: "go_error option"
  cy_createErr :: "go_error option"
  cy_fresh :: "file_row list \<Rightarrow> string"
  cy_now :: int

definition copy_parts :: "'loc copy_env \<Rightarrow> file_row \<Rightarrow> int \<Rightarrow> (go_error + api_part list) option" where
  "copy_parts env file channelId =
     (case cy_runErr env of
        Some e \<Rightarrow> Some (Inl e)
      | None \<Rightarrow>
          Option.bind (fr_Parts file) (\<lambda>parts. Option.bind (fr_ChannelId file) (\<lambda>source.
            case cy_messages env (map pt_ID parts) source of
              Inl e \<Rightarrow> Some (Inl e)
            | Inr ms \<Rightarrow>
                (case cy_channel env channelId of
                   Some e \<Rightarrow> Some (Inl e)
                 | None \<Rightarrow>
                     map_option (\<lambda>rs. let errs = concat (map (case_sum (\<lambda>e. [e]) (\<lambda>_. [])) rs) in
                         if errs \<noteq> [] then Inl (cy_first env errs) else Inr (concat (map (case_sum (\<lambda>_. []) (\<lambda>p. [p])) rs)))
                       (those (map (\<lambda>i. copy_part (cy_send env channelId) parts i (ms ! i)) [0..<length ms]))))))"

definition copy_parent :: "'loc copy_env \<Rightarrow> int \<Rightarrow> string \<Rightarrow> file_row list \<Rightarrow> (go_error + file_row list \<times> string) option" where
  "copy_parent env userId destination rows =
     (if cy_isUUID env destination then Some (Inr (rows, destination))
      else case (case cy_dirErr env of Some e \<Rightarrow> Inl e | None \<Rightarrow> create_directories (cy_fresh env) (cy_now env) userId destination rows) of
        Inl e \<Rightarrow> Some (Inl e)
      | Inr (rows', []) \<Rightarrow> None
      | Inr (rows', f # _) \<Rightarrow> Some (Inr (rows', fr_ID f)))"

definition copied_row :: "'loc copy_env \<Rightarrow> int \<Rightarrow> file_row \<Rightarrow> string option \<Rightarrow> int option \<Rightarrow> api_part list \<Rightarrow> int \<Rightarrow> string \<Rightarrow> string \<Rightarrow> file_row" where
  "copied_row env userId file newName updatedAt newIds channelId parentId newID =
     \<lparr>fr_ID = newID, fr_Name = (case newName of None \<Rightarrow> fr_Name file | Some n \<Rightarrow> n), fr_Type = fr_Type file, fr_MimeType = fr_MimeType file,
      fr_Size = fr_Size file, fr_Category = fr_Category file, fr_Encrypted = fr_Encrypted file, fr_UserId = userId, fr_Status = ''active'',
      fr_ParentId = Some parentId, fr_Parts = (if newIds \<noteq> [] then Some newIds else None), fr_ChannelId = Some channelId, fr_Hash = fr_Hash file,
      fr_UpdatedAt = Some (case updatedAt of None \<Rightarrow> cy_now env | Some t \<Rightarrow> t)\<rparr>"

definition FilesCopy ::
  "('s, int) cache_get \<Rightarrow> ('s, int) cache_set \<Rightarrow> int fetch_env \<Rightarrow> 'loc copy_env \<Rightarrow> int \<Rightarrow> string \<Rightarrow> string \<Rightarrow> string option \<Rightarrow> int option \<Rightarrow> 's chan_svc \<Rightarrow>
   ('s chan_svc \<times> (api_error + file_row)) option" where
  "FilesCopy get put fe env userId i destination newName updatedAt v =
     (case cy_dbErr env of
        Some e \<Rightarrow> Some (v, Inl (ApiError e 0))
      | None \<Rightarrow>
          (case find (\<lambda>f. fr_ID f = i) (sv_files v) of
             None \<Rightarrow> Some (v, Inl (ApiError (ErrText ''file not found'') 404))
           | Some file \<Rightarrow>
               (case CurrentChannel get put fe (cy_chanErr env) userId v of
                  (v1, Inl e) \<Rightarrow> Some (v1, Inl (ApiError e 0))
                | (v1, Inr channelId) \<Rightarrow>
                    if cy_client env \<noteq> None then None
                    else Option.bind (copy_parts env file channelId) (\<lambda>r.
                      case r of
                        Inl e \<Rightarrow> Some (v1, Inl (ApiError e 0))
                      | Inr newIds \<Rightarrow>
                          Option.bind (fr_Parts file) (\<lambda>parts.
                          if length newIds \<noteq> length parts then Some (v1, Inl (ApiError (ErrText ''failed to copy all file parts'') 0))
                          else Option.bind (copy_parent env userId destination (sv_files v1)) (\<lambda>d.
                            case d of
                              Inl e \<Rightarrow> Some (v1, Inl (ApiError e 0))
                            | Inr (rows, parentId) \<Rightarrow>
                                let v2 = v1\<lparr>sv_files := rows\<rparr>;
                                    f = copied_row env userId file newName updatedAt newIds channelId parentId (cy_fresh env rows)
                                in case (if cy_createErr env = None \<and> list_ex (\<lambda>g. active g \<and> same_place f g) rows then Some ErrUnique else cy_createErr env) of
                                  Some e \<Rightarrow> Some (v2, Inl (ApiError e 0))
                                | None \<Rightarrow>
                                    map_option (\<lambda>_. (v2\<lparr>sv_files := rows @ [f],
                                        sv_events := sv_events v2 @ [(OpCopy, userId, (source_of f)\<lparr>so_ParentID := parentId\<rparr>)]\<rparr>, Inr f)) (ToFileOut f)))))))"

subsection \<open>Making directories\<close>

lemma find_append: "find P (xs @ ys) = (case find P xs of Some x \<Rightarrow> Some x | None \<Rightarrow> find P ys)"
  by (induction xs) auto

text \<open>Making the same directories again finds all of them, whatever has been appended since.\<close>

lemma make_dirs_again:
  "make_dirs fresh now userId names (Some c) rows = Inr (rows', r) \<Longrightarrow>
   (\<exists>new. rows' = rows @ new \<and> (\<forall>f \<in> set new. fr_Type f = ''folder'' \<and> active f \<and> fr_UserId f = userId \<and> fr_ParentId f \<noteq> None)) \<and>
   (\<forall>extra fresh' now'. make_dirs fresh' now' userId names (Some c) (rows' @ extra) = Inr (rows' @ extra, r))"
proof (induction names arbitrary: c rows)
  case (Cons name names)
  show ?case
  proof (cases "find (entry_at userId (Some c) name) rows")
    case (Some f)
    with Cons.prems have "make_dirs fresh now userId names (Some (fr_ID f)) rows = Inr (rows', r)" by simp
    from Cons.IH [OF this] obtain new where new: "rows' = rows @ new"
      "\<forall>f \<in> set new. fr_Type f = ''folder'' \<and> active f \<and> fr_UserId f = userId \<and> fr_ParentId f \<noteq> None"
      "\<And>extra fresh' now'. make_dirs fresh' now' userId names (Some (fr_ID f)) (rows' @ extra) = Inr (rows' @ extra, r)" by blast
    have "find (entry_at userId (Some c) name) (rows' @ extra) = Some f" for extra using Some new(1) by (simp add: find_append)
    with new show ?thesis by auto
  next
    case None
    let ?f = "new_folder (fresh rows) userId name (Some c) now"
    from None Cons.prems have "make_dirs fresh now userId names (Some (fr_ID ?f)) (rows @ [?f]) = Inr (rows', r)"
      by (simp add: Let_def split: if_splits)
    from Cons.IH [OF this] obtain new where new: "rows' = (rows @ [?f]) @ new"
      "\<forall>f \<in> set new. fr_Type f = ''folder'' \<and> active f \<and> fr_UserId f = userId \<and> fr_ParentId f \<noteq> None"
      "\<And>extra fresh' now'. make_dirs fresh' now' userId names (Some (fr_ID ?f)) (rows' @ extra) = Inr (rows' @ extra, r)" by blast
    have f: "fr_Type ?f = ''folder'' \<and> active ?f \<and> fr_UserId ?f = userId \<and> fr_ParentId ?f \<noteq> None" "entry_at userId (Some c) name ?f"
      by (simp_all add: new_folder_def active_def entry_at_def)
    have "find (entry_at userId (Some c) name) (rows' @ extra) = Some ?f" for extra using None new(1) f(2) by (simp add: find_append)
    with new(3) have "make_dirs fresh' now' userId (name # names) (Some c) (rows' @ extra) = Inr (rows' @ extra, r)" for extra fresh' now' by simp
    moreover have "rows' = rows @ ?f # new" "\<forall>g \<in> set (?f # new). fr_Type g = ''folder'' \<and> active g \<and> fr_UserId g = userId \<and> fr_ParentId g \<noteq> None"
      using new(1,2) f(1) by simp_all
    ultimately show ?thesis by blast
  qed
qed simp

lemma make_dirs_table_ok:
  "make_dirs fresh now userId names current rows = Inr (rows', r) \<Longrightarrow> table_ok rows \<Longrightarrow> (\<And>rs. fresh rs \<notin> fr_ID ` set rs) \<Longrightarrow> table_ok rows'"
proof (induction names arbitrary: current rows)
  case (Cons name names)
  show ?case
  proof (cases "find (entry_at userId current name) rows")
    case None
    let ?f = "new_folder (fresh rows) userId name current now"
    have "table_ok (rows @ [?f])" if "\<not> list_ex (\<lambda>g. active g \<and> same_place ?f g) rows"
    proof -
      have "\<not> (active g \<and> active ?f \<and> same_place g ?f)" if "g \<in> set rows" for g
        using that \<open>\<not> list_ex (\<lambda>g. active g \<and> same_place ?f g) rows\<close> by (auto simp: list_ex_iff same_place_def)
      then show ?thesis using Cons.prems(2,3) by (auto simp: table_ok_def unique_append new_folder_def list_ex_iff)
    qed
    with None Cons.prems Cons.IH show ?thesis by (auto simp: Let_def split: if_splits)
  qed (use Cons in auto)
qed simp

lemma create_directories_again:
  assumes "create_directories fresh now userId path rows = Inr (rows', dir)" "root_id userId rows \<noteq> None"
  shows "(\<exists>new. rows' = rows @ new \<and> (\<forall>f \<in> set new. fr_Type f = ''folder'' \<and> active f \<and> fr_UserId f = userId)) \<and>
    create_directories fresh' now' userId path rows' = Inr (rows', dir)"
proof -
  obtain c where c: "root_id userId rows = Some c" using assms(2) by auto
  obtain r where r: "make_dirs fresh now userId (path_parts path) (Some c) rows = Inr (rows', r)" "dir = filter (\<lambda>f. Some (fr_ID f) = r) rows'"
    using assms(1) by (cases "make_dirs fresh now userId (path_parts path) (Some c) rows") (auto simp: create_directories_def c)
  from make_dirs_again [OF r(1)] obtain new where new: "rows' = rows @ new"
    "\<forall>f \<in> set new. fr_Type f = ''folder'' \<and> active f \<and> fr_UserId f = userId \<and> fr_ParentId f \<noteq> None"
    "\<And>fresh' now'. make_dirs fresh' now' userId (path_parts path) (Some c) rows' = Inr (rows', r)" by (metis append_Nil2)
  have "root_id userId rows' = Some c" using c new(1) by (auto simp: root_id_def find_append)
  then show ?thesis using new r(2) by (auto simp: create_directories_def)
qed

subsection \<open>Copying a file\<close>

lemma those_nth: "those xs = Some ys \<Longrightarrow> length ys = length xs \<and> (\<forall>i < length xs. xs ! i = Some (ys ! i))"
proof (induction xs arbitrary: ys)
  case (Cons x xs)
  then obtain y zs where "x = Some y" "those xs = Some zs" "ys = y # zs" by (auto split: option.splits)
  with Cons.IH [of zs] show ?case by (auto simp: nth_Cons split: nat.splits)
qed simp

lemma all_right: "concat (map (case_sum (\<lambda>e. [e]) (\<lambda>_. [])) rs) = [] \<Longrightarrow> rs = map Inr (concat (map (case_sum (\<lambda>_. []) (\<lambda>p. [p])) rs))"
  by (induction rs) (auto split: sum.splits)

lemma copy_part_salt: "copy_part send parts i m = Some (Inr p) \<Longrightarrow> pt_Salt p = pt_Salt (parts ! i)"
  by (auto simp: copy_part_def split: tg_message.split_asm tg_media.split_asm tg_document.split_asm sum.split_asm tg_up_updates.split_asm option.split_asm if_split_asm)

lemma copy_parts_salts:
  assumes "copy_parts env file ch = Some (Inr newIds)" "fr_Parts file = Some parts" "i < length newIds"
  shows "pt_Salt (newIds ! i) = pt_Salt (parts ! i)"
proof -
  obtain source where source: "fr_ChannelId file = Some source"
    using assms(1,2) by (cases "fr_ChannelId file") (auto simp: copy_parts_def split: option.split_asm)
  obtain ms where ms: "cy_messages env (map pt_ID parts) source = Inr ms"
    using assms(1,2) source by (cases "cy_messages env (map pt_ID parts) source") (auto simp: copy_parts_def split: option.split_asm)
  obtain rs where rs: "those (map (\<lambda>i. copy_part (cy_send env ch) parts i (ms ! i)) [0..<length ms]) = Some rs"
    using assms(1,2) source ms
    by (cases "those (map (\<lambda>i. copy_part (cy_send env ch) parts i (ms ! i)) [0..<length ms])") (simp_all add: copy_parts_def split: option.split_asm)
  have right: "concat (map (case_sum (\<lambda>e. [e]) (\<lambda>_. [])) rs) = [] \<and> newIds = concat (map (case_sum (\<lambda>_. []) (\<lambda>p. [p])) rs)"
    using assms(1,2) source ms rs by (simp add: copy_parts_def Let_def split: option.split_asm if_split_asm del: concat_eq_Nil_conv)
  have eq: "rs = map Inr newIds" using all_right [OF conjunct1 [OF right]] right by simp
  from those_nth [OF rs] eq assms(3) have "copy_part (cy_send env ch) parts i (ms ! i) = Some (Inr (newIds ! i))" by simp
  then show ?thesis by (rule copy_part_salt)
qed

lemma CurrentChannel_files: "CurrentChannel get put fe e userId v = (v1, r) \<Longrightarrow> sv_files v1 = sv_files v"
  by (auto simp: CurrentChannel_def split: prod.splits)

text \<open>What a successful copy has written.\<close>

lemma FilesCopy_Inr:
  assumes "FilesCopy get put fe env userId (fr_ID src) dest newName updatedAt v = Some (v', Inr f)"
    and src: "src \<in> set (sv_files v)" "distinct (map fr_ID (sv_files v))" "fr_Parts src = Some parts"
  obtains newIds ch rows parentId where "copy_parts env src ch = Some (Inr newIds)" "length newIds = length parts"
    "copy_parent env userId dest (sv_files v) = Some (Inr (rows, parentId))"
    "f = copied_row env userId src newName updatedAt newIds ch parentId (cy_fresh env rows)"
    "sv_files v' = rows @ [f]" "\<not> list_ex (\<lambda>g. active g \<and> same_place f g) rows"
proof -
  have find: "find (\<lambda>f. fr_ID f = fr_ID src) (sv_files v) = Some src" using find_id [OF src(2,1), of "\<lambda>_. True"] by simp
  from assms(1) obtain v1 ch where ch: "CurrentChannel get put fe (cy_chanErr env) userId v = (v1, Inr ch)"
    by (auto simp: FilesCopy_def find split: option.split_asm sum.split_asm prod.split_asm)
  note v1 = CurrentChannel_files [OF ch]
  have calm: "cy_dbErr env = None" "cy_client env = None"
    using assms(1) ch by (auto simp: FilesCopy_def find split: option.split_asm if_split_asm)
  obtain r where r: "copy_parts env src ch = Some r"
    using assms(1) ch by (cases "copy_parts env src ch") (simp_all add: FilesCopy_def find calm)
  obtain newIds where ids: "copy_parts env src ch = Some (Inr newIds)" "length newIds = length parts"
    using assms(1) ch r calm by (cases r) (auto simp: FilesCopy_def find src(3) split: if_split_asm)
  obtain d where d: "copy_parent env userId dest (sv_files v) = Some d"
    using assms(1) ch ids by (cases "copy_parent env userId dest (sv_files v)") (simp_all add: FilesCopy_def find src(3) calm v1)
  obtain rows parentId where parent: "copy_parent env userId dest (sv_files v) = Some (Inr (rows, parentId))"
    using assms(1) ch ids d by (cases d) (auto simp: FilesCopy_def find src(3) calm v1)
  let ?f = "copied_row env userId src newName updatedAt newIds ch parentId (cy_fresh env rows)"
  have "f = ?f \<and> sv_files v' = rows @ [?f] \<and> \<not> list_ex (\<lambda>g. active g \<and> same_place ?f g) rows"
    using assms(1) ch ids parent by (auto simp: FilesCopy_def find src(3) calm v1 Let_def split: option.split_asm if_split_asm)
  with that ids parent show ?thesis by blast
qed

lemma copy_parent_rows:
  assumes "copy_parent env userId dest rows = Some (Inr (rows', parentId))" "root_id userId rows \<noteq> None"
  shows "\<exists>new. rows' = rows @ new \<and> (\<forall>f \<in> set new. fr_Type f = ''folder'' \<and> active f \<and> fr_UserId f = userId)"
proof (cases "cy_isUUID env dest")
  case True
  with assms(1) show ?thesis by (auto simp: copy_parent_def)
next
  case False
  with assms(1) obtain dir where "create_directories (cy_fresh env) (cy_now env) userId dest rows = Inr (rows', dir)"
    by (auto simp: copy_parent_def split: option.split_asm sum.split_asm list.split_asm)
  from create_directories_again [OF this assms(2)] show ?thesis by blast
qed

lemma copied_part_stored:
  assumes "part_stored renv seal enc ch p pt" "p_Size q = p_Size p" "p_DecryptedSize q = p_DecryptedSize p" "p_Salt q = p_Salt p"
    "fe_chunks renv ch' (p_ID q) = fe_chunks renv ch (p_ID p)"
  shows "part_stored renv seal enc ch' q pt"
  using assms(1) unfolding part_stored_def assms(2-5) .

subsection \<open>Properties\<close>

text \<open>C35: Making directories is idempotent. When \<open>FilesMkdir\<close> succeeds for a user who has a root, it has only appended active folders of that
  user, the table keeps its unique ids and names, and making the same path again changes nothing.\<close>

theorem mkdir_idempotent:
  assumes "FilesMkdir fresh now dbErr userId path v = (v', None)" "root_id userId (sv_files v) \<noteq> None"
    "table_ok (sv_files v)" "\<And>rs. fresh rs \<notin> fr_ID ` set rs"
  shows "(\<exists>new. sv_files v' = sv_files v @ new \<and> (\<forall>f \<in> set new. fr_Type f = ''folder'' \<and> active f \<and> fr_UserId f = userId)) \<and>
    table_ok (sv_files v') \<and> FilesMkdir fresh' now' None userId path v' = (v', None)"
proof -
  obtain rows dir where r: "create_directories fresh now userId path (sv_files v) = Inr (rows, dir)" "v' = v\<lparr>sv_files := rows\<rparr>"
    using assms(1) by (auto simp: FilesMkdir_def split: option.split_asm sum.split_asm)
  have "table_ok rows"
    using r(1) make_dirs_table_ok [of fresh now userId "path_parts path" _ "sv_files v", OF _ assms(3,4)]
    by (cases "make_dirs fresh now userId (path_parts path) (root_id userId (sv_files v)) (sv_files v)") (auto simp: create_directories_def)
  then show ?thesis using create_directories_again [OF r(1) assms(2)] r(2) by (auto simp: FilesMkdir_def)
qed

definition demo_fresh :: "file_row list \<Rightarrow> string" where
  "demo_fresh rows = concat (map fr_ID rows) @ ''x''"

lemma demo_fresh_new: "demo_fresh rows \<notin> fr_ID ` set rows"
proof
  assume "demo_fresh rows \<in> fr_ID ` set rows"
  then obtain f where f: "f \<in> set rows" "fr_ID f = demo_fresh rows" by auto
  from f(1) have "length (fr_ID f) \<le> length (concat (map fr_ID rows))" by (induction rows) auto
  with f(2) show False by (simp add: demo_fresh_def)
qed

definition demo_root :: file_row where
  "demo_root = (new_folder ''r'' 1 ''root'' None 0)"

definition demo_rows :: "(string \<times> bytes \<times> int option) list svc" where
  "demo_rows = \<lparr>sv_files = [demo_root], sv_uploads = [], sv_shares = [], sv_cache = [], sv_events = []\<rparr>"

theorem mkdir_idempotent_witness:
  "\<exists>v'. FilesMkdir demo_fresh 5 None 1 ''/a//b'' demo_rows = (v', None) \<and> length (sv_files v') = 4 \<and>
     FilesMkdir demo_fresh 6 None 1 ''/a//b'' v' = (v', None) \<and> table_ok (sv_files v')"
proof -
  let ?v' = "fst (FilesMkdir demo_fresh 5 None 1 ''/a//b'' demo_rows)"
  have run: "snd (FilesMkdir demo_fresh 5 None 1 ''/a//b'' demo_rows) = None \<and> length (sv_files ?v') = 4" by code_simp
  then have made: "FilesMkdir demo_fresh 5 None 1 ''/a//b'' demo_rows = (?v', None)" by (simp add: prod_eq_iff)
  have "root_id 1 (sv_files demo_rows) \<noteq> None" "table_ok (sv_files demo_rows)"
    by (simp_all add: root_id_def demo_rows_def demo_root_def new_folder_def table_ok_def)
  from mkdir_idempotent [OF made this demo_fresh_new, of demo_fresh 6] made run show ?thesis by blast
qed


definition demo_source :: file_row where
  "demo_source = \<lparr>fr_ID = ''a'', fr_Name = ''n'', fr_Type = ''file'', fr_MimeType = ''m'', fr_Size = Some 3, fr_Category = Some Other, fr_Encrypted = Some True,
      fr_UserId = 1, fr_Status = ''active'', fr_ParentId = Some ''r'', fr_Parts = Some [\<lparr>pt_ID = 0, pt_Salt = ''s''\<rparr>], fr_ChannelId = Some 9, fr_Hash = None, fr_UpdatedAt = Some 0\<rparr>"

definition demo_document :: "unit tg_file" where
  "demo_document = \<lparr>tf_Size = int (length (demo_ct [1, 2, 3])), tf_Location = ()\<rparr>"

definition demo_copy :: "unit copy_env" where
  "demo_copy = \<lparr>cy_client = None, cy_dbErr = None, cy_chanErr = None, cy_runErr = None,
     cy_messages = (\<lambda>_ _. Inr [Message (MediaDocument (TgDocument demo_document))]), cy_channel = (\<lambda>_. None),
     cy_send = (\<lambda>_ _ _. Inr (UpUpdates [OtherUpdate, NewChannelMessage (Some (UpMessage 1 (UpDocument 51)))])), cy_first = hd, cy_isUUID = (\<lambda>_. False),
     cy_dirErr = None, cy_createErr = None, cy_fresh = demo_fresh, cy_now = 5\<rparr>"

definition demo_library :: "(string \<times> bytes \<times> int option) list chan_svc" where
  "demo_library = demo_chan\<lparr>sv_files := [demo_root, demo_source]\<rparr>"

lemma demo_copied_parts: "copy_parts demo_copy demo_source 5 = Some (Inr [\<lparr>pt_ID = 1, pt_Salt = ''s''\<rparr>])"
  by (simp add: copy_parts_def demo_copy_def demo_source_def copy_part_def)

lemma demo_copied:
  "\<exists>v' f. FilesCopy (\<lambda>s t k. Inr 5) (\<lambda>s t k w ttl. (s, None)) demo_quiet demo_copy 1 ''a'' ''/x'' None None demo_library = Some (v', Inr f) \<and>
     fr_Parts f = Some [\<lparr>pt_ID = 1, pt_Salt = ''s''\<rparr>] \<and> fr_ChannelId f = Some 5"
proof -
  have chan: "CurrentChannel (\<lambda>s t k. Inr 5) (\<lambda>s t k w ttl. (s, None)) demo_quiet None 1 demo_library = (demo_library, Inr 5)"
    by (simp add: CurrentChannel_def Fetch_def)
  let ?x = "new_folder (demo_fresh [demo_root, demo_source]) 1 ''x'' (Some ''r'') 5"
  have "create_directories demo_fresh 5 1 ''/x'' [demo_root, demo_source] = Inr ([demo_root, demo_source, ?x], [?x])" by code_simp
  then have parent: "copy_parent demo_copy 1 ''/x'' [demo_root, demo_source] = Some (Inr ([demo_root, demo_source, ?x], fr_ID ?x))"
    by (simp add: copy_parent_def demo_copy_def)
  have quiet: "cy_dbErr demo_copy = None" "cy_chanErr demo_copy = None" "cy_client demo_copy = None" "cy_createErr demo_copy = None" "cy_now demo_copy = 5"
    by (simp_all add: demo_copy_def)
  have row: "fr_ID demo_source = ''a''" "fr_ID demo_root = ''r''" "fr_Parts demo_source = Some [\<lparr>pt_ID = 0, pt_Salt = ''s''\<rparr>]" "fr_Encrypted demo_source = Some True"
    "fr_Name demo_source = ''n''" "fr_UserId demo_source = 1" "fr_ParentId demo_root = None" "fr_ParentId demo_source = Some ''r''"
    by (simp_all add: demo_source_def demo_root_def new_folder_def)
  have files: "sv_files demo_library = [demo_root, demo_source]" by (simp add: demo_library_def)
  show ?thesis
    using chan demo_copied_parts parent by (simp add: FilesCopy_def files quiet row copied_row_def same_place_def ToFileOut_def new_folder_def demo_fresh_def Let_def)
qed


end
