(* ===== verification/Tg_Invoke.thy ===== *)
theory Tg_Invoke
  imports Tg_Storage
begin

section \<open>Middlewares of the Telegram client (internal/retry, recovery, tgc/tgc.go, pool)\<close>

text \<open>
  An invoker sends one request: it takes the state of the world, the decoded output included, to the next one and gives an error or
  none. A middleware takes an invoker to another one. The retry middleware repeats a request a fixed number of times when its
  error is known to be temporary, the recovery middleware while the error does not come from Telegram. \<open>tg_type\<close> is what
  \<^verbatim>\<open>tgerr.As\<close> finds: the type of the Telegram error in a chain of errors. The packages of the flood wait, the rate limit and the
  backoff are parameters.
\<close>

type_synonym 's invoker = "'s \<Rightarrow> 's \<times> go_error option"

subsection \<open>Retries\<close>

definition internalErrors :: "string list" where
  "internalErrors = [''Timedout'', ''Timeout'', ''No workers running'', ''RPC_CALL_FAIL'', ''RPC_MCGET_FAIL'', ''WORKER_BUSY_TOO_LONG_RETRY'',
     ''memory limit exit'', ''connection dead'', ''engine was closed'', ''STORAGE_CHOOSE_VOLUME_FAILED'']"

record retry =
  rt_max :: int
  rt_errors :: "string list"
  rt_matchPatterns :: "string list"

definition isErrorMatch :: "go_error option \<Rightarrow> string list \<Rightarrow> bool" where
  "isErrorMatch err patterns =
     (case err of None \<Rightarrow> False | Some e \<Rightarrow> list_ex (str_contains (to_lower (error_text e))) patterns)"

definition tgerr_Is :: "(go_error \<Rightarrow> string option) \<Rightarrow> go_error \<Rightarrow> string list \<Rightarrow> bool" where
  "tgerr_Is tg_type err types = (case tg_type err of None \<Rightarrow> False | Some t \<Rightarrow> t \<in> set types)"

definition retried_error :: "(go_error \<Rightarrow> string option) \<Rightarrow> retry \<Rightarrow> go_error \<Rightarrow> bool" where
  "retried_error tg_type r err \<longleftrightarrow> tgerr_Is tg_type err (rt_errors r) \<or> isErrorMatch (Some err) (rt_matchPatterns r)"

definition limit_error :: "int \<Rightarrow> go_error" where
  "limit_error n = ErrText (''retry limit reached after '' @ itoa n @ '' attempts'')"

function retry_loop :: "(go_error \<Rightarrow> string option) \<Rightarrow> retry \<Rightarrow> 's invoker \<Rightarrow> int \<Rightarrow> 's \<Rightarrow> 's \<times> go_error option" where
  "retry_loop tg_type r invoke retries s =
     (if retries < rt_max r then
        (case invoke s of
           (s', Some err) \<Rightarrow>
             if retried_error tg_type r err then retry_loop tg_type r invoke (retries + 1) s'
             else (s', Some (ErrWrap ''retry middleware skip'' err))
         | (s', None) \<Rightarrow> (s', None))
      else (s, Some (limit_error (rt_max r))))"
  by pat_completeness auto
termination by (relation "measure (\<lambda>(_, r, _, retries, _). nat (rt_max r - retries))") auto

declare retry_loop.simps [simp del]

definition retry_Handle :: "(go_error \<Rightarrow> string option) \<Rightarrow> retry \<Rightarrow> 's invoker \<Rightarrow> 's invoker" where
  "retry_Handle tg_type r invoke s = retry_loop tg_type r invoke 0 s"

definition retry_New :: "int \<Rightarrow> string list \<Rightarrow> retry" where
  "retry_New m retryErrors =
     (let patterns = retryErrors @ internalErrors in \<lparr>rt_max = m, rt_errors = patterns, rt_matchPatterns = map to_lower patterns\<rparr>)"

subsection \<open>Recovery\<close>

text \<open>What the function given to \<^verbatim>\<open>backoff.RetryNotify\<close> returns: nothing, an error that is not repeated, or one that is.\<close>

datatype op_result = OpDone | OpPermanent go_error | OpAgain go_error

definition shouldRecover :: "(go_error \<Rightarrow> string option) \<Rightarrow> bool \<Rightarrow> go_error \<Rightarrow> bool" where
  "shouldRecover tg_type ctxDone err = (if ctxDone then False else tg_type err = None)"

definition recovery_op :: "(go_error \<Rightarrow> string option) \<Rightarrow> ('s \<Rightarrow> bool) \<Rightarrow> 's invoker \<Rightarrow> 's \<Rightarrow> 's \<times> op_result" where
  "recovery_op tg_type ctxDone invoke s =
     (case invoke s of
        (s', None) \<Rightarrow> (s', OpDone)
      | (s', Some err) \<Rightarrow> (s', if shouldRecover tg_type (ctxDone s') err then OpAgain (ErrWrap ''recover'' err) else OpPermanent err))"

type_synonym 's retry_notify = "('s \<Rightarrow> 's \<times> op_result) \<Rightarrow> 's \<Rightarrow> 's \<times> go_error option"

definition recovery_Handle :: "(go_error \<Rightarrow> string option) \<Rightarrow> ('s \<Rightarrow> bool) \<Rightarrow> 's retry_notify \<Rightarrow> 's invoker \<Rightarrow> 's invoker" where
  "recovery_Handle tg_type ctxDone notify invoke s = notify (recovery_op tg_type ctxDone invoke) s"

text \<open>
  What is documented of \<^verbatim>\<open>RetryNotify\<close>: it calls the function until it succeeds, gives a permanent error, or the backoff stops, here after
  \<open>n\<close> repetitions; then it returns the last error.
\<close>

fun attempts :: "nat \<Rightarrow> ('s \<Rightarrow> 's \<times> op_result) \<Rightarrow> 's \<Rightarrow> 's \<times> go_error option" where
  "attempts n op s =
     (case op s of
        (s', OpDone) \<Rightarrow> (s', None)
      | (s', OpPermanent e) \<Rightarrow> (s', Some e)
      | (s', OpAgain e) \<Rightarrow> (case n of 0 \<Rightarrow> (s', Some e) | Suc m \<Rightarrow> attempts m op s'))"

declare attempts.simps [simp del]

subsection \<open>Chains of middlewares\<close>

type_synonym 's middleware = "'s invoker \<Rightarrow> 's invoker"

record 's middleware_env =
  me_rateLimit :: bool
  me_tgType :: "go_error \<Rightarrow> string option"
  me_ctxDone :: "'s \<Rightarrow> bool"
  me_notify :: "'s retry_notify"
  me_floodWait :: "'s middleware"
  me_limiter :: "'s middleware"

type_synonym 's middleware_option = "'s middleware_env \<Rightarrow> 's middleware list \<Rightarrow> 's middleware list"

definition WithFloodWait :: "'s middleware_option" where
  "WithFloodWait env ms = ms @ [me_floodWait env]"

definition WithRecovery :: "'s middleware_option" where
  "WithRecovery env ms = ms @ [recovery_Handle (me_tgType env) (me_ctxDone env) (me_notify env)]"

definition WithRetry :: "int \<Rightarrow> 's middleware_option" where
  "WithRetry retries env ms = ms @ [retry_Handle (me_tgType env) (retry_New retries [])]"

definition WithRateLimit :: "'s middleware_option" where
  "WithRateLimit env ms = (if me_rateLimit env then ms @ [me_limiter env] else ms)"

definition NewMiddleware :: "'s middleware_env \<Rightarrow> 's middleware_option list \<Rightarrow> 's middleware list" where
  "NewMiddleware env opts = fold (\<lambda>opt ms. opt env ms) opts []"

definition newMiddlewares :: "'s middleware_env \<Rightarrow> int \<Rightarrow> 's middleware list" where
  "newMiddlewares env retries = NewMiddleware env [WithFloodWait, WithRecovery, WithRetry retries, WithRateLimit]"

text \<open>The last middleware is the innermost one.\<close>

fun chain_loop :: "'s middleware list \<Rightarrow> 's invoker \<Rightarrow> 's invoker" where
  "chain_loop [] invoke = invoke"
| "chain_loop (m # ms) invoke = chain_loop ms (m invoke)"

definition chainMiddlewares :: "'s invoker \<Rightarrow> 's middleware list \<Rightarrow> 's invoker" where
  "chainMiddlewares invoke chain = (if chain = [] then invoke else chain_loop (rev chain) invoke)"

subsection \<open>Making a client\<close>

text \<open>
  The dialer of a proxy: \<open>parse\<close> is \<^verbatim>\<open>url.Parse\<close>, \<open>fromURL\<close> the package of proxies, which gives a dialer and whether it takes
  a context. The options of a client keep its storage of sessions (\<open>'st\<close>), its dialer and its middlewares; the device is left out.\<close>

definition GetDial :: "(string \<Rightarrow> go_error + 'u) \<Rightarrow> ('u \<Rightarrow> go_error + 'd \<times> bool) \<Rightarrow> string \<Rightarrow> go_error + 'd" where
  "GetDial parse fromURL url =
     (case parse url of
        Inl e \<Rightarrow> Inl (ErrWrap ''parse proxy url'' e)
      | Inr u \<Rightarrow>
          (case fromURL u of
             Inl e \<Rightarrow> Inl (ErrWrap ''proxy from url'' e)
           | Inr (d, context) \<Rightarrow> if context then Inr d else Inl (ErrText ''proxy dialer is not ContextDialer'')))"

record ('s, 'st, 'd) client_options =
  op_dialer :: "'d option"
  op_storage :: 'st
  op_middlewares :: "'s middleware list"
  op_ntp :: bool
  op_RetryInterval :: int
  op_MaxRetries :: int
  op_DialTimeout :: int

record ('u, 'd) client_env =
  ne_proxy :: string
  ne_parse :: "string \<Rightarrow> go_error + 'u"
  ne_fromURL :: "'u \<Rightarrow> go_error + 'd \<times> bool"
  ne_ntp :: bool
  ne_ntpErr :: "go_error option"

definition newClient :: "('u, 'd) client_env \<Rightarrow> 'st \<Rightarrow> 's middleware list \<Rightarrow> go_error + ('s, 'st, 'd) client_options" where
  "newClient env storage ms =
     (case (if ne_proxy env \<noteq> [] then map_sum id Some (GetDial (ne_parse env) (ne_fromURL env) (ne_proxy env)) else Inr None) of
        Inl e \<Rightarrow> Inl (ErrWrap ''get dialer'' e)
      | Inr dialer \<Rightarrow>
          (case (if ne_ntp env then ne_ntpErr env else None) of
             Some e \<Rightarrow> Inl (ErrWrap ''create clock'' e)
           | None \<Rightarrow> Inr \<lparr>op_dialer = dialer, op_storage = storage, op_middlewares = ms, op_ntp = ne_ntp env,
               op_RetryInterval = 2 * 10 ^ 9, op_MaxRetries = 20, op_DialTimeout = 10 * 10 ^ 9\<rparr>))"

text \<open>\<open>limiter\<close> lets five requests through at once and then one every 100 milliseconds.\<close>

definition NoAuthClient :: "('u, 'd) client_env \<Rightarrow> 's middleware \<Rightarrow> 's middleware \<Rightarrow> 'st \<Rightarrow> go_error + ('s, 'st, 'd) client_options" where
  "NoAuthClient env floodWait limiter storage = newClient env storage [floodWait, limiter]"

definition AuthClient :: "('u, 'd) client_env \<Rightarrow> (string \<Rightarrow> go_error + 'x) \<Rightarrow> ('x \<Rightarrow> go_error + 'st) \<Rightarrow> string \<Rightarrow> 's middleware list \<Rightarrow>
    go_error + ('s, 'st, 'd) client_options" where
  "AuthClient env telethon save sessionStr ms =
     (case telethon sessionStr of
        Inl e \<Rightarrow> Inl e
      | Inr data \<Rightarrow> (case save data of Inl e \<Rightarrow> Inl e | Inr storage \<Rightarrow> newClient env storage ms))"

text \<open>The sessions of a bot are stored under the id in front of the colon of its token.\<close>

definition BotClient :: "('u, 'd) client_env \<Rightarrow> bolt_env \<Rightarrow> string \<Rightarrow> bolt_config \<Rightarrow> bool \<Rightarrow> string \<Rightarrow> 's middleware list \<Rightarrow>
    go_error + ('s, session_storage \<times> string, 'd) client_options" where
  "BotClient env bolt cfgType cfg cached token ms =
     (case NewSessionStorage bolt cfgType cfg cached of
        Inl e \<Rightarrow> Inl e
      | Inr storage \<Rightarrow> newClient env (storage, hd (split_on CHR '':'' token)) ms)"

subsection \<open>The pool of connections of a client\<close>

text \<open>The pool keeps the first invoker it has made, and what closes it. \<open>pe_Pool\<close> and \<open>pe_DC\<close> are the client's answers to a call.\<close>

record ('s, 'c) conn_pool =
  pl_invoke :: "'s invoker option"
  pl_close :: "'c option"

record ('s, 'c) pool_env =
  pe_api :: "'s invoker"
  pe_middlewares :: "'s middleware list"
  pe_current :: int
  pe_Pool :: "go_error + 's invoker \<times> 'c"
  pe_DC :: "int \<Rightarrow> go_error + 's invoker \<times> 'c"

definition NewPool :: "('s, 'c) conn_pool" where
  "NewPool = \<lparr>pl_invoke = None, pl_close = None\<rparr>"

definition pool_invoker :: "('s, 'c) pool_env \<Rightarrow> int \<Rightarrow> ('s, 'c) conn_pool \<Rightarrow> ('s, 'c) conn_pool \<times> 's invoker" where
  "pool_invoker env dc p =
     (case pl_invoke p of
        Some invoke \<Rightarrow> (p, invoke)
      | None \<Rightarrow>
          (case (if dc = pe_current env then pe_Pool env else pe_DC env dc) of
             Inl err \<Rightarrow> (p, pe_api env)
           | Inr (invoke, close) \<Rightarrow>
               let chained = chainMiddlewares invoke (pe_middlewares env)
               in (\<lparr>pl_invoke = Some chained, pl_close = Some close\<rparr>, chained)))"

definition pool_Default :: "('s, 'c) pool_env \<Rightarrow> ('s, 'c) conn_pool \<Rightarrow> ('s, 'c) conn_pool \<times> 's invoker" where
  "pool_Default env p = pool_invoker env (pe_current env) p"

definition connpool_Close :: "('c \<Rightarrow> go_error option) \<Rightarrow> ('s, 'c) conn_pool \<Rightarrow> ('s, 'c) conn_pool \<times> 'c option \<times> go_error option" where
  "connpool_Close closing p =
     (case pl_close p of
        Some c \<Rightarrow> (p\<lparr>pl_close := None\<rparr>, Some c, closing c)
      | None \<Rightarrow> (p, None, None))"

subsection \<open>Chains\<close>

lemma chain_loop_append: "chain_loop (xs @ ys) invoke = chain_loop ys (chain_loop xs invoke)"
  by (induction xs arbitrary: invoke) auto

lemma chain_Nil [simp]: "chainMiddlewares invoke [] = invoke"
  by (simp add: chainMiddlewares_def)

lemma chain_Cons [simp]: "chainMiddlewares invoke (m # ms) = m (chainMiddlewares invoke ms)"
  by (cases ms) (simp_all add: chainMiddlewares_def chain_loop_append)

lemma newMiddlewares_chain:
  "chainMiddlewares invoke (newMiddlewares env retries) = me_floodWait env
     (recovery_Handle (me_tgType env) (me_ctxDone env) (me_notify env)
       (retry_Handle (me_tgType env) (retry_New retries []) (if me_rateLimit env then me_limiter env invoke else invoke)))"
  by (simp add: newMiddlewares_def NewMiddleware_def WithFloodWait_def WithRecovery_def WithRetry_def WithRateLimit_def)

subsection \<open>Runs of an invoker\<close>

fun after :: "'s invoker \<Rightarrow> nat \<Rightarrow> 's \<Rightarrow> 's" where
  "after invoke 0 s = s"
| "after invoke (Suc n) s = after invoke n (fst (invoke s))"

lemma after_add: "after invoke (m + n) s = after invoke n (after invoke m s)"
  by (induction m arbitrary: s) auto

lemma after_Suc': "after invoke (Suc n) s = fst (invoke (after invoke n s))"
  using after_add [of invoke n 1 s] by simp

definition failed_call :: "(go_error \<Rightarrow> bool) \<Rightarrow> 's invoker \<Rightarrow> nat \<Rightarrow> 's \<Rightarrow> bool" where
  "failed_call P invoke i s \<longleftrightarrow> (case snd (invoke (after invoke i s)) of None \<Rightarrow> False | Some e \<Rightarrow> P e)"

lemma failed_call_Suc [simp]: "failed_call P invoke (Suc i) s = failed_call P invoke i (fst (invoke s))"
  by (simp add: failed_call_def)

lemma retry_loop_limit:
  "\<forall>i < nat (rt_max r - retries). failed_call (retried_error tg_type r) invoke i s \<Longrightarrow>
   retry_loop tg_type r invoke retries s = (after invoke (nat (rt_max r - retries)) s, Some (limit_error (rt_max r)))"
proof (induction tg_type r invoke retries s rule: retry_loop.induct)
  case (1 tg_type r invoke retries s)
  show ?case
  proof (cases "retries < rt_max r")
    case True
    then have n: "nat (rt_max r - retries) = Suc (nat (rt_max r - (retries + 1)))" by simp
    obtain s' e where call: "invoke s = (s', Some e)" "retried_error tg_type r e"
      using 1(2) [unfolded n, rule_format, of 0] by (cases "invoke s") (auto simp: failed_call_def split: option.splits)
    have "\<forall>i < nat (rt_max r - (retries + 1)). failed_call (retried_error tg_type r) invoke i s'"
      using 1(2) [unfolded n, rule_format, of "Suc _"] call(1) by simp
    from 1(1) [OF True call(1) [symmetric] refl call(2) this] show ?thesis
      using True call by (subst retry_loop.simps) (simp add: n)
  qed (subst retry_loop.simps, simp)
qed

lemma retry_loop_ends:
  "\<forall>i < n. failed_call (retried_error tg_type r) invoke i s \<Longrightarrow> retries + int n < rt_max r \<Longrightarrow> \<not> failed_call (retried_error tg_type r) invoke n s \<Longrightarrow>
   retry_loop tg_type r invoke retries s = (case invoke (after invoke n s) of (s', err) \<Rightarrow> (s', map_option (ErrWrap ''retry middleware skip'') err))"
proof (induction n arbitrary: retries s)
  case 0
  then show ?case by (subst retry_loop.simps) (auto simp: failed_call_def split: prod.splits option.splits)
next
  case (Suc n)
  obtain s' e where call: "invoke s = (s', Some e)" "retried_error tg_type r e"
    using Suc.prems(1) [rule_format, of 0] by (cases "invoke s") (auto simp: failed_call_def split: option.splits)
  have "retry_loop tg_type r invoke (retries + 1) s' =
      (case invoke (after invoke n s') of (s', err) \<Rightarrow> (s', map_option (ErrWrap ''retry middleware skip'') err))"
    using Suc.prems call(1) by (intro Suc.IH) (auto dest: spec [of _ "Suc _"])
  then show ?case using call Suc.prems(2) by (subst retry_loop.simps) simp
qed

text \<open>Either every allowed call fails with a temporary error, or the first call that does not decides.\<close>

lemma retry_Handle_cases:
  obtains (limit) "\<forall>i < nat (rt_max r). failed_call (retried_error tg_type r) invoke i s"
    "retry_Handle tg_type r invoke s = (after invoke (nat (rt_max r)) s, Some (limit_error (rt_max r)))"
  | (ends) n where "n < nat (rt_max r)" "\<forall>i < n. failed_call (retried_error tg_type r) invoke i s" "\<not> failed_call (retried_error tg_type r) invoke n s"
    "retry_Handle tg_type r invoke s = (case invoke (after invoke n s) of (s', err) \<Rightarrow> (s', map_option (ErrWrap ''retry middleware skip'') err))"
proof (cases "\<forall>i < nat (rt_max r). failed_call (retried_error tg_type r) invoke i s")
  case True
  with retry_loop_limit [of r 0 tg_type invoke s]
  have "retry_Handle tg_type r invoke s = (after invoke (nat (rt_max r)) s, Some (limit_error (rt_max r)))" by (simp add: retry_Handle_def)
  with True limit show ?thesis by blast
next
  case False
  then obtain j where j: "j < nat (rt_max r)" "\<not> failed_call (retried_error tg_type r) invoke j s" by blast
  define n where "n = (LEAST i. \<not> failed_call (retried_error tg_type r) invoke i s)"
  have n: "\<not> failed_call (retried_error tg_type r) invoke n s" "\<forall>i < n. failed_call (retried_error tg_type r) invoke i s" "n \<le> j"
    using LeastI [of "\<lambda>i. \<not> failed_call (retried_error tg_type r) invoke i s" j, OF j(2)] not_less_Least [of _ "\<lambda>i. \<not> failed_call (retried_error tg_type r) invoke i s"]
      Least_le [of "\<lambda>i. \<not> failed_call (retried_error tg_type r) invoke i s" j, OF j(2)] unfolding n_def by blast+
  with j(1) have "0 + int n < rt_max r" by linarith
  from retry_loop_ends [OF n(2) this n(1)] ends [of n] n j(1) show ?thesis by (simp add: retry_Handle_def)
qed

text \<open>The recovery repeats a call whose limit of retries is reached, since that error is none of Telegram.\<close>

lemma failed_call_after: "failed_call P invoke i (after invoke k s) = failed_call P invoke (k + i) s"
  by (simp add: failed_call_def after_add)

lemma attempts_limit:
  assumes "rt_max r = m" "\<And>s. \<not> ctxDone s" "tg_type (limit_error m) = None"
  shows "\<forall>i. failed_call (retried_error tg_type r) invoke i s \<Longrightarrow>
   attempts n (recovery_op tg_type ctxDone (retry_Handle tg_type r invoke)) s =
     (after invoke (Suc n * nat m) s, Some (ErrWrap ''recover'' (limit_error m)))"
proof (induction n arbitrary: s)
  case (0 s)
  then have "retry_Handle tg_type r invoke s = (after invoke (nat m) s, Some (limit_error m))"
    using retry_loop_limit [of r 0 tg_type invoke s] assms(1) by (simp add: retry_Handle_def)
  then show ?case using assms by (subst attempts.simps) (simp add: recovery_op_def shouldRecover_def)
next
  case (Suc n s)
  have "retry_Handle tg_type r invoke s = (after invoke (nat m) s, Some (limit_error m))"
    using retry_loop_limit [of r 0 tg_type invoke s] Suc.prems assms(1) by (simp add: retry_Handle_def)
  then have "recovery_op tg_type ctxDone (retry_Handle tg_type r invoke) s = (after invoke (nat m) s, OpAgain (ErrWrap ''recover'' (limit_error m)))"
    using assms by (simp add: recovery_op_def shouldRecover_def)
  moreover have "\<forall>i. failed_call (retried_error tg_type r) invoke i (after invoke (nat m) s)" using Suc.prems by (simp add: failed_call_after)
  ultimately show ?case using Suc.IH [of "after invoke (nat m) s"]
    by (subst attempts.simps) (simp add: after_add [symmetric] algebra_simps)
qed

text \<open>An error of Telegram that is not known to be temporary reaches the caller after one call.\<close>

lemma telegram_error_once:
  assumes "invoke s = (s', Some e)" "tg_type e \<noteq> None" "\<And>m. tg_type (ErrWrap m e) = tg_type e" "\<not> retried_error tg_type r e" "0 < rt_max r"
  shows "attempts n (recovery_op tg_type ctxDone (retry_Handle tg_type r invoke)) s = (s', Some (ErrWrap ''retry middleware skip'' e))"
proof -
  have "retry_Handle tg_type r invoke s = (s', Some (ErrWrap ''retry middleware skip'' e))"
    unfolding retry_Handle_def by (subst retry_loop.simps) (simp add: assms)
  then show ?thesis using assms(2,3) by (subst attempts.simps) (auto simp: recovery_op_def shouldRecover_def)
qed

text \<open>The invoker of a pool stays the one of the first data centre that was asked for, also when it has been closed.\<close>

lemma pool_keeps_invoker:
  assumes "pool_invoker env dc NewPool = (p, invoke)" "pl_invoke p \<noteq> None"
  shows "snd (pool_invoker env' dc' p) = invoke \<and> snd (pool_invoker env' dc' (fst (connpool_Close closing p))) = invoke \<and>
    fst (snd (connpool_Close closing (fst (connpool_Close closing p)))) = None"
  using assms by (auto simp: pool_invoker_def NewPool_def connpool_Close_def Let_def split: sum.splits option.splits)

text \<open>Bots with different ids never share a session.\<close>

lemma BotClient_key:
  assumes "BotClient env bolt cfgType cfg cached (botId @ CHR '':'' # secret) ms = Inr opts" "CHR '':'' \<notin> set botId"
  shows "snd (op_storage opts) = botId \<and> op_middlewares opts = ms"
proof -
  have "hd (split_on CHR '':'' (botId @ CHR '':'' # secret)) = botId"
    using assms(2) by (induction botId) (auto split: list.splits)
  then show ?thesis using assms(1) by (auto simp: BotClient_def newClient_def split: sum.splits option.splits if_splits)
qed

subsection \<open>Properties\<close>

text \<open>C33: The retry middleware is exact: it sends a request until a call succeeds or fails with an error that is not temporary, whose outcome it
  returns, and at most \<open>rt_max\<close> times; when all of these fail with a temporary error, it returns that the limit is reached.\<close>

theorem retry_exact:
  "\<exists>n \<le> nat (rt_max r). (\<forall>i < n. failed_call (retried_error tg_type r) invoke i s) \<and>
     retry_Handle tg_type r invoke s =
       (if n = nat (rt_max r) then (after invoke n s, Some (limit_error (rt_max r)))
        else (case invoke (after invoke n s) of (s', err) \<Rightarrow> (s', map_option (ErrWrap ''retry middleware skip'') err))) \<and>
     (n < nat (rt_max r) \<longrightarrow> \<not> failed_call (retried_error tg_type r) invoke n s)"
proof (cases rule: retry_Handle_cases [of r tg_type invoke s])
  case limit
  then show ?thesis by (intro exI [of _ "nat (rt_max r)"]) simp
next
  case (ends n)
  then show ?thesis by (intro exI [of _ n]) simp
qed

definition demo_invoker :: "go_error \<Rightarrow> nat invoker" where
  "demo_invoker e n = (Suc n, if n < 2 then Some e else None)"

theorem retry_exact_witness:
  "retry_Handle (\<lambda>_. None) (retry_New 5 []) (demo_invoker (ErrText ''Timeout'')) 0 = (3, None) \<and>
   (\<exists>n. n < 5 \<and> demo_invoker (ErrText ''Timeout'') (after (demo_invoker (ErrText ''Timeout'')) n 0) = (3, None))"
proof
  show res: "retry_Handle (\<lambda>_. None) (retry_New 5 []) (demo_invoker (ErrText ''Timeout'')) 0 = (3, None)" by code_simp
  obtain n where n: "n \<le> nat (rt_max (retry_New 5 []))"
    "retry_Handle (\<lambda>_. None) (retry_New 5 []) (demo_invoker (ErrText ''Timeout'')) 0 =
       (if n = nat (rt_max (retry_New 5 []))
        then (after (demo_invoker (ErrText ''Timeout'')) n 0, Some (limit_error (rt_max (retry_New 5 []))))
        else (case demo_invoker (ErrText ''Timeout'') (after (demo_invoker (ErrText ''Timeout'')) n 0) of
          (s', err) \<Rightarrow> (s', map_option (ErrWrap ''retry middleware skip'') err)))"
    using retry_exact [of "retry_New 5 []" "\<lambda>_. None" "demo_invoker (ErrText ''Timeout'')" 0] by blast
  have "rt_max (retry_New 5 []) = 5" by (simp add: retry_New_def)
  with n res have "n < 5 \<and> demo_invoker (ErrText ''Timeout'') (after (demo_invoker (ErrText ''Timeout'')) n 0) = (3, None)"
    by (auto split: if_split_asm prod.split_asm)
  then show "\<exists>n. n < 5 \<and> demo_invoker (ErrText ''Timeout'') (after (demo_invoker (ErrText ''Timeout'')) n 0) = (3, None)" ..
qed


definition demo_middleware_env :: "nat middleware_env" where
  "demo_middleware_env = \<lparr>me_rateLimit = False, me_tgType = (\<lambda>_. None), me_ctxDone = (\<lambda>_. False), me_notify = attempts 2, me_floodWait = id, me_limiter = id\<rparr>"


end
