(* ===== verification/Event_Stream.thy ===== *)
theory Event_Stream
  imports File_Stream Events
begin

section \<open>The stream of events and the error responses (pkg/services/api.go, internal/events/redis.go)\<close>

text \<open>
  A browser subscribes to the events of its user by a request that stays open: the handler reads the channel of the
  subscription and writes every event, and a comment every 30 seconds, until the client goes or the channel is closed. It works with
  either broadcaster; the locale \<open>event_bus\<close> says what it relies on. The theory also holds the list of recent events, the loop that
  reads the messages of Redis, the errors of the API and the routing of the handlers that write their own responses. \<open>None\<close> is a
  panic, or an input that cannot come in this state.
\<close>

subsection \<open>Errors and routing\<close>

text \<open>What a handler returns: an error with a code, or another one; the packages of the generated API recognise two kinds of errors.\<close>

datatype handler_error = CodedError api_error | PlainError go_error

definition statusText :: "int \<Rightarrow> string" where
  "statusText code = (if code = 500 then ''Internal Server Error'' else if code = 501 then ''Not Implemented'' else [])"

definition NewError :: "(handler_error \<Rightarrow> bool) \<Rightarrow> (handler_error \<Rightarrow> (int \<times> string) option) \<Rightarrow> handler_error \<Rightarrow> int \<times> string" where
  "NewError notImplemented ogen err =
     (if notImplemented err then (501, statusText 501)
      else case ogen err of
        Some (code, message) \<Rightarrow> (code, message)
      | None \<Rightarrow>
          (case err of
             CodedError (ApiError e code) \<Rightarrow> if code = 0 then (500, statusText 500) else (code, error_text e)
           | PlainError e \<Rightarrow> (500, statusText 500)))"

datatype handler_call = NextHandler | CallAuthWs | CallFilesStream string int | CallSharesStream string string | CallEventsStream

text \<open>\<open>route\<close> is the operation and its arguments that the generated server finds for a request.\<close>

definition extended_ServeHTTP :: "(string \<times> string list) option \<Rightarrow> handler_call option" where
  "extended_ServeHTTP route =
     (case route of
        None \<Rightarrow> Some NextHandler
      | Some (name, args) \<Rightarrow>
          if name = ''AuthWs'' then Some CallAuthWs
          else if name = ''FilesStream'' then (case args of [] \<Rightarrow> None | a # _ \<Rightarrow> Some (CallFilesStream a 0))
          else if name = ''SharesStream'' then (case args of a # b # _ \<Rightarrow> Some (CallSharesStream a b) | _ \<Rightarrow> None)
          else if name = ''EventsEventsStream'' then Some CallEventsStream
          else Some NextHandler)"

subsection \<open>Recent events\<close>

record event_out =
  eo_ID :: string
  eo_Type :: string
  eo_CreatedAt :: int
  eo_Source :: source

definition event_out_of :: "source option event \<Rightarrow> event_out option" where
  "event_out_of e = map_option (\<lambda>s. \<lparr>eo_ID = ev_ID e, eo_Type = ev_Type e, eo_CreatedAt = ev_CreatedAt e, eo_Source = s\<rparr>) (ev_Source e)"

text \<open>The time is cut to whole seconds by its format. An error of the query gives an empty list.\<close>

definition EventsGetEvents :: "go_error option \<Rightarrow> int \<Rightarrow> int \<Rightarrow> source option event list \<Rightarrow> event_out list option" where
  "EventsGetEvents dbErr now userId db =
     (case dbErr of
        Some e \<Rightarrow> Some []
      | None \<Rightarrow>
          let since = ((now - 10 * 60 * 10 ^ 9) div 10 ^ 9) * 10 ^ 9
          in those (map event_out_of (sort_key (\<lambda>e. - ev_CreatedAt e) (filter (\<lambda>e. ev_CreatedAt e > since \<and> ev_UserID e = userId) db))))"

subsection \<open>The open request\<close>

definition events_open :: "bool \<Rightarrow> (string \<Rightarrow> go_error + claims) \<Rightarrow> string option \<Rightarrow> response \<Rightarrow> response \<times> int option" where
  "events_open flusher verify cookie w =
     (case cookie of
        None \<Rightarrow> (http_Error ''missing token or authash'' 401 w, None)
      | Some c \<Rightarrow>
          (case verify c of
             Inl e \<Rightarrow> (http_Error ''invalid token'' 401 w, None)
           | Inr user \<Rightarrow>
               let w1 = WriteHeader 200 (header_Set ''Connection'' ''keep-alive'' (header_Set ''Cache-Control'' ''no-cache''
                          (header_Set ''Content-Type'' ''text/event-stream'' w)))
               in if \<not> flusher then (http_Error ''Streaming not supported'' 500 w1, None)
                  else (w1, Some (subject_id (cl_Subject user)))))"

text \<open>The operations of a broadcaster that the handler uses.\<close>

record 'b bus_ops =
  bo_base :: "'b \<Rightarrow> source option broadcaster"
  bo_Subscribe :: "int \<Rightarrow> 'b \<Rightarrow> 'b \<times> nat"
  bo_Unsubscribe :: "int \<Rightarrow> nat \<Rightarrow> 'b \<Rightarrow> 'b"
  bo_receive :: "nat \<Rightarrow> 'b \<Rightarrow> 'b"

definition polling_ops :: "int \<Rightarrow> source option polling bus_ops" where
  "polling_ops now = \<lparr>bo_base = pb_base, bo_Subscribe = polling_Subscribe now, bo_Unsubscribe = polling_Unsubscribe,
     bo_receive = (\<lambda>ch p. p\<lparr>pb_base := chan_receive ch (pb_base p)\<rparr>)\<rparr>"

definition redis_ops :: "(source option broadcaster \<times> string list) bus_ops" where
  "redis_ops = \<lparr>bo_base = fst, bo_Subscribe = (\<lambda>u st. case base_Subscribe u (fst st) of (b, ch) \<Rightarrow> ((b, snd st), ch)),
     bo_Unsubscribe = (\<lambda>u ch st. (base_Unsubscribe u ch (fst st), snd st)), bo_receive = (\<lambda>ch st. (chan_receive ch (fst st), snd st))\<rparr>"

datatype sse_input = SseDone | SseEvent | SseTick

text \<open>What is written: the comment at the start, an event, a comment that keeps the connection.\<close>

datatype sse_frame = FrameConnected | FrameData "source option event" | FrameKeepalive

definition render :: "(source option event \<Rightarrow> string) \<Rightarrow> sse_frame \<Rightarrow> string" where
  "render marshal f =
     (case f of
        FrameConnected \<Rightarrow> '': connected'' @ [CHR 0x0A, CHR 0x0A]
      | FrameData e \<Rightarrow> ''data: '' @ marshal e @ [CHR 0x0A, CHR 0x0A]
      | FrameKeepalive \<Rightarrow> '': keepalive'' @ [CHR 0x0A, CHR 0x0A])"

text \<open>One turn of the loop: the new state, what is written, and whether the loop goes on.\<close>

definition sse_turn :: "'b bus_ops \<Rightarrow> int \<Rightarrow> nat \<Rightarrow> sse_input \<Rightarrow> 'b \<Rightarrow> ('b \<times> sse_frame list \<times> bool) option" where
  "sse_turn ops u ch i b =
     (case i of
        SseDone \<Rightarrow> Some (bo_Unsubscribe ops u ch b, [], False)
      | SseTick \<Rightarrow> Some (b, [FrameKeepalive], True)
      | SseEvent \<Rightarrow>
          (case bb_chans (bo_base ops b) ch of
             e # _ \<Rightarrow> Some (bo_receive ops ch b, (case ev_Source e of None \<Rightarrow> [] | Some src \<Rightarrow> [FrameData e]), True)
           | [] \<Rightarrow> if ch \<in> set (bb_closed (bo_base ops b)) then Some (bo_Unsubscribe ops u ch b, [], False) else None))"

text \<open>
  The run of one request among the steps of everything else. The channel is known to its request alone, so nobody else unsubscribes
  it or receives from it while the request runs.\<close>

inductive sse_run :: "'b bus_ops \<Rightarrow> ('b \<Rightarrow> 'b \<Rightarrow> bool) \<Rightarrow> int \<Rightarrow> 'b \<Rightarrow> nat \<Rightarrow> 'b \<Rightarrow> sse_frame list \<Rightarrow> bool \<Rightarrow> bool"
  for ops step u b0 where
  open_stream: "bo_Subscribe ops u b0 = (b, ch) \<Longrightarrow> sse_run ops step u b0 ch b [FrameConnected] True"
| turn: "sse_run ops step u b0 ch b out True \<Longrightarrow> sse_turn ops u ch i b = Some (b', o', go) \<Longrightarrow> sse_run ops step u b0 ch b' (out @ o') go"
| other: "sse_run ops step u b0 ch b out go \<Longrightarrow> step b b' \<Longrightarrow>
    go \<Longrightarrow> ch \<in> set (subs_of (bo_base ops b') u) \<Longrightarrow> (\<exists>new. bb_chans (bo_base ops b') ch = bb_chans (bo_base ops b) ch @ new) \<Longrightarrow>
    sse_run ops step u b0 ch b' out go"

fun sse_turns :: "'b bus_ops \<Rightarrow> int \<Rightarrow> nat \<Rightarrow> sse_input list \<Rightarrow> 'b \<Rightarrow> ('b \<times> sse_frame list \<times> bool) option" where
  "sse_turns ops u ch [] b = Some (b, [], True)"
| "sse_turns ops u ch (i # is) b =
     (case sse_turn ops u ch i b of
        None \<Rightarrow> None
      | Some (b', out, go) \<Rightarrow>
          if go then map_option (\<lambda>(b2, out2, go2). (b2, out @ out2, go2)) (sse_turns ops u ch is b') else Some (b', out, False))"

subsection \<open>The Redis loop\<close>

datatype redis_state = RedisConnect | RedisWait | RedisListen | RedisEnd

datatype redis_input = RedisDone | RedisReceive bool | RedisMessage string | RedisClosed | RedisTimer

definition redis_turn ::
  "(string \<Rightarrow> go_error + 'src event) \<Rightarrow> int \<Rightarrow> redis_input \<Rightarrow> redis_state \<times> 'src broadcaster \<Rightarrow> (redis_state \<times> 'src broadcaster) option" where
  "redis_turn unmarshal now i st =
     (case st of (s, b) \<Rightarrow>
        (case s of
           RedisConnect \<Rightarrow>
             (case i of
                RedisDone \<Rightarrow> Some (RedisEnd, b)
              | RedisReceive ok \<Rightarrow> Some (if ok then RedisListen else RedisWait, b)
              | _ \<Rightarrow> None)
         | RedisWait \<Rightarrow>
             (case i of
                RedisDone \<Rightarrow> Some (RedisEnd, b)
              | RedisTimer \<Rightarrow> Some (RedisConnect, b)
              | _ \<Rightarrow> None)
         | RedisListen \<Rightarrow>
             (case i of
                RedisDone \<Rightarrow> Some (RedisEnd, b)
              | RedisMessage payload \<Rightarrow> Some (RedisListen, redis_message unmarshal now payload b)
              | RedisClosed \<Rightarrow> Some (RedisWait, b)
              | _ \<Rightarrow> None)
         | RedisEnd \<Rightarrow> None))"

subsection \<open>What the handler relies on\<close>

locale event_bus =
  fixes ops :: "'b bus_ops" and step :: "'b \<Rightarrow> 'b \<Rightarrow> bool" and good :: "'b \<Rightarrow> bool"
  assumes good_inv: "good b \<Longrightarrow> base_inv (bo_base ops b)"
    and good_step: "good b \<Longrightarrow> step b b' \<Longrightarrow> good b'"
    and subscribed: "good b \<Longrightarrow> bo_Subscribe ops u b = (b', ch) \<Longrightarrow>
      good b' \<and> ch \<in> set (subs_of (bo_base ops b') u) \<and> bb_chans (bo_base ops b') ch = []"
    and unsubscribed: "good b \<Longrightarrow> ch \<in> set (subs_of (bo_base ops b) u) \<Longrightarrow>
      good (bo_Unsubscribe ops u ch b) \<and> (\<forall>u'. ch \<notin> set (subs_of (bo_base ops (bo_Unsubscribe ops u ch b)) u'))"
    and received: "good b \<Longrightarrow> good (bo_receive ops ch b) \<and> bo_base ops (bo_receive ops ch b) = chan_receive ch (bo_base ops b)"
begin

definition sse_good :: "int \<Rightarrow> nat \<Rightarrow> 'b \<Rightarrow> sse_frame list \<Rightarrow> bool \<Rightarrow> bool" where
  "sse_good u ch b out go \<longleftrightarrow> good b \<and> (\<forall>e. FrameData e \<in> set out \<longrightarrow> ev_UserID e = u) \<and>
     (if go then ch \<in> set (subs_of (bo_base ops b) u) else \<forall>u'. ch \<notin> set (subs_of (bo_base ops b) u'))"

lemma turn_good:
  assumes "sse_good u ch b out True" "sse_turn ops u ch i b = Some (b', o', go)"
  shows "sse_good u ch b' (out @ o') go"
proof -
  have b: "good b" "ch \<in> set (subs_of (bo_base ops b) u)" "\<forall>e. FrameData e \<in> set out \<longrightarrow> ev_UserID e = u"
    using assms(1) by (simp_all add: sse_good_def)
  note inv = good_inv [OF b(1)]
  show ?thesis
  proof (cases i)
    case SseEvent
    show ?thesis
    proof (cases "bb_chans (bo_base ops b) ch")
      case Nil
      moreover have "ch \<notin> set (bb_closed (bo_base ops b))" using inv b(2) by (auto simp: base_inv_def)
      ultimately show ?thesis using assms(2) SseEvent by (simp add: sse_turn_def)
    next
      case (Cons e es)
      then have "ev_UserID e = u" using inv b(2) by (auto simp: base_inv_def)
      then show ?thesis using assms(2) SseEvent Cons b received [OF b(1), of ch]
        by (auto simp: sse_turn_def sse_good_def split: option.splits)
    qed
  qed (use assms(2) b unsubscribed [OF b(1,2)] in \<open>auto simp: sse_turn_def sse_good_def\<close>)
qed

lemma run_good: "sse_run ops step u b0 ch b out go \<Longrightarrow> good b0 \<Longrightarrow> sse_good u ch b out go"
proof (induction rule: sse_run.induct)
  case (open_stream b ch)
  with subscribed [of b0 u b ch] show ?case by (simp add: sse_good_def)
next
  case (turn ch b out i b' o' go)
  then show ?case using turn_good by blast
next
  case (other ch b out go b')
  then show ?case using good_step by (auto simp: sse_good_def)
qed

text \<open>A request that is not disturbed writes all events that wait in its channel, in their order; those without a source are skipped.\<close>

lemma drained:
  "good b \<Longrightarrow> bb_chans (bo_base ops b) ch = es \<Longrightarrow>
   \<exists>b'. sse_turns ops u ch (replicate (length es) SseEvent) b = Some (b', map FrameData (filter (\<lambda>e. ev_Source e \<noteq> None) es), True) \<and>
     bb_chans (bo_base ops b') ch = []"
proof (induction es arbitrary: b)
  case (Cons e es)
  let ?b = "bo_receive ops ch b"
  from received [OF Cons.prems(1), of ch] have r: "good ?b" "bb_chans (bo_base ops ?b) ch = es" using Cons.prems(2) by (simp_all add: chan_receive_def)
  from Cons.IH [OF this] Cons.prems(2) show ?case by (auto simp: sse_turn_def split: option.splits)
qed simp

end

text \<open>Both broadcasters are such a bus.\<close>

lemma Subscribe_fresh:
  assumes "base_inv b" "base_Subscribe u b = (b', ch)"
  shows "base_inv b' \<and> ch \<in> set (subs_of b' u) \<and> bb_chans b' ch = []"
proof -
  have b': "b' = fst (base_Subscribe u b)" "ch = bb_nextChan b" "bb_chans b' = bb_chans b"
    using assms(2) by (auto simp: base_Subscribe_def Let_def)
  moreover have "bb_chans b (bb_nextChan b) = []" using assms(1) unfolding base_inv_def by blast
  ultimately show ?thesis using Subscribe_inv [OF assms(1), of u] subs_of_Subscribe [of u b u] by simp
qed

lemma Unsubscribe_gone:
  assumes "base_inv b" "ch \<in> set (subs_of b u)"
  shows "base_inv (base_Unsubscribe u ch b) \<and> (\<forall>u'. ch \<notin> set (subs_of (base_Unsubscribe u ch b) u'))"
proof -
  have "distinct (subs_of b u)" "\<forall>u'. ch \<in> set (subs_of b u') \<longrightarrow> u' = u" using assms unfolding base_inv_def by blast+
  then show ?thesis using Unsubscribe_inv [OF assms(1), of u ch] by (auto simp: subs_of_Unsubscribe set_remove_first)
qed

interpretation polling_sse: event_bus "polling_ops now" polling_step "\<lambda>p. base_inv (pb_base p)" for now
proof (unfold_locales, goal_cases)
  case (2 p p')
  then show ?case using bus.steps_inv polling_base_steps by blast
next
  case (3 p u p' ch)
  have "base_Subscribe u (pb_base p) = (pb_base p', ch)"
    using 3(2) by (auto simp: polling_ops_def polling_Subscribe_def startPolling_def Let_def split: prod.splits if_splits)
  from Subscribe_fresh [OF 3(1) this] show ?case by (simp add: polling_ops_def)
next
  case (4 p ch u)
  have "pb_base (polling_Unsubscribe u ch p) = base_Unsubscribe u ch (pb_base p)"
    by (simp add: polling_Unsubscribe_def stopPolling_def Let_def)
  with 4 Unsubscribe_gone [of "pb_base p" ch u] show ?case by (simp add: polling_ops_def)
qed (simp_all add: polling_ops_def simple_inv)

interpretation redis_sse: event_bus redis_ops "redis_step marshalEvent unmarshal" "\<lambda>st. base_inv (fst st)" for marshalEvent unmarshal
proof (unfold_locales, goal_cases)
  case (2 st st')
  then show ?case using bus.steps_inv redis_base_steps by blast
next
  case (3 st u st' ch)
  then have "base_Subscribe u (fst st) = (fst st', ch)" by (auto simp: redis_ops_def split: prod.splits)
  from Subscribe_fresh [OF 3(1) this] show ?case by (simp add: redis_ops_def)
next
  case (4 st ch u)
  with Unsubscribe_gone [of "fst st" ch u] show ?case by (simp add: redis_ops_def)
qed (simp_all add: redis_ops_def simple_inv)

text \<open>The loop that reads Redis, however often it reconnects, only makes steps of the shared part.\<close>

lemma redis_turn_steps: "redis_turn unmarshal now i (s, b) = Some (s', b') \<Longrightarrow> base_step\<^sup>*\<^sup>* b b'"
  using redis_base_steps [OF redis_step.receive_message [of _ unmarshal b "[]" now]]
  by (auto simp: redis_turn_def split: redis_state.splits redis_input.splits if_splits)

text \<open>The recent events are those of the user, the newest first.\<close>

lemma recent_events:
  assumes "EventsGetEvents None now userId db = Some es"
  shows "sorted (map (\<lambda>e. - eo_CreatedAt e) es) \<and> (\<forall>e \<in> set es. \<exists>d \<in> set db. ev_UserID d = userId \<and> event_out_of d = Some e)"
proof -
  define rows where "rows = sort_key (\<lambda>e. - ev_CreatedAt e) (filter (\<lambda>e. ev_CreatedAt e > ((now - 10 * 60 * 10 ^ 9) div 10 ^ 9) * 10 ^ 9 \<and> ev_UserID e = userId) db)"
  have those: "those (map event_out_of rows) = Some es" using assms by (simp add: EventsGetEvents_def rows_def)
  have "map eo_CreatedAt es = map ev_CreatedAt rs \<and> (\<forall>e \<in> set es. \<exists>d \<in> set rs. event_out_of d = Some e)"
    if "those (map event_out_of rs) = Some es" for rs es
    using that
  proof (induction rs arbitrary: es)
    case (Cons r rs)
    then obtain e es' where e: "event_out_of r = Some e" "those (map event_out_of rs) = Some es'" "es = e # es'" by (auto split: option.splits)
    moreover have "eo_CreatedAt e = ev_CreatedAt r" using e(1) by (auto simp: event_out_of_def)
    ultimately show ?case using Cons.IH [OF e(2)] by auto
  qed simp
  from this [OF those] have es: "map eo_CreatedAt es = map ev_CreatedAt rows" "\<forall>e \<in> set es. \<exists>d \<in> set rows. event_out_of d = Some e" by blast+
  have "map (\<lambda>e. - eo_CreatedAt e) es = map (\<lambda>e. - ev_CreatedAt e) rows"
    using arg_cong [OF es(1), of "map uminus"] by (simp add: comp_def)
  moreover have "sorted (map (\<lambda>e. - ev_CreatedAt e) rows)" by (simp add: rows_def)
  ultimately have "sorted (map (\<lambda>e. - eo_CreatedAt e) es)" by simp
  moreover have "set rows \<subseteq> {d \<in> set db. ev_UserID d = userId}" by (auto simp: rows_def)
  ultimately show ?thesis using es(2) by blast
qed

subsection \<open>Properties\<close>

text \<open>C32: A stream of events shows its user's events only. In every run of \<open>EventsEventsStream\<close> on either broadcaster, started in any
  reachable state and among any steps of other requests, workers and pollers, every event written belongs to the user of the request,
  and when the request has ended its channel is listed for nobody.\<close>

theorem sse_isolated:
  assumes "reachable polling_init polling_step p0" "sse_run (polling_ops now) polling_step u p0 ch p out go"
    and "reachable redis_init (redis_step marshalEvent unmarshal) r0" "sse_run redis_ops (redis_step marshalEvent unmarshal) u r0 ch' r out' go'"
  shows "(\<forall>e. FrameData e \<in> set out \<or> FrameData e \<in> set out' \<longrightarrow> ev_UserID e = u) \<and>
    (\<not> go \<longrightarrow> (\<forall>u'. ch \<notin> set (subs_of (pb_base p) u'))) \<and> (\<not> go' \<longrightarrow> (\<forall>u'. ch' \<notin> set (subs_of (fst r) u')))"
proof -
  have "polling_sse.sse_good now u ch p out go" using polling_sse.run_good [OF assms(2) polling.reachable_inv [OF assms(1)]] .
  moreover have "redis_sse.sse_good u ch' r out' go'" using redis_sse.run_good [OF assms(4) redis_bus.reachable_inv [OF assms(3)]] .
  ultimately show ?thesis unfolding polling_sse.sse_good_def redis_sse.sse_good_def by (auto simp: polling_ops_def redis_ops_def)
qed

definition demo_source :: source where
  "demo_source = \<lparr>so_ID = ''f'', so_Type = ''file'', so_Name = ''n'', so_ParentID = [], so_DestParentID = []\<rparr>"

definition demo_polling :: "source option polling" where
  "demo_polling = NewPollingBroadcaster DefaultBroadcasterConfig [] 0"

definition demo_redis :: "source option broadcaster \<times> string list" where
  "demo_redis = (newBaseBroadcaster DefaultBroadcasterConfig [], [])"

definition demo_event :: "source option event" where
  "demo_event = createEvent ''e'' 5 ''file_create'' 1 (Some demo_source)"

text \<open>A subscriber of user 1 reads the event that is recorded after it has subscribed.\<close>

theorem sse_isolated_witness:
  "\<exists>p r. sse_run (polling_ops 0) polling_step 1 demo_polling 0 p [FrameConnected, FrameData demo_event] True \<and>
     sse_run redis_ops (redis_step (\<lambda>_. Inr []) (\<lambda>_. Inl EOF)) 1 demo_redis 0 r [FrameConnected] False \<and>
     ev_UserID demo_event = 1 \<and> (\<forall>u'. 0 \<notin> set (subs_of (fst r) u'))"
proof -
  obtain p1 where p1: "polling_Subscribe 0 1 demo_polling = (p1, 0)" "bb_chans (pb_base p1) = (\<lambda>_. [])" "subs_of (pb_base p1) 1 = [0]"
    by (simp add: polling_Subscribe_def base_Subscribe_def demo_polling_def NewPollingBroadcaster_def newBaseBroadcaster_def startPolling_def
        Let_def subs_of_def)
  let ?p2 = "polling_Record demo_event p1"
  have p2: "bb_chans (pb_base ?p2) 0 = [demo_event]" "subs_of (pb_base ?p2) 1 = [0]"
    using p1 by (simp_all add: polling_Record_def broadcast_def send_nonblocking_def demo_event_def createEvent_def queueForDB_def subs_of_def)
  have s1: "sse_run (polling_ops 0) polling_step 1 demo_polling 0 p1 [FrameConnected] True"
    by (rule sse_run.open_stream) (simp add: polling_ops_def p1(1))
  have s2: "sse_run (polling_ops 0) polling_step 1 demo_polling 0 ?p2 [FrameConnected] True"
    by (rule sse_run.other [OF s1]) (use p1 p2 in \<open>auto simp: polling_ops_def demo_event_def intro: polling_step.record_event\<close>)
  let ?p3 = "?p2\<lparr>pb_base := chan_receive 0 (pb_base ?p2)\<rparr>"
  have "sse_turn (polling_ops 0) 1 0 SseEvent ?p2 = Some (?p3, [FrameData demo_event], True)"
    using p2(1) by (simp add: sse_turn_def polling_ops_def demo_event_def createEvent_def)
  from sse_run.turn [OF s2 this] have s3: "sse_run (polling_ops 0) polling_step 1 demo_polling 0 ?p3 [FrameConnected, FrameData demo_event] True" by simp
  obtain b1 where b1: "base_Subscribe 1 (fst demo_redis) = (b1, 0)"
    by (simp add: base_Subscribe_def demo_redis_def newBaseBroadcaster_def Let_def)
  have r1: "sse_run redis_ops (redis_step (\<lambda>_. Inr []) (\<lambda>_. Inl EOF)) 1 demo_redis 0 (b1, []) [FrameConnected] True"
    by (rule sse_run.open_stream) (simp add: redis_ops_def b1, simp add: demo_redis_def)
  have "sse_turn redis_ops 1 0 SseDone (b1, []) = Some ((base_Unsubscribe 1 0 b1, []), [], False)" by (simp add: sse_turn_def redis_ops_def)
  from sse_run.turn [OF r1 this] have r2: "sse_run redis_ops (redis_step (\<lambda>_. Inr []) (\<lambda>_. Inl EOF)) 1 demo_redis 0 (base_Unsubscribe 1 0 b1, []) [FrameConnected] False"
    by simp
  have "reachable polling_init polling_step demo_polling" "reachable redis_init (redis_step (\<lambda>_. Inr []) (\<lambda>_. Inl EOF)) demo_redis"
    unfolding polling_init_def demo_polling_def redis_init_def demo_redis_def by (blast intro: reachable.start)+
  from sse_isolated [OF this(1) s3 this(2) r2] s3 r2 show ?thesis by auto
qed

end
