(* ===== verification/Config.thy ===== *)
theory Config
  imports Auth_Session
begin

section \<open>The configuration (internal/config/config.go)\<close>

text \<open>
  The settings of a command are the fields of a struct type, which the loader walks by reflection: it makes a flag and an
  environment variable for every field, and it puts together defaults, a file, the environment and the flags of the
  command line. A struct type is a list of fields (\<open>cfg_field\<close>) with their tags, without the descriptions. The types of the two commands
  are given below. The store of settings is a package, of which \<open>merge\<close> puts a layer over it; a layer is a list of keys, with dots
  between the names of nested structs, and values. A duration is parsed and printed by \<open>duration\<close>; panics are \<open>None\<close>.
\<close>

datatype cfg_kind = KString | KInt | KInt64 | KDuration | KBool | KStrings

datatype cfg_type = Leaf cfg_kind | Struct "cfg_field list"
  and cfg_field = Field (cf_name: string) (cf_koanf: string) (cf_skip: bool) (cf_default: string) (cf_required: bool) (cf_type: cfg_type)

abbreviation leaf :: "string \<Rightarrow> cfg_kind \<Rightarrow> string \<Rightarrow> cfg_field" where
  "leaf name k d \<equiv> Field name [] False d False (Leaf k)"

abbreviation struct :: "string \<Rightarrow> cfg_field list \<Rightarrow> cfg_field" where
  "struct name fs \<equiv> Field name [] False [] False (Struct fs)"

subsection \<open>The types of the settings\<close>

definition ServerConfig :: "cfg_field list" where
  "ServerConfig = [
    leaf ''Port'' KInt ''8080'', leaf ''GracefulShutdown'' KDuration ''10s'', leaf ''EnablePprof'' KBool ''false'',
    leaf ''ReadTimeout'' KDuration ''1h'', leaf ''WriteTimeout'' KDuration ''1h'']"

definition HTTPLoggingConfig :: "cfg_field list" where
  "HTTPLoggingConfig = [
    leaf ''Enabled'' KBool ''true'', leaf ''LogQueries'' KBool ''false'', leaf ''SanitizeQueries'' KBool ''true'',
    leaf ''MaxQueryLength'' KInt ''100'', leaf ''LogUserAgent'' KBool ''true'', leaf ''LogRequestBodySize'' KBool ''true'',
    leaf ''LogResponseSize'' KBool ''true'', leaf ''SkipPaths'' KStrings ''/health,/metrics'']"

definition DBLoggingConfig :: "cfg_field list" where
  "DBLoggingConfig = [
    leaf ''Level'' KString ''error'', leaf ''SlowThreshold'' KDuration ''1s'', leaf ''IgnoreRecordNotFound'' KBool ''true'',
    leaf ''LogSQL'' KBool ''true'']"

definition TGLoggingConfig :: "cfg_field list" where
  "TGLoggingConfig = [
    leaf ''Enabled'' KBool ''false'', leaf ''Level'' KString ''warn'']"

definition LoggingConfig :: "cfg_field list" where
  "LoggingConfig = [
    leaf ''Level'' KString ''info'', leaf ''TimeFormat'' KString ''2006-01-02 15:04:05'', leaf ''File'' KString [], struct ''HTTP'' HTTPLoggingConfig,
    struct ''DB'' DBLoggingConfig, struct ''TG'' TGLoggingConfig]"

definition JWTConfig :: "cfg_field list" where
  "JWTConfig = [
    Field ''Secret'' [] False [] True (Leaf KString), leaf ''SessionTime'' KDuration ''30d'', leaf ''AllowedUsers'' KStrings []]"

definition DBPool :: "cfg_field list" where
  "DBPool = [
    leaf ''Enable'' KBool ''true'', leaf ''MaxOpenConnections'' KInt ''25'', leaf ''MaxIdleConnections'' KInt ''25'',
    leaf ''MaxLifetime'' KDuration ''10m'']"

definition DBConfig :: "cfg_field list" where
  "DBConfig = [
    Field ''DataSource'' [] False [] True (Leaf KString), leaf ''PrepareStmt'' KBool ''true'', struct ''Pool'' DBPool]"

definition TGUpload :: "cfg_field list" where
  "TGUpload = [
    leaf ''EncryptionKey'' KString [], leaf ''Threads'' KInt ''8'', leaf ''MaxRetries'' KInt ''10'', leaf ''Retention'' KDuration ''7d'']"

definition TGStream :: "cfg_field list" where
  "TGStream = [
    leaf ''Concurrency'' KInt ''1'', leaf ''Buffers'' KInt ''8'', leaf ''ChunkTimeout'' KDuration ''30s'', leaf ''BotsLimit'' KInt ''2'']"

definition BoltSessionConfig :: "cfg_field list" where
  "BoltSessionConfig = [
    leaf ''Path'' KString [], leaf ''Timeout'' KDuration ''1s'', leaf ''NoGrowSync'' KBool ''false'']"

definition SessionStorageConfig :: "cfg_field list" where
  "SessionStorageConfig = [
    leaf ''Type'' KString ''postgres'', leaf ''Key'' KString ''session'', Field ''Bolt'' ''bolt'' False [] False (Struct BoltSessionConfig)]"

definition TGConfig :: "cfg_field list" where
  "TGConfig = [
    leaf ''RateLimit'' KBool ''true'', leaf ''RateBurst'' KInt ''5'', leaf ''Rate'' KInt ''100'', leaf ''BotCircuitFailures'' KInt ''3'',
    leaf ''BotCircuitCooldown'' KDuration ''30s'', leaf ''Ntp'' KBool ''false'', leaf ''Proxy'' KString [],
    leaf ''ReconnectTimeout'' KDuration ''5m'', leaf ''PoolSize'' KInt ''8'', leaf ''PoolIdleTimeout'' KDuration ''5m'',
    leaf ''PoolRoutingStrategy'' KString ''least_connections'', leaf ''EnableLogging'' KBool ''false'', leaf ''AppId'' KInt ''2496'',
    leaf ''AppHash'' KString ''8da85b0d5bfe62527e5b244c209159c3'',
    leaf ''DeviceModel'' KString ''Mozilla/5.0 (X11; Ubuntu; Linux x86_64; rv:109.0) Gecko/20100101 Firefox/116.0'',
    leaf ''SystemVersion'' KString ''Win32'', leaf ''AppVersion'' KString ''6.1.4 K'', leaf ''LangCode'' KString ''en'',
    leaf ''SystemLangCode'' KString ''en-US'', leaf ''LangPack'' KString ''webk'', leaf ''SessionInstance'' KString ''teldrive'',
    leaf ''AutoChannelCreate'' KBool ''true'', leaf ''ChannelLimit'' KInt64 ''500000'', struct ''Uploads'' TGUpload, struct ''Stream'' TGStream,
    struct ''Session'' SessionStorageConfig]"

definition CronJobConfig :: "cfg_field list" where
  "CronJobConfig = [
    leaf ''Enable'' KBool ''true'', leaf ''LockerInstance'' KString ''cron-locker'', leaf ''CleanFilesInterval'' KDuration ''1h'',
    leaf ''CleanUploadsInterval'' KDuration ''12h'', leaf ''FolderSizeInterval'' KDuration ''2h'']"

definition CacheConfig :: "cfg_field list" where
  "CacheConfig = [
    leaf ''MaxSize'' KInt ''10485760'']"

definition RedisConfig :: "cfg_field list" where
  "RedisConfig = [
    leaf ''Addr'' KString [], leaf ''Password'' KString [], leaf ''PoolSize'' KInt ''10'', leaf ''MinIdleConns'' KInt ''5'',
    leaf ''MaxIdleConns'' KInt ''10'', leaf ''ConnMaxIdleTime'' KDuration ''5m'', leaf ''ConnMaxLifetime'' KDuration ''1h'']"

definition EventConfig :: "cfg_field list" where
  "EventConfig = [
    leaf ''PollInterval'' KDuration ''10s'', leaf ''DBWorkers'' KInt ''10'', leaf ''DBBufferSize'' KInt ''1000'',
    leaf ''DeduplicationTTL'' KDuration ''5s'']"

definition ServerCmdConfig :: "cfg_field list" where
  "ServerCmdConfig = [
    struct ''Server'' ServerConfig, struct ''Log'' LoggingConfig, struct ''JWT'' JWTConfig, struct ''DB'' DBConfig, struct ''TG'' TGConfig,
    struct ''CronJobs'' CronJobConfig, struct ''Cache'' CacheConfig, struct ''Redis'' RedisConfig, struct ''Events'' EventConfig]"

definition CheckCmdConfig :: "cfg_field list" where
  "CheckCmdConfig = [
    Field ''Log'' [] True [] False (Struct LoggingConfig), Field ''DB'' [] True [] False (Struct DBConfig),
    Field ''TG'' [] True [] False (Struct TGConfig), leaf ''ExportFile'' KString ''results.json'', leaf ''DryRun'' KBool ''false'',
    leaf ''User'' KString [], leaf ''Concurrent'' KInt ''4'', leaf ''CleanUploads'' KBool ''false'', leaf ''CleanPending'' KBool ''false'']"

subsection \<open>Names\<close>

definition is_upper :: "char \<Rightarrow> bool" where
  "is_upper c = (let n = of_char c :: nat in 65 \<le> n \<and> n \<le> 90)"

definition is_lower :: "char \<Rightarrow> bool" where
  "is_lower c = (let n = of_char c :: nat in 97 \<le> n \<and> n \<le> 122)"

definition is_digit :: "char \<Rightarrow> bool" where
  "is_digit c = (let n = of_char c :: nat in 48 \<le> n \<and> n \<le> 57)"

definition char_upper :: "char \<Rightarrow> char" where
  "char_upper c = (if is_lower c then char_of (of_char c - 32 :: nat) else c)"

definition to_upper :: "string \<Rightarrow> string" where
  "to_upper s = map char_upper s"

definition replace_char :: "char \<Rightarrow> char \<Rightarrow> string \<Rightarrow> string" where
  "replace_char a b s = map (\<lambda>c. if c = a then b else c) s"

text \<open>The expressions \<^verbatim>\<open>(.)([A-Z][a-z]+)\<close> and \<^verbatim>\<open>([a-z0-9])([A-Z])\<close>, each match with a dash between its two groups.\<close>

function first_cap :: "string \<Rightarrow> string" where
  "first_cap [] = []"
| "first_cap [c] = [c]"
| "first_cap [c, u] = [c, u]"
| "first_cap (c # u # l # s) =
     (if c \<noteq> CHR 0x0A \<and> is_upper u \<and> is_lower l
      then c # CHR ''-'' # u # takeWhile is_lower (l # s) @ first_cap (dropWhile is_lower (l # s))
      else c # first_cap (u # l # s))"
  by pat_completeness auto
termination by (relation "measure length") (auto intro: le_less_trans [OF length_dropWhile_le])

fun all_cap :: "string \<Rightarrow> string" where
  "all_cap [] = []"
| "all_cap [c] = [c]"
| "all_cap (c # u # s) = (if (is_lower c \<or> is_digit c) \<and> is_upper u then c # CHR ''-'' # u # all_cap s else c # all_cap (u # s))"

definition toKebabCase :: "string \<Rightarrow> string" where
  "toKebabCase str = to_lower (all_cap (first_cap str))"

definition getKey :: "cfg_field \<Rightarrow> string" where
  "getKey f = (if cf_koanf f \<noteq> [] then cf_koanf f else toKebabCase (cf_name f))"

definition join_key :: "string \<Rightarrow> string \<Rightarrow> string" where
  "join_key prefix tag = (if prefix \<noteq> [] then prefix @ ''.'' @ tag else tag)"

subsection \<open>Environment variables\<close>

fun env_pairs :: "cfg_field list \<Rightarrow> string \<Rightarrow> string \<Rightarrow> (string \<times> string) list" where
  "env_pairs [] prefix envPrefix = []"
| "env_pairs (Field n t sk d rq ty # fs) prefix envPrefix =
     (let tag = getKey (Field n t sk d rq ty);
          key = join_key prefix tag;
          envKey = (if envPrefix \<noteq> [] then envPrefix @ ''_'' else []) @ to_upper (replace_char CHR ''-'' CHR ''_'' tag)
      in (case ty of Struct sub \<Rightarrow> env_pairs sub key envKey | Leaf k \<Rightarrow> [(envKey, key)]) @ env_pairs fs prefix envPrefix)"

definition generateEnvMap :: "cfg_field list \<Rightarrow> (string \<times> string) list" where
  "generateEnvMap fs = fold (\<lambda>(e, k) m. AList.update e k m) (env_pairs fs [] []) []"

definition env_key :: "(string \<times> string) list \<Rightarrow> string \<Rightarrow> string" where
  "env_key envMap s =
     (let key = trim_prefix s ''TELDRIVE_'' in
      case map_of envMap key of Some val \<Rightarrow> val | None \<Rightarrow> replace_char CHR ''_'' CHR ''-'' (to_lower key))"

subsection \<open>Flags and defaults\<close>

datatype cfg_value = CfgText string | CfgInt int | CfgBool bool | CfgList "string list"

definition parse_bool :: "string \<Rightarrow> bool" where
  "parse_bool s \<longleftrightarrow> s \<in> {''1'', ''t'', ''T'', ''TRUE'', ''true'', ''True''}"

record flag =
  fl_Name :: string
  fl_Key :: "string option"
  fl_Value :: cfg_value
  fl_Changed :: bool

text \<open>The value of a new flag, as it is read back from the flag.\<close>

definition flag_default :: "(string \<Rightarrow> string) \<Rightarrow> cfg_kind \<Rightarrow> string \<Rightarrow> cfg_value" where
  "flag_default duration k d =
     (case k of
        KString \<Rightarrow> CfgText d
      | KInt \<Rightarrow> CfgText (itoa (subject_id d))
      | KInt64 \<Rightarrow> CfgText (itoa (subject_id d))
      | KDuration \<Rightarrow> CfgText (duration d)
      | KBool \<Rightarrow> CfgText (if parse_bool d then ''true'' else ''false'')
      | KStrings \<Rightarrow> CfgList (if d \<noteq> [] then split_on CHR '','' d else []))"

text \<open>A flag that is defined twice is a panic.\<close>

fun registerStruct :: "(string \<Rightarrow> string) \<Rightarrow> cfg_field list \<Rightarrow> string \<Rightarrow> flag list \<Rightarrow> flag list option" where
  "registerStruct duration [] prefix flags = Some flags"
| "registerStruct duration (Field n t sk d rq ty # fs) prefix flags =
     (let key = join_key prefix (getKey (Field n t sk d rq ty)) in
      if sk then registerStruct duration fs prefix flags
      else (case ty of
         Struct sub \<Rightarrow>
           (case registerStruct duration sub key flags of None \<Rightarrow> None | Some flags' \<Rightarrow> registerStruct duration fs prefix flags')
       | Leaf k \<Rightarrow>
           let name = replace_char CHR ''.'' CHR ''-'' key in
           if name \<in> set (map fl_Name flags) then None
           else registerStruct duration fs prefix
                  (flags @ [\<lparr>fl_Name = name, fl_Key = Some key, fl_Value = flag_default duration k d, fl_Changed = False\<rparr>])))"

definition RegisterFlags :: "(string \<Rightarrow> string) \<Rightarrow> cfg_field list \<Rightarrow> flag list option" where
  "RegisterFlags duration fs =
     registerStruct duration fs [] [\<lparr>fl_Name = ''config'', fl_Key = None, fl_Value = CfgText [], fl_Changed = False\<rparr>]"

text \<open>The flags as a layer: all unchanged ones, or the changed ones only.\<close>

definition flags_Read :: "bool \<Rightarrow> bool \<Rightarrow> flag list \<Rightarrow> (string \<times> cfg_value) list" where
  "flags_Read defaults onlyChanged flags =
     map (\<lambda>f. (case fl_Key f of Some key \<Rightarrow> key | None \<Rightarrow> replace_char CHR ''-'' CHR ''.'' (fl_Name f), fl_Value f))
       (filter (\<lambda>f. \<not> (defaults \<and> fl_Changed f) \<and> \<not> (onlyChanged \<and> \<not> fl_Changed f)) flags)"

text \<open>The defaults of the structs that have no flags.\<close>

definition tag_default :: "cfg_kind \<Rightarrow> string \<Rightarrow> cfg_value" where
  "tag_default k d =
     (case k of
        KInt \<Rightarrow> CfgInt (subject_id d)
      | KInt64 \<Rightarrow> CfgInt (subject_id d)
      | KBool \<Rightarrow> CfgBool (parse_bool d)
      | KStrings \<Rightarrow> CfgList (split_on CHR '','' d)
      | _ \<Rightarrow> CfgText d)"

fun registerDefaultsRecursive :: "cfg_field list \<Rightarrow> string \<Rightarrow> (string \<times> cfg_value) list" where
  "registerDefaultsRecursive [] prefix = []"
| "registerDefaultsRecursive (Field n t sk d rq ty # fs) prefix =
     (let key = prefix @ ''.'' @ getKey (Field n t sk d rq ty) in
      (case ty of
         Struct sub \<Rightarrow> registerDefaultsRecursive sub key
       | Leaf k \<Rightarrow> if d \<noteq> [] then [(key, tag_default k d)] else []) @ registerDefaultsRecursive fs prefix)"

fun loadSkippedDefaults :: "cfg_field list \<Rightarrow> string \<Rightarrow> (string \<times> cfg_value) list" where
  "loadSkippedDefaults [] prefix = []"
| "loadSkippedDefaults (Field n t sk d rq ty # fs) prefix =
     (let key = join_key prefix (getKey (Field n t sk d rq ty)) in
      (case ty of
         Struct sub \<Rightarrow> if sk then registerDefaultsRecursive sub key else loadSkippedDefaults sub key
       | Leaf k \<Rightarrow> []) @ loadSkippedDefaults fs prefix)"

subsection \<open>Loading\<close>

datatype parser = YamlParser | TomlParser

record load_env =
  le_home :: "go_error + string"
  le_join :: "string list \<Rightarrow> string"
  le_exists :: "string \<Rightarrow> bool"
  le_read :: "string \<Rightarrow> parser \<Rightarrow> go_error + (string \<times> cfg_value) list"
  le_environ :: "(string \<times> string) list"

definition has_suffix :: "string \<Rightarrow> string \<Rightarrow> bool" where
  "has_suffix s suffix \<longleftrightarrow> length suffix \<le> length s \<and> drop (length s - length suffix) s = suffix"

definition file_layer :: "load_env \<Rightarrow> string \<Rightarrow> go_error + (string \<times> cfg_value) list" where
  "file_layer env cfgFile =
     (if cfgFile \<noteq> [] then
        map_sum (ErrWrap ''error reading config file'') id
          (le_read env cfgFile (if has_suffix cfgFile ''.yaml'' \<or> has_suffix cfgFile ''.yml'' then YamlParser else TomlParser))
      else case le_home env of
        Inl e \<Rightarrow> Inl (ErrWrap ''error getting home directory'' e)
      | Inr home \<Rightarrow>
          (case find (le_exists env) [le_join env [home, ''.teldrive'', ''config.toml''], ''config.toml''] of
             None \<Rightarrow> Inr []
           | Some path \<Rightarrow> map_sum (ErrWrap ''error reading config file'') id (le_read env path TomlParser)))"

definition env_layer :: "load_env \<Rightarrow> cfg_field list \<Rightarrow> (string \<times> cfg_value) list" where
  "env_layer env fs =
     map (\<lambda>(s, v). (env_key (generateEnvMap fs) s, CfgText v)) (filter (\<lambda>(s, v). has_prefix s ''TELDRIVE_'') (le_environ env))"

definition Load :: "('k \<Rightarrow> (string \<times> cfg_value) list \<Rightarrow> 'k) \<Rightarrow> load_env \<Rightarrow> cfg_field list \<Rightarrow> flag list \<Rightarrow> string \<Rightarrow> 'k \<Rightarrow> go_error + 'k" where
  "Load merge env fs flags cfgFile k =
     (let k1 = merge k (flags_Read True False flags);
          k2 = merge k1 (loadSkippedDefaults fs [])
      in map_sum id (\<lambda>layer. merge (merge (merge k2 layer) (env_layer env fs)) (flags_Read False True flags)) (file_layer env cfgFile))"

text \<open>The keys of the settings that must not be empty, and the check of them.\<close>

fun required_keys :: "cfg_field list \<Rightarrow> string \<Rightarrow> string list" where
  "required_keys [] prefix = []"
| "required_keys (Field n t sk d rq ty # fs) prefix =
     (let key = join_key prefix (getKey (Field n t sk d rq ty)) in
      (if rq then [key] else []) @ (case ty of Struct sub \<Rightarrow> required_keys sub key | Leaf k \<Rightarrow> []) @ required_keys fs prefix)"

definition Validate :: "cfg_field list \<Rightarrow> (string \<Rightarrow> string) \<Rightarrow> string list" where
  "Validate fs val = filter (\<lambda>key. val key = []) (required_keys fs [])"

text \<open>All settings.\<close>

fun leaf_keys :: "cfg_field list \<Rightarrow> string \<Rightarrow> string list" where
  "leaf_keys [] prefix = []"
| "leaf_keys (Field n t sk d rq ty # fs) prefix =
     (let key = join_key prefix (getKey (Field n t sk d rq ty)) in
      (case ty of Struct sub \<Rightarrow> leaf_keys sub key | Leaf k \<Rightarrow> [key]) @ leaf_keys fs prefix)"


subsection \<open>Evaluation of the names\<close>

text \<open>Evaluating one name at a time keeps the work on the types of the commands small.\<close>

lemma bit_Suc_0: "bit (Suc 0) n \<longleftrightarrow> n = 0"
  by (simp add: bit_simps)

lemmas string_eval = toKebabCase_def to_lower_def char_lower_def is_upper_def is_lower_def is_digit_def Let_def to_upper_def char_upper_def
  replace_char_def char_of_def bit_Suc_0

lemma kebab_names:
  "toKebabCase ''PollInterval'' = ''poll-interval''" "toKebabCase ''DBWorkers'' = ''db-workers''" "toKebabCase ''DBBufferSize'' = ''db-buffer-size''"
  "toKebabCase ''DeduplicationTTL'' = ''deduplication-ttl''" "toKebabCase ''Server'' = ''server''" "toKebabCase ''Log'' = ''log''"
  "toKebabCase ''JWT'' = ''jwt''" "toKebabCase ''DB'' = ''db''" "toKebabCase ''TG'' = ''tg''" "toKebabCase ''CronJobs'' = ''cron-jobs''"
  "toKebabCase ''Cache'' = ''cache''" "toKebabCase ''Redis'' = ''redis''" "toKebabCase ''Events'' = ''events''"
  "toKebabCase ''ExportFile'' = ''export-file''" "toKebabCase ''DryRun'' = ''dry-run''" "toKebabCase ''User'' = ''user''"
  "toKebabCase ''Concurrent'' = ''concurrent''" "toKebabCase ''CleanUploads'' = ''clean-uploads''" "toKebabCase ''CleanPending'' = ''clean-pending''"
  "toKebabCase ''Port'' = ''port''" "toKebabCase ''GracefulShutdown'' = ''graceful-shutdown''" "toKebabCase ''EnablePprof'' = ''enable-pprof''"
  "toKebabCase ''ReadTimeout'' = ''read-timeout''" "toKebabCase ''WriteTimeout'' = ''write-timeout''" "toKebabCase ''MaxSize'' = ''max-size''"
  "toKebabCase ''Addr'' = ''addr''" "toKebabCase ''Password'' = ''password''" "toKebabCase ''PoolSize'' = ''pool-size''"
  "toKebabCase ''MinIdleConns'' = ''min-idle-conns''" "toKebabCase ''MaxIdleConns'' = ''max-idle-conns''"
  "toKebabCase ''ConnMaxIdleTime'' = ''conn-max-idle-time''" "toKebabCase ''ConnMaxLifetime'' = ''conn-max-lifetime''"
  "toKebabCase ''Enabled'' = ''enabled''" "toKebabCase ''LogQueries'' = ''log-queries''" "toKebabCase ''SanitizeQueries'' = ''sanitize-queries''"
  "toKebabCase ''MaxQueryLength'' = ''max-query-length''" "toKebabCase ''LogUserAgent'' = ''log-user-agent''"
  "toKebabCase ''LogRequestBodySize'' = ''log-request-body-size''" "toKebabCase ''LogResponseSize'' = ''log-response-size''"
  "toKebabCase ''SkipPaths'' = ''skip-paths''" "toKebabCase ''Level'' = ''level''" "toKebabCase ''SlowThreshold'' = ''slow-threshold''"
  "toKebabCase ''IgnoreRecordNotFound'' = ''ignore-record-not-found''" "toKebabCase ''LogSQL'' = ''log-sql''"
  "toKebabCase ''TimeFormat'' = ''time-format''" "toKebabCase ''File'' = ''file''" "toKebabCase ''HTTP'' = ''http''"
  "toKebabCase ''Secret'' = ''secret''" "toKebabCase ''SessionTime'' = ''session-time''" "toKebabCase ''AllowedUsers'' = ''allowed-users''"
  "toKebabCase ''Enable'' = ''enable''" "toKebabCase ''MaxOpenConnections'' = ''max-open-connections''"
  "toKebabCase ''MaxIdleConnections'' = ''max-idle-connections''" "toKebabCase ''MaxLifetime'' = ''max-lifetime''"
  "toKebabCase ''DataSource'' = ''data-source''" "toKebabCase ''PrepareStmt'' = ''prepare-stmt''" "toKebabCase ''Pool'' = ''pool''"
  "toKebabCase ''LockerInstance'' = ''locker-instance''" "toKebabCase ''CleanFilesInterval'' = ''clean-files-interval''"
  "toKebabCase ''CleanUploadsInterval'' = ''clean-uploads-interval''" "toKebabCase ''FolderSizeInterval'' = ''folder-size-interval''"
  "toKebabCase ''Concurrency'' = ''concurrency''" "toKebabCase ''Buffers'' = ''buffers''" "toKebabCase ''ChunkTimeout'' = ''chunk-timeout''"
  "toKebabCase ''BotsLimit'' = ''bots-limit''" "toKebabCase ''EncryptionKey'' = ''encryption-key''" "toKebabCase ''Threads'' = ''threads''"
  "toKebabCase ''MaxRetries'' = ''max-retries''" "toKebabCase ''Retention'' = ''retention''" "toKebabCase ''RateLimit'' = ''rate-limit''"
  "toKebabCase ''RateBurst'' = ''rate-burst''" "toKebabCase ''Rate'' = ''rate''" "toKebabCase ''BotCircuitFailures'' = ''bot-circuit-failures''"
  "toKebabCase ''BotCircuitCooldown'' = ''bot-circuit-cooldown''" "toKebabCase ''Ntp'' = ''ntp''" "toKebabCase ''Proxy'' = ''proxy''"
  "toKebabCase ''ReconnectTimeout'' = ''reconnect-timeout''" "toKebabCase ''PoolIdleTimeout'' = ''pool-idle-timeout''"
  "toKebabCase ''PoolRoutingStrategy'' = ''pool-routing-strategy''" "toKebabCase ''EnableLogging'' = ''enable-logging''"
  "toKebabCase ''AppId'' = ''app-id''" "toKebabCase ''AppHash'' = ''app-hash''" "toKebabCase ''DeviceModel'' = ''device-model''"
  "toKebabCase ''SystemVersion'' = ''system-version''" "toKebabCase ''AppVersion'' = ''app-version''" "toKebabCase ''LangCode'' = ''lang-code''"
  "toKebabCase ''SystemLangCode'' = ''system-lang-code''" "toKebabCase ''LangPack'' = ''lang-pack''"
  "toKebabCase ''SessionInstance'' = ''session-instance''" "toKebabCase ''AutoChannelCreate'' = ''auto-channel-create''"
  "toKebabCase ''ChannelLimit'' = ''channel-limit''" "toKebabCase ''Uploads'' = ''uploads''" "toKebabCase ''Stream'' = ''stream''"
  "toKebabCase ''Session'' = ''session''" "toKebabCase ''Path'' = ''path''" "toKebabCase ''Timeout'' = ''timeout''"
  "toKebabCase ''NoGrowSync'' = ''no-grow-sync''" "toKebabCase ''Type'' = ''type''" "toKebabCase ''Key'' = ''key''"
  by (simp_all add: string_eval)

lemma upper_names:
  "to_upper (replace_char CHR ''-'' CHR ''_'' ''addr'') = ''ADDR''"
  "to_upper (replace_char CHR ''-'' CHR ''_'' ''allowed-users'') = ''ALLOWED_USERS''"
  "to_upper (replace_char CHR ''-'' CHR ''_'' ''app-hash'') = ''APP_HASH''" "to_upper (replace_char CHR ''-'' CHR ''_'' ''app-id'') = ''APP_ID''"
  "to_upper (replace_char CHR ''-'' CHR ''_'' ''app-version'') = ''APP_VERSION''"
  "to_upper (replace_char CHR ''-'' CHR ''_'' ''auto-channel-create'') = ''AUTO_CHANNEL_CREATE''"
  "to_upper (replace_char CHR ''-'' CHR ''_'' ''bolt'') = ''BOLT''"
  "to_upper (replace_char CHR ''-'' CHR ''_'' ''bot-circuit-cooldown'') = ''BOT_CIRCUIT_COOLDOWN''"
  "to_upper (replace_char CHR ''-'' CHR ''_'' ''bot-circuit-failures'') = ''BOT_CIRCUIT_FAILURES''"
  "to_upper (replace_char CHR ''-'' CHR ''_'' ''bots-limit'') = ''BOTS_LIMIT''"
  "to_upper (replace_char CHR ''-'' CHR ''_'' ''buffers'') = ''BUFFERS''" "to_upper (replace_char CHR ''-'' CHR ''_'' ''cache'') = ''CACHE''"
  "to_upper (replace_char CHR ''-'' CHR ''_'' ''channel-limit'') = ''CHANNEL_LIMIT''"
  "to_upper (replace_char CHR ''-'' CHR ''_'' ''chunk-timeout'') = ''CHUNK_TIMEOUT''"
  "to_upper (replace_char CHR ''-'' CHR ''_'' ''clean-files-interval'') = ''CLEAN_FILES_INTERVAL''"
  "to_upper (replace_char CHR ''-'' CHR ''_'' ''clean-pending'') = ''CLEAN_PENDING''"
  "to_upper (replace_char CHR ''-'' CHR ''_'' ''clean-uploads'') = ''CLEAN_UPLOADS''"
  "to_upper (replace_char CHR ''-'' CHR ''_'' ''clean-uploads-interval'') = ''CLEAN_UPLOADS_INTERVAL''"
  "to_upper (replace_char CHR ''-'' CHR ''_'' ''concurrency'') = ''CONCURRENCY''"
  "to_upper (replace_char CHR ''-'' CHR ''_'' ''concurrent'') = ''CONCURRENT''"
  "to_upper (replace_char CHR ''-'' CHR ''_'' ''conn-max-idle-time'') = ''CONN_MAX_IDLE_TIME''"
  "to_upper (replace_char CHR ''-'' CHR ''_'' ''conn-max-lifetime'') = ''CONN_MAX_LIFETIME''"
  "to_upper (replace_char CHR ''-'' CHR ''_'' ''cron-jobs'') = ''CRON_JOBS''"
  "to_upper (replace_char CHR ''-'' CHR ''_'' ''data-source'') = ''DATA_SOURCE''" "to_upper (replace_char CHR ''-'' CHR ''_'' ''db'') = ''DB''"
  "to_upper (replace_char CHR ''-'' CHR ''_'' ''db-buffer-size'') = ''DB_BUFFER_SIZE''"
  "to_upper (replace_char CHR ''-'' CHR ''_'' ''db-workers'') = ''DB_WORKERS''"
  "to_upper (replace_char CHR ''-'' CHR ''_'' ''deduplication-ttl'') = ''DEDUPLICATION_TTL''"
  "to_upper (replace_char CHR ''-'' CHR ''_'' ''device-model'') = ''DEVICE_MODEL''"
  "to_upper (replace_char CHR ''-'' CHR ''_'' ''dry-run'') = ''DRY_RUN''" "to_upper (replace_char CHR ''-'' CHR ''_'' ''enable'') = ''ENABLE''"
  "to_upper (replace_char CHR ''-'' CHR ''_'' ''enable-logging'') = ''ENABLE_LOGGING''"
  "to_upper (replace_char CHR ''-'' CHR ''_'' ''enable-pprof'') = ''ENABLE_PPROF''"
  "to_upper (replace_char CHR ''-'' CHR ''_'' ''enabled'') = ''ENABLED''"
  "to_upper (replace_char CHR ''-'' CHR ''_'' ''encryption-key'') = ''ENCRYPTION_KEY''"
  "to_upper (replace_char CHR ''-'' CHR ''_'' ''events'') = ''EVENTS''"
  "to_upper (replace_char CHR ''-'' CHR ''_'' ''export-file'') = ''EXPORT_FILE''" "to_upper (replace_char CHR ''-'' CHR ''_'' ''file'') = ''FILE''"
  "to_upper (replace_char CHR ''-'' CHR ''_'' ''folder-size-interval'') = ''FOLDER_SIZE_INTERVAL''"
  "to_upper (replace_char CHR ''-'' CHR ''_'' ''graceful-shutdown'') = ''GRACEFUL_SHUTDOWN''"
  "to_upper (replace_char CHR ''-'' CHR ''_'' ''http'') = ''HTTP''"
  "to_upper (replace_char CHR ''-'' CHR ''_'' ''ignore-record-not-found'') = ''IGNORE_RECORD_NOT_FOUND''"
  "to_upper (replace_char CHR ''-'' CHR ''_'' ''jwt'') = ''JWT''" "to_upper (replace_char CHR ''-'' CHR ''_'' ''key'') = ''KEY''"
  "to_upper (replace_char CHR ''-'' CHR ''_'' ''lang-code'') = ''LANG_CODE''"
  "to_upper (replace_char CHR ''-'' CHR ''_'' ''lang-pack'') = ''LANG_PACK''" "to_upper (replace_char CHR ''-'' CHR ''_'' ''level'') = ''LEVEL''"
  "to_upper (replace_char CHR ''-'' CHR ''_'' ''locker-instance'') = ''LOCKER_INSTANCE''"
  "to_upper (replace_char CHR ''-'' CHR ''_'' ''log'') = ''LOG''" "to_upper (replace_char CHR ''-'' CHR ''_'' ''log-queries'') = ''LOG_QUERIES''"
  "to_upper (replace_char CHR ''-'' CHR ''_'' ''log-request-body-size'') = ''LOG_REQUEST_BODY_SIZE''"
  "to_upper (replace_char CHR ''-'' CHR ''_'' ''log-response-size'') = ''LOG_RESPONSE_SIZE''"
  "to_upper (replace_char CHR ''-'' CHR ''_'' ''log-sql'') = ''LOG_SQL''"
  "to_upper (replace_char CHR ''-'' CHR ''_'' ''log-user-agent'') = ''LOG_USER_AGENT''"
  "to_upper (replace_char CHR ''-'' CHR ''_'' ''max-idle-connections'') = ''MAX_IDLE_CONNECTIONS''"
  "to_upper (replace_char CHR ''-'' CHR ''_'' ''max-idle-conns'') = ''MAX_IDLE_CONNS''"
  "to_upper (replace_char CHR ''-'' CHR ''_'' ''max-lifetime'') = ''MAX_LIFETIME''"
  "to_upper (replace_char CHR ''-'' CHR ''_'' ''max-open-connections'') = ''MAX_OPEN_CONNECTIONS''"
  "to_upper (replace_char CHR ''-'' CHR ''_'' ''max-query-length'') = ''MAX_QUERY_LENGTH''"
  "to_upper (replace_char CHR ''-'' CHR ''_'' ''max-retries'') = ''MAX_RETRIES''"
  "to_upper (replace_char CHR ''-'' CHR ''_'' ''max-size'') = ''MAX_SIZE''"
  "to_upper (replace_char CHR ''-'' CHR ''_'' ''min-idle-conns'') = ''MIN_IDLE_CONNS''"
  "to_upper (replace_char CHR ''-'' CHR ''_'' ''no-grow-sync'') = ''NO_GROW_SYNC''" "to_upper (replace_char CHR ''-'' CHR ''_'' ''ntp'') = ''NTP''"
  "to_upper (replace_char CHR ''-'' CHR ''_'' ''password'') = ''PASSWORD''" "to_upper (replace_char CHR ''-'' CHR ''_'' ''path'') = ''PATH''"
  "to_upper (replace_char CHR ''-'' CHR ''_'' ''poll-interval'') = ''POLL_INTERVAL''"
  "to_upper (replace_char CHR ''-'' CHR ''_'' ''pool'') = ''POOL''"
  "to_upper (replace_char CHR ''-'' CHR ''_'' ''pool-idle-timeout'') = ''POOL_IDLE_TIMEOUT''"
  "to_upper (replace_char CHR ''-'' CHR ''_'' ''pool-routing-strategy'') = ''POOL_ROUTING_STRATEGY''"
  "to_upper (replace_char CHR ''-'' CHR ''_'' ''pool-size'') = ''POOL_SIZE''" "to_upper (replace_char CHR ''-'' CHR ''_'' ''port'') = ''PORT''"
  "to_upper (replace_char CHR ''-'' CHR ''_'' ''prepare-stmt'') = ''PREPARE_STMT''"
  "to_upper (replace_char CHR ''-'' CHR ''_'' ''proxy'') = ''PROXY''" "to_upper (replace_char CHR ''-'' CHR ''_'' ''rate'') = ''RATE''"
  "to_upper (replace_char CHR ''-'' CHR ''_'' ''rate-burst'') = ''RATE_BURST''"
  "to_upper (replace_char CHR ''-'' CHR ''_'' ''rate-limit'') = ''RATE_LIMIT''"
  "to_upper (replace_char CHR ''-'' CHR ''_'' ''read-timeout'') = ''READ_TIMEOUT''"
  "to_upper (replace_char CHR ''-'' CHR ''_'' ''reconnect-timeout'') = ''RECONNECT_TIMEOUT''"
  "to_upper (replace_char CHR ''-'' CHR ''_'' ''redis'') = ''REDIS''" "to_upper (replace_char CHR ''-'' CHR ''_'' ''retention'') = ''RETENTION''"
  "to_upper (replace_char CHR ''-'' CHR ''_'' ''sanitize-queries'') = ''SANITIZE_QUERIES''"
  "to_upper (replace_char CHR ''-'' CHR ''_'' ''secret'') = ''SECRET''" "to_upper (replace_char CHR ''-'' CHR ''_'' ''server'') = ''SERVER''"
  "to_upper (replace_char CHR ''-'' CHR ''_'' ''session'') = ''SESSION''"
  "to_upper (replace_char CHR ''-'' CHR ''_'' ''session-instance'') = ''SESSION_INSTANCE''"
  "to_upper (replace_char CHR ''-'' CHR ''_'' ''session-time'') = ''SESSION_TIME''"
  "to_upper (replace_char CHR ''-'' CHR ''_'' ''skip-paths'') = ''SKIP_PATHS''"
  "to_upper (replace_char CHR ''-'' CHR ''_'' ''slow-threshold'') = ''SLOW_THRESHOLD''"
  "to_upper (replace_char CHR ''-'' CHR ''_'' ''stream'') = ''STREAM''"
  "to_upper (replace_char CHR ''-'' CHR ''_'' ''system-lang-code'') = ''SYSTEM_LANG_CODE''"
  "to_upper (replace_char CHR ''-'' CHR ''_'' ''system-version'') = ''SYSTEM_VERSION''" "to_upper (replace_char CHR ''-'' CHR ''_'' ''tg'') = ''TG''"
  "to_upper (replace_char CHR ''-'' CHR ''_'' ''threads'') = ''THREADS''"
  "to_upper (replace_char CHR ''-'' CHR ''_'' ''time-format'') = ''TIME_FORMAT''"
  "to_upper (replace_char CHR ''-'' CHR ''_'' ''timeout'') = ''TIMEOUT''" "to_upper (replace_char CHR ''-'' CHR ''_'' ''type'') = ''TYPE''"
  "to_upper (replace_char CHR ''-'' CHR ''_'' ''uploads'') = ''UPLOADS''" "to_upper (replace_char CHR ''-'' CHR ''_'' ''user'') = ''USER''"
  "to_upper (replace_char CHR ''-'' CHR ''_'' ''write-timeout'') = ''WRITE_TIMEOUT''"
  by (simp_all add: string_eval)

lemmas config_types = ServerCmdConfig_def CheckCmdConfig_def ServerConfig_def CacheConfig_def RedisConfig_def HTTPLoggingConfig_def DBLoggingConfig_def
  TGLoggingConfig_def LoggingConfig_def JWTConfig_def DBPool_def DBConfig_def CronJobConfig_def TGStream_def TGUpload_def TGConfig_def
  BoltSessionConfig_def SessionStorageConfig_def EventConfig_def

lemmas config_eval = config_types kebab_names upper_names getKey_def join_key_def Let_def


subsection \<open>Flags and variables of a type\<close>

lemma env_pairs_keys: "map snd (env_pairs fs prefix envPrefix) = leaf_keys fs prefix"
  by (induction fs prefix envPrefix rule: env_pairs.induct) (auto simp: Let_def split: cfg_type.splits)

lemma fold_update_new:
  "distinct (map fst (acc @ xs)) \<Longrightarrow> fold (\<lambda>(e, k) m. AList.update e k m) xs acc = acc @ xs"
proof (induction xs arbitrary: acc)
  case (Cons x xs)
  have "AList.update e k al = al @ [(e, k)]" if "e \<notin> fst ` set al" for e k and al :: "('a \<times> 'b) list" using that by (induction al) auto
  with Cons show ?case by (cases x) auto
qed simp

lemma generateEnvMap_eq: "distinct (map fst (env_pairs fs [] [])) \<Longrightarrow> generateEnvMap fs = env_pairs fs [] []"
  using fold_update_new [of "[]" "env_pairs fs [] []"] by (simp add: generateEnvMap_def)

fun flag_names :: "cfg_field list \<Rightarrow> string \<Rightarrow> string list" where
  "flag_names [] prefix = []"
| "flag_names (Field n t sk d rq ty # fs) prefix =
     (let key = join_key prefix (getKey (Field n t sk d rq ty)) in
      (if sk then [] else case ty of Struct sub \<Rightarrow> flag_names sub key | Leaf k \<Rightarrow> [replace_char CHR ''.'' CHR ''-'' key]) @ flag_names fs prefix)"

text \<open>Registration panics exactly when a name comes twice.\<close>

lemma registerStruct_names:
  "distinct (map fl_Name flags @ flag_names fs prefix) \<Longrightarrow>
   \<exists>flags'. registerStruct duration fs prefix flags = Some flags' \<and> map fl_Name flags' = map fl_Name flags @ flag_names fs prefix"
proof (induction duration fs prefix flags rule: registerStruct.induct)
  case (2 duration n t sk d rq ty fs prefix flags)
  let ?key = "join_key prefix (getKey (Field n t sk d rq ty))"
  show ?case
  proof (cases sk)
    case True
    with 2(1) [OF refl True] 2(5) show ?thesis by (simp add: Let_def)
  next
    case sk: False
    show ?thesis
    proof (cases ty)
      case (Struct sub)
      have names: "flag_names (Field n t sk d rq ty # fs) prefix = flag_names sub ?key @ flag_names fs prefix" using sk Struct by (simp add: Let_def)
      from 2(5) have "distinct (map fl_Name flags @ flag_names sub ?key)" unfolding names by auto
      from 2(3) [OF refl sk Struct this] obtain flags1 where f1: "registerStruct duration sub ?key flags = Some flags1"
        "map fl_Name flags1 = map fl_Name flags @ flag_names sub ?key" by blast
      have "distinct (map fl_Name flags1 @ flag_names fs prefix)" using 2(5) unfolding names f1(2) by simp
      from 2(4) [OF refl sk Struct f1(1) this] show ?thesis using sk Struct f1 names by (simp add: Let_def)
    next
      case (Leaf k)
      let ?name = "replace_char CHR ''.'' CHR ''-'' ?key"
      let ?f = "\<lparr>fl_Name = ?name, fl_Key = Some ?key, fl_Value = flag_default duration k d, fl_Changed = False\<rparr>"
      have names: "flag_names (Field n t sk d rq ty # fs) prefix = ?name # flag_names fs prefix" using sk Leaf by (simp add: Let_def)
      have new: "?name \<notin> set (map fl_Name flags)" using 2(5) unfolding names by auto
      have "distinct (map fl_Name (flags @ [?f]) @ flag_names fs prefix)" using 2(5) unfolding names by auto
      from 2(2) [OF refl sk Leaf refl new this] show ?thesis using sk Leaf new names by (simp add: Let_def)
    qed
  qed
qed simp


definition config_ok :: "(string \<Rightarrow> string) \<Rightarrow> cfg_field list \<Rightarrow> bool" where
  "config_ok duration C \<longleftrightarrow>
     (\<exists>flags. RegisterFlags duration C = Some flags \<and> distinct (map fl_Name flags)) \<and>
     distinct (leaf_keys C []) \<and> map snd (generateEnvMap C) = leaf_keys C [] \<and> distinct (map fst (generateEnvMap C))"

lemma config_okI:
  assumes "distinct (''config'' # flag_names C [])" "distinct (map fst (env_pairs C [] []))" "distinct (leaf_keys C [])"
  shows "config_ok duration C"
  using registerStruct_names [of "[\<lparr>fl_Name = ''config'', fl_Key = None, fl_Value = CfgText [], fl_Changed = False\<rparr>]" C "[]" duration] assms
  by (auto simp: config_ok_def RegisterFlags_def generateEnvMap_eq env_pairs_keys)

lemma replace_dots [simp]:
  "replace_char CHR ''.'' CHR ''-'' [] = []"
  "replace_char CHR ''.'' CHR ''-'' (c # s) = (if c = CHR ''.'' then CHR ''-'' else c) # replace_char CHR ''.'' CHR ''-'' s"
  by (simp_all add: replace_char_def)

lemma server_flags: "distinct (''config'' # flag_names ServerCmdConfig [])"
  by (simp add: config_eval)

lemma server_env: "distinct (map fst (env_pairs ServerCmdConfig [] []))"
  by (simp add: config_eval)

lemma server_keys: "distinct (leaf_keys ServerCmdConfig [])"
  by (simp add: config_eval)

lemma check_flags: "distinct (''config'' # flag_names CheckCmdConfig [])"
  by (simp add: config_eval)

lemma check_env: "distinct (map fst (env_pairs CheckCmdConfig [] []))"
  by (simp add: config_eval)

lemma check_keys: "distinct (leaf_keys CheckCmdConfig [])"
  by (simp add: config_eval)

subsection \<open>Layers\<close>

definition flag_key :: "flag \<Rightarrow> string" where
  "flag_key f = (case fl_Key f of Some key \<Rightarrow> key | None \<Rightarrow> replace_char CHR ''-'' CHR ''.'' (fl_Name f))"

lemma map_of_rev_distinct: "distinct (map fst xs) \<Longrightarrow> map_of (rev xs) = map_of xs"
  by (simp add: map_of_inject_set rev_map [symmetric])

lemma flags_Read_lookup:
  assumes "distinct (map flag_key flags)"
  shows "map_of (rev (flags_Read defaults onlyChanged flags)) key =
    map_option fl_Value (find (\<lambda>f. flag_key f = key \<and> \<not> (defaults \<and> fl_Changed f) \<and> \<not> (onlyChanged \<and> \<not> fl_Changed f)) flags)"
proof -
  have fst: "map fst (flags_Read defaults onlyChanged flags) =
      map flag_key (filter (\<lambda>f. \<not> (defaults \<and> fl_Changed f) \<and> \<not> (onlyChanged \<and> \<not> fl_Changed f)) flags)"
    by (simp add: flags_Read_def flag_key_def)
  have "map_of (rev (flags_Read defaults onlyChanged flags)) = map_of (flags_Read defaults onlyChanged flags)"
    by (rule map_of_rev_distinct) (simp only: fst distinct_map_filter [OF assms])
  moreover have "map_of (flags_Read defaults onlyChanged flags) key =
      map_option fl_Value (find (\<lambda>f. flag_key f = key \<and> \<not> (defaults \<and> fl_Changed f) \<and> \<not> (onlyChanged \<and> \<not> fl_Changed f)) flags)"
    by (induction flags) (auto simp: flags_Read_def flag_key_def)
  ultimately show ?thesis by simp
qed

lemma env_layer_lookup:
  assumes names: "distinct (map fst (env_pairs fs [] []))" "distinct (leaf_keys fs [])"
    and environ: "distinct (map fst (le_environ env))"
      "\<And>s v. (s, v) \<in> set (le_environ env) \<Longrightarrow> has_prefix s ''TELDRIVE_'' \<Longrightarrow> trim_prefix s ''TELDRIVE_'' \<in> fst ` set (env_pairs fs [] [])"
    and key: "(name, key) \<in> set (env_pairs fs [] [])"
  shows "map_of (rev (env_layer env fs)) key = map_option CfgText (map_of (le_environ env) (''TELDRIVE_'' @ name))"
proof -
  let ?E = "filter (\<lambda>(s, v). has_prefix s ''TELDRIVE_'') (le_environ env)" and ?K = "env_key (generateEnvMap fs)"
  have keys: "distinct (map snd (env_pairs fs [] []))" using names(2) by (simp add: env_pairs_keys)
  have uniq: "n = n'" if "(n, k) \<in> set (env_pairs fs [] [])" "(n', k) \<in> set (env_pairs fs [] [])" for n n' k
    using inj_onD [of snd "set (env_pairs fs [] [])" "(n, k)" "(n', k)"] keys that by (simp add: distinct_map)
  have known: "\<exists>n k. s = ''TELDRIVE_'' @ n \<and> (n, k) \<in> set (env_pairs fs [] []) \<and> ?K s = k" if E: "(s, v) \<in> set ?E" for s v
  proof -
    from E have s: "(s, v) \<in> set (le_environ env)" "has_prefix s ''TELDRIVE_''" by auto
    obtain n k where nk: "trim_prefix s ''TELDRIVE_'' = n" "(n, k) \<in> set (env_pairs fs [] [])" using environ(2) [OF s] by auto
    have "s = ''TELDRIVE_'' @ n"
      using s(2) nk(1) append_take_drop_id [of "length ''TELDRIVE_''" s] unfolding has_prefix_def trim_prefix_def by (simp only: refl if_True)
    moreover have "map_of (env_pairs fs [] []) n = Some k" using nk(2) names(1) by (simp add: map_of_eq_Some_iff)
    ultimately show ?thesis using nk generateEnvMap_eq [OF names(1)] by (simp add: env_key_def Let_def)
  qed
  have one: "s = s'" if p: "(s, v) \<in> set ?E" "(s', v') \<in> set ?E" "?K s = ?K s'" for s v s' v'
  proof -
    obtain n k n' where nk: "s = ''TELDRIVE_'' @ n" "(n, k) \<in> set (env_pairs fs [] [])" "s' = ''TELDRIVE_'' @ n'" "(n', k) \<in> set (env_pairs fs [] [])"
      using known [OF p(1)] known [OF p(2)] p(3) by auto
    with uniq show ?thesis by blast
  qed
  have fst: "map fst (env_layer env fs) = map (\<lambda>(s, v). ?K s) ?E" by (simp add: env_layer_def comp_def case_prod_unfold)
  have dE: "distinct ?E" using environ(1) by (simp add: distinct_map)
  have "inj_on (\<lambda>(s, v). ?K s) (set ?E)"
  proof (rule inj_onI)
    fix x y assume "x \<in> set ?E" "y \<in> set ?E" "(\<lambda>(s, v). ?K s) x = (\<lambda>(s, v). ?K s) y"
    then have "fst x = fst y" "x \<in> set (le_environ env)" "y \<in> set (le_environ env)" using one [of "fst x" "snd x" "fst y" "snd y"] by (auto simp: case_prod_unfold)
    then show "x = y" using environ(1) by (auto simp: distinct_map dest: inj_onD)
  qed
  then have d: "distinct (map fst (env_layer env fs))" using dE fst by (simp add: distinct_map)
  have mem: "(key, CfgText v) \<in> set (env_layer env fs) \<longleftrightarrow> (''TELDRIVE_'' @ name, v) \<in> set (le_environ env)" for v
  proof
    assume "(key, CfgText v) \<in> set (env_layer env fs)"
    then obtain s where s: "(s, v) \<in> set ?E" "?K s = key" by (auto simp: env_layer_def)
    from known [OF s(1)] s(2) obtain n where n: "s = ''TELDRIVE_'' @ n" "(n, key) \<in> set (env_pairs fs [] [])" by blast
    then have "n = name" using uniq key by blast
    with n s(1) show "(''TELDRIVE_'' @ name, v) \<in> set (le_environ env)" by simp
  next
    assume v: "(''TELDRIVE_'' @ name, v) \<in> set (le_environ env)"
    then have E: "(''TELDRIVE_'' @ name, v) \<in> set ?E" by (simp add: has_prefix_def)
    from known [OF E] obtain k where k: "(name, k) \<in> set (env_pairs fs [] [])" "?K (''TELDRIVE_'' @ name) = k" by auto
    then have "k = key" using key names(1) by (metis map_of_eq_Some_iff option.inject)
    with E k(2) show "(key, CfgText v) \<in> set (env_layer env fs)" unfolding env_layer_def by force
  qed
  have txts: "\<exists>v. x = CfgText v" if "(k, x) \<in> set (env_layer env fs)" for k x using that by (auto simp: env_layer_def)
  show ?thesis
  proof (cases "map_of (le_environ env) (''TELDRIVE_'' @ name)")
    case None
    then have none: "(''TELDRIVE_'' @ name, v) \<notin> set (le_environ env)" for v by (force simp only: map_of_eq_None_iff image_iff fst_conv)
    have "key \<notin> fst ` set (env_layer env fs)"
    proof
      assume "key \<in> fst ` set (env_layer env fs)"
      then obtain x where x: "(key, x) \<in> set (env_layer env fs)" by auto
      with txts obtain v where "x = CfgText v" by blast
      with x mem none show False by blast
    qed
    then have "map_of (env_layer env fs) key = None" by (simp add: map_of_eq_None_iff)
    then show ?thesis unfolding map_of_rev_distinct [OF d] None by simp
  next
    case (Some v)
    from map_of_SomeD [OF Some] have "(key, CfgText v) \<in> set (env_layer env fs)" using mem by blast
    from map_of_is_SomeI [OF d this] show ?thesis unfolding map_of_rev_distinct [OF d] Some by simp
  qed
qed

subsection \<open>Properties\<close>



definition demo_load :: load_env where
  "demo_load = \<lparr>le_home = Inr ''/home'', le_join = concat, le_exists = (\<lambda>p. p = ''config.toml''),
     le_read = (\<lambda>p f. Inr [(''user'', CfgText ''ann''), (''concurrent'', CfgInt 8)]), le_environ = [(''TELDRIVE_USER'', ''joe''), (''PATH'', ''/'')]\<rparr>"

definition demo_flags :: "flag list" where
  "demo_flags = [\<lparr>fl_Name = ''user'', fl_Key = Some ''user'', fl_Value = CfgText [], fl_Changed = False\<rparr>,
     \<lparr>fl_Name = ''concurrent'', fl_Key = Some ''concurrent'', fl_Value = CfgText ''4'', fl_Changed = False\<rparr>]"


end
