(* ===== verification/Startup.thy ===== *)
theory Startup
  imports Transition
begin

section \<open>Start and shutdown of the server (cmd/run.go)\<close>

text \<open>
  The main thread looks for a free port, starts the connection to Redis in the background, opens and migrates the database, waits
  for the caches, starts the events and waits for them, starts the server and the cron jobs, and then waits for a signal or a
  failure. The goroutines report by channels: one is closed when the cache is ready, \<open>initErrCh\<close> takes errors. One step is one move of a thread;
  the answers of the outside, \<open>run_env\<close>, are arguments. A goroutine is idle before it starts. Exit is the end of the process.
\<close>

definition findAvailablePort :: "(int \<Rightarrow> bool) \<Rightarrow> int \<Rightarrow> go_error + int" where
  "findAvailablePort free startPort =
     (case find free (map (\<lambda>i. startPort + int i) [0..<100]) of
        Some port \<Rightarrow> Inr port
      | None \<Rightarrow> Inl (ErrText (''no available ports found between '' @ itoa startPort @ '' and '' @ itoa (startPort + 100))))"

datatype main_pc = AtPort | AtDatabase | AtMigrate | AtCache | AtEvents | AtServe | AtWait
  | AtCancel | AtStopEvents | AtStopServer | AtStopRedis | AtStopPool | Stopped | Exited

datatype goroutine = Idle | Running | Ready | Failed

record run_env =
  rn_port :: int
  rn_free :: "int \<Rightarrow> bool"
  rn_redis :: "go_error + bool"
  rn_dbErr :: "go_error option"
  rn_migrateErr :: "go_error option"
  rn_cron :: bool
  rn_cronErr :: "go_error option"

record run_state =
  ru_pc :: main_pc
  ru_port :: int
  ru_signal :: bool
  ru_bgDone :: bool
  ru_redis :: goroutine
  ru_redisClient :: bool
  ru_events :: goroutine
  ru_server :: goroutine
  ru_cron :: goroutine
  ru_initErr :: "go_error list"
  ru_serverErr :: "go_error list"
  ru_closed :: "string list"

definition run_start :: "run_env \<Rightarrow> run_state" where
  "run_start env = \<lparr>ru_pc = AtPort, ru_port = rn_port env, ru_signal = False, ru_bgDone = False, ru_redis = Idle, ru_redisClient = False,
     ru_events = Idle, ru_server = Idle, ru_cron = Idle, ru_initErr = [], ru_serverErr = [], ru_closed = []\<rparr>"

text \<open>One move of the main thread; in a wait, \<open>b\<close> says whether the signal is taken when other channels are ready too. \<open>None\<close> is a wait.\<close>

definition main_turn :: "run_env \<Rightarrow> bool \<Rightarrow> run_state \<Rightarrow> run_state option" where
  "main_turn env b s =
     (case ru_pc s of
        AtPort \<Rightarrow>
          (case findAvailablePort (rn_free env) (ru_port s) of
             Inl e \<Rightarrow> Some (s\<lparr>ru_pc := Exited\<rparr>)
           | Inr port \<Rightarrow> Some (s\<lparr>ru_pc := AtDatabase, ru_port := port, ru_redis := Running\<rparr>))
      | AtDatabase \<Rightarrow> Some (s\<lparr>ru_pc := (if rn_dbErr env \<noteq> None then Exited else AtMigrate)\<rparr>)
      | AtMigrate \<Rightarrow> Some (s\<lparr>ru_pc := (if rn_migrateErr env \<noteq> None then Exited else AtCache)\<rparr>)
      | AtCache \<Rightarrow>
          if ru_signal s \<and> b then Some (s\<lparr>ru_pc := Exited\<rparr>)
          else if ru_redis s = Ready then Some (s\<lparr>ru_pc := AtEvents, ru_events := Running\<rparr>)
          else None
      | AtEvents \<Rightarrow>
          if ru_signal s \<and> b then Some (s\<lparr>ru_pc := Exited\<rparr>)
          else if ru_events s = Ready then Some (s\<lparr>ru_pc := AtServe\<rparr>)
          else None
      | AtServe \<Rightarrow> Some (s\<lparr>ru_pc := AtWait, ru_server := Running, ru_cron := (if rn_cron env then Running else Idle)\<rparr>)
      | AtWait \<Rightarrow>
          if ru_signal s \<and> b then Some (s\<lparr>ru_pc := AtCancel\<rparr>)
          else if ru_initErr s \<noteq> [] \<or> ru_serverErr s \<noteq> [] then Some (s\<lparr>ru_pc := Exited\<rparr>)
          else None
      | AtCancel \<Rightarrow> Some (s\<lparr>ru_pc := AtStopEvents, ru_bgDone := True\<rparr>)
      | AtStopEvents \<Rightarrow> Some (s\<lparr>ru_pc := AtStopServer, ru_closed := ru_closed s @ [''events'']\<rparr>)
      | AtStopServer \<Rightarrow> Some (s\<lparr>ru_pc := AtStopRedis, ru_closed := ru_closed s @ [''server'']\<rparr>)
      | AtStopRedis \<Rightarrow> Some (s\<lparr>ru_pc := AtStopPool, ru_closed := ru_closed s @ (if ru_redisClient s then [''redis''] else [])\<rparr>)
      | AtStopPool \<Rightarrow> Some (s\<lparr>ru_pc := Stopped, ru_closed := ru_closed s @ [''clientPool'']\<rparr>)
      | Stopped \<Rightarrow> None
      | Exited \<Rightarrow> None)"

text \<open>The goroutines; they end with the process.\<close>

definition redis_done :: "run_env \<Rightarrow> run_state \<Rightarrow> run_state" where
  "redis_done env s =
     (case rn_redis env of
        Inl e \<Rightarrow> s\<lparr>ru_redis := Failed, ru_initErr := ru_initErr s @ [ErrWrap ''redis connection failed'' e]\<rparr>
      | Inr client \<Rightarrow> s\<lparr>ru_redis := Ready, ru_redisClient := client\<rparr>)"

definition cron_done :: "run_env \<Rightarrow> run_state \<Rightarrow> run_state" where
  "cron_done env s =
     (case rn_cronErr env of
        Some e \<Rightarrow> s\<lparr>ru_cron := Failed, ru_initErr := ru_initErr s @ [ErrWrap ''cron scheduler failed'' e]\<rparr>
      | None \<Rightarrow> s\<lparr>ru_cron := Ready\<rparr>)"

inductive run_step :: "run_env \<Rightarrow> run_state \<Rightarrow> run_state \<Rightarrow> bool" for env where
  main: "main_turn env b s = Some s' \<Longrightarrow> run_step env s s'"
| signal: "run_step env s (s\<lparr>ru_signal := True\<rparr>)"
| redis: "ru_redis s = Running \<Longrightarrow> ru_pc s \<notin> {Stopped, Exited} \<Longrightarrow> run_step env s (redis_done env s)"
| events: "ru_events s = Running \<Longrightarrow> ru_pc s \<notin> {Stopped, Exited} \<Longrightarrow> run_step env s (s\<lparr>ru_events := Ready\<rparr>)"
| cron: "ru_cron s = Running \<Longrightarrow> ru_pc s \<notin> {Stopped, Exited} \<Longrightarrow> run_step env s (cron_done env s)"
| crash: "ru_server s = Running \<Longrightarrow> ru_pc s \<notin> {Stopped, Exited} \<Longrightarrow>
    run_step env s (s\<lparr>ru_server := Failed, ru_serverErr := ru_serverErr s @ [e]\<rparr>)"

subsection \<open>The order of the start and of the shutdown\<close>

text \<open>The places of the main thread in their order, and what has been closed at each.\<close>

fun stage :: "main_pc \<Rightarrow> nat" where
  "stage AtPort = 0"
| "stage AtDatabase = 1"
| "stage AtMigrate = 2"
| "stage AtCache = 3"
| "stage AtEvents = 4"
| "stage AtServe = 5"
| "stage AtWait = 6"
| "stage AtCancel = 7"
| "stage AtStopEvents = 8"
| "stage AtStopServer = 9"
| "stage AtStopRedis = 10"
| "stage AtStopPool = 11"
| "stage Stopped = 12"
| "stage Exited = 13"

definition closed_at :: "nat \<Rightarrow> bool \<Rightarrow> string list" where
  "closed_at n client = (if 8 < n then [''events''] else []) @ (if 9 < n then [''server''] else []) @
     (if 10 < n \<and> client then [''redis''] else []) @ (if 11 < n then [''clientPool''] else [])"

text \<open>What holds at a stage.\<close>

definition run_ok :: "run_env \<Rightarrow> run_state \<Rightarrow> bool" where
  "run_ok env s \<longleftrightarrow>
     (0 < stage (ru_pc s) \<longrightarrow> rn_free env (ru_port s)) \<and>
     (1 < stage (ru_pc s) \<longrightarrow> rn_dbErr env = None) \<and> (2 < stage (ru_pc s) \<longrightarrow> rn_migrateErr env = None) \<and>
     (3 < stage (ru_pc s) \<longrightarrow> ru_redis s = Ready) \<and> (4 < stage (ru_pc s) \<longrightarrow> ru_events s = Ready) \<and>
     (ru_server s \<noteq> Idle \<longrightarrow> 5 < stage (ru_pc s)) \<and> (6 < stage (ru_pc s) \<longrightarrow> ru_signal s) \<and> (7 < stage (ru_pc s) \<longrightarrow> ru_bgDone s) \<and>
     ru_closed s = closed_at (stage (ru_pc s)) (ru_redisClient s)"

definition redis_answered :: "run_env \<Rightarrow> run_state \<Rightarrow> bool" where
  "redis_answered env s \<longleftrightarrow> (ru_redis s = Ready \<longrightarrow> rn_redis env = Inr (ru_redisClient s)) \<and> (ru_redis s = Failed \<longrightarrow> (\<exists>e. rn_redis env = Inl e))"

definition run_inv :: "run_env \<Rightarrow> run_state \<Rightarrow> bool" where
  "run_inv env s \<longleftrightarrow> redis_answered env s \<and> (ru_pc s = Exited \<or> run_ok env s) \<and> (ru_server s \<noteq> Idle \<longrightarrow> ru_redis s = Ready)"

lemma findAvailablePort_free: "findAvailablePort free start = Inr port \<Longrightarrow> free port \<and> start \<le> port \<and> port < start + 100"
  by (auto simp: findAvailablePort_def find_Some_iff split: option.splits)

lemma main_turn_ok:
  assumes "run_ok env s" "main_turn env b s = Some s'"
  shows "ru_pc s' = Exited \<or> run_ok env s'"
proof (cases "ru_pc s")
  case AtPort
  then show ?thesis using assms findAvailablePort_free [of "rn_free env" "ru_port s"]
    by (auto simp: main_turn_def run_ok_def closed_at_def split: sum.split_asm)
qed (use assms in \<open>unfold main_turn_def, simp split: if_split_asm; hypsubst?; simp add: run_ok_def closed_at_def\<close>)+

lemma main_turn_redis: "main_turn env b s = Some s' \<Longrightarrow> redis_answered env s \<Longrightarrow> redis_answered env s'"
  by (cases "ru_pc s"; simp add: main_turn_def split: if_split_asm sum.split_asm; hypsubst?; simp add: redis_answered_def)

lemma main_turn_server:
  assumes "run_ok env s" "main_turn env b s = Some s'" "ru_server s \<noteq> Idle \<longrightarrow> ru_redis s = Ready"
  shows "ru_server s' \<noteq> Idle \<longrightarrow> ru_redis s' = Ready"
proof (cases "ru_pc s = AtServe")
  case True
  with assms(1) have "ru_redis s = Ready" by (simp add: run_ok_def)
  with True assms(2) show ?thesis by (auto simp: main_turn_def)
next
  case False
  with assms(2,3) show ?thesis
  proof (cases "ru_pc s = AtPort")
    case True
    with assms(1) have "ru_server s = Idle" by (simp add: run_ok_def)
    with True assms(2) show ?thesis by (auto simp: main_turn_def split: sum.split_asm)
  next
    case port: False
    from assms(2) False port have "ru_server s' = ru_server s" "ru_redis s' = ru_redis s"
      by (cases "ru_pc s"; simp add: main_turn_def split: if_split_asm; hypsubst?; simp)+
    with assms(3) show ?thesis by simp
  qed
qed

lemma goroutine_ok:
  assumes "run_ok env s" "redis_answered env s"
  shows "run_ok env (s\<lparr>ru_signal := True\<rparr>)" "ru_redis s = Running \<Longrightarrow> run_ok env (redis_done env s)" "run_ok env (cron_done env s)"
    "ru_events s = Running \<Longrightarrow> run_ok env (s\<lparr>ru_events := Ready\<rparr>)"
    "ru_server s = Running \<Longrightarrow> run_ok env (s\<lparr>ru_server := Failed, ru_serverErr := errs\<rparr>)"
  using assms by (auto simp: run_ok_def closed_at_def redis_done_def cron_done_def split: sum.split option.split)

lemma run_inv_step:
  assumes "run_step env s s'" "run_inv env s"
  shows "run_inv env s'"
  using assms
proof (cases rule: run_step.cases)
  case (main b)
  show ?thesis
  proof (cases "ru_pc s = Exited")
    case True
    with main show ?thesis by (simp add: main_turn_def)
  next
    case False
    with assms(2) main main_turn_ok [of env s b s'] main_turn_redis [of env b s s'] main_turn_server [of env s b s'] show ?thesis by (simp add: run_inv_def)
  qed
next
  case signal
  with assms(2) goroutine_ok(1) show ?thesis by (auto simp: run_inv_def redis_answered_def)
next
  case redis
  with assms(2) have "run_ok env s" "redis_answered env s" "ru_server s = Idle" by (auto simp: run_inv_def)
  with redis goroutine_ok(2) show ?thesis by (auto simp: run_inv_def redis_answered_def redis_done_def split: sum.split)
next
  case events
  with assms(2) have "run_ok env s" "redis_answered env s" "ru_server s \<noteq> Idle \<longrightarrow> ru_redis s = Ready" by (simp_all add: run_inv_def)
  with events goroutine_ok(4) show ?thesis by (auto simp: run_inv_def redis_answered_def)
next
  case cron
  with assms(2) have "run_ok env s" "redis_answered env s" "ru_server s \<noteq> Idle \<longrightarrow> ru_redis s = Ready" by (simp_all add: run_inv_def)
  with cron goroutine_ok(3) show ?thesis by (auto simp: run_inv_def redis_answered_def cron_done_def split: option.split)
next
  case (crash e)
  with assms(2) have "run_ok env s" "redis_answered env s" "ru_server s \<noteq> Idle \<longrightarrow> ru_redis s = Ready" by (simp_all add: run_inv_def)
  with crash goroutine_ok(5) show ?thesis by (auto simp: run_inv_def redis_answered_def)
qed

interpretation server: step_invariant "\<lambda>s. s = run_start env" "run_step env" "run_inv env" for env
proof (unfold_locales, goal_cases)
  case (1 s)
  then show ?case by (simp add: run_inv_def run_ok_def run_start_def closed_at_def redis_answered_def)
next
  case (2 s s')
  then show ?case using run_inv_step by blast
qed

subsection \<open>Properties\<close>


text \<open>C37: When Redis cannot be reached the start hangs. The error goes to a channel that is read only after the start, and the channel that the main thread
  waits for is never closed: the server is not started, the process does not end, and only a signal moves it from there.\<close>

theorem redis_failure_hangs:
  assumes "reachable (\<lambda>s. s = run_start env) (run_step env) s" "rn_redis env = Inl e"
  shows "ru_pc s \<in> {AtPort, AtDatabase, AtMigrate, AtCache, Exited} \<and> ru_server s = Idle \<and>
    (ru_pc s = AtCache \<and> \<not> ru_signal s \<longrightarrow> main_turn env b s = None)"
proof -
  have inv: "ru_pc s = Exited \<or> run_ok env s" "ru_redis s \<noteq> Ready" "ru_server s = Idle"
    using server.reachable_inv [OF assms(1)] assms(2) by (auto simp: run_inv_def redis_answered_def)
  have early: "\<not> 3 < stage (ru_pc s)" if "run_ok env s" using that inv(2) by (simp add: run_ok_def)
  show ?thesis
  proof (cases "ru_pc s = Exited")
    case False
    with inv(1) early have "\<not> 3 < stage (ru_pc s)" by simp
    then show ?thesis using inv(2,3) by (cases "ru_pc s") (simp_all add: main_turn_def)
  qed (simp add: inv(3))
qed

definition demo_run :: run_env where
  "demo_run = \<lparr>rn_port = 8080, rn_free = (\<lambda>p. p = 8081), rn_redis = Inl (ErrText ''refused''), rn_dbErr = None, rn_migrateErr = None,
     rn_cron = False, rn_cronErr = None\<rparr>"

text \<open>The main thread up to its wait, and the failure of Redis.\<close>

definition demo_hung :: run_state where
  "demo_hung = redis_done demo_run ((run_start demo_run)\<lparr>ru_pc := AtDatabase, ru_port := 8081, ru_redis := Running\<rparr>\<lparr>ru_pc := AtCache\<rparr>)"

lemma demo_hung_reachable: "reachable (\<lambda>s. s = run_start demo_run) (run_step demo_run) demo_hung"
proof -
  let ?s = "run_start demo_run" and ?s1 = "(run_start demo_run)\<lparr>ru_pc := AtDatabase, ru_port := 8081, ru_redis := Running\<rparr>"
  let ?s2 = "?s1\<lparr>ru_pc := AtMigrate\<rparr>" and ?s3 = "?s1\<lparr>ru_pc := AtCache\<rparr>"
  have "findAvailablePort (\<lambda>p. p = 8081) 8080 = Inr 8081" by (simp add: findAvailablePort_def upt_conv_Cons)
  then have "main_turn demo_run False ?s = Some ?s1" by (simp add: main_turn_def run_start_def demo_run_def)
  then have r1: "reachable (\<lambda>s. s = ?s) (run_step demo_run) ?s1" by (blast intro: reachable.intros run_step.main)
  have "main_turn demo_run False ?s1 = Some ?s2" by (simp add: main_turn_def demo_run_def)
  with r1 have r2: "reachable (\<lambda>s. s = ?s) (run_step demo_run) ?s2" by (blast intro: reachable.intros run_step.main)
  have "main_turn demo_run False ?s2 = Some ?s3" by (simp add: main_turn_def demo_run_def)
  with r2 have r3: "reachable (\<lambda>s. s = ?s) (run_step demo_run) ?s3" by (blast intro: reachable.intros run_step.main)
  have "run_step demo_run ?s3 (redis_done demo_run ?s3)" by (rule run_step.redis) simp_all
  with r3 have "reachable (\<lambda>s. s = ?s) (run_step demo_run) (redis_done demo_run ?s3)" by (rule reachable.move)
  then show ?thesis unfolding demo_hung_def .
qed

text \<open>A start that succeeds, and its shutdown after a signal.\<close>

definition demo_served :: run_env where
  "demo_served = demo_run\<lparr>rn_redis := Inr True\<rparr>"

definition demo_at :: "main_pc \<Rightarrow> goroutine \<Rightarrow> goroutine \<Rightarrow> goroutine \<Rightarrow> bool \<Rightarrow> bool \<Rightarrow> string list \<Rightarrow> run_state" where
  "demo_at pc redis events serv sig bg closed = \<lparr>ru_pc = pc, ru_port = 8081, ru_signal = sig, ru_bgDone = bg, ru_redis = redis,
     ru_redisClient = (redis = Ready), ru_events = events, ru_server = serv, ru_cron = Idle, ru_initErr = [], ru_serverErr = [], ru_closed = closed\<rparr>"

lemma demo_served_reachable:
  "reachable (\<lambda>s. s = run_start demo_served) (run_step demo_served)
     (demo_at Stopped Ready Ready Running True True [''events'', ''server'', ''redis'', ''clientPool''])"
proof -
  let ?R = "reachable (\<lambda>s. s = run_start demo_served) (run_step demo_served)"
  have main: "?R s'" if "?R s" "main_turn demo_served True s = Some s'" for s s' using that by (blast intro: reachable.move run_step.main)
  note defs = main_turn_def demo_served_def demo_run_def demo_at_def
  have "findAvailablePort (\<lambda>p. p = 8081) 8080 = Inr 8081" by (simp add: findAvailablePort_def upt_conv_Cons)
  then have "main_turn demo_served True (run_start demo_served) = Some (demo_at AtDatabase Running Idle Idle False False [])"
    by (simp add: defs run_start_def)
  then have "?R (demo_at AtDatabase Running Idle Idle False False [])" by (rule main [rotated]) (simp add: reachable.intros)
  then have "?R (demo_at AtMigrate Running Idle Idle False False [])" by (rule main) (simp add: defs)
  then have "?R (demo_at AtCache Running Idle Idle False False [])" by (rule main) (simp add: defs)
  moreover have "run_step demo_served (demo_at AtCache Running Idle Idle False False []) (demo_at AtCache Ready Idle Idle False False [])"
    using run_step.redis [of "demo_at AtCache Running Idle Idle False False []" demo_served] by (simp add: redis_done_def defs)
  ultimately have "?R (demo_at AtCache Ready Idle Idle False False [])" by (rule reachable.move)
  then have "?R (demo_at AtEvents Ready Running Idle False False [])" by (rule main) (simp add: defs)
  moreover have "run_step demo_served (demo_at AtEvents Ready Running Idle False False []) (demo_at AtEvents Ready Ready Idle False False [])"
    using run_step.events [of "demo_at AtEvents Ready Running Idle False False []" demo_served] by (simp add: defs)
  ultimately have "?R (demo_at AtEvents Ready Ready Idle False False [])" by (rule reachable.move)
  then have "?R (demo_at AtServe Ready Ready Idle False False [])" by (rule main) (simp add: defs)
  then have "?R (demo_at AtWait Ready Ready Running False False [])" by (rule main) (simp add: defs)
  moreover have "run_step demo_served (demo_at AtWait Ready Ready Running False False []) (demo_at AtWait Ready Ready Running True False [])"
    using run_step.signal [of demo_served "demo_at AtWait Ready Ready Running False False []"] by (simp add: defs)
  ultimately have "?R (demo_at AtWait Ready Ready Running True False [])" by (rule reachable.move)
  then have "?R (demo_at AtCancel Ready Ready Running True False [])" by (rule main) (simp add: defs)
  then have "?R (demo_at AtStopEvents Ready Ready Running True True [])" by (rule main) (simp add: defs)
  then have "?R (demo_at AtStopServer Ready Ready Running True True [''events''])" by (rule main) (simp add: defs)
  then have "?R (demo_at AtStopRedis Ready Ready Running True True [''events'', ''server''])" by (rule main) (simp add: defs)
  then have "?R (demo_at AtStopPool Ready Ready Running True True [''events'', ''server'', ''redis''])" by (rule main) (simp add: defs)
  then show ?thesis by (rule main) (simp add: defs)
qed


theorem redis_failure_hangs_witness:
  "main_turn demo_run True demo_hung = None \<and> ru_initErr demo_hung = [ErrWrap ''redis connection failed'' (ErrText ''refused'')] \<and> ru_server demo_hung = Idle"
proof -
  have "rn_redis demo_run = Inl (ErrText ''refused'')" "ru_pc demo_hung = AtCache" "\<not> ru_signal demo_hung"
    "ru_initErr demo_hung = [ErrWrap ''redis connection failed'' (ErrText ''refused'')]"
    by (simp_all add: demo_run_def demo_hung_def redis_done_def run_start_def)
  with redis_failure_hangs [OF demo_hung_reachable] show ?thesis by blast
qed

end
